(* ===== verification/Prelude.thy ===== *)
theory Prelude
  imports Main "HOL-Library.AList" "HOL-Library.Word" "HOL-Library.Product_Lexorder"
begin

text \<open>
  Shared vocabulary of the development: the exceptions the code raises, results that are
  either an exception or a value, Python dictionaries, and SQL tables as lists of rows with
  the statements the repositories issue against them.
\<close>

section \<open>Collections of facts\<close>

named_theorems table_simps \<open>how table statements act on keys and lookups\<close>
named_theorems dict_simps \<open>lookups in Python dictionaries\<close>

section \<open>Exceptions and results\<close>

text \<open>
  One constructor per exception class the modelled code raises or lets through. A message is
  kept only where the code reads it back (\<open>str(e)\<close> stored in a row); the other messages are
  built for a log and dropped here.
\<close>

datatype exn =
    EndpointNotFoundError
  | InvalidResponseStatusError
  | InvalidResponseDelayError
  | ResponseBodyTooLargeError
  | ForbiddenResponseHeaderError
  | InvalidSlugError
  | ReservedSlugError
  | SlugDenylistedError
  | SlugAlreadyTakenError
  | ForwardNotRetryableError
  | ForwardNotFoundError
  | RequestNotFoundError
  | ReplayPayloadTooLargeError
  | ExportTooLargeError
  | SsrfBlockedError string
  | HttpRequestFailedError string
  | IntegrityError
  | DataError
  | InvalidTag
  | UnicodeDecodeError
  | ValueError
  | TypeError
  | IndexError
  | OSError
  | TimeoutError
  | RuntimeError
  | HTTPException nat

type_synonym 'a res = "exn + 'a"

fun bindR :: "'a res \<Rightarrow> ('a \<Rightarrow> 'b res) \<Rightarrow> 'b res" where
  "bindR (Inl e) f = Inl e"
| "bindR (Inr a) f = f a"

lemma bindR_Inr_iff: "bindR m f = Inr b \<longleftrightarrow> (\<exists>a. m = Inr a \<and> f a = Inr b)"
  by (cases m) auto

lemma bindR_Inl_iff: "bindR m f = Inl e \<longleftrightarrow> m = Inl e \<or> (\<exists>a. m = Inr a \<and> f a = Inl e)"
  by (cases m) auto

lemma bindR_cong [fundef_cong]:
  "m = m' \<Longrightarrow> (\<And>a. m' = Inr a \<Longrightarrow> f a = f' a) \<Longrightarrow> bindR m f = bindR m' f'"
  by (cases m') auto

text \<open>\<open>raise_unless b e\<close> is the guard \<open>if not b: raise e\<close>.\<close>

definition raise_unless :: "bool \<Rightarrow> exn \<Rightarrow> unit res" where
  "raise_unless b e = (if b then Inr () else Inl e)"

lemma raise_unless_Inr [simp]: "raise_unless b e = Inr u \<longleftrightarrow> b"
  by (simp add: raise_unless_def)

lemma raise_unless_Inl [simp]: "raise_unless b e = Inl e' \<longleftrightarrow> \<not> b \<and> e' = e"
  by (auto simp: raise_unless_def)

lemma raise_unless_True [simp]: "raise_unless True e = Inr ()"
  by (simp add: raise_unless_def)

lemma raise_unless_False [simp]: "raise_unless False e = Inl e"
  by (simp add: raise_unless_def)

section \<open>Python dictionaries\<close>

text \<open>
  A \<open>dict\<close> keeps its insertion order and has distinct keys: an association list, with
  assignment \<open>d[k] = v\<close> the library's \<open>AList.update\<close> (in place when the key is there,
  appended when it is not) and lookup \<open>map_of\<close>.
\<close>

type_synonym dict = "(string \<times> string) list"

definition dict_wf :: "('k \<times> 'v) list \<Rightarrow> bool" where
  "dict_wf d \<longleftrightarrow> distinct (map fst d)"

text \<open>\<open>d.get(a) or d.get(b)\<close>: the first value that is there and not the empty string.\<close>

definition dict_get_or :: "dict \<Rightarrow> string \<Rightarrow> string \<Rightarrow> string option" where
  "dict_get_or d a b =
     (case map_of d a of
        Some v \<Rightarrow> (if v = [] then map_of d b else Some v)
      | None \<Rightarrow> map_of d b)"

text \<open>\<open>if not x\<close> on an optional string: absent or empty.\<close>

definition falsy :: "string option \<Rightarrow> bool" where
  "falsy x \<longleftrightarrow> x = None \<or> x = Some []"

lemma falsy_simps [simp]: "falsy None" "falsy (Some s) \<longleftrightarrow> s = []"
  by (simp_all add: falsy_def)

text \<open>\<open>{f(k): v for k, v in d.items()}\<close>: a later entry wins over an earlier one.\<close>

definition dict_map_keys :: "('k \<Rightarrow> 'k) \<Rightarrow> ('k \<times> 'v) list \<Rightarrow> ('k \<times> 'v) list" where
  "dict_map_keys f d = fold (\<lambda>(k, v). AList.update (f k) v) d []"

text \<open>\<open>{k: v for k, v in d.items() if p(k)}\<close> and \<open>d.update(e)\<close>.\<close>

definition dict_filter :: "('k \<Rightarrow> bool) \<Rightarrow> ('k \<times> 'v) list \<Rightarrow> ('k \<times> 'v) list" where
  "dict_filter p d = filter (\<lambda>(k, v). p k) d"

definition dict_update :: "('k \<times> 'v) list \<Rightarrow> ('k \<times> 'v) list \<Rightarrow> ('k \<times> 'v) list" where
  "dict_update d e = fold (\<lambda>(k, v). AList.update k v) e d"

lemma map_of_update [dict_simps, simp]:
  "map_of (AList.update k v d) = (map_of d)(k \<mapsto> v)"
  by (rule update_conv')

lemma dict_wf_Nil [simp]: "dict_wf []"
  by (simp add: dict_wf_def)

lemma dict_wf_update [simp]: "dict_wf d \<Longrightarrow> dict_wf (AList.update k v d)"
  by (simp add: dict_wf_def distinct_update)

lemma dict_wf_fold_update:
  "dict_wf d \<Longrightarrow> dict_wf (fold (\<lambda>(k, v). AList.update (f k) v) e d)"
  by (induction e arbitrary: d) auto

lemma dict_wf_map_keys [simp]: "dict_wf (dict_map_keys f d)"
  by (simp add: dict_map_keys_def dict_wf_fold_update)

lemma dict_wf_dict_update [simp]: "dict_wf d \<Longrightarrow> dict_wf (dict_update d e)"
  using dict_wf_fold_update [where f = "\<lambda>k. k"] by (simp add: dict_update_def)

lemma dict_wf_filter [simp]: "dict_wf d \<Longrightarrow> dict_wf (dict_filter p d)"
  by (induction d) (auto simp: dict_wf_def dict_filter_def)

lemma map_of_dict_filter [dict_simps]:
  "map_of (dict_filter p d) k = (if p k then map_of d k else None)"
  by (induction d) (auto simp: dict_filter_def)

lemma fst_dict_filter: "fst ` set (dict_filter p d) = {k \<in> fst ` set d. p k}"
  by (force simp: dict_filter_def)

lemma map_of_dict_update_absent:
  "k \<notin> fst ` set e \<Longrightarrow> map_of (dict_update d e) k = map_of d k"
  unfolding dict_update_def by (induction e arbitrary: d) auto

lemma map_of_dict_update:
  "dict_wf e \<Longrightarrow> map_of (dict_update d e) k =
     (case map_of e k of Some v \<Rightarrow> Some v | None \<Rightarrow> map_of d k)"
proof (induction e arbitrary: d)
  case Nil
  then show ?case by (simp add: dict_update_def)
next
  case (Cons p e)
  obtain k' v where p: "p = (k', v)" by (cases p)
  have step: "dict_update d (p # e) = dict_update (AList.update k' v d) e"
    by (simp add: dict_update_def p)
  from Cons.prems have wf: "dict_wf e" and fresh: "k' \<notin> fst ` set e"
    by (auto simp: dict_wf_def p)
  show ?case
  proof (cases "k = k'")
    case True
    have "map_of (dict_update (AList.update k' v d) e) k = Some v"
      using fresh True by (simp add: map_of_dict_update_absent)
    then show ?thesis by (simp only: step) (simp add: p True)
  next
    case False
    with Cons.IH [OF wf] show ?thesis
      by (simp only: step) (simp add: p split: option.splits)
  qed
qed

lemma fst_update [dict_simps]: "fst ` set (AList.update k v d) = insert k (fst ` set d)"
  by (induction d) auto

lemma fst_fold_update:
  "fst ` set (fold (\<lambda>(k, v). AList.update (f k) v) e d) = fst ` set d \<union> f ` fst ` set e"
proof (induction e arbitrary: d)
  case (Cons p e)
  show ?case
    using Cons [of "AList.update (f (fst p)) (snd p) d"] by (cases p) (simp add: fst_update)
qed simp

lemma fst_dict_map_keys: "fst ` set (dict_map_keys f d) = f ` fst ` set d"
  by (simp add: dict_map_keys_def fst_fold_update)

lemma fst_dict_update: "fst ` set (dict_update d e) = fst ` set d \<union> fst ` set e"
  using fst_fold_update [where f = "\<lambda>k. k"] by (simp add: dict_update_def)

lemma map_of_None_iff: "map_of d k = None \<longleftrightarrow> k \<notin> fst ` set d"
  by (rule map_of_eq_None_iff)

section \<open>SQL tables\<close>

text \<open>
  A table is the list of its rows. \<open>UPDATE t SET f WHERE p\<close> rewrites the rows that
  satisfy \<open>p\<close>; \<open>RETURNING\<close> gives the rewritten rows; \<open>DELETE\<close> drops rows; a
  \<open>SELECT\<close> filters. A comparison with a NULL column is not true, which is how
  \<open>null_lt\<close> and \<open>null_le\<close> read it.
\<close>

definition sql_update :: "('r \<Rightarrow> bool) \<Rightarrow> ('r \<Rightarrow> 'r) \<Rightarrow> 'r list \<Rightarrow> 'r list" where
  "sql_update p f t = map (\<lambda>r. if p r then f r else r) t"

definition sql_returning :: "('r \<Rightarrow> bool) \<Rightarrow> ('r \<Rightarrow> 'r) \<Rightarrow> 'r list \<Rightarrow> 'r list" where
  "sql_returning p f t = map f (filter p t)"

definition sql_delete :: "('r \<Rightarrow> bool) \<Rightarrow> 'r list \<Rightarrow> 'r list" where
  "sql_delete p t = filter (\<lambda>r. \<not> p r) t"

text \<open>
  \<open>scalar_one_or_none()\<close> on a statement filtered by the primary key, which gives at most
  one row.
\<close>

fun scalar_one_or_none :: "'r list \<Rightarrow> 'r option" where
  "scalar_one_or_none [] = None"
| "scalar_one_or_none (r # rs) = Some r"

fun null_lt :: "int option \<Rightarrow> int \<Rightarrow> bool" where
  "null_lt None t = False"
| "null_lt (Some x) t = (x < t)"

fun null_le :: "int option \<Rightarrow> int \<Rightarrow> bool" where
  "null_le None t = False"
| "null_le (Some x) t = (x \<le> t)"

fun null_gt :: "int option \<Rightarrow> int \<Rightarrow> bool" where
  "null_gt None t = False"
| "null_gt (Some x) t = (t < x)"

text \<open>\<open>key_ok key t\<close>: the primary key constraint of table \<open>t\<close>.\<close>

definition key_ok :: "('r \<Rightarrow> 'k) \<Rightarrow> 'r list \<Rightarrow> bool" where
  "key_ok key t \<longleftrightarrow> distinct (map key t)"

definition lookup_row :: "('r \<Rightarrow> 'k) \<Rightarrow> 'k \<Rightarrow> 'r list \<Rightarrow> 'r option" where
  "lookup_row key k t = scalar_one_or_none (filter (\<lambda>r. key r = k) t)"

lemma scalar_SomeD: "scalar_one_or_none rs = Some r \<Longrightarrow> r \<in> set rs"
  by (cases rs) auto

lemma scalar_None_iff [simp]: "scalar_one_or_none rs = None \<longleftrightarrow> rs = []"
  by (cases rs) auto

lemma lookup_row_SomeD: "lookup_row key k t = Some r \<Longrightarrow> r \<in> set t \<and> key r = k"
  by (auto simp: lookup_row_def dest: scalar_SomeD)

lemma lookup_row_None_iff: "lookup_row key k t = None \<longleftrightarrow> (\<forall>r \<in> set t. key r \<noteq> k)"
  by (auto simp: lookup_row_def filter_empty_conv)

lemma lookup_row_Nil [simp]: "lookup_row key k [] = None"
  by (simp add: lookup_row_def)

lemma lookup_row_Cons [simp]:
  "lookup_row key k (r # t) = (if key r = k then Some r else lookup_row key k t)"
  by (simp add: lookup_row_def)

lemma lookup_row_append [table_simps]:
  "lookup_row key k (t @ u) =
     (case lookup_row key k t of Some r \<Rightarrow> Some r | None \<Rightarrow> lookup_row key k u)"
  by (induction t) auto

lemma key_ok_Nil [simp]: "key_ok key []"
  by (simp add: key_ok_def)

lemma key_ok_Cons: "key_ok key (r # t) \<longleftrightarrow> (\<forall>x \<in> set t. key x \<noteq> key r) \<and> key_ok key t"
  by (simp add: key_ok_def image_iff) metis

lemma lookup_row_unique:
  "key_ok key t \<Longrightarrow> r \<in> set t \<Longrightarrow> lookup_row key (key r) t = Some r"
proof (induction t)
  case Nil
  then show ?case by simp
next
  case (Cons x t)
  then show ?case by (auto simp: key_ok_Cons)
qed

lemma length_sql_update [table_simps, simp]: "length (sql_update p f t) = length t"
  by (simp add: sql_update_def)

lemma sql_update_Nil [simp]: "sql_update p f [] = []"
  by (simp add: sql_update_def)

lemma sql_update_Cons [simp]:
  "sql_update p f (r # t) = (if p r then f r else r) # sql_update p f t"
  by (simp add: sql_update_def)

lemma map_key_sql_update [table_simps]:
  "(\<And>r. key (f r) = key r) \<Longrightarrow> map key (sql_update p f t) = map key t"
  by (simp add: sql_update_def)

lemma key_ok_sql_update [table_simps]:
  "(\<And>r. key (f r) = key r) \<Longrightarrow> key_ok key (sql_update p f t) = key_ok key t"
  by (simp add: key_ok_def map_key_sql_update)

lemma lookup_sql_update [table_simps]:
  assumes "\<And>r. key (f r) = key r"
  shows "lookup_row key k (sql_update p f t) =
    map_option (\<lambda>r. if p r then f r else r) (lookup_row key k t)"
  by (induction t) (use assms in auto)

lemma set_sql_update: "set (sql_update p f t) = (\<lambda>r. if p r then f r else r) ` set t"
  by (simp add: sql_update_def)

lemma key_image_sql_update [table_simps]:
  "(\<And>r. key (f r) = key r) \<Longrightarrow> key ` set (sql_update p f t) = key ` set t"
  by (metis map_key_sql_update set_map)

lemma ball_sql_update:
  "\<forall>r \<in> set t. P r \<Longrightarrow> (\<And>r. r \<in> set t \<Longrightarrow> p r \<Longrightarrow> P r \<Longrightarrow> P (f r)) \<Longrightarrow>
   \<forall>r \<in> set (sql_update p f t). P r"
  by (auto simp: set_sql_update)

lemma lookup_row_None_image: "lookup_row key k t = None \<longleftrightarrow> k \<notin> key ` set t"
  by (auto simp: lookup_row_None_iff)

lemma set_sql_delete [table_simps]: "set (sql_delete p t) = {r \<in> set t. \<not> p r}"
  by (auto simp: sql_delete_def)

lemma sql_update_none [table_simps]: "(\<And>r. r \<in> set t \<Longrightarrow> \<not> p r) \<Longrightarrow> sql_update p f t = t"
  by (induction t) auto

lemma key_ok_append_one:
  "key_ok key (t @ [r]) \<longleftrightarrow> key_ok key t \<and> lookup_row key (key r) t = None"
  by (simp add: key_ok_def lookup_row_None_iff image_iff) metis

lemma key_ok_sql_delete [table_simps]: "key_ok key t \<Longrightarrow> key_ok key (sql_delete p t)"
  by (induction t) (auto simp: key_ok_def sql_delete_def)

lemma scalar_filter_lookup:
  assumes "key_ok key t"
  shows "scalar_one_or_none (filter (\<lambda>r. key r = k \<and> q r) t) =
    (case lookup_row key k t of None \<Rightarrow> None | Some r \<Rightarrow> if q r then Some r else None)"
  using assms
proof (induction t)
  case Nil
  then show ?case by simp
next
  case (Cons x t)
  have ok: "key_ok key t" and new: "\<forall>r \<in> set t. key r \<noteq> key x"
    using Cons.prems by (auto simp: key_ok_Cons)
  show ?case
  proof (cases "key x = k")
    case True
    with new have "filter (\<lambda>r. key r = k \<and> q r) t = []" by (auto simp: filter_empty_conv)
    with True show ?thesis by simp
  next
    case False
    with Cons.IH [OF ok] show ?thesis by simp
  qed
qed

lemma scalar_map: "scalar_one_or_none (map f rs) = map_option f (scalar_one_or_none rs)"
  by (cases rs) auto

end
