(* ===== verification/Py_Strings.thy ===== *)
theory Py_Strings
  imports Prelude "HOL-Library.Sublist"
begin

text \<open>
  Python's \<open>str\<close> and \<open>bytes\<close> as the code uses them. A \<open>bytes\<close> value is a HOL
  \<open>string\<close> (a list of 8-bit characters). A \<open>str\<close> is represented by its UTF-8 encoding, so
  \<open>s.encode()\<close> is the identity and \<open>b.decode("utf-8")\<close> is the check \<open>utf8_valid\<close>;
  concatenation, equality, prefix and substring tests and splitting at an ASCII character agree
  with the code point view. Case folding acts on ASCII letters: the code only compares folded
  strings with ASCII names.
\<close>

section \<open>Characters\<close>

definition byte :: "char \<Rightarrow> nat" where
  "byte c = of_char c"

lemma byte_inject [simp]: "byte c = byte d \<longleftrightarrow> c = d"
  by (simp add: byte_def)

lemma byte_less [simp]: "byte c < 256"
  using nat_of_char_less_256 by (simp add: byte_def)

lemma byte_char_of [simp]: "n < 256 \<Longrightarrow> byte (char_of n) = n"
  by (simp add: byte_def)

definition is_ascii :: "string \<Rightarrow> bool" where
  "is_ascii s \<longleftrightarrow> list_all (\<lambda>c. byte c < 128) s"

lemma is_ascii_simps [simp]:
  "is_ascii []" "is_ascii (c # s) \<longleftrightarrow> byte c < 128 \<and> is_ascii s"
  "is_ascii (s @ t) \<longleftrightarrow> is_ascii s \<and> is_ascii t"
  by (simp_all add: is_ascii_def)

definition lower_char :: "char \<Rightarrow> char" where
  "lower_char c = (if 65 \<le> byte c \<and> byte c \<le> 90 then char_of (byte c + 32) else c)"

definition upper_char :: "char \<Rightarrow> char" where
  "upper_char c = (if 97 \<le> byte c \<and> byte c \<le> 122 then char_of (byte c - 32) else c)"

definition str_lower :: "string \<Rightarrow> string" where
  "str_lower s = map lower_char s"

definition str_upper :: "string \<Rightarrow> string" where
  "str_upper s = map upper_char s"

lemma byte_lower_char: "byte (lower_char c) = (if 65 \<le> byte c \<and> byte c \<le> 90 then byte c + 32 else byte c)"
  by (simp add: lower_char_def)

lemma byte_upper_char: "byte (upper_char c) = (if 97 \<le> byte c \<and> byte c \<le> 122 then byte c - 32 else byte c)"
  by (auto simp: upper_char_def intro: byte_char_of less_imp_diff_less)

lemma lower_char_idem [simp]: "lower_char (lower_char c) = lower_char c"
  by (simp add: byte_lower_char flip: byte_inject)

lemma upper_char_idem [simp]: "upper_char (upper_char c) = upper_char c"
proof -
  have "byte (upper_char (upper_char c)) = byte (upper_char c)"
    unfolding byte_upper_char by arith
  then show ?thesis by simp
qed

lemma str_lower_idem [simp]: "str_lower (str_lower s) = str_lower s"
  by (simp add: str_lower_def)

lemma str_upper_idem [simp]: "str_upper (str_upper s) = str_upper s"
  by (simp add: str_upper_def)

section \<open>Prefixes, substrings and splitting\<close>

fun str_in :: "string \<Rightarrow> string \<Rightarrow> bool" where
  "str_in needle [] = (needle = [])"
| "str_in needle (c # s) = (prefix needle (c # s) \<or> str_in needle s)"

lemma str_in_iff: "str_in needle s \<longleftrightarrow> (\<exists>a b. s = a @ needle @ b)"
proof (induction s)
  case Nil
  then show ?case by simp
next
  case (Cons c s)
  have "(\<exists>a b. c # s = a @ needle @ b) \<longleftrightarrow>
    prefix needle (c # s) \<or> (\<exists>a b. s = a @ needle @ b)"
    by (auto simp: prefix_def Cons_eq_append_conv)
  then show ?case using Cons by simp
qed

text \<open>\<open>s.split(c)\<close>, and \<open>s.split(c, 1)\<close> for a separator that occurs in \<open>s\<close>.\<close>

fun split_on :: "char \<Rightarrow> string \<Rightarrow> string list" where
  "split_on c [] = [[]]"
| "split_on c (x # s) =
     (if x = c then [] # split_on c s
      else case split_on c s of [] \<Rightarrow> [[x]] | w # ws \<Rightarrow> (x # w) # ws)"

definition str_before :: "char \<Rightarrow> string \<Rightarrow> string" where
  "str_before c s = takeWhile (\<lambda>x. x \<noteq> c) s"

definition str_after :: "char \<Rightarrow> string \<Rightarrow> string" where
  "str_after c s = drop (Suc (length (str_before c s))) s"

lemma split_on_nonempty [simp]: "split_on c s \<noteq> []"
  by (induction s) (auto split: list.splits)

lemma split_on_no_sep: "c \<notin> set s \<Longrightarrow> split_on c s = [s]"
  by (induction s) auto

lemma split_on_append: "c \<notin> set s \<Longrightarrow> split_on c (s @ c # t) = s # split_on c t"
  by (induction s) auto

lemma before_append [simp]: "c \<notin> set s \<Longrightarrow> str_before c (s @ c # t) = s"
  by (induction s) (auto simp: str_before_def)

lemma after_append [simp]: "c \<notin> set s \<Longrightarrow> str_after c (s @ c # t) = t"
  by (simp add: str_after_def)

lemma before_no_sep: "c \<notin> set (str_before c s)"
  by (auto simp: str_before_def dest: set_takeWhileD)

section \<open>UTF-8\<close>

text \<open>
  The continuation bytes a lead byte asks for (no overlong forms, no surrogates, nothing above
  U+10FFFF), as Python's decoder checks them.
\<close>

definition cont_byte :: "nat \<Rightarrow> bool" where
  "cont_byte n \<longleftrightarrow> 128 \<le> n \<and> n \<le> 191"

definition utf8_cont :: "nat \<Rightarrow> (nat \<Rightarrow> bool) list option" where
  "utf8_cont n =
     (if n < 128 then Some []
      else if n < 194 then None
      else if n < 224 then Some [cont_byte]
      else if n = 224 then Some [\<lambda>k. 160 \<le> k \<and> k \<le> 191, cont_byte]
      else if n = 237 then Some [\<lambda>k. 128 \<le> k \<and> k \<le> 159, cont_byte]
      else if n < 240 then Some [cont_byte, cont_byte]
      else if n = 240 then Some [\<lambda>k. 144 \<le> k \<and> k \<le> 191, cont_byte, cont_byte]
      else if n < 244 then Some [cont_byte, cont_byte, cont_byte]
      else if n = 244 then Some [\<lambda>k. 128 \<le> k \<and> k \<le> 143, cont_byte, cont_byte]
      else None)"

fun cont_run :: "(nat \<Rightarrow> bool) list \<Rightarrow> string \<Rightarrow> nat \<times> bool" where
  "cont_run [] s = (0, True)"
| "cont_run (p # ps) [] = (0, False)"
| "cont_run (p # ps) (c # s) =
     (if p (byte c) then (case cont_run ps s of (k, ok) \<Rightarrow> (Suc k, ok)) else (0, False))"

text \<open>
  The length of the first well-formed character, or of the ill-formed part (its maximal prefix)
  that \<open>errors="replace"\<close> turns into one U+FFFD.
\<close>

fun utf8_head :: "string \<Rightarrow> nat \<times> bool" where
  "utf8_head [] = (0, True)"
| "utf8_head (c # s) =
     (case utf8_cont (byte c) of
        None \<Rightarrow> (1, False)
      | Some ps \<Rightarrow> (case cont_run ps s of (k, ok) \<Rightarrow> (Suc k, ok)))"

lemma utf8_head_pos: "utf8_head (c # s) = (k, ok) \<Longrightarrow> 0 < k"
  by (auto split: option.splits prod.splits)

definition replacement_char :: string where
  "replacement_char = [CHR 0xEF, CHR 0xBF, CHR 0xBD]"

function utf8_valid :: "string \<Rightarrow> bool" where
  "utf8_valid [] = True"
| "utf8_valid (c # s) =
     (case utf8_head (c # s) of (k, ok) \<Rightarrow> ok \<and> utf8_valid (drop k (c # s)))"
  by pat_completeness auto
termination
  by (relation "measure length") (auto dest: utf8_head_pos [OF sym] simp del: utf8_head.simps)

function utf8_replace :: "string \<Rightarrow> string" where
  "utf8_replace [] = []"
| "utf8_replace (c # s) =
     (case utf8_head (c # s) of (k, ok) \<Rightarrow>
        (if ok then take k (c # s) else replacement_char) @ utf8_replace (drop k (c # s)))"
  by pat_completeness auto
termination
  by (relation "measure length") (auto dest: utf8_head_pos [OF sym] simp del: utf8_head.simps)

declare utf8_valid.simps(2) [simp del] utf8_replace.simps(2) [simp del]

text \<open>\<open>b.decode("utf-8")\<close>.\<close>

definition utf8_decode :: "string \<Rightarrow> string res" where
  "utf8_decode b = (if utf8_valid b then Inr b else Inl UnicodeDecodeError)"

lemma cont_run_append:
  "cont_run ps s = (k, True) \<Longrightarrow> cont_run ps (s @ t) = (k, True)"
  by (induction ps s arbitrary: k rule: cont_run.induct) (auto split: if_splits prod.splits)

lemma cont_run_length: "cont_run ps s = (k, ok) \<Longrightarrow> k \<le> length s"
  by (induction ps s arbitrary: k ok rule: cont_run.induct) (auto split: if_splits prod.splits)

lemma utf8_headE:
  assumes "utf8_head (c # s) = (k, True)"
  obtains ps j where "utf8_cont (byte c) = Some ps" "cont_run ps s = (j, True)" "k = Suc j"
  using assms by (auto split: option.splits prod.splits)

lemma utf8_head_append:
  assumes "utf8_head (c # s) = (k, True)"
  shows "utf8_head (c # s @ t) = (k, True)"
proof -
  obtain ps j where "utf8_cont (byte c) = Some ps" "cont_run ps s = (j, True)" "k = Suc j"
    using assms by (rule utf8_headE)
  then show ?thesis by (simp add: cont_run_append)
qed

lemma utf8_head_length: "utf8_head s = (k, ok) \<Longrightarrow> k \<le> length s"
  by (cases s) (auto split: option.splits prod.splits dest: cont_run_length)

lemma utf8_valid_append: "utf8_valid s \<Longrightarrow> utf8_valid (s @ t) = utf8_valid t"
proof (induction s rule: utf8_valid.induct)
  case 1
  then show ?case by simp
next
  case (2 c s)
  obtain k where k: "utf8_head (c # s) = (k, True)" and v: "utf8_valid (drop k (c # s))"
    using "2.prems" by (auto simp: utf8_valid.simps split: prod.splits)
  have len: "k \<le> length (c # s)" using k by (rule utf8_head_length)
  have "drop k (c # s @ t) = drop k (c # s) @ t"
    using len drop_append [of k "c # s" t] by simp
  then have "utf8_valid ((c # s) @ t) = utf8_valid (drop k (c # s) @ t)"
    using utf8_head_append [OF k, of t] by (simp add: utf8_valid.simps del: utf8_head.simps)
  also have "\<dots> = utf8_valid t"
    using "2.IH" [OF k [symmetric] v] .
  finally show ?case .
qed

lemma utf8_valid_ascii: "is_ascii s \<Longrightarrow> utf8_valid s"
  by (induction s) (auto simp: utf8_valid.simps utf8_cont_def)

lemma utf8_replace_valid: "utf8_valid s \<Longrightarrow> utf8_replace s = s"
proof (induction s rule: utf8_valid.induct)
  case (2 c s)
  obtain k where k: "utf8_head (c # s) = (k, True)" and v: "utf8_valid (drop k (c # s))"
    using "2.prems" by (auto simp: utf8_valid.simps split: prod.splits)
  from k v "2.IH" [OF k [symmetric] v] show ?case
    by (simp add: utf8_replace.simps del: utf8_head.simps)
qed simp

lemma utf8_valid_replacement: "utf8_valid replacement_char"
  by code_simp

lemma cont_run_take: "cont_run ps s = (k, True) \<Longrightarrow> cont_run ps (take k s) = (k, True)"
  by (induction ps s arbitrary: k rule: cont_run.induct) (auto split: if_splits prod.splits)

lemma utf8_valid_head_take:
  assumes "utf8_head (c # s) = (k, True)"
  shows "utf8_valid (take k (c # s))"
proof -
  obtain ps j where ps: "utf8_cont (byte c) = Some ps" and run: "cont_run ps s = (j, True)"
    and k: "k = Suc j"
    using assms by (rule utf8_headE)
  have len: "j \<le> length s" using run by (rule cont_run_length)
  have "utf8_head (c # take j s) = (Suc j, True)"
    using cont_run_take [OF run] ps by simp
  then show ?thesis
    using k len by (simp add: utf8_valid.simps del: utf8_head.simps)
qed

lemma utf8_valid_utf8_replace: "utf8_valid (utf8_replace s)"
proof (induction s rule: utf8_replace.induct)
  case (2 c s)
  obtain k ok where h: "utf8_head (c # s) = (k, ok)" by force
  have rest: "utf8_valid (utf8_replace (drop k (c # s)))"
    using "2.IH" [OF h [symmetric]] .
  show ?case
    using h rest utf8_valid_head_take [of c s k] utf8_valid_replacement
    by (cases ok) (simp_all add: utf8_replace.simps utf8_valid_append del: utf8_head.simps)
qed simp

text \<open>The characters of a \<open>str\<close>: a new one starts at every byte that is no continuation.\<close>

definition is_cont :: "char \<Rightarrow> bool" where
  "is_cont c \<longleftrightarrow> cont_byte (byte c)"

function str_chars :: "string \<Rightarrow> string list" where
  "str_chars [] = []"
| "str_chars (c # s) = (c # takeWhile is_cont s) # str_chars (dropWhile is_cont s)"
  by pat_completeness auto
termination
  by (relation "measure length") (auto simp: le_imp_less_Suc length_dropWhile_le)

definition str_len :: "string \<Rightarrow> nat" where
  "str_len s = length (str_chars s)"

lemma concat_str_chars: "concat (str_chars s) = s"
  by (induction s rule: str_chars.induct) auto

text \<open>\<open>s.strip()\<close> drops the characters Python counts as white space from both ends.\<close>

definition white_space :: "string list" where
  "white_space =
     map (\<lambda>n. [char_of n]) [9, 10, 11, 12, 13, 28, 29, 30, 31, 32 :: nat] @
     [[CHR 0xC2, CHR 0x85], [CHR 0xC2, CHR 0xA0], [CHR 0xE1, CHR 0x9A, CHR 0x80]] @
     map (\<lambda>n. [CHR 0xE2, CHR 0x80, char_of (128 + n)]) [0, 1, 2, 3, 4, 5, 6, 7, 8, 9, 10 :: nat] @
     [[CHR 0xE2, CHR 0x80, CHR 0xA8], [CHR 0xE2, CHR 0x80, CHR 0xA9],
      [CHR 0xE2, CHR 0x80, CHR 0xAF], [CHR 0xE2, CHR 0x81, CHR 0x9F],
      [CHR 0xE3, CHR 0x80, CHR 0x80]]"

definition str_strip :: "string \<Rightarrow> string" where
  "str_strip s =
     (let ws = (\<lambda>c. c \<in> set white_space)
      in concat (rev (dropWhile ws (rev (dropWhile ws (str_chars s))))))"

end
