(* ===== verification/Codecs.thy ===== *)
theory Codecs
  imports Py_Strings
begin

text \<open>
  The text encodings the code reads and writes: hexadecimal digests and \<open>bytes.fromhex\<close>,
  decimal numbers, base64, the \<open>repr\<close> of a \<open>bytes\<close> value, and UUIDs as 128-bit words
  with their canonical text. Each encoding has a round trip or an injectivity lemma.
\<close>

section \<open>Hexadecimal\<close>

definition hex_digit :: "nat \<Rightarrow> char" where
  "hex_digit n = (if n < 10 then char_of (48 + n) else char_of (87 + n))"

definition hex_value :: "char \<Rightarrow> nat option" where
  "hex_value c =
     (let n = byte c in
      if 48 \<le> n \<and> n \<le> 57 then Some (n - 48)
      else if 97 \<le> n \<and> n \<le> 102 then Some (n - 87)
      else if 65 \<le> n \<and> n \<le> 70 then Some (n - 55)
      else None)"

fun hex_fixed :: "nat \<Rightarrow> nat \<Rightarrow> string" where
  "hex_fixed 0 n = []"
| "hex_fixed (Suc k) n = hex_fixed k (n div 16) @ [hex_digit (n mod 16)]"

definition hex_number :: "string \<Rightarrow> nat option" where
  "hex_number s =
     fold (\<lambda>c acc. case acc of None \<Rightarrow> None
        | Some n \<Rightarrow> map_option (\<lambda>d. 16 * n + d) (hex_value c)) s (Some 0)"

lemma hex_value_digit [simp]: "n < 16 \<Longrightarrow> hex_value (hex_digit n) = Some n"
  by (auto simp: hex_value_def hex_digit_def Let_def)

lemma byte_hex_digit: "n < 16 \<Longrightarrow> byte (hex_digit n) = (if n < 10 then 48 + n else 87 + n)"
  by (simp add: hex_digit_def)

lemma length_hex_fixed [simp]: "length (hex_fixed k n) = k"
  by (induction k n rule: hex_fixed.induct) auto

lemma hex_number_snoc:
  "hex_number (s @ [c]) = (case hex_number s of None \<Rightarrow> None
     | Some n \<Rightarrow> map_option (\<lambda>d. 16 * n + d) (hex_value c))"
  by (simp add: hex_number_def)

lemma hex_number_fixed: "hex_number (hex_fixed k n) = Some (n mod 16 ^ k)"
proof (induction k n rule: hex_fixed.induct)
  case (1 n)
  then show ?case by (simp add: hex_number_def)
next
  case (2 k n)
  have "16 * (n div 16 mod 16 ^ k) + n mod 16 = n mod 16 ^ Suc k"
    using mod_mult2_eq [of n 16 "16 ^ k"] by simp
  with 2 show ?case by (simp add: hex_number_snoc)
qed

definition hexdigest :: "string \<Rightarrow> string" where
  "hexdigest b = concat (map (\<lambda>c. hex_fixed 2 (byte c)) b)"

definition hex_space :: "char \<Rightarrow> bool" where
  "hex_space c \<longleftrightarrow> byte c = 32 \<or> (9 \<le> byte c \<and> byte c \<le> 13)"

fun fromhex :: "string \<Rightarrow> string res" where
  "fromhex [] = Inr []"
| "fromhex (c # s) =
     (if hex_space c then fromhex s
      else case s of
        [] \<Rightarrow> Inl ValueError
      | d # s' \<Rightarrow>
          (case (hex_value c, hex_value d) of
             (Some a, Some b) \<Rightarrow> bindR (fromhex s') (\<lambda>r. Inr (char_of (16 * a + b) # r))
           | _ \<Rightarrow> Inl ValueError))"

lemma byte_div_16 [simp]: "byte c div 16 < 16"
  by (simp add: div_less_iff_less_mult)

lemma hexdigest_simps [simp]:
  "hexdigest [] = []"
  "hexdigest (c # b) = hex_digit (byte c div 16) # hex_digit (byte c mod 16) # hexdigest b"
  by (simp_all add: hexdigest_def numeral_2_eq_2 mod_less)

lemma not_hex_space_digit: "n < 16 \<Longrightarrow> \<not> hex_space (hex_digit n)"
  by (auto simp: hex_space_def byte_hex_digit)

lemma fromhex_hexdigest: "fromhex (hexdigest b) = Inr b"
proof (induction b)
  case (Cons c b)
  have "char_of (16 * (byte c div 16) + byte c mod 16) = c"
    by (simp add: byte_def)
  then show ?case using Cons by (simp add: not_hex_space_digit)
qed simp

lemma hexdigest_inject: "hexdigest a = hexdigest b \<longleftrightarrow> a = b"
  by (metis fromhex_hexdigest sum.inject(2))

lemma set_hexdigest: "c \<in> set (hexdigest b) \<Longrightarrow> \<exists>n < 16. c = hex_digit n"
proof (induction b)
  case (Cons a b)
  then have "c = hex_digit (byte a div 16) \<or> c = hex_digit (byte a mod 16) \<or>
      c \<in> set (hexdigest b)"
    by simp
  moreover have "byte a mod 16 < 16" by simp
  ultimately show ?case using Cons.IH byte_div_16 [of a] by metis
qed simp

lemma hexdigest_no:
  assumes "c \<in> set (hexdigest b)"
  shows "48 \<le> byte c \<and> byte c \<le> 102"
  using set_hexdigest [OF assms] by (auto simp: byte_hex_digit split: if_splits)

lemma is_ascii_hexdigest [simp]: "is_ascii (hexdigest b)"
  using hexdigest_no [of _ b] by (fastforce simp: is_ascii_def list_all_iff)

section \<open>Decimal numbers\<close>

definition dec_digit :: "nat \<Rightarrow> char" where
  "dec_digit n = char_of (48 + n)"

fun str_nat :: "nat \<Rightarrow> string" where
  "str_nat n = (if n < 10 then [dec_digit n] else str_nat (n div 10) @ [dec_digit (n mod 10)])"

declare str_nat.simps [simp del]

definition str_int :: "int \<Rightarrow> string" where
  "str_int i = (if i < 0 then CHR ''-'' # str_nat (nat (- i)) else str_nat (nat i))"

definition dec_number :: "string \<Rightarrow> nat" where
  "dec_number s = fold (\<lambda>c n. 10 * n + (byte c - 48)) s 0"

lemma dec_number_str_nat: "dec_number (str_nat n) = n"
proof (induction n rule: str_nat.induct)
  case (1 n)
  then show ?case
    by (cases "n < 10") (simp_all add: str_nat.simps [of n] dec_number_def dec_digit_def)
qed

lemma str_nat_inject [simp]: "str_nat m = str_nat n \<longleftrightarrow> m = n"
  by (metis dec_number_str_nat)

lemma str_nat_digits: "c \<in> set (str_nat n) \<Longrightarrow> 48 \<le> byte c \<and> byte c \<le> 57"
proof (induction n rule: str_nat.induct)
  case (1 n)
  have "48 + n mod 10 < 256" by (rule order.strict_trans [of _ 58]) simp_all
  with 1 show ?case
    by (cases "n < 10") (auto simp: str_nat.simps [of n] dec_digit_def)
qed

lemma str_nat_nonempty [simp]: "str_nat n \<noteq> []"
  by (simp add: str_nat.simps [of n])

lemma str_int_nonempty [simp]: "str_int i \<noteq> []"
  by (simp add: str_int_def)

lemma str_int_chars: "c \<in> set (str_int i) \<Longrightarrow> c = CHR ''-'' \<or> 48 \<le> byte c \<and> byte c \<le> 57"
  by (auto simp: str_int_def dest: str_nat_digits split: if_splits)

lemma byte_dash: "byte (CHR ''-'') = 45"
  by code_simp

lemma str_int_inject [simp]: "str_int i = str_int j \<longleftrightarrow> i = j"
proof -
  have no_dash: "CHR ''-'' # s \<noteq> str_nat n" for s n
  proof
    assume eq: "CHR ''-'' # s = str_nat n"
    have "CHR ''-'' \<in> set (str_nat n)" by (simp flip: eq)
    from str_nat_digits [OF this] show False by (simp add: byte_dash)
  qed
  show ?thesis
    using no_dash no_dash [symmetric] by (auto simp: str_int_def)
qed

lemma is_ascii_str_int [simp]: "is_ascii (str_int i)"
  using str_int_chars [of _ i] by (fastforce simp: is_ascii_def list_all_iff byte_dash)

section \<open>The repr of a bytes value\<close>

definition repr_char :: "char \<Rightarrow> char \<Rightarrow> string" where
  "repr_char q c =
     (if c = q \<or> c = CHR 0x5C then [CHR 0x5C, c]
      else if byte c = 9 then [CHR 0x5C, CHR ''t'']
      else if byte c = 10 then [CHR 0x5C, CHR ''n'']
      else if byte c = 13 then [CHR 0x5C, CHR ''r'']
      else if byte c < 32 \<or> 127 \<le> byte c then [CHR 0x5C, CHR ''x''] @ hex_fixed 2 (byte c)
      else [c])"

definition repr_quote :: "string \<Rightarrow> char" where
  "repr_quote b = (if CHR 0x27 \<in> set b \<and> CHR 0x22 \<notin> set b then CHR 0x22 else CHR 0x27)"

text \<open>\<open>repr(b)[2:-1]\<close>: the text between the quotes.\<close>

definition bytes_repr :: "string \<Rightarrow> string" where
  "bytes_repr b = concat (map (repr_char (repr_quote b)) b)"

lemma is_ascii_hex_fixed [simp]: "is_ascii (hex_fixed k n)"
  by (induction k n rule: hex_fixed.induct) (auto simp: byte_hex_digit)

lemma byte_eq [simp]: "byte (CHR ''='') = 61"
  by code_simp

lemma byte_consts [simp]:
  "byte (CHR 0x5C) = 92" "byte (CHR 0x27) = 39" "byte (CHR 0x22) = 34" "byte (CHR ''x'') = 120"
  "byte (CHR ''t'') = 116" "byte (CHR ''n'') = 110" "byte (CHR ''r'') = 114"
  "byte (CHR ''+'') = 43" "byte (CHR ''/'') = 47" "byte (CHR ''-'') = 45"
  by code_simp+

lemma is_ascii_repr_char: "byte q < 128 \<Longrightarrow> is_ascii (repr_char q c)"
  by (auto simp: repr_char_def)

lemma is_ascii_concat: "(\<And>s. s \<in> set ss \<Longrightarrow> is_ascii s) \<Longrightarrow> is_ascii (concat ss)"
  by (induction ss) auto

lemma is_ascii_bytes_repr: "is_ascii (bytes_repr b)"
  unfolding bytes_repr_def
  by (rule is_ascii_concat) (auto simp: repr_quote_def intro: is_ascii_repr_char)

section \<open>Base64\<close>

definition b64_char :: "nat \<Rightarrow> char" where
  "b64_char n =
     (if n < 26 then char_of (65 + n) else if n < 52 then char_of (71 + n)
      else if n < 62 then char_of (n - 4) else if n = 62 then CHR ''+'' else CHR ''/'')"

fun b64encode :: "string \<Rightarrow> string" where
  "b64encode [] = []"
| "b64encode [a] =
     [b64_char (byte a div 4), b64_char (byte a mod 4 * 16), CHR ''='', CHR ''='']"
| "b64encode [a, b] =
     [b64_char (byte a div 4), b64_char (byte a mod 4 * 16 + byte b div 16),
      b64_char (byte b mod 16 * 4), CHR ''='']"
| "b64encode (a # b # c # s) =
     b64_char (byte a div 4) # b64_char (byte a mod 4 * 16 + byte b div 16) #
     b64_char (byte b mod 16 * 4 + byte c div 64) # b64_char (byte c mod 64) # b64encode s"

definition b64_value :: "char \<Rightarrow> nat option" where
  "b64_value c =
     (let n = byte c in
      if 65 \<le> n \<and> n \<le> 90 then Some (n - 65)
      else if 97 \<le> n \<and> n \<le> 122 then Some (n - 71)
      else if 48 \<le> n \<and> n \<le> 57 then Some (n + 4)
      else if n = 43 then Some 62 else if n = 47 then Some 63 else None)"

text \<open>
  \<open>base64.b64decode(s)\<close> without validation: bytes outside the alphabet are skipped, reading
  stops at a complete padding, and a quad that is cut short is \<open>binascii.Error\<close> (a
  \<open>ValueError\<close>). \<open>pos\<close> is the position in the quad, \<open>left\<close> the bits carried
  over, \<open>pads\<close> the padding characters seen since the last data character.
\<close>

fun b64_loop :: "nat \<Rightarrow> nat \<Rightarrow> nat \<Rightarrow> string \<Rightarrow> string res" where
  "b64_loop pos left pads [] = (if pos = 0 then Inr [] else Inl ValueError)"
| "b64_loop pos left pads (c # s) =
     (if c = CHR ''='' then
        (if 2 \<le> pos then (if 4 \<le> pos + Suc pads then Inr [] else b64_loop pos left (Suc pads) s)
         else b64_loop pos left pads s)
      else case b64_value c of
        None \<Rightarrow> b64_loop pos left pads s
      | Some v \<Rightarrow>
          (if pos = 0 then b64_loop 1 v 0 s
           else if pos = 1 then
             bindR (b64_loop 2 (v mod 16) 0 s) (\<lambda>r. Inr (char_of (left * 4 + v div 16) # r))
           else if pos = 2 then
             bindR (b64_loop 3 (v mod 4) 0 s) (\<lambda>r. Inr (char_of (left * 16 + v div 4) # r))
           else bindR (b64_loop 0 0 0 s) (\<lambda>r. Inr (char_of (left * 64 + v) # r))))"

definition b64decode :: "string \<Rightarrow> string res" where
  "b64decode s = (if is_ascii s then b64_loop 0 0 0 s else Inl ValueError)"

lemma b64_value_char [simp]: "n < 64 \<Longrightarrow> b64_value (b64_char n) = Some n"
  by (auto simp: b64_value_def b64_char_def Let_def)

lemma b64_char_not_pad [simp]: "n < 64 \<Longrightarrow> b64_char n \<noteq> CHR ''=''"
proof
  assume "n < 64" "b64_char n = CHR ''=''"
  then have "b64_value (CHR ''='') = Some n" by (metis b64_value_char)
  then show False by (simp add: b64_value_def)
qed

lemma is_ascii_b64_char: "n < 64 \<Longrightarrow> byte (b64_char n) < 128"
  by (simp add: b64_char_def) arith

lemma byte_div_simps [simp]:
  "byte c div 4 < 64" "byte c div 64 < 4" "byte c mod 64 < 64"
  "byte c div 16 mod 16 = byte c div 16" "byte c div 64 mod 4 = byte c div 64"
  "byte c div 16 div 16 = 0" "byte c div 64 div 4 = 0"
  by (simp_all add: div_less_iff_less_mult div_mult2_eq [symmetric])

lemma b64_pieces [simp]:
  "byte a mod 4 * 16 < 64" "byte a mod 4 * 16 + byte b div 16 < 64"
  "byte b mod 16 * 4 < 64" "byte b mod 16 * 4 + byte c div 64 < 64"
proof -
  have "byte a mod 4 < 4" "byte b mod 16 < 16" by simp_all
  then show "byte a mod 4 * 16 < 64" "byte a mod 4 * 16 + byte b div 16 < 64"
    "byte b mod 16 * 4 < 64" "byte b mod 16 * 4 + byte c div 64 < 64"
    using byte_div_16 [of b] byte_div_simps(2) [of c] by linarith+
qed

lemma char_of_byte [simp]: "char_of (byte c) = c"
  by (simp add: byte_def)

lemma b64_loop_b64encode: "b64_loop 0 0 0 (b64encode b) = Inr b"
proof (induction b rule: b64encode.induct)
  case (4 a b c s)
  then show ?case by simp
qed simp_all

lemma is_ascii_b64encode [simp]: "is_ascii (b64encode b)"
  by (induction b rule: b64encode.induct) (simp_all add: is_ascii_b64_char)

lemma b64decode_b64encode: "b64decode (b64encode b) = Inr b"
  by (simp add: b64decode_def b64_loop_b64encode)

section \<open>UUIDs\<close>

text \<open>
  A UUID is a 128-bit number, compared in SQL as such. \<open>str(u)\<close> is its 32 hexadecimal
  digits in five groups; \<open>UUID(s)\<close> drops the prefixes, braces and hyphens and reads 32
  hexadecimal digits.
\<close>

type_synonym uuid = "128 word"

definition uuid_str :: "uuid \<Rightarrow> string" where
  "uuid_str u =
     (let h = hex_fixed 32 (unat u) in
      take 8 h @ ''-'' @ take 4 (drop 8 h) @ ''-'' @ take 4 (drop 12 h) @ ''-'' @
      take 4 (drop 16 h) @ ''-'' @ drop 20 h)"

lemma hex_digit_not_dash [simp]: "n < 16 \<Longrightarrow> hex_digit n \<noteq> CHR ''-''"
  by (auto simp: byte_hex_digit simp flip: byte_inject split: if_splits)

text \<open>
  \<open>int(h, 16)\<close> on 32 characters also takes a sign, a \<open>0x\<close> prefix, white space and
  underscores; the text the code parses comes from \<open>str(u)\<close> or a URL, and anything but 32
  digits is read here as \<open>ValueError\<close>.
\<close>

definition uuid_parse :: "string \<Rightarrow> uuid res" where
  "uuid_parse s =
     (let h = filter (\<lambda>c. c \<noteq> CHR ''-'') s in
      if length h \<noteq> 32 then Inl ValueError
      else case hex_number h of None \<Rightarrow> Inl ValueError | Some n \<Rightarrow> Inr (word_of_nat n))"

lemma set_hex_fixed: "c \<in> set (hex_fixed k n) \<Longrightarrow> \<exists>d < 16. c = hex_digit d"
proof (induction k n rule: hex_fixed.induct)
  case (2 k n)
  have "n mod 16 < 16" by simp
  with 2 show ?case by (cases "c = hex_digit (n mod 16)") (blast, simp)
qed simp

lemma hex_fixed_no_dash: "c \<in> set (hex_fixed k n) \<Longrightarrow> c \<noteq> CHR ''-''"
  by (metis set_hex_fixed hex_digit_not_dash)

lemma filter_take_drop_no_dash:
  "(\<And>c. c \<in> set h \<Longrightarrow> c \<noteq> CHR ''-'') \<Longrightarrow>
   filter (\<lambda>c. c \<noteq> CHR ''-'') (take n (drop m h)) = take n (drop m h)"
  "(\<And>c. c \<in> set h \<Longrightarrow> c \<noteq> CHR ''-'') \<Longrightarrow>
   filter (\<lambda>c. c \<noteq> CHR ''-'') (drop m h) = drop m h"
  by (auto intro!: filter_True dest!: in_set_takeD in_set_dropD)

lemma take_groups:
  "length h = 32 \<Longrightarrow>
   take 8 h @ take 4 (drop 8 h) @ take 4 (drop 12 h) @ take 4 (drop 16 h) @ drop 20 h = h"
  by (simp add: take_add [symmetric] flip: append_assoc)

lemma filter_uuid_str: "filter (\<lambda>c. c \<noteq> CHR ''-'') (uuid_str u) = hex_fixed 32 (unat u)"
proof -
  let ?h = "hex_fixed 32 (unat u)"
  have f: "filter (\<lambda>c. c \<noteq> CHR ''-'') (take n (drop m ?h)) = take n (drop m ?h)"
    "filter (\<lambda>c. c \<noteq> CHR ''-'') (drop m ?h) = drop m ?h" for n m
    by (rule filter_take_drop_no_dash; rule hex_fixed_no_dash; assumption)+
  from f(1) [of 8 0] f show ?thesis
    by (simp add: uuid_str_def Let_def take_groups)
qed

lemma uuid_parse_str: "uuid_parse (uuid_str u) = Inr u"
proof -
  have "unat u < 2 ^ LENGTH(128)" by (rule unsigned_less)
  then have "unat u mod 16 ^ 32 = unat u" by simp
  then show ?thesis
    by (simp add: uuid_parse_def filter_uuid_str hex_number_fixed Let_def)
qed

lemma uuid_str_inject [simp]: "uuid_str u = uuid_str v \<longleftrightarrow> u = v"
  by (metis uuid_parse_str sum.inject(2))

lemma set_uuid_str: "c \<in> set (uuid_str u) \<Longrightarrow> c = CHR ''-'' \<or> (\<exists>d < 16. c = hex_digit d)"
  by (auto simp: uuid_str_def Let_def dest!: in_set_takeD in_set_dropD dest: set_hex_fixed)

lemma uuid_str_nonempty [simp]: "uuid_str u \<noteq> []"
  by (simp add: uuid_str_def Let_def)

lemma uuid_str_char_bounds:
  "c \<in> set (uuid_str u) \<Longrightarrow> byte c = 45 \<or> 48 \<le> byte c \<and> byte c \<le> 57 \<or> 97 \<le> byte c \<and> byte c \<le> 102"
  by (drule set_uuid_str) (auto simp: byte_hex_digit split: if_splits)

lemma is_ascii_uuid_str [simp]: "is_ascii (uuid_str u)"
  using uuid_str_char_bounds [of _ u] by (fastforce simp: is_ascii_def list_all_iff)

end
