(* ===== verification/Entities.thy ===== *)
theory Entities
  imports Codecs
begin

text \<open>
  The domain entities (\<open>domain/entities/*.py\<close>): endpoints, captured requests, forwards and
  replays, with their constructors and validations. A time is a number of microseconds since
  the epoch (UTC). Identifiers from \<open>uuid4()\<close> and readings of the clock are arguments of
  the constructors.
\<close>

type_synonym time = int

definition seconds :: "int \<Rightarrow> time" where
  "seconds n = n * 1000000"

definition days :: "int \<Rightarrow> time" where
  "days n = n * 86400000000"

section \<open>Endpoints\<close>

record endpoint =
  ep_id :: uuid
  ep_token :: string
  ep_created_at :: time
  ep_expires_at :: time
  ep_request_count :: int
  ep_response_status_code :: int
  ep_response_body :: string
  ep_response_headers :: dict
  ep_response_delay_ms :: int
  ep_signature_provider :: "string option"
  ep_signature_secret :: "string option"
  ep_forward_url :: "string option"
  ep_forward_headers :: "dict option"
  ep_forward_secret :: "string option"
  ep_flagged_at :: "time option"
  ep_flag_reason :: "string option"

definition DEFAULT_RESPONSE_STATUS_CODE :: int where
  "DEFAULT_RESPONSE_STATUS_CODE = 200"

definition DEFAULT_RESPONSE_BODY :: string where
  "DEFAULT_RESPONSE_BODY = ''{'' @ [CHR 0x22] @ ''ok'' @ [CHR 0x22] @ '':true}''"

definition DEFAULT_RESPONSE_DELAY_MS :: int where
  "DEFAULT_RESPONSE_DELAY_MS = 0"

definition max_response_body_bytes :: nat where
  "max_response_body_bytes = 65536"

definition forbidden_headers :: "string list" where
  "forbidden_headers =
     [''content-length'', ''transfer-encoding'', ''connection'', ''host'', ''date'']"

definition validate_response_status :: "int \<Rightarrow> unit res" where
  "validate_response_status code =
     raise_unless (100 \<le> code \<and> code \<le> 599) InvalidResponseStatusError"

definition validate_response_delay :: "int \<Rightarrow> unit res" where
  "validate_response_delay delay_ms =
     raise_unless (0 \<le> delay_ms \<and> delay_ms \<le> 30000) InvalidResponseDelayError"

definition validate_response_body_size :: "string \<Rightarrow> unit res" where
  "validate_response_body_size body =
     raise_unless (\<not> max_response_body_bytes < length body) ResponseBodyTooLargeError"

fun validate_response_headers :: "dict \<Rightarrow> unit res" where
  "validate_response_headers [] = Inr ()"
| "validate_response_headers ((name, v) # hs) =
     (if str_lower name \<in> set forbidden_headers then Inl ForbiddenResponseHeaderError
      else validate_response_headers hs)"

definition endpoint_create ::
  "uuid \<Rightarrow> time \<Rightarrow> string \<Rightarrow> int \<Rightarrow> int \<Rightarrow> string \<Rightarrow> dict option \<Rightarrow> int \<Rightarrow> endpoint res" where
  "endpoint_create new_id now token ttl_days status_code body headers delay_ms =
     bindR (raise_unless (0 < ttl_days) ValueError) (\<lambda>_.
     bindR (validate_response_status status_code) (\<lambda>_.
     bindR (validate_response_delay delay_ms) (\<lambda>_.
     bindR (validate_response_body_size body) (\<lambda>_.
     let hs = (case headers of None \<Rightarrow> [] | Some h \<Rightarrow> h) in
     bindR (validate_response_headers hs) (\<lambda>_.
     Inr \<lparr>ep_id = new_id, ep_token = token, ep_created_at = now,
          ep_expires_at = now + days ttl_days, ep_request_count = 0,
          ep_response_status_code = status_code, ep_response_body = body,
          ep_response_headers = hs, ep_response_delay_ms = delay_ms,
          ep_signature_provider = None, ep_signature_secret = None,
          ep_forward_url = None, ep_forward_headers = None, ep_forward_secret = None,
          ep_flagged_at = None, ep_flag_reason = None\<rparr>)))))"

definition is_expired :: "time \<Rightarrow> endpoint \<Rightarrow> bool" where
  "is_expired now e \<longleftrightarrow> ep_expires_at e \<le> now"

text \<open>What every stored endpoint's response configuration satisfies.\<close>

definition response_ok :: "int \<Rightarrow> string \<Rightarrow> dict \<Rightarrow> int \<Rightarrow> bool" where
  "response_ok code body hs delay_ms \<longleftrightarrow>
     100 \<le> code \<and> code \<le> 599 \<and> 0 \<le> delay_ms \<and> delay_ms \<le> 30000 \<and>
     length body \<le> max_response_body_bytes \<and>
     (\<forall>name \<in> fst ` set hs. str_lower name \<notin> set forbidden_headers)"

definition endpoint_ok :: "endpoint \<Rightarrow> bool" where
  "endpoint_ok e \<longleftrightarrow>
     response_ok (ep_response_status_code e) (ep_response_body e) (ep_response_headers e)
       (ep_response_delay_ms e) \<and>
     ep_created_at e < ep_expires_at e \<and> 0 \<le> ep_request_count e"

lemma validate_response_headers_iff:
  "validate_response_headers hs = Inr () \<longleftrightarrow>
     (\<forall>name \<in> fst ` set hs. str_lower name \<notin> set forbidden_headers)"
  by (induction hs rule: validate_response_headers.induct) auto

lemma validate_response_headers_Inl:
  "validate_response_headers hs = Inl e \<Longrightarrow> e = ForbiddenResponseHeaderError"
  by (induction hs rule: validate_response_headers.induct) (auto split: if_splits)

lemma endpoint_create_Inr_iff:
  "(\<exists>e. endpoint_create i now tok ttl code body hs d = Inr e) \<longleftrightarrow>
     0 < ttl \<and> response_ok code body (case hs of None \<Rightarrow> [] | Some h \<Rightarrow> h) d"
  by (auto simp: endpoint_create_def bindR_Inr_iff validate_response_status_def Let_def
      validate_response_delay_def validate_response_body_size_def response_ok_def
      validate_response_headers_iff simp del: split_paired_Ex)

lemma endpoint_createD:
  assumes "endpoint_create i now tok ttl code body hs d = Inr e"
  shows "endpoint_ok e" "ep_id e = i" "ep_token e = tok" "ep_request_count e = 0"
    "ep_created_at e = now" "ep_expires_at e = now + days ttl" "ep_forward_url e = None"
    "ep_signature_provider e = None" "ep_flagged_at e = None"
  using assms
  by (auto simp: endpoint_create_def bindR_Inr_iff validate_response_status_def Let_def
      validate_response_delay_def validate_response_body_size_def response_ok_def endpoint_ok_def
      validate_response_headers_iff days_def) blast

section \<open>Captured requests\<close>

record captured_request =
  rq_id :: uuid
  rq_endpoint_id :: uuid
  rq_method :: string
  rq_path :: string
  rq_query_string :: "string option"
  rq_headers :: dict
  rq_body_preview :: "string option"
  rq_body_size :: nat
  rq_blob_key :: "string option"
  rq_source_ip :: string
  rq_received_at :: time
  rq_signature_status :: "string option"
  rq_detected_integration :: "string option"
  rq_detected_event_type :: "string option"

definition decode_body_safe :: "string \<Rightarrow> string" where
  "decode_body_safe body =
     (case utf8_decode body of Inr s \<Rightarrow> s | Inl e \<Rightarrow> bytes_repr body)"

definition captured_request_create ::
  "uuid \<Rightarrow> time \<Rightarrow> uuid \<Rightarrow> string \<Rightarrow> string \<Rightarrow> string option \<Rightarrow> dict \<Rightarrow> string \<Rightarrow> string \<Rightarrow> nat \<Rightarrow>
   string \<Rightarrow> string option \<Rightarrow> string option \<Rightarrow> captured_request res" where
  "captured_request_create request_id now endpoint_id method path query_string headers body
     source_ip inline_threshold signature_status integration event_type =
     (if method \<noteq> str_upper method then Inl ValueError
      else
        let body_size = length body;
            inline = (body_size \<le> inline_threshold)
        in Inr \<lparr>rq_id = request_id, rq_endpoint_id = endpoint_id, rq_method = method,
             rq_path = path, rq_query_string = query_string, rq_headers = headers,
             rq_body_preview = (if inline then Some (decode_body_safe body) else None),
             rq_body_size = body_size,
             rq_blob_key = (if inline then None
               else Some (uuid_str endpoint_id @ ''/'' @ uuid_str request_id)),
             rq_source_ip = source_ip, rq_received_at = now,
             rq_signature_status = Some signature_status,
             rq_detected_integration = integration, rq_detected_event_type = event_type\<rparr>)"

lemma decode_body_safe_valid [simp]: "utf8_valid b \<Longrightarrow> decode_body_safe b = b"
  by (simp add: decode_body_safe_def utf8_decode_def)

lemma utf8_valid_decode_body_safe: "utf8_valid (decode_body_safe b)"
  by (auto simp: decode_body_safe_def utf8_decode_def intro: utf8_valid_ascii is_ascii_bytes_repr)

lemma decode_body_safe_id_iff: "decode_body_safe b = b \<longleftrightarrow> utf8_valid b"
  by (metis decode_body_safe_valid utf8_valid_decode_body_safe)

section \<open>Forwards\<close>

datatype forward_status = Pending | In_flight | Succeeded | Failed | Dead | Abandoned

instantiation forward_status :: enum
begin

definition "enum_forward_status = [Pending, In_flight, Succeeded, Failed, Dead, Abandoned]"

definition "enum_all_forward_status P \<longleftrightarrow>
  P Pending \<and> P In_flight \<and> P Succeeded \<and> P Failed \<and> P Dead \<and> P Abandoned"

definition "enum_ex_forward_status P \<longleftrightarrow>
  P Pending \<or> P In_flight \<or> P Succeeded \<or> P Failed \<or> P Dead \<or> P Abandoned"

instance proof
  show univ: "(UNIV :: forward_status set) = set enum_class.enum"
    by (auto simp: enum_forward_status_def intro: forward_status.exhaust)
  fix P :: "forward_status \<Rightarrow> bool"
  have all: "(\<forall>s. P s) \<longleftrightarrow> (\<forall>s \<in> set enum_class.enum. P s)" and
    ex: "(\<exists>s. P s) \<longleftrightarrow> (\<exists>s \<in> set enum_class.enum. P s)"
    by (simp_all flip: univ)
  show "enum_class.enum_all P \<longleftrightarrow> Ball UNIV P" "enum_class.enum_ex P \<longleftrightarrow> Bex UNIV P"
    by (simp_all add: all ex enum_all_forward_status_def enum_ex_forward_status_def
        enum_forward_status_def)
qed (simp add: enum_forward_status_def)

end

text \<open>\<open>RETRY_BACKOFFS\<close>, in seconds, and \<open>MAX_ATTEMPTS = len(RETRY_BACKOFFS)\<close>.\<close>

definition RETRY_BACKOFFS :: "int list" where
  "RETRY_BACKOFFS = [30, 120, 600, 3600, 14400]"

definition MAX_ATTEMPTS :: int where
  "MAX_ATTEMPTS = int (length RETRY_BACKOFFS)"

lemma MAX_ATTEMPTS_eq [simp]: "MAX_ATTEMPTS = 5"
  by (simp add: MAX_ATTEMPTS_def RETRY_BACKOFFS_def)

record forward =
  fw_id :: uuid
  fw_request_id :: uuid
  fw_endpoint_id :: uuid
  fw_target_url :: string
  fw_status :: forward_status
  fw_attempt_count :: int
  fw_last_attempt_at :: "time option"
  fw_next_attempt_at :: "time option"
  fw_final_status_code :: "int option"
  fw_final_error :: "string option"
  fw_started_at :: "time option"
  fw_completed_at :: "time option"
  fw_created_at :: time
  fw_manual_retry_at :: "time option"

definition forward_create :: "uuid \<Rightarrow> uuid \<Rightarrow> uuid \<Rightarrow> string \<Rightarrow> time \<Rightarrow> forward" where
  "forward_create new_id request_id endpoint_id target_url now =
     \<lparr>fw_id = new_id, fw_request_id = request_id, fw_endpoint_id = endpoint_id,
      fw_target_url = target_url, fw_status = Pending, fw_attempt_count = 0,
      fw_last_attempt_at = None, fw_next_attempt_at = Some now, fw_final_status_code = None,
      fw_final_error = None, fw_started_at = None, fw_completed_at = None,
      fw_created_at = now, fw_manual_retry_at = None\<rparr>"

text \<open>A status no worker acts on again by itself.\<close>

definition terminal :: "forward_status \<Rightarrow> bool" where
  "terminal s \<longleftrightarrow> s = Succeeded \<or> s = Dead \<or> s = Abandoned"

lemma terminal_simps [simp]:
  "\<not> terminal Pending" "\<not> terminal In_flight" "\<not> terminal Failed"
  "terminal Succeeded" "terminal Dead" "terminal Abandoned"
  by (simp_all add: terminal_def)

section \<open>Replays\<close>

definition REPLAY_RESPONSE_BODY_PREVIEW_BYTES :: nat where
  "REPLAY_RESPONSE_BODY_PREVIEW_BYTES = 4 * 1024"

record replay =
  rp_id :: uuid
  rp_request_id :: uuid
  rp_target_url :: string
  rp_status_code :: "int option"
  rp_response_body_preview :: "string option"
  rp_response_headers :: "dict option"
  rp_error :: "string option"
  rp_duration_ms :: int
  rp_attempted_at :: time

definition replay_success ::
  "uuid \<Rightarrow> uuid \<Rightarrow> string \<Rightarrow> int \<Rightarrow> string option \<Rightarrow> dict \<Rightarrow> int \<Rightarrow> time \<Rightarrow> replay" where
  "replay_success new_id request_id target_url status_code body_preview headers duration_ms now =
     \<lparr>rp_id = new_id, rp_request_id = request_id, rp_target_url = target_url,
      rp_status_code = Some status_code, rp_response_body_preview = body_preview,
      rp_response_headers = Some headers, rp_error = None, rp_duration_ms = duration_ms,
      rp_attempted_at = now\<rparr>"

definition replay_failure :: "uuid \<Rightarrow> uuid \<Rightarrow> string \<Rightarrow> string \<Rightarrow> int \<Rightarrow> time \<Rightarrow> replay" where
  "replay_failure new_id request_id target_url error duration_ms now =
     \<lparr>rp_id = new_id, rp_request_id = request_id, rp_target_url = target_url,
      rp_status_code = None, rp_response_body_preview = None,
      rp_response_headers = None, rp_error = Some error, rp_duration_ms = duration_ms,
      rp_attempted_at = now\<rparr>"

text \<open>The CHECK constraint \<open>replays_outcome_xor\<close> of migration 0007.\<close>

definition replay_outcome_xor :: "replay \<Rightarrow> bool" where
  "replay_outcome_xor r \<longleftrightarrow> (rp_status_code r \<noteq> None) \<noteq> (rp_error r \<noteq> None)"

end
