(* ===== verification/Database.thy ===== *)
theory Database
  imports Entities
begin

text \<open>
  The database: one table per entity, the constraints the migrations declare on them, and
  \<open>PostgresEndpointRepository\<close>. A transaction is a function from the database to a result
  and a database; \<open>in_session\<close> commits it or rolls it back.
\<close>

section \<open>Tables and constraints\<close>

record db =
  db_endpoints :: "endpoint list"
  db_requests :: "captured_request list"
  db_forwards :: "forward list"
  db_replays :: "replay list"
  db_notified :: "string list"

definition empty_db :: db where
  "empty_db = \<lparr>db_endpoints = [], db_requests = [], db_forwards = [], db_replays = [],
     db_notified = []\<rparr>"

definition FLAG_REASON_PHISHING :: string where
  "FLAG_REASON_PHISHING = ''phishing_no_forward''"

definition FLAG_REASONS :: "string list" where
  "FLAG_REASONS = [FLAG_REASON_PHISHING, ''slug_denylist_postcreation'', ''manual_review'']"

definition flag_reason_check :: "string option \<Rightarrow> bool" where
  "flag_reason_check r \<longleftrightarrow> (case r of None \<Rightarrow> True | Some s \<Rightarrow> s \<in> set FLAG_REASONS)"

definition INTEGRATION_NAMES :: "string list" where
  "INTEGRATION_NAMES =
     [''stripe'', ''github'', ''shopify'', ''twilio'', ''mailgun'', ''discord'', ''slack'',
      ''zapier'', ''n8n'']"

definition integration_check :: "string option \<Rightarrow> bool" where
  "integration_check i \<longleftrightarrow> (case i of None \<Rightarrow> True | Some s \<Rightarrow> s \<in> set INTEGRATION_NAMES)"

abbreviation endpoint_ids :: "db \<Rightarrow> uuid set" where
  "endpoint_ids d \<equiv> ep_id ` set (db_endpoints d)"

abbreviation request_ids :: "db \<Rightarrow> uuid set" where
  "request_ids d \<equiv> rq_id ` set (db_requests d)"

text \<open>
  Primary keys, the unique token, the foreign keys and the CHECK constraints; a forward belongs
  to the endpoint of its request.
\<close>

definition keys_ok :: "db \<Rightarrow> bool" where
  "keys_ok d \<longleftrightarrow>
     key_ok ep_id (db_endpoints d) \<and> key_ok ep_token (db_endpoints d) \<and>
     key_ok rq_id (db_requests d) \<and> key_ok fw_id (db_forwards d) \<and>
     key_ok rp_id (db_replays d)"

definition foreign_keys_ok :: "db \<Rightarrow> bool" where
  "foreign_keys_ok d \<longleftrightarrow>
     (\<forall>r \<in> set (db_requests d). rq_endpoint_id r \<in> endpoint_ids d) \<and>
     (\<forall>f \<in> set (db_forwards d). fw_request_id f \<in> request_ids d \<and> fw_endpoint_id f \<in> endpoint_ids d) \<and>
     (\<forall>r \<in> set (db_replays d). rp_request_id r \<in> request_ids d)"

definition checks_ok :: "db \<Rightarrow> bool" where
  "checks_ok d \<longleftrightarrow>
     (\<forall>e \<in> set (db_endpoints d). flag_reason_check (ep_flag_reason e)) \<and>
     (\<forall>r \<in> set (db_requests d). integration_check (rq_detected_integration r)) \<and>
     (\<forall>r \<in> set (db_replays d). replay_outcome_xor r)"

definition db_ok :: "db \<Rightarrow> bool" where
  "db_ok d \<longleftrightarrow> keys_ok d \<and> foreign_keys_ok d \<and> checks_ok d"

lemma db_ok_empty [simp]: "db_ok empty_db"
  by (simp add: db_ok_def keys_ok_def foreign_keys_ok_def checks_ok_def empty_db_def)

section \<open>Transactions\<close>

text \<open>
  \<open>get_session\<close> and \<open>session_scope\<close>: commit on normal exit, roll back and re-raise on
  an exception.
\<close>

definition in_session :: "(db \<Rightarrow> 'a res \<times> db) \<Rightarrow> db \<Rightarrow> 'a res \<times> db" where
  "in_session tx d = (case tx d of (Inl e, d') \<Rightarrow> (Inl e, d) | (Inr a, d') \<Rightarrow> (Inr a, d'))"

lemma in_session_Inl: "in_session tx d = (Inl e, d') \<Longrightarrow> d' = d"
  by (auto simp: in_session_def split: prod.splits sum.splits)

lemma in_session_invariant:
  assumes "P d" and "\<And>a d'. tx d = (Inr a, d') \<Longrightarrow> P d'"
  shows "P (snd (in_session tx d))"
  using assms by (auto simp: in_session_def split: prod.splits sum.splits)

section \<open>PostgresEndpointRepository\<close>

definition endpoint_to_row :: "endpoint \<Rightarrow> endpoint" where
  "endpoint_to_row e =
     \<lparr>ep_id = ep_id e, ep_token = ep_token e, ep_created_at = ep_created_at e,
      ep_expires_at = ep_expires_at e, ep_request_count = ep_request_count e,
      ep_response_status_code = ep_response_status_code e,
      ep_response_body = ep_response_body e, ep_response_headers = ep_response_headers e,
      ep_response_delay_ms = ep_response_delay_ms e,
      ep_signature_provider = ep_signature_provider e,
      ep_signature_secret = ep_signature_secret e, ep_forward_url = ep_forward_url e,
      ep_forward_headers = ep_forward_headers e, ep_forward_secret = ep_forward_secret e,
      ep_flagged_at = ep_flagged_at e, ep_flag_reason = ep_flag_reason e\<rparr>"

definition endpoint_to_entity :: "endpoint \<Rightarrow> endpoint" where
  "endpoint_to_entity row =
     \<lparr>ep_id = ep_id row, ep_token = ep_token row, ep_created_at = ep_created_at row,
      ep_expires_at = ep_expires_at row, ep_request_count = ep_request_count row,
      ep_response_status_code = ep_response_status_code row,
      ep_response_body = ep_response_body row, ep_response_headers = ep_response_headers row,
      ep_response_delay_ms = ep_response_delay_ms row,
      ep_signature_provider = ep_signature_provider row,
      ep_signature_secret = ep_signature_secret row, ep_forward_url = ep_forward_url row,
      ep_forward_headers = ep_forward_headers row, ep_forward_secret = ep_forward_secret row,
      ep_flagged_at = ep_flagged_at row, ep_flag_reason = ep_flag_reason row\<rparr>"

lemma endpoint_row_entity [simp]: "endpoint_to_row e = e" "endpoint_to_entity e = e"
  by (simp_all add: endpoint_to_row_def endpoint_to_entity_def)

text \<open>
  PostgreSQL stores no text and no JSONB string with a NUL character (a \<open>DataError\<close>), and the
  driver cannot encode a lone surrogate (a \<open>UnicodeEncodeError\<close>, a \<open>ValueError\<close>). Both are raised when the
  statement is sent, before any constraint is looked at.
\<close>

definition text_ok :: "string \<Rightarrow> bool" where
  "text_ok s \<longleftrightarrow> char_of (0 :: nat) \<notin> set s"

definition storable :: "string \<Rightarrow> bool" where
  "storable s \<longleftrightarrow> utf8_valid s \<and> text_ok s"

lemma list_all_storable: "list_all storable ss \<longleftrightarrow> list_all utf8_valid ss \<and> list_all text_ok ss"
  by (induction ss) (auto simp: storable_def)

definition config_texts :: "endpoint \<Rightarrow> string list" where
  "config_texts e =
     [ep_response_body e] @ map fst (ep_response_headers e) @ map snd (ep_response_headers e) @
     (case ep_signature_provider e of None \<Rightarrow> [] | Some p \<Rightarrow> [p]) @
     (case ep_forward_url e of None \<Rightarrow> [] | Some u \<Rightarrow> [u]) @
     (case ep_forward_headers e of None \<Rightarrow> [] | Some hs \<Rightarrow> map fst hs @ map snd hs) @
     (case ep_flag_reason e of None \<Rightarrow> [] | Some r \<Rightarrow> [r])"

text \<open>A flush that violates a constraint is an \<open>IntegrityError\<close>, reported as a taken slug; no other error is caught.\<close>

definition endpoint_save :: "endpoint \<Rightarrow> db \<Rightarrow> unit res \<times> db" where
  "endpoint_save e d =
     (let row = endpoint_to_row e in
      if \<not> list_all utf8_valid (ep_token row # config_texts row) then (Inl ValueError, d)
      else if \<not> list_all text_ok (ep_token row # config_texts row) then (Inl DataError, d)
      else if ep_id row \<in> endpoint_ids d \<or> ep_token row \<in> ep_token ` set (db_endpoints d) \<or>
         \<not> flag_reason_check (ep_flag_reason row)
      then (Inl SlugAlreadyTakenError, d)
      else (Inr (), d\<lparr>db_endpoints := db_endpoints d @ [row]\<rparr>))"

definition endpoint_set_config :: "endpoint \<Rightarrow> endpoint \<Rightarrow> endpoint" where
  "endpoint_set_config e row =
     row\<lparr>ep_signature_provider := ep_signature_provider e,
         ep_signature_secret := ep_signature_secret e,
         ep_response_status_code := ep_response_status_code e,
         ep_response_body := ep_response_body e, ep_response_headers := ep_response_headers e,
         ep_response_delay_ms := ep_response_delay_ms e, ep_forward_url := ep_forward_url e,
         ep_forward_headers := ep_forward_headers e, ep_forward_secret := ep_forward_secret e,
         ep_flagged_at := ep_flagged_at e, ep_flag_reason := ep_flag_reason e\<rparr>"

definition endpoint_update :: "endpoint \<Rightarrow> db \<Rightarrow> unit res \<times> db" where
  "endpoint_update e d =
     (if \<not> list_all utf8_valid (config_texts e) then (Inl ValueError, d)
      else if \<not> list_all text_ok (config_texts e) then (Inl DataError, d)
      else if ep_id e \<notin> endpoint_ids d then (Inl EndpointNotFoundError, d)
      else if \<not> flag_reason_check (ep_flag_reason e) then (Inl IntegrityError, d)
      else (Inr (), d\<lparr>db_endpoints :=
        sql_update (\<lambda>row. ep_id row = ep_id e) (endpoint_set_config e) (db_endpoints d)\<rparr>))"

definition find_by_token :: "string \<Rightarrow> db \<Rightarrow> endpoint option" where
  "find_by_token token d = map_option endpoint_to_entity (lookup_row ep_token token (db_endpoints d))"

definition endpoint_find_by_id :: "uuid \<Rightarrow> db \<Rightarrow> endpoint option" where
  "endpoint_find_by_id i d = map_option endpoint_to_entity (lookup_row ep_id i (db_endpoints d))"

definition increment_request_count :: "uuid \<Rightarrow> db \<Rightarrow> db" where
  "increment_request_count i d = d\<lparr>db_endpoints :=
     sql_update (\<lambda>row. ep_id row = i) (\<lambda>row. row\<lparr>ep_request_count := ep_request_count row + 1\<rparr>)
       (db_endpoints d)\<rparr>"

text \<open>
  \<open>DELETE FROM endpoints WHERE expires_at < now\<close>. The foreign key of \<open>requests\<close> has no
  \<open>ON DELETE\<close> action (migration 19068e2673bf), so a captured request of a row to delete makes
  the statement fail; the one of \<open>forwards\<close> cascades (migration 0010).
\<close>

definition delete_expired :: "time \<Rightarrow> db \<Rightarrow> int res \<times> db" where
  "delete_expired now d =
     (let gone = (\<lambda>e. ep_expires_at e < now);
          gone_ids = ep_id ` set (filter gone (db_endpoints d))
      in if \<exists>r \<in> set (db_requests d). rq_endpoint_id r \<in> gone_ids then (Inl IntegrityError, d)
         else (Inr (int (length (filter gone (db_endpoints d)))),
           d\<lparr>db_endpoints := sql_delete gone (db_endpoints d),
             db_forwards := sql_delete (\<lambda>f. fw_endpoint_id f \<in> gone_ids) (db_forwards d)\<rparr>))"

definition count_active :: "time \<Rightarrow> db \<Rightarrow> int" where
  "count_active now d = int (length (filter (\<lambda>e. now < ep_expires_at e) (db_endpoints d)))"

section \<open>The cleaner job\<close>

text \<open>\<open>run_cleanup\<close> (\<open>jobs/cleaner.py\<close>): one transaction around \<open>delete_expired\<close>.\<close>

definition run_cleanup :: "time \<Rightarrow> db \<Rightarrow> int res \<times> db" where
  "run_cleanup now d = in_session (delete_expired now) d"

lemma map_endpoint_to_entity [simp]: "map_option endpoint_to_entity r = r"
  by (cases r) simp_all

lemma find_by_token_eq: "find_by_token t d = lookup_row ep_token t (db_endpoints d)"
  by (simp add: find_by_token_def)

lemma endpoint_find_by_id_eq: "endpoint_find_by_id i d = lookup_row ep_id i (db_endpoints d)"
  by (simp add: endpoint_find_by_id_def)

lemma find_by_token_SomeD:
  "find_by_token t d = Some e \<Longrightarrow> e \<in> set (db_endpoints d) \<and> ep_token e = t"
  by (auto simp: find_by_token_def dest: lookup_row_SomeD)

lemma endpoint_find_by_id_SomeD:
  "endpoint_find_by_id i d = Some e \<Longrightarrow> e \<in> set (db_endpoints d) \<and> ep_id e = i"
  by (auto simp: endpoint_find_by_id_def dest: lookup_row_SomeD)

lemmas db_ok_defs = db_ok_def keys_ok_def foreign_keys_ok_def checks_ok_def

lemma endpoint_save_eq:
  "endpoint_save e d = (Inr u, d') \<Longrightarrow> d' = d\<lparr>db_endpoints := db_endpoints d @ [e]\<rparr>"
  by (auto simp: endpoint_save_def Let_def split: if_splits)

lemma endpoint_save_ok:
  assumes "db_ok d" and "endpoint_save e d = (Inr u, d')"
  shows "db_ok d'"
proof -
  have new: "ep_id e \<notin> endpoint_ids d" "ep_token e \<notin> ep_token ` set (db_endpoints d)"
    "flag_reason_check (ep_flag_reason e)"
    using assms(2) by (auto simp: endpoint_save_def Let_def split: if_splits)
  with assms(1) show ?thesis
    unfolding endpoint_save_eq [OF assms(2)]
    by (simp add: db_ok_defs key_ok_append_one lookup_row_None_image)
qed

lemma endpoint_set_config_keys [simp]:
  "ep_id (endpoint_set_config e r) = ep_id r" "ep_token (endpoint_set_config e r) = ep_token r"
  "ep_flag_reason (endpoint_set_config e r) = ep_flag_reason e"
  by (simp_all add: endpoint_set_config_def)

text \<open>An update of endpoint rows that keeps their keys and the flag check keeps the constraints.\<close>

lemma db_ok_update_endpoints:
  assumes "db_ok d" and "\<And>r. ep_id (f r) = ep_id r" and "\<And>r. ep_token (f r) = ep_token r"
    and "\<And>r. r \<in> set (db_endpoints d) \<Longrightarrow> p r \<Longrightarrow> flag_reason_check (ep_flag_reason (f r))"
  shows "db_ok (d\<lparr>db_endpoints := sql_update p f (db_endpoints d)\<rparr>)"
proof -
  have "\<forall>e \<in> set (sql_update p f (db_endpoints d)). flag_reason_check (ep_flag_reason e)"
    by (rule ball_sql_update) (use assms(1,4) in \<open>auto simp: db_ok_defs\<close>)
  with assms(1) show ?thesis
    by (simp add: db_ok_defs key_ok_sql_update key_image_sql_update assms(2,3))
qed

lemma endpoint_update_ok:
  assumes "db_ok d" and "endpoint_update e d = (Inr u, d')"
  shows "db_ok d'"
proof -
  have "flag_reason_check (ep_flag_reason e)" and d': "d' = d\<lparr>db_endpoints :=
      sql_update (\<lambda>row. ep_id row = ep_id e) (endpoint_set_config e) (db_endpoints d)\<rparr>"
    using assms(2) by (auto simp: endpoint_update_def split: if_splits)
  then show ?thesis
    unfolding d' by (intro db_ok_update_endpoints assms(1)) simp_all
qed

lemma increment_request_count_ok: "db_ok d \<Longrightarrow> db_ok (increment_request_count i d)"
  unfolding increment_request_count_def
  by (rule db_ok_update_endpoints) (auto simp: db_ok_defs)

lemma find_by_token_increment:
  "find_by_token t (increment_request_count i d) =
     map_option (\<lambda>e. if ep_id e = i then e\<lparr>ep_request_count := ep_request_count e + 1\<rparr> else e)
       (find_by_token t d)"
  by (simp add: find_by_token_eq increment_request_count_def lookup_sql_update)

lemma delete_expired_ok:
  assumes "db_ok d" and "delete_expired now d = (Inr n, d')"
  shows "db_ok d'"
proof -
  let ?gone = "\<lambda>e. ep_expires_at e < now"
  let ?ids = "ep_id ` set (filter ?gone (db_endpoints d))"
  have kept: "\<forall>r \<in> set (db_requests d). rq_endpoint_id r \<notin> ?ids"
    and d': "d' = d\<lparr>db_endpoints := sql_delete ?gone (db_endpoints d),
      db_forwards := sql_delete (\<lambda>f. fw_endpoint_id f \<in> ?ids) (db_forwards d)\<rparr>"
    using assms(2) by (auto simp: delete_expired_def Let_def split: if_splits)
  have stay: "i \<in> ep_id ` set (sql_delete ?gone (db_endpoints d))"
    if "i \<in> endpoint_ids d" "i \<notin> ?ids" for i
    using that by (auto simp: set_sql_delete image_iff)
  show ?thesis
    using assms(1) kept stay unfolding d' db_ok_defs
    by (simp add: key_ok_sql_delete) (simp add: set_sql_delete)
qed

end
