(* ===== verification/Pagination.thy ===== *)
theory Pagination
  imports Entities "HOL-Library.Multiset"
begin

text \<open>
  Keyset pagination, shared by the two listings of the API: newest first, ties broken by the
  identifier, a page being the first rows strictly after the cursor row. The locale states what a
  listing promises and proves that following the cursors visits every row once.
\<close>

definition newest_first :: "('r \<Rightarrow> time) \<Rightarrow> ('r \<Rightarrow> uuid) \<Rightarrow> 'r list \<Rightarrow> 'r list" where
  "newest_first ts rid rows = rev (sort_key (\<lambda>r. (ts r, rid r)) rows)"

text \<open>The WHERE clause for the cursor row's timestamp and id.\<close>

definition after_cursor :: "('r \<Rightarrow> time) \<Rightarrow> ('r \<Rightarrow> uuid) \<Rightarrow> 'r option \<Rightarrow> 'r \<Rightarrow> bool" where
  "after_cursor ts rid cursor r =
     (case cursor of None \<Rightarrow> True
      | Some c \<Rightarrow> ts r < ts c \<or> (ts r = ts c \<and> rid r < rid c))"

definition keyset_page ::
  "('r \<Rightarrow> time) \<Rightarrow> ('r \<Rightarrow> uuid) \<Rightarrow> nat \<Rightarrow> 'r option \<Rightarrow> 'r list \<Rightarrow> 'r list" where
  "keyset_page ts rid limit cursor rows =
     take limit (newest_first ts rid (filter (after_cursor ts rid cursor) rows))"

text \<open>\<open>next_before_id = items[-1].id if len(items) == limit else None\<close>.\<close>

definition next_before :: "('r \<Rightarrow> uuid) \<Rightarrow> nat \<Rightarrow> 'r list \<Rightarrow> uuid option" where
  "next_before rid limit items =
     (if length items = limit \<and> items \<noteq> [] then Some (rid (last items)) else None)"

text \<open>A client that asks for pages until no cursor comes back, at most \<open>fuel\<close> of them.\<close>

fun fetch_all :: "(uuid option \<Rightarrow> 'r list) \<Rightarrow> ('r \<Rightarrow> uuid) \<Rightarrow> nat \<Rightarrow> nat \<Rightarrow> uuid option \<Rightarrow> 'r list option" where
  "fetch_all page rid limit 0 before = None"
| "fetch_all page rid limit (Suc fuel) before =
     (let items = page before in
      case next_before rid limit items of
        None \<Rightarrow> Some items
      | Some b \<Rightarrow> map_option (\<lambda>rest. items @ rest) (fetch_all page rid limit fuel (Some b)))"

section \<open>Strictly sorted lists\<close>

lemma newest_first_filter: "newest_first ts rid (filter p rows) = filter p (newest_first ts rid rows)"
  unfolding newest_first_def by (simp only: filter_sort [symmetric] rev_filter)

lemma set_newest_first [simp]: "set (newest_first ts rid rows) = set rows"
  by (simp add: newest_first_def)

lemma mset_newest_first: "mset (newest_first ts rid rows) = mset rows"
  by (simp add: newest_first_def)

lemma length_newest_first [simp]: "length (newest_first ts rid rows) = length rows"
  by (simp add: newest_first_def)

lemma sorted_wrt_newest_first:
  assumes "key_ok rid rows"
  shows "sorted_wrt (\<lambda>a b. (ts b, rid b) < (ts a, rid a)) (newest_first ts rid rows)"
proof -
  let ?key = "\<lambda>r. (ts r, rid r)"
  let ?xs = "sort_key ?key rows"
  have "distinct (map snd (map ?key rows))"
    using assms by (simp add: key_ok_def comp_def)
  then have "distinct (map ?key rows)"
    unfolding distinct_map [of snd] by (rule conjunct1)
  then have "distinct (map ?key ?xs)"
    by (simp add: distinct_map)
  moreover have "sorted (map ?key ?xs)" by (rule sorted_sort_key)
  ultimately have "sorted_wrt (<) (map ?key ?xs)"
    by (simp add: strict_sorted_iff)
  then have "sorted_wrt (\<lambda>a b. ?key a < ?key b) ?xs"
    by (simp add: sorted_wrt_map)
  then show ?thesis
    by (simp add: newest_first_def sorted_wrt_rev)
qed

lemma filter_below_nth:
  assumes "sorted_wrt (\<lambda>a b. key b < (key a :: 'k :: linorder)) xs" and "i < length xs"
  shows "filter (\<lambda>r. key r < key (xs ! i)) xs = drop (Suc i) xs"
  using assms
proof (induction xs arbitrary: i)
  case Nil
  then show ?case by simp
next
  case (Cons x xs)
  show ?case
  proof (cases i)
    case 0
    have "filter (\<lambda>r. key r < key x) xs = xs"
      using Cons.prems(1) by (auto intro: filter_True)
    with 0 show ?thesis by simp
  next
    case (Suc j)
    with Cons.prems have j: "j < length xs" and sw: "sorted_wrt (\<lambda>a b. key b < key a) xs"
      and "key (xs ! j) < key x" by auto
    then have "\<not> key x < key (xs ! j)" by (meson order.asym)
    with Suc Cons.IH [OF sw j] show ?thesis by simp
  qed
qed

lemma after_cursor_Some:
  "after_cursor ts rid (Some c) = (\<lambda>r. (ts r, rid r) < (ts c, rid c))"
  by (rule ext) (auto simp: after_cursor_def less_prod_def)

lemma keyset_page_first: "keyset_page ts rid limit None rows = take limit (newest_first ts rid rows)"
  by (simp add: keyset_page_def after_cursor_def)

lemma keyset_page_after:
  assumes "key_ok rid rows" and "i < length rows"
  shows "keyset_page ts rid limit (Some (newest_first ts rid rows ! i)) rows =
    take limit (drop (Suc i) (newest_first ts rid rows))"
  using filter_below_nth [OF sorted_wrt_newest_first [OF assms(1), of ts], of i] assms(2)
  by (simp add: keyset_page_def newest_first_filter after_cursor_Some)

section \<open>What a listing promises\<close>

text \<open>
  \<open>page s limit before\<close> is one request to the API in state \<open>s\<close>; \<open>rows s\<close> the full
  listing. The first page starts the listing, and the page after the row at position \<open>i\<close>
  starts right behind it.
\<close>

locale keyset_listing =
  fixes page :: "'s \<Rightarrow> nat \<Rightarrow> uuid option \<Rightarrow> 'r list"
    and rows :: "'s \<Rightarrow> 'r list"
    and rid :: "'r \<Rightarrow> uuid"
    and ok :: "'s \<Rightarrow> bool"
  assumes page_first: "ok s \<Longrightarrow> page s limit None = take limit (rows s)"
    and page_after: "ok s \<Longrightarrow> i < length (rows s) \<Longrightarrow>
      page s limit (Some (rid (rows s ! i))) = take limit (drop (Suc i) (rows s))"
begin

lemma page_length: "ok s \<Longrightarrow> length (page s limit None) \<le> limit"
  by (simp add: page_first)

text \<open>\<open>start b i\<close>: the next page begins at position \<open>i\<close>.\<close>

definition start :: "'s \<Rightarrow> uuid option \<Rightarrow> nat \<Rightarrow> bool" where
  "start s b i \<longleftrightarrow> (b = None \<and> i = 0) \<or> (\<exists>j < length (rows s). b = Some (rid (rows s ! j)) \<and> i = Suc j)"

lemma page_start: "ok s \<Longrightarrow> start s b i \<Longrightarrow> page s limit b = take limit (drop i (rows s))"
  by (auto simp: start_def page_first page_after)

lemma start_last:
  assumes "start s b i" and "0 < limit" and "i + limit \<le> length (rows s)"
  shows "start s (Some (rid (last (take limit (drop i (rows s)))))) (i + limit)"
proof -
  have "last (take limit (drop i (rows s))) = rows s ! (i + limit - 1)"
    using assms by (subst last_conv_nth) auto
  then show ?thesis
    using assms unfolding start_def by (intro disjI2 exI [of _ "i + limit - 1"]) auto
qed

lemma fetch_from:
  assumes "ok s" and "0 < limit" and "start s b i" and "length (rows s) < i + fuel"
    and "i \<le> length (rows s)"
  shows "fetch_all (page s limit) rid limit fuel b = Some (drop i (rows s))"
  using assms(3-5)
proof (induction fuel arbitrary: b i)
  case 0
  then show ?case by simp
next
  case (Suc fuel)
  have page: "page s limit b = take limit (drop i (rows s))"
    using assms(1) Suc.prems(1) by (rule page_start)
  show ?case
  proof (cases "i + limit \<le> length (rows s)")
    case True
    have "fetch_all (page s limit) rid limit fuel
        (Some (rid (last (take limit (drop i (rows s)))))) = Some (drop (i + limit) (rows s))"
      by (rule Suc.IH [OF start_last [OF Suc.prems(1) assms(2) True]])
        (use Suc.prems assms(2) True in auto)
    moreover have "take limit (drop i (rows s)) @ drop (i + limit) (rows s) = drop i (rows s)"
      using append_take_drop_id [of limit "drop i (rows s)"] by (simp add: add.commute)
    ultimately show ?thesis
      using True assms(2) by (auto simp: page next_before_def)
  next
    case False
    then have "length (rows s) - i < limit" using Suc.prems(3) by arith
    then show ?thesis by (simp add: page next_before_def Let_def)
  qed
qed

lemma fetch_everything:
  assumes "ok s" and "0 < limit"
  shows "fetch_all (page s limit) rid limit (Suc (length (rows s))) None = Some (rows s)"
  using fetch_from [OF assms, of None 0 "Suc (length (rows s))"] by (simp add: start_def)

end

end
