(* ===== verification/Forward_Decision.thy ===== *)
theory Forward_Decision
  imports Entities
begin

text \<open>
  The retry policy (\<open>application/use_cases/forward_decision.py\<close>): the pure decision taken
  after each delivery attempt, and what a whole chain of attempts amounts to.
\<close>

section \<open>The decision\<close>

definition RETRYABLE_STATUS :: "int list" where
  "RETRYABLE_STATUS = [408, 425, 429, 500, 502, 503, 504, 507, 508]"

datatype next_status = NSucceeded | NFailed | NDead

record decision =
  next_status :: next_status
  defer_seconds :: int

text \<open>
  \<open>RETRY_BACKOFFS[i]\<close> of Python: a negative index counts from the end, beyond either end it raises.
\<close>

definition item_at :: "'a list \<Rightarrow> nat \<Rightarrow> 'a res" where
  "item_at xs n = (case drop n xs of [] \<Rightarrow> Inl IndexError | x # rest \<Rightarrow> Inr x)"

definition py_index :: "'a list \<Rightarrow> int \<Rightarrow> 'a res" where
  "py_index xs i = (if i < 0 then item_at (rev xs) (nat (- 1 - i)) else item_at xs (nat i))"

lemma item_at_nth: "n < length xs \<Longrightarrow> item_at xs n = Inr (xs ! n)"
  by (simp add: item_at_def Cons_nth_drop_Suc [symmetric])

definition success_status :: "bool \<Rightarrow> int option \<Rightarrow> bool" where
  "success_status network_error http_status \<longleftrightarrow>
     \<not> network_error \<and> (case http_status of None \<Rightarrow> False | Some c \<Rightarrow> 200 \<le> c \<and> c < 300)"

definition is_retryable :: "bool \<Rightarrow> int option \<Rightarrow> bool" where
  "is_retryable network_error http_status \<longleftrightarrow>
     network_error \<or> (case http_status of None \<Rightarrow> False | Some c \<Rightarrow> c \<in> set RETRYABLE_STATUS)"

definition decide :: "int \<Rightarrow> int option \<Rightarrow> bool \<Rightarrow> decision res" where
  "decide attempt_count http_status network_error =
     (if success_status network_error http_status
      then Inr \<lparr>next_status = NSucceeded, defer_seconds = 0\<rparr>
      else if \<not> is_retryable network_error http_status
      then Inr \<lparr>next_status = NDead, defer_seconds = 0\<rparr>
      else if MAX_ATTEMPTS \<le> attempt_count
      then Inr \<lparr>next_status = NDead, defer_seconds = 0\<rparr>
      else bindR (py_index RETRY_BACKOFFS (attempt_count - 1)) (\<lambda>d.
        Inr \<lparr>next_status = NFailed, defer_seconds = d\<rparr>))"

fun status_of_next :: "next_status \<Rightarrow> forward_status" where
  "status_of_next NSucceeded = Succeeded"
| "status_of_next NFailed = Failed"
| "status_of_next NDead = Dead"

lemma status_of_next_simps [simp]:
  "status_of_next n = Succeeded \<longleftrightarrow> n = NSucceeded"
  "status_of_next n = Failed \<longleftrightarrow> n = NFailed"
  "status_of_next n = Dead \<longleftrightarrow> n = NDead"
  "status_of_next n \<noteq> Pending" "status_of_next n \<noteq> In_flight" "status_of_next n \<noteq> Abandoned"
  by (cases n; simp)+

lemma py_index_backoffs:
  "1 \<le> n \<Longrightarrow> n < MAX_ATTEMPTS \<Longrightarrow> py_index RETRY_BACKOFFS (n - 1) = Inr (RETRY_BACKOFFS ! nat (n - 1))"
  by (simp add: py_index_def item_at_nth RETRY_BACKOFFS_def)

lemma decide_total: "1 \<le> n \<Longrightarrow> \<exists>d. decide n c e = Inr d"
  by (auto simp: decide_def py_index_backoffs)

lemma decide_next_status:
  assumes "1 \<le> n" and "decide n c e = Inr d"
  shows "next_status d =
    (if success_status e c then NSucceeded
     else if is_retryable e c \<and> n < MAX_ATTEMPTS then NFailed else NDead)"
  using assms by (auto simp: decide_def py_index_backoffs split: if_splits)

lemma success_not_retryable: "success_status e c \<Longrightarrow> \<not> is_retryable e c"
  by (auto simp: success_status_def is_retryable_def RETRYABLE_STATUS_def split: option.splits)

lemma decide_failed_below_max: "decide n c e = Inr d \<Longrightarrow> next_status d = NFailed \<Longrightarrow> n < MAX_ATTEMPTS"
  by (auto simp: decide_def bindR_Inr_iff split: if_splits)

text \<open>
  The decision table: after an attempt with a positive count the decision never raises. It
  is success exactly on a 2xx answer without a network error, another attempt exactly when the
  failure is retryable and the budget is not used up, with the delay the schedule gives for that
  attempt, and dead otherwise, with no delay.
\<close>

lemma decide_table:
  assumes "1 \<le> n"
  shows "decide n c e = Inr
    (if success_status e c then \<lparr>next_status = NSucceeded, defer_seconds = 0\<rparr>
     else if is_retryable e c \<and> n < MAX_ATTEMPTS
     then \<lparr>next_status = NFailed, defer_seconds = [30, 120, 600, 3600] ! nat (n - 1)\<rparr>
     else \<lparr>next_status = NDead, defer_seconds = 0\<rparr>)"
proof -
  have "n < 5 \<Longrightarrow> RETRY_BACKOFFS ! nat (n - 1) = [30, 120, 600, 3600] ! nat (n - 1)"
  proof -
    assume "n < 5"
    with assms have "n = 1 \<or> n = 2 \<or> n = 3 \<or> n = 4" by arith
    then show ?thesis by (auto simp: RETRY_BACKOFFS_def)
  qed
  then show ?thesis
    using assms py_index_backoffs [of n] by (auto simp: decide_def)
qed

lemma decide_table_witness:
  "decide 2 (Some 503) False = Inr \<lparr>next_status = NFailed, defer_seconds = 120\<rparr>"
  using decide_table [of 2 "Some 503" False]
  by (simp add: success_status_def is_retryable_def RETRYABLE_STATUS_def)

section \<open>A chain of attempts\<close>

text \<open>
  What one forward goes through when nothing else touches it: every attempt adds one to the
  count, the answer of the receiver decides, and a retry is scheduled after the delay. The list
  holds the answers in order; the result is the final status, the number of attempts and the
  total scheduled delay in seconds, or None when the answers run out first.
\<close>

fun delivery_chain ::
  "int \<Rightarrow> (int option \<times> bool) list \<Rightarrow> int \<Rightarrow> (next_status \<times> int \<times> int) res option" where
  "delivery_chain count [] waited = None"
| "delivery_chain count ((http_status, network_error) # answers) waited =
     (case decide (count + 1) http_status network_error of
        Inl e \<Rightarrow> Some (Inl e)
      | Inr d \<Rightarrow>
          (if next_status d = NFailed
           then delivery_chain (count + 1) answers (waited + defer_seconds d)
           else Some (Inr (next_status d, count + 1, waited))))"

lemma decide_NFailed_defer:
  assumes "1 \<le> n" and "decide n c e = Inr d" and "next_status d = NFailed"
  shows "n < 5" "defer_seconds d = [30, 120, 600, 3600] ! nat (n - 1)"
  using assms decide_failed_below_max [OF assms(2,3)]
  by (auto simp: decide_table split: if_splits)

text \<open>The delay still to come from attempt \<open>n\<close> on is at most the rest of the schedule.\<close>

definition remaining_delay :: "int \<Rightarrow> int" where
  "remaining_delay n =
     (if n \<le> 0 then 4350 else if n = 1 then 4320 else if n = 2 then 4200
      else if n = 3 then 3600 else 0)"

lemma remaining_delay_step:
  assumes "1 \<le> n" "n < 5"
  shows "[30, 120, 600, 3600] ! nat (n - 1) + remaining_delay n = remaining_delay (n - 1)"
proof -
  have "n = 1 \<or> n = 2 \<or> n = 3 \<or> n = 4" using assms by arith
  then show ?thesis by (auto simp: remaining_delay_def)
qed

lemma remaining_delay_nonneg: "0 \<le> remaining_delay n"
  by (simp add: remaining_delay_def)

lemma delivery_chain_bounded:
  assumes "0 \<le> count" and "count < 5" and "5 - count \<le> int (length answers)"
  shows "\<exists>s n w. delivery_chain count answers waited = Some (Inr (s, n, w)) \<and>
    s \<noteq> NFailed \<and> n \<le> 5 \<and> w \<le> waited + remaining_delay count"
  using assms
proof (induction count answers waited rule: delivery_chain.induct)
  case (1 count waited)
  then show ?case by simp
next
  case (2 count c e answers waited)
  have pos: "1 \<le> count + 1" using "2.prems" by simp
  obtain d where d: "decide (count + 1) c e = Inr d" using decide_total [OF pos] by blast
  show ?case
  proof (cases "next_status d = NFailed")
    case True
    note b = decide_NFailed_defer [OF pos d True]
    have "\<exists>s n w. delivery_chain (count + 1) answers (waited + defer_seconds d) = Some (Inr (s, n, w)) \<and>
        s \<noteq> NFailed \<and> n \<le> 5 \<and> w \<le> waited + defer_seconds d + remaining_delay (count + 1)"
      by (rule "2.IH" [OF d True]) (use "2.prems" b in auto)
    moreover have "defer_seconds d + remaining_delay (count + 1) = remaining_delay count"
      using remaining_delay_step [OF pos b(1)] b(2) by simp
    ultimately show ?thesis using d True by (auto simp: add.assoc)
  next
    case False
    then show ?thesis using d "2.prems" remaining_delay_nonneg [of count] by auto
  qed
qed

text \<open>
  C24. Delivery ends: a new forward needs at most five attempts, whatever the receiver answers,
  to reach a terminal decision (never \<open>failed\<close>), and the delays it is scheduled for add up to
  at most 4350 seconds. The last entry of the schedule, four hours, is never used.
\<close>

theorem delivery_terminates:
  assumes "5 \<le> length answers"
  shows "\<exists>s n w. delivery_chain 0 answers 0 = Some (Inr (s, n, w)) \<and>
    s \<noteq> NFailed \<and> n \<le> MAX_ATTEMPTS \<and> w \<le> 4350"
  using delivery_chain_bounded [of 0 answers 0] assms by (auto simp: remaining_delay_def)

theorem delivery_terminates_witness:
  "\<exists>s n w. delivery_chain 0 (replicate 5 (Some 503, False)) 0 = Some (Inr (s, n, w)) \<and>
    s \<noteq> NFailed \<and> n \<le> MAX_ATTEMPTS \<and> w \<le> 4350"
  using delivery_terminates [of "replicate 5 (Some 503, False)"] by simp

end
