(* ===== verification/Forward_Repository.thy ===== *)
theory Forward_Repository
  imports Database Pagination Forward_Decision
begin

text \<open>
  \<open>PostgresForwardRepository\<close>: each operation is the SQL statement the class builds, on the
  table of forwards. The locale \<open>forward_store\<close> states the port's contract
  (\<open>domain/ports/forward_repository.py\<close>) on single rows; the operations interpret it.
\<close>

section \<open>Rows and entities\<close>

fun status_str :: "forward_status \<Rightarrow> string" where
  "status_str Pending = ''pending''"
| "status_str In_flight = ''in_flight''"
| "status_str Succeeded = ''succeeded''"
| "status_str Failed = ''failed''"
| "status_str Dead = ''dead''"
| "status_str Abandoned = ''abandoned''"

lemma status_str_inject [simp]: "status_str s = status_str t \<longleftrightarrow> s = t"
  by (cases s; cases t) simp_all

definition forward_to_row :: "forward \<Rightarrow> forward" where
  "forward_to_row f =
     \<lparr>fw_id = fw_id f, fw_request_id = fw_request_id f, fw_endpoint_id = fw_endpoint_id f,
      fw_target_url = fw_target_url f, fw_status = fw_status f,
      fw_attempt_count = fw_attempt_count f, fw_last_attempt_at = fw_last_attempt_at f,
      fw_next_attempt_at = fw_next_attempt_at f, fw_final_status_code = fw_final_status_code f,
      fw_final_error = fw_final_error f, fw_started_at = fw_started_at f,
      fw_completed_at = fw_completed_at f, fw_created_at = fw_created_at f,
      fw_manual_retry_at = fw_manual_retry_at f\<rparr>"

definition forward_to_entity :: "forward \<Rightarrow> forward" where
  "forward_to_entity row =
     \<lparr>fw_id = fw_id row, fw_request_id = fw_request_id row, fw_endpoint_id = fw_endpoint_id row,
      fw_target_url = fw_target_url row, fw_status = fw_status row,
      fw_attempt_count = fw_attempt_count row, fw_last_attempt_at = fw_last_attempt_at row,
      fw_next_attempt_at = fw_next_attempt_at row,
      fw_final_status_code = fw_final_status_code row, fw_final_error = fw_final_error row,
      fw_started_at = fw_started_at row, fw_completed_at = fw_completed_at row,
      fw_created_at = fw_created_at row, fw_manual_retry_at = fw_manual_retry_at row\<rparr>"

lemma forward_row_entity [simp]: "forward_to_row f = f" "forward_to_entity f = f"
  by (simp_all add: forward_to_row_def forward_to_entity_def)

section \<open>Statements\<close>

definition forward_save :: "forward \<Rightarrow> db \<Rightarrow> unit res \<times> db" where
  "forward_save f d =
     (let row = forward_to_row f in
      if fw_id row \<in> fw_id ` set (db_forwards d) \<or> fw_request_id row \<notin> request_ids d \<or>
         fw_endpoint_id row \<notin> endpoint_ids d
      then (Inl IntegrityError, d)
      else (Inr (), d\<lparr>db_forwards := db_forwards d @ [row]\<rparr>))"

definition forward_find_by_id :: "uuid \<Rightarrow> db \<Rightarrow> forward option" where
  "forward_find_by_id i d = map_option forward_to_entity (lookup_row fw_id i (db_forwards d))"

definition forward_set_all :: "forward \<Rightarrow> forward \<Rightarrow> forward" where
  "forward_set_all f row =
     row\<lparr>fw_status := fw_status f, fw_attempt_count := fw_attempt_count f,
         fw_last_attempt_at := fw_last_attempt_at f, fw_next_attempt_at := fw_next_attempt_at f,
         fw_final_status_code := fw_final_status_code f, fw_final_error := fw_final_error f,
         fw_started_at := fw_started_at f, fw_completed_at := fw_completed_at f,
         fw_manual_retry_at := fw_manual_retry_at f\<rparr>"

definition forward_update :: "forward \<Rightarrow> db \<Rightarrow> db" where
  "forward_update f d = d\<lparr>db_forwards :=
     sql_update (\<lambda>row. fw_id row = fw_id f) (forward_set_all f) (db_forwards d)\<rparr>"

definition forward_list_by_request :: "uuid \<Rightarrow> db \<Rightarrow> forward list" where
  "forward_list_by_request request_id d =
     map forward_to_entity
       (sort_key fw_created_at (filter (\<lambda>f. fw_request_id f = request_id) (db_forwards d)))"

text \<open>\<open>claim_for_attempt\<close>: one UPDATE with RETURNING, guarded by the status.\<close>

definition claimable :: "uuid \<Rightarrow> forward \<Rightarrow> bool" where
  "claimable i f \<longleftrightarrow> fw_id f = i \<and> fw_status f \<in> {Pending, Failed}"

definition set_claimed :: "time \<Rightarrow> forward \<Rightarrow> forward" where
  "set_claimed now f =
     f\<lparr>fw_status := In_flight, fw_attempt_count := fw_attempt_count f + 1,
       fw_last_attempt_at := Some now, fw_started_at := Some now\<rparr>"

definition claim_for_attempt :: "uuid \<Rightarrow> time \<Rightarrow> db \<Rightarrow> forward option \<times> db" where
  "claim_for_attempt i now d =
     (map_option forward_to_entity
        (scalar_one_or_none (sql_returning (claimable i) (set_claimed now) (db_forwards d))),
      d\<lparr>db_forwards := sql_update (claimable i) (set_claimed now) (db_forwards d)\<rparr>)"

text \<open>\<open>record_outcome\<close>: the UPDATE is guarded by the identifier only.\<close>

definition set_outcome ::
  "next_status \<Rightarrow> int option \<Rightarrow> string option \<Rightarrow> time option \<Rightarrow> time \<Rightarrow> forward \<Rightarrow> forward" where
  "set_outcome ns final_status_code final_error next_attempt_at now f =
     f\<lparr>fw_status := status_of_next ns, fw_final_status_code := final_status_code,
       fw_final_error := final_error, fw_next_attempt_at := next_attempt_at,
       fw_completed_at := (if ns = NSucceeded \<or> ns = NDead then Some now else None)\<rparr>"

definition record_outcome ::
  "uuid \<Rightarrow> next_status \<Rightarrow> int option \<Rightarrow> string option \<Rightarrow> time option \<Rightarrow> time \<Rightarrow> db \<Rightarrow> db" where
  "record_outcome i ns final_status_code final_error next_attempt_at now d = d\<lparr>db_forwards :=
     sql_update (\<lambda>f. fw_id f = i)
       (set_outcome ns final_status_code final_error next_attempt_at now) (db_forwards d)\<rparr>"

text \<open>\<open>list_by_endpoint\<close>; an empty list of statuses means no filter, as None does.\<close>

definition status_filter :: "string list option \<Rightarrow> forward \<Rightarrow> bool" where
  "status_filter statuses f \<longleftrightarrow>
     (case statuses of None \<Rightarrow> True | Some ss \<Rightarrow> ss = [] \<or> status_str (fw_status f) \<in> set ss)"

definition forward_list_by_endpoint ::
  "uuid \<Rightarrow> string list option \<Rightarrow> nat \<Rightarrow> uuid option \<Rightarrow> db \<Rightarrow> forward list" where
  "forward_list_by_endpoint endpoint_id statuses limit before_id d =
     (let cursor = (case before_id of None \<Rightarrow> None
                    | Some b \<Rightarrow> lookup_row fw_id b (db_forwards d))
      in map forward_to_entity
        (keyset_page fw_created_at fw_id limit cursor
          (filter (\<lambda>f. fw_endpoint_id f = endpoint_id \<and> status_filter statuses f)
            (db_forwards d))))"

text \<open>\<open>count_by_status\<close>: every status starts at 0, then the groups overwrite their entry.\<close>

definition group_by_status :: "uuid \<Rightarrow> db \<Rightarrow> (forward_status \<times> int) list" where
  "group_by_status endpoint_id d =
     (let fs = filter (\<lambda>f. fw_endpoint_id f = endpoint_id) (db_forwards d)
      in map (\<lambda>s. (s, int (length (filter (\<lambda>f. fw_status f = s) fs)))) (remdups (map fw_status fs)))"

definition count_by_status :: "uuid \<Rightarrow> db \<Rightarrow> (forward_status \<times> int) list" where
  "count_by_status endpoint_id d =
     dict_update (map (\<lambda>s. (s, 0)) enum_class.enum) (group_by_status endpoint_id d)"

definition retryable_row :: "uuid \<Rightarrow> uuid \<Rightarrow> forward \<Rightarrow> bool" where
  "retryable_row i endpoint_id f \<longleftrightarrow>
     fw_id f = i \<and> fw_endpoint_id f = endpoint_id \<and> fw_status f \<in> {Failed, Dead, Abandoned}"

definition set_manual_retry :: "time \<Rightarrow> forward \<Rightarrow> forward" where
  "set_manual_retry now f =
     f\<lparr>fw_status := Pending,
       fw_attempt_count :=
         (if fw_status f \<in> {Dead, Abandoned} then max 0 (MAX_ATTEMPTS - 1) else fw_attempt_count f),
       fw_manual_retry_at := Some now, fw_next_attempt_at := Some now,
       fw_final_error := None, fw_final_status_code := None, fw_completed_at := None\<rparr>"

definition claim_for_manual_retry :: "uuid \<Rightarrow> uuid \<Rightarrow> time \<Rightarrow> db \<Rightarrow> forward option \<times> db" where
  "claim_for_manual_retry i endpoint_id now d =
     (map_option forward_to_entity
        (scalar_one_or_none
          (sql_returning (retryable_row i endpoint_id) (set_manual_retry now) (db_forwards d))),
      d\<lparr>db_forwards :=
        sql_update (retryable_row i endpoint_id) (set_manual_retry now) (db_forwards d)\<rparr>)"

definition abandonable :: "uuid \<Rightarrow> uuid \<Rightarrow> forward \<Rightarrow> bool" where
  "abandonable i endpoint_id f \<longleftrightarrow>
     fw_id f = i \<and> fw_endpoint_id f = endpoint_id \<and> fw_status f \<notin> {Succeeded, Dead, Abandoned}"

definition set_abandoned :: "time \<Rightarrow> forward \<Rightarrow> forward" where
  "set_abandoned now f =
     f\<lparr>fw_status := Abandoned, fw_completed_at := Some now,
       fw_final_error := Some ''manually abandoned by owner''\<rparr>"

definition abandon :: "uuid \<Rightarrow> uuid \<Rightarrow> time \<Rightarrow> db \<Rightarrow> forward option \<times> db" where
  "abandon i endpoint_id now d =
     (map_option forward_to_entity
        (scalar_one_or_none
          (sql_returning (abandonable i endpoint_id) (set_abandoned now) (db_forwards d))),
      d\<lparr>db_forwards := sql_update (abandonable i endpoint_id) (set_abandoned now) (db_forwards d)\<rparr>)"

definition redrive_stuck_pending :: "uuid \<Rightarrow> int \<Rightarrow> time \<Rightarrow> db \<Rightarrow> uuid list" where
  "redrive_stuck_pending endpoint_id threshold_seconds now d =
     (let threshold = now - seconds threshold_seconds
      in map fw_id (sort_key fw_created_at
        (filter (\<lambda>f. fw_endpoint_id f = endpoint_id \<and> fw_status f = Pending \<and>
           fw_created_at f < threshold) (db_forwards d))))"

definition stuck_in_flight :: "uuid \<Rightarrow> time \<Rightarrow> forward \<Rightarrow> bool" where
  "stuck_in_flight endpoint_id threshold f \<longleftrightarrow>
     fw_endpoint_id f = endpoint_id \<and> fw_status f = In_flight \<and> null_lt (fw_started_at f) threshold"

definition set_reclaimed :: "time \<Rightarrow> forward \<Rightarrow> forward" where
  "set_reclaimed now f = f\<lparr>fw_status := Failed, fw_next_attempt_at := Some now\<rparr>"

definition reclaim_stuck_in_flight :: "uuid \<Rightarrow> int \<Rightarrow> time \<Rightarrow> db \<Rightarrow> uuid list \<times> db" where
  "reclaim_stuck_in_flight endpoint_id threshold_seconds now d =
     (let stuck = stuck_in_flight endpoint_id (now - seconds threshold_seconds)
      in (map fw_id (sql_returning stuck (set_reclaimed now) (db_forwards d)),
          d\<lparr>db_forwards := sql_update stuck (set_reclaimed now) (db_forwards d)\<rparr>))"

text \<open>The rows sorted by a \<open>next_attempt_at\<close> that is not NULL.\<close>

definition list_overdue_failed :: "uuid \<Rightarrow> time \<Rightarrow> db \<Rightarrow> uuid list" where
  "list_overdue_failed endpoint_id now d =
     map fw_id (sort_key (\<lambda>f. case fw_next_attempt_at f of None \<Rightarrow> 0 | Some t \<Rightarrow> t)
       (filter (\<lambda>f. fw_endpoint_id f = endpoint_id \<and> fw_status f = Failed \<and>
          fw_next_attempt_at f \<noteq> None \<and> null_le (fw_next_attempt_at f) now) (db_forwards d)))"

section \<open>Frames: what the statements leave alone\<close>

named_theorems forward_frame \<open>fields a statement does not write\<close>

lemma set_claimed_frame [forward_frame, simp]:
  "fw_id (set_claimed now f) = fw_id f" "fw_endpoint_id (set_claimed now f) = fw_endpoint_id f"
  "fw_request_id (set_claimed now f) = fw_request_id f"
  "fw_target_url (set_claimed now f) = fw_target_url f"
  "fw_created_at (set_claimed now f) = fw_created_at f"
  by (simp_all add: set_claimed_def)

lemma set_outcome_frame [forward_frame, simp]:
  "fw_id (set_outcome ns c e t now f) = fw_id f"
  "fw_endpoint_id (set_outcome ns c e t now f) = fw_endpoint_id f"
  "fw_request_id (set_outcome ns c e t now f) = fw_request_id f"
  "fw_target_url (set_outcome ns c e t now f) = fw_target_url f"
  "fw_created_at (set_outcome ns c e t now f) = fw_created_at f"
  "fw_attempt_count (set_outcome ns c e t now f) = fw_attempt_count f"
  by (simp_all add: set_outcome_def)

lemma set_manual_retry_frame [forward_frame, simp]:
  "fw_id (set_manual_retry now f) = fw_id f"
  "fw_endpoint_id (set_manual_retry now f) = fw_endpoint_id f"
  "fw_request_id (set_manual_retry now f) = fw_request_id f"
  "fw_target_url (set_manual_retry now f) = fw_target_url f"
  "fw_created_at (set_manual_retry now f) = fw_created_at f"
  by (simp_all add: set_manual_retry_def)

lemma set_abandoned_frame [forward_frame, simp]:
  "fw_id (set_abandoned now f) = fw_id f"
  "fw_endpoint_id (set_abandoned now f) = fw_endpoint_id f"
  "fw_request_id (set_abandoned now f) = fw_request_id f"
  "fw_target_url (set_abandoned now f) = fw_target_url f"
  "fw_created_at (set_abandoned now f) = fw_created_at f"
  "fw_attempt_count (set_abandoned now f) = fw_attempt_count f"
  by (simp_all add: set_abandoned_def)

lemma set_reclaimed_frame [forward_frame, simp]:
  "fw_id (set_reclaimed now f) = fw_id f"
  "fw_endpoint_id (set_reclaimed now f) = fw_endpoint_id f"
  "fw_request_id (set_reclaimed now f) = fw_request_id f"
  "fw_target_url (set_reclaimed now f) = fw_target_url f"
  "fw_created_at (set_reclaimed now f) = fw_created_at f"
  "fw_attempt_count (set_reclaimed now f) = fw_attempt_count f"
  by (simp_all add: set_reclaimed_def)

lemma forward_set_all_frame [forward_frame, simp]:
  "fw_id (forward_set_all g f) = fw_id f"
  "fw_endpoint_id (forward_set_all g f) = fw_endpoint_id f"
  "fw_request_id (forward_set_all g f) = fw_request_id f"
  by (simp_all add: forward_set_all_def)

lemma db_ok_update_forwards:
  assumes "db_ok d" and "\<And>r. fw_id (g r) = fw_id r"
    and "\<And>r. fw_request_id (g r) = fw_request_id r" and "\<And>r. fw_endpoint_id (g r) = fw_endpoint_id r"
  shows "db_ok (d\<lparr>db_forwards := sql_update p g (db_forwards d)\<rparr>)"
proof -
  have "\<forall>f \<in> set (sql_update p g (db_forwards d)).
      fw_request_id f \<in> request_ids d \<and> fw_endpoint_id f \<in> endpoint_ids d"
    by (rule ball_sql_update) (use assms in \<open>auto simp: db_ok_defs\<close>)
  with assms(1) show ?thesis
    by (simp add: db_ok_defs key_ok_sql_update assms(2))
qed

lemma forward_ops_db_ok:
  "db_ok d \<Longrightarrow> db_ok (snd (claim_for_attempt i now d))"
  "db_ok d \<Longrightarrow> db_ok (record_outcome i ns c e t now d)"
  "db_ok d \<Longrightarrow> db_ok (snd (claim_for_manual_retry i eid now d))"
  "db_ok d \<Longrightarrow> db_ok (snd (abandon i eid now d))"
  "db_ok d \<Longrightarrow> db_ok (snd (reclaim_stuck_in_flight eid k now d))"
  "db_ok d \<Longrightarrow> db_ok (forward_update f d)"
  unfolding claim_for_attempt_def record_outcome_def claim_for_manual_retry_def abandon_def
    reclaim_stuck_in_flight_def forward_update_def Let_def snd_conv
  by (rule db_ok_update_forwards; simp)+

lemma forward_save_ok:
  assumes "db_ok d" and "forward_save f d = (Inr u, d')"
  shows "db_ok d'" "d' = d\<lparr>db_forwards := db_forwards d @ [f]\<rparr>"
proof -
  have new: "fw_id f \<notin> fw_id ` set (db_forwards d)" "fw_request_id f \<in> request_ids d"
    "fw_endpoint_id f \<in> endpoint_ids d" and d': "d' = d\<lparr>db_forwards := db_forwards d @ [f]\<rparr>"
    using assms(2) by (auto simp: forward_save_def Let_def split: if_splits)
  show "d' = d\<lparr>db_forwards := db_forwards d @ [f]\<rparr>" by (rule d')
  show "db_ok d'"
    using assms(1) new unfolding d'
    by (simp add: db_ok_defs key_ok_append_one lookup_row_None_image)
qed

section \<open>The contract of the port\<close>

text \<open>
  \<open>row_upd p g r\<close> is the effect on one row of an UPDATE with condition \<open>p\<close> and new values
  \<open>g\<close>; \<open>row_hit p g r\<close> what its RETURNING clause gives.
\<close>

definition row_upd :: "('r \<Rightarrow> bool) \<Rightarrow> ('r \<Rightarrow> 'r) \<Rightarrow> 'r option \<Rightarrow> 'r option" where
  "row_upd p g r = map_option (\<lambda>f. if p f then g f else f) r"

definition row_hit :: "('r \<Rightarrow> bool) \<Rightarrow> ('r \<Rightarrow> 'r) \<Rightarrow> 'r option \<Rightarrow> 'r option" where
  "row_hit p g r = (case r of None \<Rightarrow> None | Some f \<Rightarrow> if p f then Some (g f) else None)"

lemma row_upd_simps [simp]:
  "row_upd p g None = None" "row_upd p g (Some f) = Some (if p f then g f else f)"
  by (simp_all add: row_upd_def)

lemma row_hit_Some_iff: "row_hit p g r = Some f' \<longleftrightarrow> (\<exists>f. r = Some f \<and> p f \<and> f' = g f)"
  by (auto simp: row_hit_def split: option.splits)

lemma row_hit_None_iff: "row_hit p g r = None \<longleftrightarrow> (\<forall>f. r = Some f \<longrightarrow> \<not> p f)"
  by (auto simp: row_hit_def split: option.splits)

locale forward_store =
  fixes find :: "uuid \<Rightarrow> 's \<Rightarrow> forward option"
    and claim :: "uuid \<Rightarrow> time \<Rightarrow> 's \<Rightarrow> forward option \<times> 's"
    and outcome :: "uuid \<Rightarrow> next_status \<Rightarrow> int option \<Rightarrow> string option \<Rightarrow> time option \<Rightarrow> time \<Rightarrow> 's \<Rightarrow> 's"
    and retry :: "uuid \<Rightarrow> uuid \<Rightarrow> time \<Rightarrow> 's \<Rightarrow> forward option \<times> 's"
    and give_up :: "uuid \<Rightarrow> uuid \<Rightarrow> time \<Rightarrow> 's \<Rightarrow> forward option \<times> 's"
    and reclaim :: "uuid \<Rightarrow> int \<Rightarrow> time \<Rightarrow> 's \<Rightarrow> uuid list \<times> 's"
    and inv :: "'s \<Rightarrow> bool"
  assumes find_id: "find i s = Some f \<Longrightarrow> fw_id f = i"
    and claim_inv: "inv s \<Longrightarrow> inv (snd (claim i now s))"
    and claim_find: "inv s \<Longrightarrow> find j (snd (claim i now s)) = row_upd (claimable i) (set_claimed now) (find j s)"
    and claim_result: "inv s \<Longrightarrow> fst (claim i now s) = row_hit (claimable i) (set_claimed now) (find i s)"
    and outcome_inv: "inv s \<Longrightarrow> inv (outcome i ns c e t now s)"
    and outcome_find: "inv s \<Longrightarrow> find j (outcome i ns c e t now s) =
      row_upd (\<lambda>f. fw_id f = i) (set_outcome ns c e t now) (find j s)"
    and retry_inv: "inv s \<Longrightarrow> inv (snd (retry i eid now s))"
    and retry_find: "inv s \<Longrightarrow> find j (snd (retry i eid now s)) =
      row_upd (retryable_row i eid) (set_manual_retry now) (find j s)"
    and retry_result: "inv s \<Longrightarrow> fst (retry i eid now s) =
      row_hit (retryable_row i eid) (set_manual_retry now) (find i s)"
    and give_up_inv: "inv s \<Longrightarrow> inv (snd (give_up i eid now s))"
    and give_up_find: "inv s \<Longrightarrow> find j (snd (give_up i eid now s)) =
      row_upd (abandonable i eid) (set_abandoned now) (find j s)"
    and give_up_result: "inv s \<Longrightarrow> fst (give_up i eid now s) =
      row_hit (abandonable i eid) (set_abandoned now) (find i s)"
    and reclaim_inv: "inv s \<Longrightarrow> inv (snd (reclaim eid k now s))"
    and reclaim_find: "inv s \<Longrightarrow> find j (snd (reclaim eid k now s)) =
      row_upd (stuck_in_flight eid (now - seconds k)) (set_reclaimed now) (find j s)"
begin

lemmas invs = claim_inv outcome_inv retry_inv give_up_inv reclaim_inv
lemmas finds = claim_find outcome_find retry_find give_up_find reclaim_find
lemmas results = claim_result retry_result give_up_result

lemma claim_SomeD:
  assumes "inv s" and "claim i now s = (Some f, s')"
  shows "inv s'" "find i s' = Some f" "fw_status f = In_flight" "fw_id f = i"
    "\<exists>g. find i s = Some g \<and> fw_status g \<in> {Pending, Failed} \<and> f = set_claimed now g"
proof -
  have s': "s' = snd (claim i now s)" and res: "row_hit (claimable i) (set_claimed now) (find i s) = Some f"
    using assms(2) claim_result [OF assms(1), of i now] by auto
  then obtain g where g: "find i s = Some g" "claimable i g" "f = set_claimed now g"
    by (auto simp: row_hit_Some_iff)
  show "inv s'" unfolding s' using assms(1) by (rule claim_inv)
  show "find i s' = Some f" unfolding s' using g by (simp add: claim_find assms(1))
  show "fw_status f = In_flight" "fw_id f = i"
    using g by (auto simp: set_claimed_def claimable_def)
  show "\<exists>g. find i s = Some g \<and> fw_status g \<in> {Pending, Failed} \<and> f = set_claimed now g"
    using g by (auto simp: claimable_def)
qed

text \<open>Of two jobs for the same row, the second finds nothing to claim.\<close>

lemma second_claim_fails:
  assumes "inv s" and "claim i now s = (Some f, s')"
  shows "fst (claim i now' s') = None"
  using claim_SomeD [OF assms] by (simp add: claim_result row_hit_def claimable_def)

lemma claim_other_row:
  assumes "inv s" and "j \<noteq> i"
  shows "find j (snd (claim i now s)) = find j s"
  using find_id [of j s]
  by (cases "find j s") (auto simp: claim_find assms claimable_def)

text \<open>A row in a terminal status is not claimed, until a manual retry makes it pending.\<close>

lemma terminal_not_claimed:
  assumes "inv s" and "find i s = Some f" and "terminal (fw_status f)"
  shows "claim i now s = (None, snd (claim i now s))" "find i (snd (claim i now s)) = Some f"
  using assms by (auto simp: claim_result claim_find row_hit_def claimable_def prod_eq_iff)

lemma abandoned_then_claim:
  assumes "inv s" and "give_up i eid now s = (Some f, s')"
  shows "fst (claim i now' s') = None" "fw_status f = Abandoned"
proof -
  have s': "s' = snd (give_up i eid now s)"
    and res: "row_hit (abandonable i eid) (set_abandoned now) (find i s) = Some f"
    using assms(2) give_up_result [OF assms(1), of i eid now] by auto
  then obtain g where g: "find i s = Some g" "abandonable i eid g" "f = set_abandoned now g"
    by (auto simp: row_hit_Some_iff)
  then show "fw_status f = Abandoned" by (simp add: set_abandoned_def)
  show "fst (claim i now' s') = None"
    unfolding s' using g
    by (simp add: claim_result give_up_inv assms(1) give_up_find row_hit_def claimable_def
        set_abandoned_def)
qed

text \<open>A manual retry of a row that used up its budget buys exactly one more attempt.\<close>

lemma retry_then_claim:
  assumes "inv s" and "find i s = Some f" and "fw_endpoint_id f = eid"
    and "fw_status f \<in> {Dead, Abandoned}"
  shows "fst (claim i now' (snd (retry i eid now s))) =
    Some (set_claimed now' (set_manual_retry now f))"
    "fw_attempt_count (set_claimed now' (set_manual_retry now f)) = MAX_ATTEMPTS"
  using assms find_id [OF assms(2)]
  by (auto simp: claim_result retry_inv retry_find row_hit_def claimable_def retryable_row_def
      set_manual_retry_def set_claimed_def)

text \<open>The outcome of an attempt is written whatever the row became since the claim.\<close>

lemma outcome_overwrites:
  assumes "inv s" and "find i s = Some f"
  shows "find i (outcome i ns c e t now s) = Some (set_outcome ns c e t now f)"
  using assms find_id [OF assms(2)] by (simp add: outcome_find)

end

lemma row_upd_sql_update:
  "(\<And>r. fw_id (g r) = fw_id r) \<Longrightarrow>
   lookup_row fw_id j (sql_update p g t) = row_upd p g (lookup_row fw_id j t)"
  by (simp add: lookup_sql_update row_upd_def)

lemma map_forward_to_entity [simp]: "map_option forward_to_entity r = r"
  by (cases r) simp_all

lemma forward_find_by_id_eq: "forward_find_by_id i d = lookup_row fw_id i (db_forwards d)"
  by (simp add: forward_find_by_id_def)

lemma row_hit_returning:
  assumes "key_ok fw_id t" and "\<And>f. p f \<Longrightarrow> fw_id f = i"
  shows "scalar_one_or_none (sql_returning p g t) = row_hit p g (lookup_row fw_id i t)"
proof -
  have "filter p t = filter (\<lambda>f. fw_id f = i \<and> p f) t"
    using assms(2) by (intro filter_cong) auto
  then show ?thesis
    by (simp add: sql_returning_def scalar_map scalar_filter_lookup [OF assms(1)] row_hit_def
        split: option.splits)
qed

lemma db_ok_forward_keys: "db_ok d \<Longrightarrow> key_ok fw_id (db_forwards d)"
  by (simp add: db_ok_defs)

lemma forward_find_SomeD: "forward_find_by_id i d = Some f \<Longrightarrow> fw_id f = i"
  by (auto simp: forward_find_by_id_eq dest: lookup_row_SomeD)

lemma find_after_statement:
  "forward_find_by_id j (snd (claim_for_attempt i now d)) =
     row_upd (claimable i) (set_claimed now) (forward_find_by_id j d)"
  "forward_find_by_id j (record_outcome i ns c e t now d) =
     row_upd (\<lambda>f. fw_id f = i) (set_outcome ns c e t now) (forward_find_by_id j d)"
  "forward_find_by_id j (snd (claim_for_manual_retry i eid now d)) =
     row_upd (retryable_row i eid) (set_manual_retry now) (forward_find_by_id j d)"
  "forward_find_by_id j (snd (abandon i eid now d)) =
     row_upd (abandonable i eid) (set_abandoned now) (forward_find_by_id j d)"
  "forward_find_by_id j (snd (reclaim_stuck_in_flight eid k now d)) =
     row_upd (stuck_in_flight eid (now - seconds k)) (set_reclaimed now) (forward_find_by_id j d)"
  by (simp_all add: forward_find_by_id_eq claim_for_attempt_def record_outcome_def abandon_def
      claim_for_manual_retry_def reclaim_stuck_in_flight_def Let_def row_upd_sql_update)

lemma returning_statement:
  assumes "db_ok d"
  shows "fst (claim_for_attempt i now d) =
      row_hit (claimable i) (set_claimed now) (forward_find_by_id i d)"
    "fst (claim_for_manual_retry i eid now d) =
      row_hit (retryable_row i eid) (set_manual_retry now) (forward_find_by_id i d)"
    "fst (abandon i eid now d) =
      row_hit (abandonable i eid) (set_abandoned now) (forward_find_by_id i d)"
  unfolding claim_for_attempt_def claim_for_manual_retry_def abandon_def forward_find_by_id_eq
    fst_conv map_forward_to_entity
  by (rule row_hit_returning [OF db_ok_forward_keys [OF assms]];
      simp add: claimable_def retryable_row_def abandonable_def)+

interpretation pg: forward_store forward_find_by_id claim_for_attempt record_outcome
  claim_for_manual_retry abandon reclaim_stuck_in_flight db_ok
  by unfold_locales
    (erule forward_find_SomeD forward_ops_db_ok returning_statement | rule find_after_statement)+

end
