(* ===== verification/Lifecycle.thy ===== *)
theory Lifecycle
  imports Forward_Repository
begin

text \<open>
  The abstract specification of the forwards: the rows of the table, the attempts under way, and every
  claim ever made, moved by the statements of the repository. The system of the next theory refines it.
  The invariants of the specification are proved here, once for any steps and once for the steps
  without the operator actions that may interrupt an attempt.
\<close>

section \<open>The specification\<close>

text \<open>An attempt is the row as its claim returned it.\<close>

record life =
  lf_rows :: "forward list"
  lf_running :: "forward list"
  lf_claims :: "forward list"

datatype operator_action = Retrying | Abandoning | Redriving

inductive life_step :: "operator_action set \<Rightarrow> life \<Rightarrow> life \<Rightarrow> bool" for ops where
  idle: "life_step ops l l"
| created: "f = forward_create i r e u now \<Longrightarrow> i \<notin> fw_id ` set (lf_rows l) \<Longrightarrow> i \<notin> fw_id ` set (lf_claims l) \<Longrightarrow>
    life_step ops l (l\<lparr>lf_rows := lf_rows l @ [f]\<rparr>)"
| claimed: "f \<in> set (lf_rows l) \<Longrightarrow> claimable i f \<Longrightarrow> c = set_claimed now f \<Longrightarrow>
    life_step ops l \<lparr>lf_rows = sql_update (claimable i) (set_claimed now) (lf_rows l),
      lf_running = lf_running l @ [c], lf_claims = lf_claims l @ [c]\<rparr>"
| finished: "lf_running l = xs @ c # ys \<Longrightarrow>
    ns = NFailed \<Longrightarrow> next_at \<noteq> None \<and> fw_attempt_count c < MAX_ATTEMPTS \<Longrightarrow>
    life_step ops l (l\<lparr>lf_rows := sql_update (\<lambda>f. fw_id f = fw_id c) (set_outcome ns code err next_at now) (lf_rows l),
      lf_running := xs @ ys\<rparr>)"
| ended: "lf_running l = xs @ c # ys \<Longrightarrow> ns \<noteq> NFailed \<Longrightarrow>
    life_step ops l (l\<lparr>lf_rows := sql_update (\<lambda>f. fw_id f = fw_id c) (set_outcome ns code err next_at now) (lf_rows l),
      lf_running := xs @ ys\<rparr>)"
| dropped: "lf_running l = xs @ c # ys \<Longrightarrow> life_step ops l (l\<lparr>lf_running := xs @ ys\<rparr>)"
| retried: "Retrying \<in> ops \<Longrightarrow>
    life_step ops l (l\<lparr>lf_rows := sql_update (retryable_row i eid) (set_manual_retry now) (lf_rows l)\<rparr>)"
| given_up: "Abandoning \<in> ops \<Longrightarrow>
    life_step ops l (l\<lparr>lf_rows := sql_update (abandonable i eid) (set_abandoned now) (lf_rows l)\<rparr>)"
| reclaimed: "Redriving \<in> ops \<Longrightarrow>
    life_step ops l (l\<lparr>lf_rows := sql_update (stuck_in_flight eid limit) (set_reclaimed now) (lf_rows l)\<rparr>)"
| cleaned: "life_step ops l (l\<lparr>lf_rows := sql_delete gone (lf_rows l)\<rparr>)"

section \<open>Rows in order\<close>

definition row_shape :: "forward \<Rightarrow> bool" where
  "row_shape f \<longleftrightarrow> 0 \<le> fw_attempt_count f \<and>
     (case fw_status f of
        Pending \<Rightarrow> fw_completed_at f = None
      | In_flight \<Rightarrow> 1 \<le> fw_attempt_count f \<and> fw_started_at f \<noteq> None \<and> fw_completed_at f = None
      | Failed \<Rightarrow> fw_next_attempt_at f \<noteq> None \<and> fw_completed_at f = None
      | _ \<Rightarrow> fw_completed_at f \<noteq> None)"

lemma row_shape_statements:
  "row_shape f \<Longrightarrow> ns = NFailed \<longrightarrow> t \<noteq> None \<Longrightarrow> row_shape (set_outcome ns code err t now f)"
  "row_shape (forward_create i r e u now)"
  "row_shape f \<Longrightarrow> claimable i f \<Longrightarrow> row_shape (set_claimed now f)"
  "row_shape f \<Longrightarrow> row_shape (set_manual_retry now f)"
  "row_shape f \<Longrightarrow> row_shape (set_abandoned now f)"
  "row_shape f \<Longrightarrow> stuck_in_flight eid limit f \<Longrightarrow> row_shape (set_reclaimed now f)"
  by (cases ns, auto simp: row_shape_def forward_create_def set_claimed_def set_outcome_def set_manual_retry_def
      set_abandoned_def set_reclaimed_def claimable_def stuck_in_flight_def MAX_ATTEMPTS_def)

text \<open>
  Every claim of a row that was never retried by hand stays below the count of the row, so the next one
  counts higher: the idempotency keys of such claims differ.
\<close>

definition untouched :: "forward \<Rightarrow> bool" where
  "untouched f \<longleftrightarrow> fw_manual_retry_at f = None"

definition claim_key :: "forward \<Rightarrow> uuid \<times> int" where
  "claim_key c = (fw_id c, fw_attempt_count c)"

definition claims_below :: "life \<Rightarrow> bool" where
  "claims_below l \<longleftrightarrow> (\<forall>c \<in> set (lf_claims l). \<forall>f \<in> set (lf_rows l).
     fw_id f = fw_id c \<longrightarrow> untouched f \<longrightarrow> untouched c \<and> fw_attempt_count c \<le> fw_attempt_count f)"

definition life_ok :: "life \<Rightarrow> bool" where
  "life_ok l \<longleftrightarrow> key_ok fw_id (lf_rows l) \<and> (\<forall>f \<in> set (lf_rows l). row_shape f) \<and>
     set (lf_running l) \<subseteq> set (lf_claims l) \<and> claims_below l \<and>
     distinct (map claim_key (filter untouched (lf_claims l)))"

text \<open>A statement that keeps identifiers, never lowers the count of an untouched row and never untouches one.\<close>

definition counts_up :: "(forward \<Rightarrow> forward) \<Rightarrow> bool" where
  "counts_up g \<longleftrightarrow> (\<forall>f. fw_id (g f) = fw_id f \<and> (untouched (g f) \<longrightarrow>
     untouched f \<and> fw_attempt_count f \<le> fw_attempt_count (g f)))"

lemma counts_up_statements [simp]:
  "counts_up (set_claimed now)" "counts_up (set_outcome ns code err t now)" "counts_up (set_manual_retry now)"
  "counts_up (set_abandoned now)" "counts_up (set_reclaimed now)"
  by (simp_all add: counts_up_def untouched_def set_claimed_def set_outcome_def set_manual_retry_def
      set_abandoned_def set_reclaimed_def)

lemma claims_below_update:
  assumes "claims_below l" and "counts_up g"
  shows "claims_below (l\<lparr>lf_rows := sql_update p g (lf_rows l), lf_running := rs\<rparr>)"
  unfolding claims_below_def
proof (intro ballI impI)
  fix c f
  assume c: "c \<in> set (lf_claims (l\<lparr>lf_rows := sql_update p g (lf_rows l), lf_running := rs\<rparr>))"
    and f: "f \<in> set (lf_rows (l\<lparr>lf_rows := sql_update p g (lf_rows l), lf_running := rs\<rparr>))"
    and id: "fw_id f = fw_id c" and u: "untouched f"
  obtain f0 where f0: "f0 \<in> set (lf_rows l)" "f = f0 \<or> f = g f0"
    using f by (auto simp: set_sql_update split: if_splits)
  have up: "fw_id f = fw_id f0" "untouched f0" "fw_attempt_count f0 \<le> fw_attempt_count f"
    using f0(2) u assms(2) by (auto simp: counts_up_def)
  have "untouched c \<and> fw_attempt_count c \<le> fw_attempt_count f0"
    using assms(1) c f0(1) id up(1,2) by (simp add: claims_below_def)
  then show "untouched c \<and> fw_attempt_count c \<le> fw_attempt_count f" using up(3) by simp
qed

lemma life_ok_update:
  assumes "life_ok l" and "counts_up g" and "\<And>f. f \<in> set (lf_rows l) \<Longrightarrow> p f \<Longrightarrow> row_shape f \<Longrightarrow> row_shape (g f)"
    and "set rs \<subseteq> set (lf_running l)"
  shows "life_ok (l\<lparr>lf_rows := sql_update p g (lf_rows l), lf_running := rs\<rparr>)"
proof -
  have id: "fw_id (g f) = fw_id f" for f using assms(2) by (simp add: counts_up_def)
  have "\<forall>f \<in> set (sql_update p g (lf_rows l)). row_shape f"
    by (rule ball_sql_update) (use assms(1,3) in \<open>auto simp: life_ok_def\<close>)
  moreover have "claims_below (l\<lparr>lf_rows := sql_update p g (lf_rows l), lf_running := rs\<rparr>)"
    by (rule claims_below_update) (use assms(1,2) in \<open>auto simp: life_ok_def\<close>)
  ultimately show ?thesis
    using assms(1,4) by (auto simp: life_ok_def key_ok_sql_update id)
qed
lemma life_ok_created:
  assumes "life_ok l" and "i \<notin> fw_id ` set (lf_rows l)" and "i \<notin> fw_id ` set (lf_claims l)"
  shows "life_ok (l\<lparr>lf_rows := lf_rows l @ [forward_create i r e u now]\<rparr>)"
proof -
  have id: "fw_id (forward_create i r e u now) = i" by (simp add: forward_create_def)
  have "claims_below (l\<lparr>lf_rows := lf_rows l @ [forward_create i r e u now]\<rparr>)"
    using assms(1,3) id unfolding life_ok_def claims_below_def by (auto simp: image_iff)
  moreover have "key_ok fw_id (lf_rows l @ [forward_create i r e u now])"
    using assms(1,2) id by (simp add: key_ok_append_one lookup_row_None_image life_ok_def)
  ultimately show ?thesis
    using assms(1) by (simp add: life_ok_def row_shape_statements(2))
qed

lemma claims_below_claim:
  assumes "claims_below l" and "key_ok fw_id (lf_rows l)" and "f \<in> set (lf_rows l)" and "claimable i f"
  shows "claims_below (l\<lparr>lf_rows := sql_update (claimable i) (set_claimed now) (lf_rows l),
    lf_claims := lf_claims l @ [set_claimed now f]\<rparr>)"
proof -
  let ?rows = "sql_update (claimable i) (set_claimed now) (lf_rows l)"
  have i: "fw_id f = i" using assms(4) by (simp add: claimable_def)
  have same: "g = set_claimed now f" if "g \<in> set ?rows" "fw_id g = i" for g
  proof -
    have keys: "key_ok fw_id ?rows" by (rule key_ok_sql_update [THEN iffD2, OF _ assms(2)]) simp
    have "set_claimed now f \<in> set ?rows" using assms(3,4) by (force simp: set_sql_update)
    then show ?thesis
      using that keys i by (simp add: key_ok_def distinct_map inj_on_def)
  qed
  have "claims_below (l\<lparr>lf_rows := ?rows\<rparr>)"
    using claims_below_update [OF assms(1), where g = "set_claimed now" and p = "claimable i" and rs = "lf_running l"] by simp
  then show ?thesis
    using same i by (auto simp: claims_below_def)
qed

lemma life_ok_claimed:
  assumes "life_ok l" and "f \<in> set (lf_rows l)" and "claimable i f"
  shows "life_ok \<lparr>lf_rows = sql_update (claimable i) (set_claimed now) (lf_rows l),
    lf_running = lf_running l @ [set_claimed now f], lf_claims = lf_claims l @ [set_claimed now f]\<rparr>"
proof -
  let ?c = "set_claimed now f" and ?rows = "sql_update (claimable i) (set_claimed now) (lf_rows l)"
  have ok: "key_ok fw_id (lf_rows l)" "\<forall>f \<in> set (lf_rows l). row_shape f" "claims_below l"
    "set (lf_running l) \<subseteq> set (lf_claims l)" "distinct (map claim_key (filter untouched (lf_claims l)))"
    using assms(1) by (simp_all add: life_ok_def)
  have shapes: "\<forall>f \<in> set ?rows. row_shape f"
    by (rule ball_sql_update [OF ok(2)]) (rule row_shape_statements(3))
  have below: "claims_below \<lparr>lf_rows = ?rows, lf_running = lf_running l @ [?c], lf_claims = lf_claims l @ [?c]\<rparr>"
    using claims_below_claim [OF ok(3,1) assms(2,3), of now] by (simp add: claims_below_def)
  have keys: "key_ok fw_id ?rows" by (rule key_ok_sql_update [THEN iffD2, OF _ ok(1)]) simp
  have fresh: "claim_key ?c \<notin> claim_key ` set (filter untouched (lf_claims l))" if "untouched ?c"
  proof
    assume "claim_key ?c \<in> claim_key ` set (filter untouched (lf_claims l))"
    then obtain c where c: "c \<in> set (lf_claims l)" "fw_id c = fw_id f" "fw_attempt_count c = fw_attempt_count f + 1"
      by (auto simp: claim_key_def set_claimed_def)
    have u: "untouched f" using that by (simp add: untouched_def set_claimed_def)
    have le: "\<forall>c \<in> set (lf_claims l). fw_id f = fw_id c \<longrightarrow> untouched f \<longrightarrow>
        untouched c \<and> fw_attempt_count c \<le> fw_attempt_count f"
      using ok(3) assms(2) by (simp add: claims_below_def)
    have "fw_attempt_count c \<le> fw_attempt_count f" using le c(1,2) u by simp
    then show False using c(3) by simp
  qed
  show ?thesis
    using ok(4,5) shapes below keys fresh by (auto simp: life_ok_def)
qed

lemma life_step_ok:
  assumes "life_step ops l l'" and "life_ok l"
  shows "life_ok l'"
  using assms
proof (induction rule: life_step.induct)
  case (finished l xs c ys ns next_at code err now)
  then show ?case
    by (intro life_ok_update) (auto intro: row_shape_statements(1))
next
  case (ended l xs c ys ns code err next_at now)
  then show ?case
    by (intro life_ok_update) (auto intro: row_shape_statements(1))
next
  case (dropped l xs c ys)
  then show ?case by (auto simp: life_ok_def claims_below_def)
next
  case (retried l i eid now)
  then show ?case
    using life_ok_update [where l = l and g = "set_manual_retry now" and p = "retryable_row i eid" and rs = "lf_running l"]
    by (simp add: row_shape_statements(4))
next
  case (given_up l i eid now)
  then show ?case
    using life_ok_update [where l = l and g = "set_abandoned now" and p = "abandonable i eid" and rs = "lf_running l"]
    by (simp add: row_shape_statements(5))
next
  case (reclaimed l eid limit now)
  then show ?case
    using life_ok_update [where l = l and g = "set_reclaimed now" and p = "stuck_in_flight eid limit" and rs = "lf_running l"]
    by (simp add: row_shape_statements(6))
next
  case (cleaned l gone)
  then show ?case
    by (auto simp: life_ok_def claims_below_def key_ok_sql_delete set_sql_delete)
qed (simp_all add: life_ok_created life_ok_claimed)
section \<open>Without interruptions\<close>

text \<open>
  When the owner only retries, nothing touches the row of an attempt under way: it is the row the claim
  returned, no other attempt runs for it, and no count exceeds the budget.
\<close>

definition within_budget :: "forward \<Rightarrow> bool" where
  "within_budget f \<longleftrightarrow> fw_attempt_count f \<le> MAX_ATTEMPTS \<and>
     (fw_status f \<in> {Pending, Failed} \<longrightarrow> fw_attempt_count f < MAX_ATTEMPTS)"

definition owns_row :: "life \<Rightarrow> forward \<Rightarrow> bool" where
  "owns_row l c \<longleftrightarrow> fw_status c = In_flight \<and> (\<forall>f \<in> set (lf_rows l). fw_id f = fw_id c \<longrightarrow> f = c)"

definition calm :: "life \<Rightarrow> bool" where
  "calm l \<longleftrightarrow> distinct (map fw_id (lf_running l)) \<and> (\<forall>c \<in> set (lf_running l). owns_row l c) \<and>
     (\<forall>f \<in> set (lf_rows l). within_budget f)"

lemma within_budget_statements:
  "within_budget (forward_create i r e u now)"
  "within_budget f \<Longrightarrow> claimable i f \<Longrightarrow> within_budget (set_claimed now f)"
  "within_budget f \<Longrightarrow> ns = NFailed \<longrightarrow> fw_attempt_count f < MAX_ATTEMPTS \<Longrightarrow> within_budget (set_outcome ns code err t now f)"
  "within_budget f \<Longrightarrow> retryable_row i eid f \<Longrightarrow> within_budget (set_manual_retry now f)"
  by (cases ns; auto simp: within_budget_def forward_create_def set_claimed_def set_outcome_def set_manual_retry_def
      claimable_def retryable_row_def)+

lemma owns_row_update:
  assumes "owns_row l c" and "\<And>f. fw_id (g f) = fw_id f" and "\<And>f. p f \<Longrightarrow> fw_status f = In_flight \<Longrightarrow> fw_id f \<noteq> fw_id c"
  shows "owns_row (l\<lparr>lf_rows := sql_update p g (lf_rows l), lf_running := rs\<rparr>) c"
  using assms by (force simp: owns_row_def set_sql_update split: if_splits)

lemma calm_claimed:
  assumes "calm l" and "key_ok fw_id (lf_rows l)" and "set (lf_running l) \<subseteq> set (lf_claims l)"
    and "f \<in> set (lf_rows l)" and "claimable i f"
  shows "calm \<lparr>lf_rows = sql_update (claimable i) (set_claimed now) (lf_rows l),
    lf_running = lf_running l @ [set_claimed now f], lf_claims = lf_claims l @ [set_claimed now f]\<rparr>" (is "calm ?l")
proof -
  have i: "fw_id f = i" "fw_status f \<noteq> In_flight" using assms(5) by (auto simp: claimable_def)
  have owners: "\<forall>c \<in> set (lf_running l). owns_row l c" using assms(1) by (simp add: calm_def)
  have other: "fw_id c \<noteq> i" if "c \<in> set (lf_running l)" for c
  proof
    assume "fw_id c = i"
    then have "f = c" "fw_status c = In_flight" using owners that assms(4) i(1) by (auto simp: owns_row_def)
    then show False using i(2) by simp
  qed
  have mine: "owns_row ?l (set_claimed now f)"
  proof -
    have "\<forall>g \<in> set (lf_rows l). fw_id g = i \<longrightarrow> g = f"
      using assms(2,4) i(1) by (auto simp: key_ok_def distinct_map inj_on_def)
    then show ?thesis
      using i(1) assms(5) by (auto simp: owns_row_def set_sql_update set_claimed_def claimable_def split: if_splits)
  qed
  have theirs: "owns_row ?l c" if "c \<in> set (lf_running l)" for c
  proof -
    have "owns_row (l\<lparr>lf_rows := sql_update (claimable i) (set_claimed now) (lf_rows l), lf_running := []\<rparr>) c"
      by (rule owns_row_update) (use owners that other [OF that] in \<open>auto simp: claimable_def\<close>)
    then show ?thesis by (simp add: owns_row_def)
  qed
  have "\<forall>f \<in> set (sql_update (claimable i) (set_claimed now) (lf_rows l)). within_budget f"
    by (rule ball_sql_update) (use assms(1) in \<open>auto simp: calm_def intro: within_budget_statements(2)\<close>)
  moreover have "i \<notin> fw_id ` set (lf_running l)" using other by blast
  ultimately show ?thesis
    using assms(1) mine theirs i(1) by (auto simp: calm_def)
qed

lemma calm_recorded:
  assumes "calm l" and "lf_running l = xs @ c # ys" and "ns = NFailed \<longrightarrow> fw_attempt_count c < MAX_ATTEMPTS"
  shows "calm (l\<lparr>lf_rows := sql_update (\<lambda>f. fw_id f = fw_id c) (set_outcome ns code err t now) (lf_rows l),
    lf_running := xs @ ys\<rparr>)"
proof -
  let ?l = "l\<lparr>lf_rows := sql_update (\<lambda>f. fw_id f = fw_id c) (set_outcome ns code err t now) (lf_rows l),
    lf_running := xs @ ys\<rparr>"
  have d: "distinct (map fw_id (xs @ c # ys))" and owners: "\<forall>x \<in> set (xs @ c # ys). owns_row l x"
    using assms(1,2) by (simp_all add: calm_def)
  have rest: "fw_id x \<noteq> fw_id c" if "x \<in> set (xs @ ys)" for x
    using that d by (auto simp: image_iff)
  have "owns_row ?l x" if "x \<in> set (xs @ ys)" for x
    by (rule owns_row_update) (use owners rest [OF that] that in auto)
  moreover have "\<forall>f \<in> set (sql_update (\<lambda>f. fw_id f = fw_id c) (set_outcome ns code err t now) (lf_rows l)). within_budget f"
  proof (rule ball_sql_update)
    fix f
    assume f: "f \<in> set (lf_rows l)" "fw_id f = fw_id c" "within_budget f"
    then have "f = c" using owners by (auto simp: owns_row_def)
    then show "within_budget (set_outcome ns code err t now f)"
      using f(3) assms(3) by (intro within_budget_statements(3)) simp_all
  qed (use assms(1) in \<open>simp add: calm_def\<close>)
  moreover have "distinct (map fw_id (xs @ ys))" using d by auto
  ultimately show ?thesis by (simp add: calm_def)
qed

lemma life_step_calm:
  assumes "life_step ops l l'" and "life_ok l" and "calm l" and "ops \<subseteq> {Retrying}"
  shows "calm l'"
  using assms
proof (induction rule: life_step.induct)
  case (created f i r e u now l)
  then have "i \<notin> fw_id ` set (lf_running l)" by (auto simp: life_ok_def)
  then show ?case
    using created by (auto simp: calm_def owns_row_def within_budget_statements(1)) (simp_all add: forward_create_def)
next
  case (dropped l xs c ys)
  then show ?case by (auto simp: calm_def owns_row_def)
next
  case (retried l i eid now)
  have "owns_row (l\<lparr>lf_rows := sql_update (retryable_row i eid) (set_manual_retry now) (lf_rows l), lf_running := lf_running l\<rparr>) c"
    if "c \<in> set (lf_running l)" for c
    by (rule owns_row_update) (use retried that in \<open>auto simp: calm_def retryable_row_def\<close>)
  moreover have "\<forall>f \<in> set (sql_update (retryable_row i eid) (set_manual_retry now) (lf_rows l)). within_budget f"
    by (rule ball_sql_update) (use retried in \<open>auto simp: calm_def intro: within_budget_statements(4)\<close>)
  ultimately show ?case using retried by (simp add: calm_def)
next
  case (cleaned l gone)
  then show ?case by (auto simp: calm_def owns_row_def set_sql_delete)
qed (auto simp: life_ok_def intro: calm_claimed calm_recorded)

section \<open>The status diagram\<close>

text \<open>How a status may change in one step when the owner only retries.\<close>

fun status_edge :: "forward_status \<Rightarrow> forward_status \<Rightarrow> bool" where
  "status_edge Pending t = (t = In_flight)"
| "status_edge In_flight t = (t \<in> {Succeeded, Failed, Dead})"
| "status_edge Failed t = (t \<in> {In_flight, Pending})"
| "status_edge Dead t = (t = Pending)"
| "status_edge Abandoned t = (t = Pending)"
| "status_edge Succeeded t = False"

lemma row_moves_update:
  assumes "key_ok fw_id t" and "\<And>f. fw_id (g f) = fw_id f" and "f \<in> set t"
    and "f' \<in> set (sql_update p g t)" and "fw_id f' = fw_id f"
  shows "f' = (if p f then g f else f)"
proof -
  obtain f0 where f0: "f0 \<in> set t" "f' = (if p f0 then g f0 else f0)"
    using assms(4) by (auto simp: set_sql_update)
  then have "fw_id f0 = fw_id f" using assms(2,5) by (simp split: if_splits)
  then have "f0 = f" using assms(1,3) f0(1) by (simp add: key_ok_def distinct_map inj_on_def)
  with f0(2) show ?thesis by simp
qed

lemma life_step_edge:
  assumes "life_step ops l l'" and "life_ok l" and "calm l" and "ops \<subseteq> {Retrying}"
    and "f \<in> set (lf_rows l)" and "f' \<in> set (lf_rows l')" and "fw_id f' = fw_id f"
  shows "f' = f \<or> status_edge (fw_status f) (fw_status f')"
proof -
  have keys: "key_ok fw_id (lf_rows l)" using assms(2) by (simp add: life_ok_def)
  have same: "f' = f" if "f' \<in> set (lf_rows l)"
    using keys that assms(5,7) by (simp add: key_ok_def distinct_map inj_on_def)
  have moved: "f' = (if p f then g f else f)"
    if "lf_rows l' = sql_update p g (lf_rows l)" "\<And>f. fw_id (g f) = fw_id f" for p g
    using row_moves_update [OF keys that(2) assms(5) assms(6) [unfolded that(1)] assms(7)] by simp
  have in_flight: "fw_status f = In_flight" if "lf_running l = xs @ c # ys" "fw_id f = fw_id c" for c xs ys
    using assms(3,5) that by (auto simp: calm_def owns_row_def)
  from assms(1) show ?thesis
  proof cases
    case (claimed f1 i c now)
    then show ?thesis
      using moved [of "claimable i" "set_claimed now"] by (auto simp: claimable_def set_claimed_def)
  next
    case (finished xs c ys ns next_at code err now)
    then show ?thesis
      using moved [of "\<lambda>f. fw_id f = fw_id c" "set_outcome ns code err next_at now"] in_flight [OF finished(2)]
      by (auto simp: set_outcome_def)
  next
    case (ended xs c ys ns code err next_at now)
    then show ?thesis
      using moved [of "\<lambda>f. fw_id f = fw_id c" "set_outcome ns code err next_at now"] in_flight [OF ended(2)]
      by (cases ns) (auto simp: set_outcome_def)
  next
    case (retried i eid now)
    then show ?thesis
      using moved [of "retryable_row i eid" "set_manual_retry now"]
      by (auto simp: retryable_row_def set_manual_retry_def)
  next
    case (created f1 i r e u now)
    then have "f' \<noteq> f1" using assms(5,7) by (auto simp: forward_create_def)
    then show ?thesis using created same assms(6) by auto
  qed (use assms(4,6) same in \<open>auto simp: set_sql_delete\<close>)
qed

end
