(* ===== verification/World.thy ===== *)
theory World
  imports Database
begin

text \<open>
  What a use case acts on: the database, the blob storage, the queue of forward jobs, the emitted
  metrics and the requests sent out. An action returns a result and the new world, and keeps what
  it did before an exception; \<open>with_session\<close> is the transaction around one, after which a
  raised exception leaves the database as it was and everything else as it became.

  \<open>services\<close> holds what the program calls and does not define: the cryptographic
  primitives, the network, the DNS resolver, and whether the queue and the blob storage answer.
\<close>

section \<open>Effects\<close>

text \<open>\<open>MetricsCollector\<close>: one constructor per method, with the labels.\<close>

datatype metric =
    Endpoint_created
  | Request_captured string bool nat
  | Cleaner_run int
  | Replay_attempt string
  | Forward_attempt string
  | Forward_enqueue_failed
  | Rate_limit_block string string
  | Rate_limit_redis_error string

text \<open>One call of \<open>ArqRedis.enqueue_job\<close>.\<close>

record arq_job =
  job_function :: string
  job_arg :: string
  job_id :: string
  job_defer_by :: int

text \<open>One call of \<open>httpx.AsyncClient.request\<close>.\<close>

record outbound =
  ob_method :: string
  ob_url :: string
  ob_headers :: dict
  ob_body :: string

record world =
  w_db :: db
  w_blobs :: "(string \<times> string) list"
  w_jobs :: "arq_job list"
  w_metrics :: "metric list"
  w_sent :: "outbound list"
  w_aborted :: bool

type_synonym 'a act = "world \<Rightarrow> 'a res \<times> world"

definition new_world :: "db \<Rightarrow> world" where
  "new_world d = \<lparr>w_db = d, w_blobs = [], w_jobs = [], w_metrics = [], w_sent = [],
     w_aborted = False\<rparr>"

definition ret :: "'a \<Rightarrow> 'a act" where
  "ret a w = (Inr a, w)"

definition fail :: "exn \<Rightarrow> 'a act" where
  "fail e w = (Inl e, w)"

definition bindA :: "'a act \<Rightarrow> ('a \<Rightarrow> 'b act) \<Rightarrow> 'b act" where
  "bindA m f w = (case m w of (Inl e, w') \<Rightarrow> (Inl e, w') | (Inr a, w') \<Rightarrow> f a w')"

definition lift_res :: "'a res \<Rightarrow> 'a act" where
  "lift_res r w = (r, w)"

definition emit :: "metric \<Rightarrow> unit act" where
  "emit m w = (Inr (), w\<lparr>w_metrics := w_metrics w @ [m]\<rparr>)"

text \<open>
  A repository call that cannot raise, one that can, and a read. A statement that fails aborts its
  transaction, also when the caller catches the exception: the commit that follows raises.
\<close>

definition run_db :: "(db \<Rightarrow> 'a \<times> db) \<Rightarrow> 'a act" where
  "run_db f w = (case f (w_db w) of (a, d) \<Rightarrow> (Inr a, w\<lparr>w_db := d\<rparr>))"

definition run_db_res :: "(db \<Rightarrow> 'a res \<times> db) \<Rightarrow> 'a act" where
  "run_db_res f w =
     (case f (w_db w) of
        (Inl e, d) \<Rightarrow> (Inl e, w\<lparr>w_db := d, w_aborted := True\<rparr>)
      | (Inr a, d) \<Rightarrow> (Inr a, w\<lparr>w_db := d\<rparr>))"

definition read_db :: "(db \<Rightarrow> 'a) \<Rightarrow> 'a act" where
  "read_db f w = (Inr (f (w_db w)), w)"

text \<open>
  \<open>try: m except: h\<close> with a handler for every exception, and the transaction of
  \<open>get_session\<close> and \<open>_postgres_unit_of_work\<close>.
\<close>

definition catchA :: "'a act \<Rightarrow> (exn \<Rightarrow> 'a act) \<Rightarrow> 'a act" where
  "catchA m h w = (case m w of (Inl e, w') \<Rightarrow> h e w' | (Inr a, w') \<Rightarrow> (Inr a, w'))"

definition with_session :: "'a act \<Rightarrow> 'a act" where
  "with_session m w =
     (case m w of
        (Inl e, w') \<Rightarrow> (Inl e, w'\<lparr>w_db := w_db w, w_aborted := False\<rparr>)
      | (Inr a, w') \<Rightarrow>
          (if w_aborted w' then (Inl RuntimeError, w'\<lparr>w_db := w_db w, w_aborted := False\<rparr>)
           else (Inr a, w')))"

lemma ret_simps [simp]: "ret a w = (Inr a, w)" "fail e w = (Inl e, w)" "lift_res r w = (r, w)"
  by (simp_all add: ret_def fail_def lift_res_def)

lemma bindA_ret [simp]: "bindA (ret a) f = f a"
  by (rule ext) (simp add: bindA_def)

lemma bindA_fail [simp]: "bindA (fail e) f = fail e"
  by (rule ext) (simp add: bindA_def fail_def)

lemma bindA_emit [simp]: "bindA (emit m) f w = f () (w\<lparr>w_metrics := w_metrics w @ [m]\<rparr>)"
  by (simp add: bindA_def emit_def)

lemma bindA_read [simp]: "bindA (read_db f) g w = g (f (w_db w)) w"
  by (simp add: bindA_def read_db_def)

lemma bindA_run [simp]:
  "bindA (run_db f) g w = g (fst (f (w_db w))) (w\<lparr>w_db := snd (f (w_db w))\<rparr>)"
  by (simp add: bindA_def run_db_def split: prod.splits)

lemma emit_simps [simp]: "emit m w = (Inr (), w\<lparr>w_metrics := w_metrics w @ [m]\<rparr>)"
  by (simp add: emit_def)

lemma run_db_simps [simp]: "run_db f w = (Inr (fst (f (w_db w))), w\<lparr>w_db := snd (f (w_db w))\<rparr>)"
  by (simp add: run_db_def split: prod.splits)

lemma bindA_Inr_iff: "bindA m f w = (Inr b, w'') \<longleftrightarrow> (\<exists>a w'. m w = (Inr a, w') \<and> f a w' = (Inr b, w''))"
  by (auto simp: bindA_def split: prod.splits sum.splits)

lemma bindA_Inl_iff:
  "bindA m f w = (Inl e, w'') \<longleftrightarrow>
     m w = (Inl e, w'') \<or> (\<exists>a w'. m w = (Inr a, w') \<and> f a w' = (Inl e, w''))"
  by (auto simp: bindA_def split: prod.splits sum.splits)

lemma bindA_step: "m w = (Inr a, w') \<Longrightarrow> bindA m f w = f a w'"
  by (simp add: bindA_def)

lemma bindA_raise: "m w = (Inl e, w') \<Longrightarrow> bindA m f w = (Inl e, w')"
  by (simp add: bindA_def)

lemma bindA_lift [simp]: "bindA (lift_res (Inr a)) f w = f a w" "bindA (lift_res (Inl e)) f w = (Inl e, w)"
  by (simp_all add: bindA_def)

lemma with_session_Inl: "with_session m w = (Inl e, w') \<Longrightarrow> w_db w' = w_db w"
  by (auto simp: with_session_def split: prod.splits sum.splits if_splits)

lemma with_session_Inr [simp]:
  "with_session m w = (Inr a, w') \<longleftrightarrow> m w = (Inr a, w') \<and> \<not> w_aborted w'"
  by (auto simp: with_session_def split: prod.splits sum.splits if_splits)

lemma with_session_eq:
  "m w = (Inr a, w') \<Longrightarrow> \<not> w_aborted w' \<Longrightarrow> with_session m w = (Inr a, w')"
  by simp

lemma with_session_not_aborted: "\<not> w_aborted (snd (with_session m w))"
  by (simp add: with_session_def split: prod.splits sum.splits)

lemma with_session_db_invariant:
  assumes "P (w_db w)" and "\<And>a w'. m w = (Inr a, w') \<Longrightarrow> P (w_db w')"
  shows "P (w_db (snd (with_session m w)))"
  using assms by (auto simp: with_session_def split: prod.splits sum.splits if_splits)

lemma run_db_res_Inr:
  "run_db_res f w = (Inr a, w') \<longleftrightarrow> (\<exists>d. f (w_db w) = (Inr a, d) \<and> w' = w\<lparr>w_db := d\<rparr>)"
  by (auto simp: run_db_res_def split: prod.splits sum.splits)

section \<open>Services\<close>

text \<open>
  \<open>sv_encrypt\<close> and \<open>sv_decrypt\<close> are AES-256-GCM with a key, a nonce and a plaintext or a
  ciphertext (None is \<open>InvalidTag\<close>); \<open>sv_sha256\<close> and \<open>sv_sha1\<close> are HMAC with a key
  and a message, giving the raw digest; \<open>sv_ed25519\<close> checks a signature on a message under
  a public key. \<open>sv_resolve\<close> is \<open>getaddrinfo\<close>, \<open>sv_nfkc\<close> Unicode normalisation and \<open>sv_http\<close> the answer of one HTTP
  request with the chunks of its body, or the exception it raises, as the text of its type and message.
  \<open>sv_inet\<close> says whether PostgreSQL reads a text as an INET value, \<open>sv_search\<close> whether the
  full-text query matches a row. The faults say whether a call of the queue or of the blob storage raises, and
  \<open>sv_queue_holds\<close> which job identifiers arq knows at the moment. An argument of this type stands for the world
  outside during one call; the next call may meet another.
\<close>

record services =
  sv_encrypt :: "string \<Rightarrow> string \<Rightarrow> string \<Rightarrow> string"
  sv_decrypt :: "string \<Rightarrow> string \<Rightarrow> string \<Rightarrow> string option"
  sv_sha256 :: "string \<Rightarrow> string \<Rightarrow> string"
  sv_sha1 :: "string \<Rightarrow> string \<Rightarrow> string"
  sv_ed25519 :: "string \<Rightarrow> string \<Rightarrow> string \<Rightarrow> bool"
  sv_resolve :: "string \<Rightarrow> string list res"
  sv_nfkc :: "string \<Rightarrow> string"
  sv_http :: "outbound \<Rightarrow> string + (int \<times> dict \<times> string list)"
  sv_inet :: "string \<Rightarrow> bool"
  sv_search :: "string \<Rightarrow> captured_request \<Rightarrow> bool"
  sv_queue_fault :: "exn option"
  sv_queue_holds :: "string \<Rightarrow> bool"
  sv_blob_fault :: "exn option"

section \<open>Blob storage\<close>

text \<open>
  The port \<open>BlobStorage\<close>: what was put last under a key is what get returns, unless the
  backend fails. The three backends agree on this; how they name objects is in the theory of
  the storage.
\<close>

definition blob_put :: "services \<Rightarrow> string \<Rightarrow> string \<Rightarrow> unit act" where
  "blob_put sv key data w =
     (case sv_blob_fault sv of
        Some e \<Rightarrow> (Inl e, w)
      | None \<Rightarrow> (Inr (), w\<lparr>w_blobs := AList.update key data (w_blobs w)\<rparr>))"

definition blob_get :: "services \<Rightarrow> string \<Rightarrow> string option act" where
  "blob_get sv key w =
     (case sv_blob_fault sv of
        Some e \<Rightarrow> (Inl e, w)
      | None \<Rightarrow> (Inr (map_of (w_blobs w) key), w))"

section \<open>The forward queue\<close>

text \<open>
  \<open>ArqForwardQueue.enqueue\<close>, \<open>NullForwardQueue.enqueue\<close> and \<open>_safe_enqueue\<close>. \<open>enqueue_job\<close> of arq gives None and
  enqueues nothing when Redis holds a job of that identifier, waiting or running, or its result, which is
  kept for an hour; the code does not look at what it gives. \<open>w_jobs\<close> is what arq accepted.
\<close>

definition arq_enqueue :: "services \<Rightarrow> uuid \<Rightarrow> int \<Rightarrow> unit act" where
  "arq_enqueue sv forward_id defer_seconds w =
     (let job = \<lparr>job_function = ''execute_forward'', job_arg = uuid_str forward_id,
            job_id = ''forward:'' @ uuid_str forward_id @ '':'' @ str_int defer_seconds,
            job_defer_by = defer_seconds\<rparr>
      in case sv_queue_fault sv of
           Some e \<Rightarrow> (Inl e, w)
         | None \<Rightarrow> (Inr (), if sv_queue_holds sv (job_id job) then w else w\<lparr>w_jobs := w_jobs w @ [job]\<rparr>))"

definition null_enqueue :: "uuid \<Rightarrow> int \<Rightarrow> unit act" where
  "null_enqueue forward_id defer_seconds w = (Inr (), w)"

definition safe_enqueue :: "services \<Rightarrow> uuid \<Rightarrow> unit act" where
  "safe_enqueue sv forward_id =
     catchA (arq_enqueue sv forward_id 0) (\<lambda>e. emit Forward_enqueue_failed)"

definition the_job :: "uuid \<Rightarrow> int \<Rightarrow> arq_job" where
  "the_job i s = \<lparr>job_function = ''execute_forward'', job_arg = uuid_str i,
     job_id = ''forward:'' @ uuid_str i @ '':'' @ str_int s, job_defer_by = s\<rparr>"

text \<open>What one call adds to the jobs when the queue works.\<close>

definition held :: "services \<Rightarrow> uuid \<Rightarrow> int \<Rightarrow> bool" where
  "held sv i s \<longleftrightarrow> sv_queue_holds sv (job_id (the_job i s))"

definition accepted :: "services \<Rightarrow> uuid \<Rightarrow> int \<Rightarrow> arq_job list" where
  "accepted sv i s = (if held sv i s then [] else [the_job i s])"

lemma accepted_simps [simp]:
  "held sv i s \<Longrightarrow> accepted sv i s = []" "\<not> held sv i s \<Longrightarrow> accepted sv i s = [the_job i s]"
  by (simp_all add: accepted_def)

lemma arq_enqueue_eq:
  "arq_enqueue sv i s w =
     (case sv_queue_fault sv of Some e \<Rightarrow> (Inl e, w)
      | None \<Rightarrow> (Inr (), w\<lparr>w_jobs := w_jobs w @ accepted sv i s\<rparr>))"
  by (simp add: arq_enqueue_def the_job_def accepted_def held_def Let_def split: option.splits)

lemma safe_enqueue_never_raises: "\<exists>w'. safe_enqueue sv i w = (Inr (), w') \<and> w_db w' = w_db w"
  by (auto simp: safe_enqueue_def catchA_def arq_enqueue_eq split: option.splits)

text \<open>Two scheduling rounds share a job identifier only if both the row and the delay are equal.\<close>

lemma job_id_inject: "job_id (the_job i s) = job_id (the_job j t) \<longleftrightarrow> i = j \<and> s = t"
proof
  assume eq: "job_id (the_job i s) = job_id (the_job j t)"
  have no: "CHR '':'' \<notin> set (uuid_str u)" for u
    using uuid_str_char_bounds [of "CHR '':''" u] by (auto simp: byte_def)
  from eq have "uuid_str i @ CHR '':'' # str_int s = uuid_str j @ CHR '':'' # str_int t"
    by (simp add: the_job_def)
  then have "str_before (CHR '':'') (uuid_str i @ CHR '':'' # str_int s) =
      str_before (CHR '':'') (uuid_str j @ CHR '':'' # str_int t)"
    "str_after (CHR '':'') (uuid_str i @ CHR '':'' # str_int s) =
      str_after (CHR '':'') (uuid_str j @ CHR '':'' # str_int t)" by simp_all
  then show "i = j \<and> s = t" by (simp add: no)
qed (simp add: the_job_def)

section \<open>An instance of the services\<close>

text \<open>
  Concrete functions in place of the external ones, with the properties the hypotheses of some
  theorems name. They stand for no real cryptography: the witnesses evaluate on them.
\<close>

definition demo_services :: services where
  "demo_services =
     \<lparr>sv_encrypt = (\<lambda>key nonce p. key @ p),
      sv_decrypt = (\<lambda>key nonce c. if prefix key c then Some (drop (length key) c) else None),
      sv_sha256 = (\<lambda>key m. take 4 (key @ m)),
      sv_sha1 = (\<lambda>key m. take 3 (key @ m)),
      sv_ed25519 = (\<lambda>pk m s. s = pk @ m),
      sv_resolve = (\<lambda>host. if host = ''example.com'' then Inr [''93.184.216.34''] else Inr [''10.0.0.7'']),
      sv_nfkc = (\<lambda>s. s),
      sv_http = (\<lambda>ob. Inr (200, [], [''ok''])),
      sv_inet = (\<lambda>ip. ip \<noteq> []),
      sv_search = (\<lambda>q r. str_in q (rq_path r)),
      sv_queue_fault = None, sv_queue_holds = (\<lambda>job. False), sv_blob_fault = None\<rparr>"

definition demo_endpoint :: endpoint where
  "demo_endpoint =
     \<lparr>ep_id = 1, ep_token = ''tok'', ep_created_at = 0, ep_expires_at = days 30, ep_request_count = 0,
      ep_response_status_code = 200, ep_response_body = [], ep_response_headers = [],
      ep_response_delay_ms = 0, ep_signature_provider = None, ep_signature_secret = None,
      ep_forward_url = Some ''https://example.com/hook'', ep_forward_headers = None,
      ep_forward_secret = None, ep_flagged_at = None, ep_flag_reason = None\<rparr>"

definition demo_db :: db where
  "demo_db = empty_db\<lparr>db_endpoints := [demo_endpoint]\<rparr>"

lemma demo_db_ok: "db_ok demo_db"
  by (simp add: db_ok_defs demo_db_def empty_db_def key_ok_def flag_reason_check_def demo_endpoint_def)

lemma demo_world_db [simp]: "w_db (new_world d) = d" "\<not> w_aborted (new_world d)"
  by (simp_all add: new_world_def)

lemma demo_services_faults [simp]:
  "sv_blob_fault demo_services = None" "sv_queue_fault demo_services = None" "\<not> held demo_services i s"
  by (simp_all add: demo_services_def held_def)

end
