(* ===== verification/Json.thy ===== *)
theory Json
  imports Codecs
begin

text \<open>
  JSON as the standard library reads and writes it: \<open>json.loads\<close> with the strict scanner, and
  \<open>json.dumps\<close> with its default separators and ASCII output. A number keeps its literal; a
  lone surrogate escape keeps its three-byte form, which is not valid UTF-8.
\<close>

datatype json =
    JNull
  | JBool bool
  | JNum string
  | JStr string
  | JArr "json list"
  | JObj "(string \<times> json) list"

section \<open>Code points\<close>

definition utf8_encode :: "nat \<Rightarrow> string" where
  "utf8_encode n =
     (if n < 128 then [char_of n]
      else if n < 2048 then [char_of (192 + n div 64), char_of (128 + n mod 64)]
      else if n < 65536 then
        [char_of (224 + n div 4096), char_of (128 + n div 64 mod 64), char_of (128 + n mod 64)]
      else [char_of (240 + n div 262144), char_of (128 + n div 4096 mod 64),
            char_of (128 + n div 64 mod 64), char_of (128 + n mod 64)])"

text \<open>The code point of one character, given as its bytes.\<close>

fun code_point :: "string \<Rightarrow> nat" where
  "code_point [a] = byte a"
| "code_point [a, b] = (byte a - 192) * 64 + (byte b - 128)"
| "code_point [a, b, c] = (byte a - 224) * 4096 + (byte b - 128) * 64 + (byte c - 128)"
| "code_point [a, b, c, d] =
     (byte a - 240) * 262144 + (byte b - 128) * 4096 + (byte c - 128) * 64 + (byte d - 128)"
| "code_point _ = 0"

definition high_surrogate :: "nat \<Rightarrow> bool" where
  "high_surrogate n \<longleftrightarrow> 0xD800 \<le> n \<and> n \<le> 0xDBFF"

definition low_surrogate :: "nat \<Rightarrow> bool" where
  "low_surrogate n \<longleftrightarrow> 0xDC00 \<le> n \<and> n \<le> 0xDFFF"

definition join_surrogates :: "nat \<Rightarrow> nat \<Rightarrow> nat" where
  "join_surrogates h l = 0x10000 + (h - 0xD800) * 1024 + (l - 0xDC00)"

section \<open>Reading\<close>

definition json_space :: "char \<Rightarrow> bool" where
  "json_space c \<longleftrightarrow> byte c \<in> {9, 10, 13, 32}"

definition skip_ws :: "string \<Rightarrow> string" where
  "skip_ws s = dropWhile json_space s"

definition is_digit :: "char \<Rightarrow> bool" where
  "is_digit c \<longleftrightarrow> 48 \<le> byte c \<and> byte c \<le> 57"

definition hex4 :: "string \<Rightarrow> nat option" where
  "hex4 s = (if 4 \<le> length s then hex_number (take 4 s) else None)"

definition json_escape :: "char \<Rightarrow> char option" where
  "json_escape c =
     (if c \<in> {CHR 0x22, CHR 0x5C, CHR ''/''} then Some c
      else if c = CHR ''b'' then Some (char_of (8 :: nat))
      else if c = CHR ''f'' then Some (char_of (12 :: nat))
      else if c = CHR ''n'' then Some (char_of (10 :: nat))
      else if c = CHR ''r'' then Some (char_of (13 :: nat))
      else if c = CHR ''t'' then Some (char_of (9 :: nat))
      else None)"

text \<open>
  The string after its opening quote, up to and without the closing one, and the rest. A high
  surrogate followed by an escaped low one is one character.
\<close>

definition json_unicode :: "string \<Rightarrow> (string \<times> nat) option" where
  "json_unicode s =
     (case hex4 s of
        None \<Rightarrow> None
      | Some u \<Rightarrow>
          (let rest = drop 4 s in
           if high_surrogate u \<and> take 2 rest = [CHR 0x5C, CHR ''u''] then
             (case hex4 (drop 2 rest) of
                None \<Rightarrow> None
              | Some l \<Rightarrow> if low_surrogate l then Some (utf8_encode (join_surrogates u l), 10)
                          else Some (utf8_encode u, 4))
           else Some (utf8_encode u, 4)))"

function json_string :: "string \<Rightarrow> (string \<times> string) option" where
  "json_string [] = None"
| "json_string (c # s) =
     (if c = CHR 0x22 then Some ([], s)
      else if byte c < 32 then None
      else if c = CHR 0x5C then
        (case s of
           [] \<Rightarrow> None
         | e # s' \<Rightarrow>
             (if e = CHR ''u'' then
                (case json_unicode s' of
                   None \<Rightarrow> None
                 | Some (t, k) \<Rightarrow> map_option (\<lambda>(r, rest). (t @ r, rest)) (json_string (drop k s')))
              else
                (case json_escape e of
                   None \<Rightarrow> None
                 | Some x \<Rightarrow> map_option (\<lambda>(r, rest). (x # r, rest)) (json_string s'))))
      else map_option (\<lambda>(r, rest). (c # r, rest)) (json_string s))"
  by pat_completeness auto
termination by (relation "measure length") auto

text \<open>
  A number: sign, integer part, and a fraction and an exponent when they have a digit. An integer
  of more than 4300 digits is a \<open>ValueError\<close>.
\<close>

definition number_int :: "string \<Rightarrow> string" where
  "number_int s =
     (case s of
        [] \<Rightarrow> []
      | c # t \<Rightarrow> (if c = CHR ''0'' then [c] else takeWhile is_digit s))"

definition number_frac :: "string \<Rightarrow> string" where
  "number_frac s =
     (case s of
        [] \<Rightarrow> []
      | c # t \<Rightarrow>
          (let ds = takeWhile is_digit t in if c = CHR ''.'' \<and> ds \<noteq> [] then c # ds else []))"

definition number_exp :: "string \<Rightarrow> string" where
  "number_exp s =
     (case s of
        [] \<Rightarrow> []
      | c # t \<Rightarrow>
          (let sign = (case t of [] \<Rightarrow> [] | x # u \<Rightarrow> if x \<in> {CHR ''+'', CHR ''-''} then [x] else []);
               ds = takeWhile is_digit (drop (length sign) t)
           in if c \<in> {CHR ''e'', CHR ''E''} \<and> ds \<noteq> [] then c # sign @ ds else []))"

definition json_number :: "string \<Rightarrow> (json \<times> string) option" where
  "json_number s =
     (let sign = (if take 1 s = ''-'' then ''-'' else []);
          s1 = drop (length sign) s;
          i = number_int s1;
          s2 = drop (length i) s1;
          f = number_frac s2;
          s3 = drop (length f) s2;
          e = number_exp s3
      in if i = [] then None
         else if f = [] \<and> e = [] \<and> 4300 < length i then None
         else Some (JNum (sign @ i @ f @ e), drop (length e) s3))"

definition json_constants :: "(string \<times> json) list" where
  "json_constants =
     [(''null'', JNull), (''true'', JBool True), (''false'', JBool False), (''NaN'', JNum ''NaN''),
      (''Infinity'', JNum ''Infinity''), (''-Infinity'', JNum ''-Infinity'')]"

fun json_constant :: "(string \<times> json) list \<Rightarrow> string \<Rightarrow> (json \<times> string) option" where
  "json_constant [] s = None"
| "json_constant ((w, v) # ks) s =
     (if prefix w s then Some (v, drop (length w) s) else json_constant ks s)"

text \<open>
  A value, the elements of an array and the members of an object, with fuel for the nesting and
  the length; a repeated key keeps its last value, as in a dictionary.
\<close>

fun json_value :: "nat \<Rightarrow> string \<Rightarrow> (json \<times> string) option"
  and json_elements :: "nat \<Rightarrow> string \<Rightarrow> (json list \<times> string) option"
  and json_members :: "nat \<Rightarrow> string \<Rightarrow> ((string \<times> json) list \<times> string) option"
where
  "json_value 0 s = None"
| "json_value (Suc n) [] = None"
| "json_value (Suc n) (c # s) =
     (if c = CHR 0x22 then map_option (\<lambda>(t, r). (JStr t, r)) (json_string s)
      else if c = CHR ''{'' then
        (let s' = skip_ws s in
         if take 1 s' = ''}'' then Some (JObj [], drop 1 s')
         else map_option (\<lambda>(ms, r). (JObj (fold (\<lambda>(k, v). AList.update k v) ms []), r))
           (json_members n s'))
      else if c = CHR ''['' then
        (let s' = skip_ws s in
         if take 1 s' = '']'' then Some (JArr [], drop 1 s')
         else map_option (\<lambda>(vs, r). (JArr vs, r)) (json_elements n s'))
      else case json_constant json_constants (c # s) of
             Some x \<Rightarrow> Some x
           | None \<Rightarrow> json_number (c # s))"
| "json_elements 0 s = None"
| "json_elements (Suc n) s =
     (case json_value n s of
        None \<Rightarrow> None
      | Some (v, r) \<Rightarrow>
          (case skip_ws r of
             [] \<Rightarrow> None
           | c # r' \<Rightarrow>
               (if c = CHR '']'' then Some ([v], r')
                else if c = CHR '','' then
                  map_option (\<lambda>(vs, r''). (v # vs, r'')) (json_elements n (skip_ws r'))
                else None)))"
| "json_members 0 s = None"
| "json_members (Suc n) s =
     (if take 1 s \<noteq> [CHR 0x22] then None
      else case json_string (drop 1 s) of
        None \<Rightarrow> None
      | Some (k, r) \<Rightarrow>
          (case skip_ws r of
             [] \<Rightarrow> None
           | d # r1 \<Rightarrow>
               (if d \<noteq> CHR '':'' then None
                else case json_value n (skip_ws r1) of
                  None \<Rightarrow> None
                | Some (v, r2) \<Rightarrow>
                    (case skip_ws r2 of
                       [] \<Rightarrow> None
                     | c # r3 \<Rightarrow>
                         (if c = CHR ''}'' then Some ([(k, v)], r3)
                          else if c = CHR '','' then
                            map_option (\<lambda>(ms, r''). ((k, v) # ms, r''))
                              (json_members n (skip_ws r3))
                          else None)))))"

text \<open>
  \<open>json.loads\<close> of a \<open>str\<close>: no byte order mark, one value, nothing but white space after
  it. Twice the length is enough fuel, as every second call consumes a character.
\<close>

definition json_loads :: "string \<Rightarrow> json option" where
  "json_loads s =
     (if prefix [CHR 0xEF, CHR 0xBB, CHR 0xBF] s then None
      else case json_value (2 * length s + 1) (skip_ws s) of
        None \<Rightarrow> None
      | Some (v, r) \<Rightarrow> if skip_ws r = [] then Some v else None)"

section \<open>Writing\<close>

definition unicode_escape :: "nat \<Rightarrow> string" where
  "unicode_escape n = [CHR 0x5C, CHR ''u''] @ hex_fixed 4 n"

definition json_escape_char :: "string \<Rightarrow> string" where
  "json_escape_char ch =
     (let n = code_point ch in
      if n = 0x22 then [CHR 0x5C, CHR 0x22]
      else if n = 0x5C then [CHR 0x5C, CHR 0x5C]
      else if n = 10 then [CHR 0x5C, CHR ''n'']
      else if n = 13 then [CHR 0x5C, CHR ''r'']
      else if n = 9 then [CHR 0x5C, CHR ''t'']
      else if n = 12 then [CHR 0x5C, CHR ''f'']
      else if n = 8 then [CHR 0x5C, CHR ''b'']
      else if 32 \<le> n \<and> n \<le> 126 then ch
      else if n < 0x10000 then unicode_escape n
      else unicode_escape (0xD800 + (n - 0x10000) div 1024) @
           unicode_escape (0xDC00 + (n - 0x10000) mod 1024))"

definition json_quote :: "string \<Rightarrow> string" where
  "json_quote s = [CHR 0x22] @ concat (map json_escape_char (str_chars s)) @ [CHR 0x22]"

fun sep_concat :: "string \<Rightarrow> string list \<Rightarrow> string" where
  "sep_concat sep [] = []"
| "sep_concat sep [x] = x"
| "sep_concat sep (x # y # zs) = x @ sep @ sep_concat sep (y # zs)"

fun json_dumps :: "json \<Rightarrow> string" where
  "json_dumps JNull = ''null''"
| "json_dumps (JBool b) = (if b then ''true'' else ''false'')"
| "json_dumps (JNum l) = l"
| "json_dumps (JStr s) = json_quote s"
| "json_dumps (JArr vs) = ''['' @ sep_concat '', '' (map json_dumps vs) @ '']''"
| "json_dumps (JObj ms) =
     ''{'' @ sep_concat '', '' (map (\<lambda>(k, v). json_quote k @ '': '' @ json_dumps v) ms) @ ''}''"

lemma json_dumps_examples:
  "json_loads (json_dumps (JObj [(''type'', JStr ''a''), (''n'', JArr [JNum ''1'', JNull])])) =
     Some (JObj [(''type'', JStr ''a''), (''n'', JArr [JNum ''1'', JNull])])"
  by code_simp

end
