(* ===== verification/Body_Parsers.thy ===== *)
theory Body_Parsers
  imports Json
begin

text \<open>
  The bounded parsers of the captured body (\<open>domain/services/body_parsers.py\<close>) and the part
  of \<open>urllib.parse\<close> they use. None of them raises: a body that is too large, no UTF-8 or
  malformed gives an empty result.
\<close>

section \<open>Form decoding\<close>

fun percent_bytes :: "string \<Rightarrow> string" where
  "percent_bytes (c # a # b # s) =
     (if c = CHR 0x25 then
        (case (hex_value a, hex_value b) of
           (Some x, Some y) \<Rightarrow> char_of (16 * x + y) # percent_bytes s
         | _ \<Rightarrow> c # percent_bytes (a # b # s))
      else c # percent_bytes (a # b # s))"
| "percent_bytes s = s"

text \<open>\<open>unquote\<close>: the ASCII runs are decoded as UTF-8, other characters stay as they are.\<close>

function unquote_parts :: "string \<Rightarrow> string" where
  "unquote_parts [] = []"
| "unquote_parts (c # s) =
     (let ascii = (\<lambda>x. byte x < 128) in
      if ascii c
      then utf8_replace (percent_bytes (takeWhile ascii (c # s))) @ unquote_parts (dropWhile ascii s)
      else c # unquote_parts s)"
  by pat_completeness auto
termination by (relation "measure length") (auto simp: le_imp_less_Suc length_dropWhile_le)

definition unquote_plus :: "string \<Rightarrow> string" where
  "unquote_plus s =
     (let t = map (\<lambda>c. if c = CHR ''+'' then CHR '' '' else c) s
      in if CHR 0x25 \<in> set t then unquote_parts t else t)"

text \<open>\<open>name_value.partition('=')\<close>.\<close>

definition partition_eq :: "string \<Rightarrow> string \<times> string" where
  "partition_eq s = (str_before (CHR ''='') s, str_after (CHR ''='') s)"

definition parse_qsl :: "bool \<Rightarrow> string \<Rightarrow> (string \<times> string) list" where
  "parse_qsl keep_blank_values qs =
     (if qs = [] then []
      else concat (map (\<lambda>name_value.
        if name_value = [] then []
        else let (name, value) = partition_eq name_value in
          if value \<noteq> [] \<or> keep_blank_values then [(unquote_plus name, unquote_plus value)] else [])
        (split_on (CHR ''&'') qs)))"

definition parse_qs :: "bool \<Rightarrow> string \<Rightarrow> (string \<times> string list) list" where
  "parse_qs keep_blank_values qs =
     fold (\<lambda>(name, value) d. AList.update name
         ((case map_of d name of None \<Rightarrow> [] | Some vs \<Rightarrow> vs) @ [value]) d)
       (parse_qsl keep_blank_values qs) []"

section \<open>Body parsers\<close>

definition PARSE_CAP_BYTES :: nat where
  "PARSE_CAP_BYTES = 8 * 1024"

definition parse_form_params :: "string \<Rightarrow> string \<Rightarrow> dict" where
  "parse_form_params body content_type =
     (if \<not> str_in ''application/x-www-form-urlencoded'' (str_lower content_type) then []
      else if PARSE_CAP_BYTES < length body then []
      else case utf8_decode body of
        Inl e \<Rightarrow> []
      | Inr decoded \<Rightarrow>
          map (\<lambda>(k, v). (k, hd v)) (filter (\<lambda>(k, v). v \<noteq> []) (parse_qs True decoded)))"

definition extract_stripe_event_type :: "string \<Rightarrow> string option" where
  "extract_stripe_event_type body =
     (if PARSE_CAP_BYTES < length body then None
      else case utf8_decode body of
        Inl e \<Rightarrow> None
      | Inr decoded \<Rightarrow>
          (case json_loads decoded of
             Some (JObj parsed) \<Rightarrow>
               (case map_of parsed ''type'' of Some (JStr t) \<Rightarrow> Some t | _ \<Rightarrow> None)
           | _ \<Rightarrow> None))"

text \<open>Every value of a parsed query is a list with at least one element, in order of appearance.\<close>

lemma parse_qs_values:
  "map_of (parse_qs keep s) k =
     (let vs = map snd (filter (\<lambda>p. fst p = k) (parse_qsl keep s)) in if vs = [] then None else Some vs)"
proof -
  let ?step = "\<lambda>(name, value) d. AList.update name
      ((case map_of d name of None \<Rightarrow> [] | Some vs \<Rightarrow> vs) @ [value]) d"
  have "map_of (fold ?step ps d) k =
      (let vs = map snd (filter (\<lambda>p. fst p = k) ps) in
       if vs = [] then map_of d k
       else Some ((case map_of d k of None \<Rightarrow> [] | Some us \<Rightarrow> us) @ vs))" for ps d
  proof (induction ps arbitrary: d)
    case (Cons p ps)
    show ?case
      by (cases p) (auto simp: Cons Let_def split: option.splits)
  qed simp
  from this [of "parse_qsl keep s" "[]"] show ?thesis
    by (simp add: parse_qs_def)
qed

lemma dict_wf_parse_qs: "dict_wf (parse_qs keep s)"
proof -
  have "dict_wf d \<Longrightarrow> dict_wf (fold (\<lambda>(name, value) d. AList.update name
      ((case map_of d name of None \<Rightarrow> [] | Some vs \<Rightarrow> vs) @ [value]) d) ps d)"
    for ps and d :: "(string \<times> string list) list"
    by (induction ps arbitrary: d) auto
  then show ?thesis by (simp add: parse_qs_def)
qed

lemma parse_form_params_lookup:
  assumes "map_of (parse_form_params body ct) k = Some v"
  shows "\<exists>decoded vs. utf8_decode body = Inr decoded \<and> map_of (parse_qs True decoded) k = Some (v # vs)"
proof -
  obtain decoded where d: "utf8_decode body = Inr decoded" and
    m: "map_of (map (\<lambda>(k, v). (k, hd v)) (filter (\<lambda>(k, v). v \<noteq> []) (parse_qs True decoded))) k = Some v"
    using assms by (auto simp: parse_form_params_def split: if_splits sum.splits)
  then obtain vs where "(k, vs) \<in> set (parse_qs True decoded)" "vs \<noteq> []" "v = hd vs"
    by (auto dest!: map_of_SomeD)
  then have "map_of (parse_qs True decoded) k = Some (v # tl vs)"
    using dict_wf_parse_qs [of True decoded] by (simp add: dict_wf_def)
  with d show ?thesis by blast
qed

lemma body_parser_examples:
  "parse_form_params ''a=1&b=%41+c&a=2&d'' ''Application/X-WWW-Form-Urlencoded; charset=utf-8'' =
     [(''a'', ''1''), (''b'', ''A c''), (''d'', '''')]"
  "extract_stripe_event_type
     (json_dumps (JObj [(''id'', JStr ''evt_1''), (''type'', JStr ''charge.succeeded'')])) =
     Some ''charge.succeeded''"
  by code_simp+

end
