(* ===== verification/Hmac_Validators.thy ===== *)
theory Hmac_Validators
  imports World Body_Parsers
begin

text \<open>
  Encrypted secrets (\<open>infrastructure/crypto/secrets.py\<close>), the signature of forwards
  (\<open>outbound_signature.py\<close>) and the nine signature validators with their factory
  (\<open>domain/services/hmac\<close>). The locale \<open>signature_scheme\<close> states the port
  \<open>HmacValidator\<close>: which signatures a request offers, which one is accepted.
\<close>

section \<open>Secrets at rest\<close>

definition NONCE_SIZE :: nat where
  "NONCE_SIZE = 12"

definition encrypt_secret :: "services \<Rightarrow> string \<Rightarrow> string \<Rightarrow> string \<Rightarrow> string res" where
  "encrypt_secret sv nonce key plaintext =
     bindR (raise_unless (length key = 32) ValueError) (\<lambda>_.
     Inr (nonce @ sv_encrypt sv key nonce plaintext))"

definition decrypt_secret :: "services \<Rightarrow> string \<Rightarrow> string \<Rightarrow> string res" where
  "decrypt_secret sv key blob =
     bindR (raise_unless (length key = 32) ValueError) (\<lambda>_.
     bindR (raise_unless (NONCE_SIZE \<le> length blob) ValueError) (\<lambda>_.
     case sv_decrypt sv key (take NONCE_SIZE blob) (drop NONCE_SIZE blob) of
       None \<Rightarrow> Inl InvalidTag
     | Some plaintext \<Rightarrow> utf8_decode plaintext))"

text \<open>What the code relies on: AES-GCM decrypts what it encrypted under the same key and nonce.\<close>

definition aead_correct :: "services \<Rightarrow> bool" where
  "aead_correct sv \<longleftrightarrow>
     (\<forall>key nonce p. length key = 32 \<longrightarrow> length nonce = NONCE_SIZE \<longrightarrow>
        sv_decrypt sv key nonce (sv_encrypt sv key nonce p) = Some p)"

lemma decrypt_encrypt:
  assumes "aead_correct sv" and "length nonce = NONCE_SIZE" and "utf8_valid p"
    and "encrypt_secret sv nonce key p = Inr blob"
  shows "decrypt_secret sv key blob = Inr p"
  using assms
  by (auto simp: encrypt_secret_def decrypt_secret_def bindR_Inr_iff aead_correct_def utf8_decode_def)

section \<open>The signature of a forward\<close>

definition sign_forward :: "services \<Rightarrow> string \<Rightarrow> int \<Rightarrow> string \<Rightarrow> string" where
  "sign_forward sv secret timestamp body =
     hexdigest (sv_sha256 sv secret (str_int timestamp @ ''.'' @ body))"

section \<open>Validators\<close>

datatype validation_result = VALID | INVALID | MISSING | NO_PROVIDER

fun result_value :: "validation_result \<Rightarrow> string" where
  "result_value VALID = ''valid''"
| "result_value INVALID = ''invalid''"
| "result_value MISSING = ''missing''"
| "result_value NO_PROVIDER = ''no_provider''"

definition SIGNATURE_STATUS_VALUES :: "string list" where
  "SIGNATURE_STATUS_VALUES = map result_value [VALID, INVALID, MISSING, NO_PROVIDER]"

lemma result_value_mem [simp]: "result_value r \<in> set SIGNATURE_STATUS_VALUES"
  by (cases r) (simp_all add: SIGNATURE_STATUS_VALUES_def)

text \<open>
  \<open>hmac.compare_digest\<close> on two \<open>str\<close> raises a \<open>TypeError\<close> unless both are ASCII.
\<close>

definition compare_digest :: "string \<Rightarrow> string \<Rightarrow> bool res" where
  "compare_digest a b = (if is_ascii a \<and> is_ascii b then Inr (a = b) else Inl TypeError)"

definition verdict :: "string \<Rightarrow> string \<Rightarrow> validation_result res" where
  "verdict expected actual =
     bindR (compare_digest expected actual) (\<lambda>eq. Inr (if eq then VALID else INVALID))"

text \<open>\<open>if not header: return MISSING\<close>.\<close>

definition when_present ::
  "string option \<Rightarrow> (string \<Rightarrow> validation_result res) \<Rightarrow> validation_result res" where
  "when_present header f =
     (case header of None \<Rightarrow> Inr MISSING | Some h \<Rightarrow> if h = [] then Inr MISSING else f h)"

definition hex_hmac :: "services \<Rightarrow> string \<Rightarrow> string \<Rightarrow> string" where
  "hex_hmac sv secret payload = hexdigest (sv_sha256 sv secret payload)"

definition github_validate :: "services \<Rightarrow> string \<Rightarrow> dict \<Rightarrow> string \<Rightarrow> validation_result res" where
  "github_validate sv body headers secret =
     when_present (dict_get_or headers ''x-hub-signature-256'' ''X-Hub-Signature-256'') (\<lambda>header.
       if \<not> prefix ''sha256='' header then Inr INVALID
       else verdict (hex_hmac sv secret body) (drop (length ''sha256='') header))"

definition shopify_validate :: "services \<Rightarrow> string \<Rightarrow> dict \<Rightarrow> string \<Rightarrow> validation_result res" where
  "shopify_validate sv body headers secret =
     when_present (dict_get_or headers ''x-shopify-hmac-sha256'' ''X-Shopify-Hmac-Sha256'') (\<lambda>header.
       verdict (b64encode (sv_sha256 sv secret body)) (str_strip header))"

definition twilio_validate :: "services \<Rightarrow> string \<Rightarrow> dict \<Rightarrow> string \<Rightarrow> validation_result res" where
  "twilio_validate sv body headers secret =
     when_present (dict_get_or headers ''x-twilio-signature'' ''X-Twilio-Signature'') (\<lambda>header.
       verdict (b64encode (sv_sha1 sv secret body)) (str_strip header))"

definition zapier_validate :: "services \<Rightarrow> string \<Rightarrow> dict \<Rightarrow> string \<Rightarrow> validation_result res" where
  "zapier_validate sv body headers secret =
     when_present (dict_get_or headers ''x-hook-signature'' ''X-Hook-Signature'') (\<lambda>header.
       verdict (hex_hmac sv secret body) (str_strip header))"

definition n8n_validate :: "services \<Rightarrow> string \<Rightarrow> dict \<Rightarrow> string \<Rightarrow> validation_result res" where
  "n8n_validate sv body headers secret =
     when_present (dict_get_or headers ''x-n8n-signature'' ''X-N8N-Signature'') (\<lambda>header.
       verdict (hex_hmac sv secret body) (str_strip header))"

definition slack_validate :: "services \<Rightarrow> string \<Rightarrow> dict \<Rightarrow> string \<Rightarrow> validation_result res" where
  "slack_validate sv body headers secret =
     when_present (dict_get_or headers ''x-slack-signature'' ''X-Slack-Signature'') (\<lambda>sig_header.
     when_present (dict_get_or headers ''x-slack-request-timestamp'' ''X-Slack-Request-Timestamp'')
       (\<lambda>timestamp.
       if \<not> prefix ''v0='' sig_header then Inr INVALID
       else case utf8_decode body of
         Inl e \<Rightarrow> Inr INVALID
       | Inr b \<Rightarrow> verdict (hex_hmac sv secret (''v0:'' @ timestamp @ '':'' @ b))
           (drop (length ''v0='') sig_header)))"

definition MAX_BODY_BYTES :: nat where
  "MAX_BODY_BYTES = 64 * 1024"

definition mailgun_validate :: "services \<Rightarrow> string \<Rightarrow> dict \<Rightarrow> string \<Rightarrow> validation_result res" where
  "mailgun_validate sv body headers secret =
     (if MAX_BODY_BYTES < length body then Inr INVALID
      else let parsed = parse_qs False (utf8_replace body) in
        case (map_of parsed ''timestamp'', map_of parsed ''token'', map_of parsed ''signature'') of
          (Some (timestamp # _), Some (token # _), Some (actual # _)) \<Rightarrow>
            verdict (hex_hmac sv secret (timestamp @ token)) actual
        | _ \<Rightarrow> Inr MISSING)"

text \<open>The parts of a Stripe header: the last timestamp and every \<open>v1\<close> signature, in order.\<close>

definition stripe_chunk :: "string \<Rightarrow> string option \<times> string list \<Rightarrow> string option \<times> string list" where
  "stripe_chunk chunk ts_sigs =
     (case ts_sigs of (timestamp, signatures) \<Rightarrow>
        if CHR ''='' \<notin> set chunk then (timestamp, signatures)
        else let k = str_strip (str_before (CHR ''='') chunk);
                 v = str_strip (str_after (CHR ''='') chunk)
             in if k = ''t'' then (Some v, signatures)
                else if k = ''v1'' then (timestamp, signatures @ [v])
                else (timestamp, signatures))"

definition stripe_parse :: "string \<Rightarrow> string option \<times> string list" where
  "stripe_parse header = fold stripe_chunk (split_on (CHR '','') header) (None, [])"

fun any_match :: "string \<Rightarrow> string list \<Rightarrow> validation_result res" where
  "any_match expected [] = Inr INVALID"
| "any_match expected (actual # signatures) =
     bindR (compare_digest expected actual) (\<lambda>eq.
       if eq then Inr VALID else any_match expected signatures)"

definition stripe_validate :: "services \<Rightarrow> string \<Rightarrow> dict \<Rightarrow> string \<Rightarrow> validation_result res" where
  "stripe_validate sv body headers secret =
     when_present (dict_get_or headers ''stripe-signature'' ''Stripe-Signature'') (\<lambda>header.
       case stripe_parse header of (timestamp, signatures) \<Rightarrow>
         if falsy timestamp \<or> signatures = [] then Inr INVALID
         else case utf8_decode body of
           Inl e \<Rightarrow> Inr INVALID
         | Inr b \<Rightarrow> any_match (hex_hmac sv secret (the timestamp @ ''.'' @ b)) signatures)"

definition discord_validate :: "services \<Rightarrow> string \<Rightarrow> dict \<Rightarrow> string \<Rightarrow> validation_result res" where
  "discord_validate sv body headers secret =
     when_present (dict_get_or headers ''x-signature-ed25519'' ''X-Signature-Ed25519'') (\<lambda>sig_hex.
     when_present (dict_get_or headers ''x-signature-timestamp'' ''X-Signature-Timestamp'') (\<lambda>timestamp.
       case utf8_decode body of
         Inl e \<Rightarrow> Inr INVALID
       | Inr body_str \<Rightarrow>
           (case (fromhex secret, fromhex sig_hex) of
              (Inr pk, Inr sig) \<Rightarrow>
                (if length pk = 32 \<and> sv_ed25519 sv pk (timestamp @ body_str) sig
                 then Inr VALID else Inr INVALID)
            | _ \<Rightarrow> Inr INVALID)))"

section \<open>The factory\<close>

type_synonym validator = "services \<Rightarrow> string \<Rightarrow> dict \<Rightarrow> string \<Rightarrow> validation_result res"

definition VALIDATORS :: "(string \<times> validator) list" where
  "VALIDATORS =
     [(''stripe'', stripe_validate), (''github'', github_validate), (''shopify'', shopify_validate),
      (''twilio'', twilio_validate), (''mailgun'', mailgun_validate), (''discord'', discord_validate),
      (''slack'', slack_validate), (''zapier'', zapier_validate), (''n8n'', n8n_validate)]"

definition get_validator :: "string \<Rightarrow> validator option" where
  "get_validator provider = map_of VALIDATORS (str_lower provider)"

lemma validators_names: "map fst VALIDATORS = INTEGRATION_NAMES"
  by (simp add: VALIDATORS_def INTEGRATION_NAMES_def)

lemma get_validator_iff: "get_validator p \<noteq> None \<longleftrightarrow> str_lower p \<in> set INTEGRATION_NAMES"
  unfolding get_validator_def validators_names [symmetric] by (simp add: map_of_eq_None_iff)

section \<open>What a scheme promises\<close>

text \<open>
  \<open>offered body headers\<close> are the signatures the request carries, None when the header (for
  Mailgun the form field) is not there; \<open>accepts\<close> tells which of them proves knowledge of the
  secret.
\<close>

locale signature_scheme =
  fixes validate :: validator
    and offered :: "string \<Rightarrow> dict \<Rightarrow> string list option"
    and accepts :: "services \<Rightarrow> string \<Rightarrow> string \<Rightarrow> dict \<Rightarrow> string \<Rightarrow> bool"
  assumes missing_iff: "validate sv b h s = Inr MISSING \<longleftrightarrow> offered b h = None"
    and valid_sound: "validate sv b h s = Inr VALID \<Longrightarrow>
      \<exists>sigs sig. offered b h = Some sigs \<and> sig \<in> set sigs \<and> accepts sv s b h sig"
    and valid_complete: "offered b h = Some sigs \<Longrightarrow> sig \<in> set sigs \<Longrightarrow> accepts sv s b h sig \<Longrightarrow>
      \<forall>x \<in> set sigs. is_ascii x \<Longrightarrow> validate sv b h s = Inr VALID"
    and never_no_provider: "validate sv b h s \<noteq> Inr NO_PROVIDER"
    and raises_only: "validate sv b h s = Inl e \<Longrightarrow>
      e = TypeError \<and> (\<exists>sigs. offered b h = Some sigs \<and> (\<exists>x \<in> set sigs. \<not> is_ascii x))"
begin

lemma ascii_total:
  assumes "\<And>sigs. offered b h = Some sigs \<Longrightarrow> \<forall>x \<in> set sigs. is_ascii x"
  shows "\<exists>r. validate sv b h s = Inr r"
  using assms raises_only by (cases "validate sv b h s") blast+

lemma ascii_verdict:
  assumes "offered b h = Some sigs" and "\<forall>x \<in> set sigs. is_ascii x"
  shows "validate sv b h s = Inr (if \<exists>x \<in> set sigs. accepts sv s b h x then VALID else INVALID)"
proof -
  obtain r where r: "validate sv b h s = Inr r"
    using ascii_total [of b h sv s] assms by auto
  have "r \<noteq> MISSING" "r \<noteq> NO_PROVIDER"
    using r missing_iff [of sv b h s] never_no_provider [of sv b h s] assms(1) by auto
  then have two: "r = VALID \<or> r = INVALID" by (cases r) auto
  show ?thesis
  proof (cases "\<exists>x \<in> set sigs. accepts sv s b h x")
    case True
    then show ?thesis using valid_complete assms by auto
  next
    case False
    then have "r \<noteq> VALID" using r valid_sound assms(1) by fastforce
    with two r False show ?thesis by simp
  qed
qed

text \<open>Without the secret's signature no request is accepted.\<close>

lemma not_forged:
  assumes "\<And>sigs sig. offered b h = Some sigs \<Longrightarrow> sig \<in> set sigs \<Longrightarrow> \<not> accepts sv s b h sig"
  shows "validate sv b h s \<noteq> Inr VALID"
  using assms valid_sound by blast

end

definition header_value :: "dict \<Rightarrow> string \<Rightarrow> string \<Rightarrow> string option" where
  "header_value h a b =
     (case dict_get_or h a b of None \<Rightarrow> None | Some v \<Rightarrow> if v = [] then None else Some v)"

definition github_offered :: "string \<Rightarrow> dict \<Rightarrow> string list option" where
  "github_offered b h = map_option (\<lambda>v. if prefix ''sha256='' v then [drop (length ''sha256='') v] else [])
     (header_value h ''x-hub-signature-256'' ''X-Hub-Signature-256'')"

definition stripped_offered :: "string \<Rightarrow> string \<Rightarrow> string \<Rightarrow> dict \<Rightarrow> string list option" where
  "stripped_offered n1 n2 b h = map_option (\<lambda>v. [str_strip v]) (header_value h n1 n2)"

definition slack_timestamp :: "dict \<Rightarrow> string option" where
  "slack_timestamp h = header_value h ''x-slack-request-timestamp'' ''X-Slack-Request-Timestamp''"

definition slack_offered :: "string \<Rightarrow> dict \<Rightarrow> string list option" where
  "slack_offered b h =
     (case (header_value h ''x-slack-signature'' ''X-Slack-Signature'', slack_timestamp h) of
        (Some v, Some t) \<Rightarrow> Some (if prefix ''v0='' v then [drop (length ''v0='') v] else [])
      | _ \<Rightarrow> None)"

definition stripe_offered :: "string \<Rightarrow> dict \<Rightarrow> string list option" where
  "stripe_offered b h = map_option (\<lambda>v. snd (stripe_parse v))
     (header_value h ''stripe-signature'' ''Stripe-Signature'')"

definition mailgun_fields :: "string \<Rightarrow> (string \<times> string \<times> string) option" where
  "mailgun_fields b =
     (let parsed = parse_qs False (utf8_replace b) in
      case (map_of parsed ''timestamp'', map_of parsed ''token'', map_of parsed ''signature'') of
        (Some (t # _), Some (k # _), Some (s # _)) \<Rightarrow> Some (t, k, s)
      | _ \<Rightarrow> None)"

definition mailgun_offered :: "string \<Rightarrow> dict \<Rightarrow> string list option" where
  "mailgun_offered b h =
     (if MAX_BODY_BYTES < length b then Some []
      else map_option (\<lambda>(t, k, s). [s]) (mailgun_fields b))"

definition discord_offered :: "string \<Rightarrow> dict \<Rightarrow> string list option" where
  "discord_offered b h =
     (case (header_value h ''x-signature-ed25519'' ''X-Signature-Ed25519'',
            header_value h ''x-signature-timestamp'' ''X-Signature-Timestamp'') of
        (Some v, Some t) \<Rightarrow> Some [v]
      | _ \<Rightarrow> None)"

lemma when_present_header:
  "when_present (dict_get_or h a b) f = (case header_value h a b of None \<Rightarrow> Inr MISSING | Some v \<Rightarrow> f v)"
  by (simp add: when_present_def header_value_def split: option.splits)

text \<open>
  The shape eight of the nine validators have: the offered signatures are compared in order with
  the one expected text, which may not exist (a body that is no UTF-8).
\<close>

definition comparing ::
  "(string \<Rightarrow> dict \<Rightarrow> string list option) \<Rightarrow> (services \<Rightarrow> string \<Rightarrow> string \<Rightarrow> dict \<Rightarrow> string option) \<Rightarrow> validator"
where
  "comparing offered expected sv b h s =
     (case offered b h of
        None \<Rightarrow> Inr MISSING
      | Some sigs \<Rightarrow>
          (case expected sv s b h of None \<Rightarrow> Inr INVALID | Some e \<Rightarrow> any_match e sigs))"

lemma any_match_ascii:
  "is_ascii e \<Longrightarrow> \<forall>s \<in> set sigs. is_ascii s \<Longrightarrow>
     any_match e sigs = Inr (if e \<in> set sigs then VALID else INVALID)"
  by (induction sigs) (simp_all add: compare_digest_def)

lemma any_match_cases:
  assumes "is_ascii e"
  shows "any_match e sigs = Inr VALID \<and> e \<in> set sigs \<or> any_match e sigs = Inr INVALID \<or>
    any_match e sigs = Inl TypeError \<and> (\<exists>s \<in> set sigs. \<not> is_ascii s)"
  by (induction sigs) (use assms in \<open>auto simp: compare_digest_def\<close>)

lemma verdict_any_match: "verdict e a = any_match e [a]"
  by (simp add: verdict_def compare_digest_def)

lemma is_ascii_hex_hmac [simp]: "is_ascii (hex_hmac sv s p)"
  by (simp add: hex_hmac_def)

lemma comparing_cases:
  assumes "\<And>e. expected sv s b h = Some e \<Longrightarrow> is_ascii e"
  obtains (missing) "offered b h = None" "comparing offered expected sv b h s = Inr MISSING"
    | (invalid) sigs where "offered b h = Some sigs" "comparing offered expected sv b h s = Inr INVALID"
    | (valid) sigs e where "offered b h = Some sigs" "expected sv s b h = Some e" "e \<in> set sigs"
        "comparing offered expected sv b h s = Inr VALID"
    | (raises) sigs where "offered b h = Some sigs" "\<exists>x \<in> set sigs. \<not> is_ascii x"
        "comparing offered expected sv b h s = Inl TypeError"
proof (cases "offered b h")
  case None
  then show ?thesis by (intro missing) (simp_all add: comparing_def)
next
  case (Some sigs)
  note sigs = this
  show ?thesis
  proof (cases "expected sv s b h")
    case None
    with sigs show ?thesis by (intro invalid) (simp_all add: comparing_def)
  next
    case (Some e)
    with sigs have "comparing offered expected sv b h s = any_match e sigs"
      by (simp add: comparing_def)
    with any_match_cases [OF assms [OF Some], of sigs] show ?thesis
      using sigs Some valid invalid raises by metis
  qed
qed

lemma comparing_scheme:
  assumes "\<And>sv s b h e. expected sv s b h = Some e \<Longrightarrow> is_ascii e"
  shows "signature_scheme (comparing offered expected) offered
    (\<lambda>sv s b h sig. expected sv s b h = Some sig)"
proof unfold_locales
  fix sv b h s
  note split = comparing_cases [where expected = expected and offered = offered, OF assms]
  show "comparing offered expected sv b h s = Inr MISSING \<longleftrightarrow> offered b h = None"
    by (rule split [where sv = sv and s = s and b = b and h = h]) simp_all
  show "\<exists>sigs sig. offered b h = Some sigs \<and> sig \<in> set sigs \<and> expected sv s b h = Some sig"
    if "comparing offered expected sv b h s = Inr VALID"
    by (rule split [where sv = sv and s = s and b = b and h = h]) (use that in simp_all)
  show "comparing offered expected sv b h s = Inr VALID"
    if "offered b h = Some sigs" "sig \<in> set sigs" "expected sv s b h = Some sig"
      "\<forall>x \<in> set sigs. is_ascii x" for sigs sig
    using that assms by (simp add: comparing_def any_match_ascii)
  show "comparing offered expected sv b h s \<noteq> Inr NO_PROVIDER"
    by (rule split [where sv = sv and s = s and b = b and h = h]) simp_all
  show "e = TypeError \<and> (\<exists>sigs. offered b h = Some sigs \<and> (\<exists>x \<in> set sigs. \<not> is_ascii x))"
    if "comparing offered expected sv b h s = Inl e" for e
    by (rule split [where sv = sv and s = s and b = b and h = h]) (use that in simp_all)
qed

definition body_hex :: "services \<Rightarrow> string \<Rightarrow> string \<Rightarrow> dict \<Rightarrow> string option" where
  "body_hex sv s b h = Some (hex_hmac sv s b)"

definition body_b64 :: "services \<Rightarrow> string \<Rightarrow> string \<Rightarrow> dict \<Rightarrow> string option" where
  "body_b64 sv s b h = Some (b64encode (sv_sha256 sv s b))"

definition body_sha1 :: "services \<Rightarrow> string \<Rightarrow> string \<Rightarrow> dict \<Rightarrow> string option" where
  "body_sha1 sv s b h = Some (b64encode (sv_sha1 sv s b))"

definition slack_expected :: "services \<Rightarrow> string \<Rightarrow> string \<Rightarrow> dict \<Rightarrow> string option" where
  "slack_expected sv s b h =
     (if utf8_valid b then Some (hex_hmac sv s (''v0:'' @ the (slack_timestamp h) @ '':'' @ b))
      else None)"

definition stripe_expected :: "services \<Rightarrow> string \<Rightarrow> string \<Rightarrow> dict \<Rightarrow> string option" where
  "stripe_expected sv s b h =
     (case header_value h ''stripe-signature'' ''Stripe-Signature'' of
        None \<Rightarrow> None
      | Some v \<Rightarrow>
          (case fst (stripe_parse v) of
             None \<Rightarrow> None
           | Some ts \<Rightarrow>
               if ts = [] \<or> \<not> utf8_valid b then None else Some (hex_hmac sv s (ts @ ''.'' @ b))))"

definition mailgun_expected :: "services \<Rightarrow> string \<Rightarrow> string \<Rightarrow> dict \<Rightarrow> string option" where
  "mailgun_expected sv s b h =
     (if MAX_BODY_BYTES < length b then None
      else map_option (\<lambda>(t, k, x). hex_hmac sv s (t @ k)) (mailgun_fields b))"

lemma github_comparing: "github_validate = comparing github_offered body_hex"
  by (intro ext)
    (simp only: github_validate_def comparing_def github_offered_def body_hex_def when_present_header
      verdict_any_match any_match.simps(1) split: option.split, simp del: any_match.simps(2))

lemma shopify_comparing:
  "shopify_validate = comparing (stripped_offered ''x-shopify-hmac-sha256'' ''X-Shopify-Hmac-Sha256'') body_b64"
  by (intro ext) (simp only: shopify_validate_def comparing_def stripped_offered_def body_b64_def
      when_present_header verdict_any_match split: option.split, simp)

lemma twilio_comparing:
  "twilio_validate = comparing (stripped_offered ''x-twilio-signature'' ''X-Twilio-Signature'') body_sha1"
  by (intro ext) (simp only: twilio_validate_def comparing_def stripped_offered_def body_sha1_def
      when_present_header verdict_any_match split: option.split, simp)

lemma zapier_comparing:
  "zapier_validate = comparing (stripped_offered ''x-hook-signature'' ''X-Hook-Signature'') body_hex"
  by (intro ext) (simp only: zapier_validate_def comparing_def stripped_offered_def body_hex_def
      when_present_header verdict_any_match split: option.split, simp)

lemma n8n_comparing:
  "n8n_validate = comparing (stripped_offered ''x-n8n-signature'' ''X-N8N-Signature'') body_hex"
  by (intro ext) (simp only: n8n_validate_def comparing_def stripped_offered_def body_hex_def
      when_present_header verdict_any_match split: option.split, simp)

lemma slack_comparing: "slack_validate = comparing slack_offered slack_expected"
  by (intro ext) (simp only: slack_validate_def comparing_def slack_offered_def slack_expected_def
      slack_timestamp_def when_present_header verdict_any_match utf8_decode_def split: option.split, simp)

lemma stripe_comparing: "stripe_validate = comparing stripe_offered stripe_expected"
  by (intro ext) (simp only: stripe_validate_def comparing_def stripe_offered_def stripe_expected_def
      when_present_header utf8_decode_def falsy_def split: option.split, auto split: prod.split option.split)

lemma mailgun_comparing: "mailgun_validate = comparing mailgun_offered mailgun_expected"
  by (intro ext)
    (simp add: mailgun_validate_def mailgun_fields_def comparing_def mailgun_offered_def
      mailgun_expected_def Let_def verdict_any_match split: option.split list.split)

lemma expected_ascii:
  "body_hex sv s b h = Some e \<Longrightarrow> is_ascii e" "body_b64 sv s b h = Some e \<Longrightarrow> is_ascii e"
  "body_sha1 sv s b h = Some e \<Longrightarrow> is_ascii e" "slack_expected sv s b h = Some e \<Longrightarrow> is_ascii e"
  "stripe_expected sv s b h = Some e \<Longrightarrow> is_ascii e"
  "mailgun_expected sv s b h = Some e \<Longrightarrow> is_ascii e"
  by (auto simp: body_hex_def body_b64_def body_sha1_def slack_expected_def stripe_expected_def
      mailgun_expected_def split: if_splits option.splits)

interpretation github: signature_scheme github_validate github_offered
  "\<lambda>sv s b h sig. body_hex sv s b h = Some sig"
  unfolding github_comparing by (rule comparing_scheme) (rule expected_ascii)

interpretation shopify: signature_scheme shopify_validate
  "stripped_offered ''x-shopify-hmac-sha256'' ''X-Shopify-Hmac-Sha256''"
  "\<lambda>sv s b h sig. body_b64 sv s b h = Some sig"
  unfolding shopify_comparing by (rule comparing_scheme) (rule expected_ascii)

interpretation twilio: signature_scheme twilio_validate
  "stripped_offered ''x-twilio-signature'' ''X-Twilio-Signature''"
  "\<lambda>sv s b h sig. body_sha1 sv s b h = Some sig"
  unfolding twilio_comparing by (rule comparing_scheme) (rule expected_ascii)

interpretation zapier: signature_scheme zapier_validate
  "stripped_offered ''x-hook-signature'' ''X-Hook-Signature''"
  "\<lambda>sv s b h sig. body_hex sv s b h = Some sig"
  unfolding zapier_comparing by (rule comparing_scheme) (rule expected_ascii)

interpretation n8n: signature_scheme n8n_validate
  "stripped_offered ''x-n8n-signature'' ''X-N8N-Signature''"
  "\<lambda>sv s b h sig. body_hex sv s b h = Some sig"
  unfolding n8n_comparing by (rule comparing_scheme) (rule expected_ascii)

interpretation slack: signature_scheme slack_validate slack_offered
  "\<lambda>sv s b h sig. slack_expected sv s b h = Some sig"
  unfolding slack_comparing by (rule comparing_scheme) (rule expected_ascii)

interpretation stripe: signature_scheme stripe_validate stripe_offered
  "\<lambda>sv s b h sig. stripe_expected sv s b h = Some sig"
  unfolding stripe_comparing by (rule comparing_scheme) (rule expected_ascii)

interpretation mailgun: signature_scheme mailgun_validate mailgun_offered
  "\<lambda>sv s b h sig. mailgun_expected sv s b h = Some sig"
  unfolding mailgun_comparing by (rule comparing_scheme) (rule expected_ascii)

definition discord_accepts :: "services \<Rightarrow> string \<Rightarrow> string \<Rightarrow> dict \<Rightarrow> string \<Rightarrow> bool" where
  "discord_accepts sv s b h sig_hex \<longleftrightarrow>
     (\<exists>t pk sig. header_value h ''x-signature-timestamp'' ''X-Signature-Timestamp'' = Some t \<and>
        fromhex s = Inr pk \<and> fromhex sig_hex = Inr sig \<and> length pk = 32 \<and> utf8_valid b \<and>
        sv_ed25519 sv pk (t @ b) sig)"

lemma discord_validate_eq:
  "discord_validate sv b h s =
     (case discord_offered b h of
        None \<Rightarrow> Inr MISSING
      | Some sigs \<Rightarrow> Inr (if discord_accepts sv s b h (hd sigs) then VALID else INVALID))"
  by (simp only: discord_validate_def discord_offered_def discord_accepts_def when_present_header
      utf8_decode_def split: option.split) (auto split: sum.splits)

lemma discord_one: "discord_offered b h = Some sigs \<Longrightarrow> sigs = [hd sigs]"
  by (auto simp only: discord_offered_def prod.case list.sel option.case split: option.splits)

interpretation discord: signature_scheme discord_validate discord_offered discord_accepts
proof unfold_locales
  fix sv b h s
  show "\<exists>sigs sig. discord_offered b h = Some sigs \<and> sig \<in> set sigs \<and> discord_accepts sv s b h sig"
    if "discord_validate sv b h s = Inr VALID"
  proof -
    from that obtain sigs where "discord_offered b h = Some sigs" "discord_accepts sv s b h (hd sigs)"
      by (simp add: discord_validate_eq split: option.splits if_splits)
    with discord_one [OF this(1)] show ?thesis by (metis list.set_intros(1))
  qed
  show "discord_validate sv b h s = Inr VALID"
    if "discord_offered b h = Some sigs" "sig \<in> set sigs" "discord_accepts sv s b h sig" for sigs sig
  proof -
    have "sig = hd sigs" using that(2) discord_one [OF that(1)] by (metis empty_iff empty_set set_ConsD)
    with that show ?thesis by (simp add: discord_validate_eq)
  qed
qed (simp_all add: discord_validate_eq split: option.splits)

section \<open>The validators together\<close>

text \<open>Every registered validator: it never answers \<open>no_provider\<close>, and raises a TypeError only.\<close>

lemma get_validator_cases:
  assumes "get_validator p = Some v"
  shows "v \<in> set [stripe_validate, github_validate, shopify_validate, twilio_validate,
    mailgun_validate, discord_validate, slack_validate, zapier_validate, n8n_validate]"
proof -
  have "v \<in> snd ` set VALIDATORS"
    using map_of_SomeD [OF assms [unfolded get_validator_def]] by force
  then show ?thesis by (simp only: VALIDATORS_def list.set image_insert image_empty snd_conv)
qed

lemmas never_no_provider = stripe.never_no_provider github.never_no_provider
  shopify.never_no_provider twilio.never_no_provider mailgun.never_no_provider
  discord.never_no_provider slack.never_no_provider zapier.never_no_provider n8n.never_no_provider

lemmas raises_only = stripe.raises_only github.raises_only shopify.raises_only twilio.raises_only
  mailgun.raises_only discord.raises_only slack.raises_only zapier.raises_only n8n.raises_only

lemma validators_answer:
  assumes "get_validator p = Some v"
  shows "v sv b h s \<noteq> Inr NO_PROVIDER" "v sv b h s = Inl e \<Longrightarrow> e = TypeError"
proof -
  have v: "v = stripe_validate \<or> v = github_validate \<or> v = shopify_validate \<or>
      v = twilio_validate \<or> v = mailgun_validate \<or> v = discord_validate \<or> v = slack_validate \<or>
      v = zapier_validate \<or> v = n8n_validate"
    using get_validator_cases [OF assms] by simp
  then show "v sv b h s \<noteq> Inr NO_PROVIDER" using never_no_provider by (elim disjE) simp_all
  show "e = TypeError" if "v sv b h s = Inl e"
    using v that raises_only(1-9) [THEN conjunct1] by (elim disjE) simp_all
qed

end
