(* ===== verification/Integration_Detector.thy ===== *)
theory Integration_Detector
  imports Database
begin

text \<open>
  Which sender a captured request comes from (\<open>domain/services/integration_detector.py\<close>): the
  detectors in their order, the first that answers wins.
\<close>

type_synonym detection = "(string \<times> string option) option"
type_synonym detector = "dict \<Rightarrow> string \<Rightarrow> dict \<Rightarrow> detection"

definition has :: "dict \<Rightarrow> string \<Rightarrow> bool" where
  "has d k \<longleftrightarrow> map_of d k \<noteq> None"

definition detect_stripe :: detector where
  "detect_stripe h ua p = (if has h ''stripe-signature'' then Some (''stripe'', None) else None)"

definition detect_github :: detector where
  "detect_github h ua p =
     (if has h ''x-github-event'' \<and> has h ''x-github-delivery''
      then Some (''github'', map_of h ''x-github-event'') else None)"

definition detect_shopify :: detector where
  "detect_shopify h ua p =
     (if has h ''x-shopify-topic'' \<and> has h ''x-shopify-shop-domain''
      then Some (''shopify'', map_of h ''x-shopify-topic'') else None)"

definition detect_twilio :: detector where
  "detect_twilio h ua p = (if has h ''x-twilio-signature'' then Some (''twilio'', None) else None)"

definition detect_mailgun :: detector where
  "detect_mailgun h ua p =
     (if has h ''x-mailgun-signature-v2'' then Some (''mailgun'', None)
      else if has p ''signature'' \<and> has p ''timestamp'' \<and> has p ''token'' then Some (''mailgun'', None)
      else None)"

definition detect_discord :: detector where
  "detect_discord h ua p =
     (if has h ''x-signature-ed25519'' \<and> has h ''x-signature-timestamp''
      then Some (''discord'', None) else None)"

definition detect_slack :: detector where
  "detect_slack h ua p =
     (if has h ''x-slack-signature'' \<and> has h ''x-slack-request-timestamp''
      then Some (''slack'', None) else None)"

definition detect_zapier :: detector where
  "detect_zapier h ua p = (if str_in ''zapier'' (str_lower ua) then Some (''zapier'', None) else None)"

definition detect_n8n :: detector where
  "detect_n8n h ua p = (if has h ''x-n8n-signature'' then Some (''n8n'', None) else None)"

definition DETECTORS :: "detector list" where
  "DETECTORS =
     [detect_stripe, detect_github, detect_shopify, detect_twilio, detect_mailgun, detect_discord,
      detect_slack, detect_n8n, detect_zapier]"

fun first_detection :: "detector list \<Rightarrow> dict \<Rightarrow> string \<Rightarrow> dict \<Rightarrow> detection" where
  "first_detection [] h ua p = None"
| "first_detection (det # dets) h ua p =
     (case det h ua p of None \<Rightarrow> first_detection dets h ua p | Some r \<Rightarrow> Some r)"

definition detect_integration ::
  "dict \<Rightarrow> string \<Rightarrow> dict \<Rightarrow> string option \<times> string option" where
  "detect_integration headers user_agent form_params =
     (let h = dict_map_keys str_lower headers in
      case first_detection DETECTORS h user_agent form_params of
        None \<Rightarrow> (None, None)
      | Some (name, event_type) \<Rightarrow> (Some name, event_type))"

lemmas detector_defs = detect_stripe_def detect_github_def detect_shopify_def detect_twilio_def
  detect_mailgun_def detect_discord_def detect_slack_def detect_zapier_def detect_n8n_def

lemma first_detection_Some:
  assumes "first_detection dets h ua p = Some r"
  obtains det where "det \<in> set dets" "det h ua p = Some r"
  using assms by (induction dets) (auto split: option.splits)

text \<open>What each detector can answer.\<close>

lemma detector_name:
  assumes "det \<in> set DETECTORS" and "det h ua p = Some (name, ev)"
  shows "name \<in> set INTEGRATION_NAMES"
  using assms by (auto simp: DETECTORS_def detector_defs INTEGRATION_NAMES_def split: if_splits)

lemma detected_name: "detect_integration hs ua p = (Some name, ev) \<Longrightarrow> name \<in> set INTEGRATION_NAMES"
  by (auto simp: detect_integration_def Let_def split: option.splits prod.splits
      elim!: first_detection_Some intro: detector_name)

lemma detected_check: "integration_check (fst (detect_integration hs ua p))"
proof (cases "detect_integration hs ua p")
  case (Pair n ev)
  then show ?thesis by (cases n) (auto simp: integration_check_def dest: detected_name)
qed

text \<open>
  The detection reads the headers through their lower-case names only, so the case a sender
  writes them in does not matter.
\<close>

lemma fold_update_assoc_cong:
  "map (\<lambda>(k, v). (f k, v)) d = map (\<lambda>(k, v). (g k, v)) e \<Longrightarrow>
   fold (\<lambda>(k, v). AList.update (f k) v) d acc = fold (\<lambda>(k, v). AList.update (g k) v) e acc"
proof (induction d arbitrary: e acc)
  case (Cons p d)
  then obtain q e' where "e = q # e'" by (cases e) auto
  with Cons show ?case by (cases p; cases q) auto
qed simp

lemma detect_case_insensitive:
  assumes "map (\<lambda>(k, v). (str_lower k, v)) hs = map (\<lambda>(k, v). (str_lower k, v)) hs'"
  shows "detect_integration hs ua p = detect_integration hs' ua p"
  using fold_update_assoc_cong [OF assms] by (simp add: detect_integration_def dict_map_keys_def)

end
