(* ===== verification/Request_Repository.thy ===== *)
theory Request_Repository
  imports World Pagination
begin

text \<open>
  \<open>PostgresRequestRepository\<close> and \<open>PostgresReplayRepository\<close>. Saving a captured request
  inserts the row and emits the notification in the same transaction.
\<close>

section \<open>Text columns\<close>

definition request_texts :: "captured_request \<Rightarrow> string list" where
  "request_texts r =
     [rq_method r, rq_path r] @ (case rq_query_string r of None \<Rightarrow> [] | Some q \<Rightarrow> [q]) @
     map fst (rq_headers r) @ map snd (rq_headers r) @
     (case rq_body_preview r of None \<Rightarrow> [] | Some b \<Rightarrow> [b]) @
     (case rq_detected_event_type r of None \<Rightarrow> [] | Some t \<Rightarrow> [t])"

definition replay_texts :: "replay \<Rightarrow> string list" where
  "replay_texts r =
     [rp_target_url r] @
     (case rp_response_body_preview r of None \<Rightarrow> [] | Some b \<Rightarrow> [b]) @
     (case rp_response_headers r of None \<Rightarrow> [] | Some hs \<Rightarrow> map fst hs @ map snd hs) @
     (case rp_error r of None \<Rightarrow> [] | Some e \<Rightarrow> [e])"

section \<open>Rows and entities\<close>

definition request_to_row :: "captured_request \<Rightarrow> captured_request" where
  "request_to_row r =
     \<lparr>rq_id = rq_id r, rq_endpoint_id = rq_endpoint_id r, rq_method = rq_method r,
      rq_path = rq_path r, rq_query_string = rq_query_string r, rq_headers = rq_headers r,
      rq_body_preview = rq_body_preview r, rq_body_size = rq_body_size r,
      rq_blob_key = rq_blob_key r, rq_source_ip = rq_source_ip r,
      rq_received_at = rq_received_at r, rq_signature_status = rq_signature_status r,
      rq_detected_integration = rq_detected_integration r,
      rq_detected_event_type = rq_detected_event_type r\<rparr>"

definition request_to_entity :: "captured_request \<Rightarrow> captured_request" where
  "request_to_entity row =
     \<lparr>rq_id = rq_id row, rq_endpoint_id = rq_endpoint_id row, rq_method = rq_method row,
      rq_path = rq_path row, rq_query_string = rq_query_string row, rq_headers = rq_headers row,
      rq_body_preview = rq_body_preview row, rq_body_size = rq_body_size row,
      rq_blob_key = rq_blob_key row, rq_source_ip = rq_source_ip row,
      rq_received_at = rq_received_at row, rq_signature_status = rq_signature_status row,
      rq_detected_integration = rq_detected_integration row,
      rq_detected_event_type = rq_detected_event_type row\<rparr>"

lemma request_row_entity [simp]: "request_to_row r = r" "request_to_entity r = r"
  by (simp_all add: request_to_row_def request_to_entity_def)

lemma map_request_to_entity [simp]: "map_option request_to_entity r = r" "map request_to_entity rs = rs"
  by (cases r) (simp_all add: map_idI)

section \<open>Requests\<close>

definition notify_payload :: "captured_request \<Rightarrow> string" where
  "notify_payload r = uuid_str (rq_endpoint_id r) @ '':'' @ uuid_str (rq_id r)"

definition request_save :: "services \<Rightarrow> captured_request \<Rightarrow> db \<Rightarrow> unit res \<times> db" where
  "request_save sv r d =
     (let row = request_to_row r in
      if \<not> list_all utf8_valid (request_texts row) then (Inl ValueError, d)
      else if \<not> list_all text_ok (request_texts row) \<or> \<not> sv_inet sv (rq_source_ip row)
      then (Inl DataError, d)
      else if rq_id row \<in> request_ids d \<or> rq_endpoint_id row \<notin> endpoint_ids d \<or>
         \<not> integration_check (rq_detected_integration row)
      then (Inl IntegrityError, d)
      else (Inr (), d\<lparr>db_requests := db_requests d @ [row],
                     db_notified := db_notified d @ [notify_payload r]\<rparr>))"

definition request_find_by_id :: "uuid \<Rightarrow> db \<Rightarrow> captured_request option" where
  "request_find_by_id i d = map_option request_to_entity (lookup_row rq_id i (db_requests d))"

text \<open>\<open>list_by_endpoint\<close>; the cursor row is looked up by its id alone.\<close>

definition request_list_by_endpoint ::
  "services \<Rightarrow> uuid \<Rightarrow> nat \<Rightarrow> uuid option \<Rightarrow> string option \<Rightarrow> db \<Rightarrow> captured_request list" where
  "request_list_by_endpoint sv endpoint_id limit before_id q d =
     (let found = (\<lambda>r. case q of None \<Rightarrow> True | Some s \<Rightarrow> s = [] \<or> sv_search sv s r);
          cursor = (case before_id of None \<Rightarrow> None
                    | Some b \<Rightarrow> lookup_row rq_id b (db_requests d))
      in map request_to_entity
        (keyset_page rq_received_at rq_id limit cursor
          (filter (\<lambda>r. rq_endpoint_id r = endpoint_id \<and> found r) (db_requests d))))"

definition stream_for_export :: "uuid \<Rightarrow> nat \<Rightarrow> db \<Rightarrow> captured_request list" where
  "stream_for_export endpoint_id max_count d =
     map request_to_entity (take max_count (newest_first rq_received_at rq_id
       (filter (\<lambda>r. rq_endpoint_id r = endpoint_id) (db_requests d))))"

definition count_by_endpoint :: "uuid \<Rightarrow> db \<Rightarrow> nat" where
  "count_by_endpoint endpoint_id d =
     length (filter (\<lambda>r. rq_endpoint_id r = endpoint_id) (db_requests d))"

section \<open>Aggregation\<close>

record integration_aggregate =
  ia_integration :: string
  ia_total :: nat
  ia_event_types :: "(string \<times> nat) list"
  ia_signature_status_counts :: "(string \<times> nat) list"

text \<open>\<open>SELECT f, COUNT(*) ... GROUP BY f\<close>.\<close>

definition group_count :: "('r \<Rightarrow> 'k) \<Rightarrow> 'r list \<Rightarrow> ('k \<times> nat) list" where
  "group_count f rs = map (\<lambda>k. (k, length (filter (\<lambda>r. f r = k) rs))) (remdups (map f rs))"

text \<open>\<open>json_object_agg\<close> of the groups: a NULL key is an error of the statement.\<close>

fun json_object_agg :: "(string option \<times> nat) list \<Rightarrow> (string \<times> nat) list res" where
  "json_object_agg [] = Inr []"
| "json_object_agg ((None, n) # gs) = Inl DataError"
| "json_object_agg ((Some k, n) # gs) = bindR (json_object_agg gs) (\<lambda>r. Inr ((k, n) # r))"

fun mapM_res :: "('a \<Rightarrow> 'b res) \<Rightarrow> 'a list \<Rightarrow> 'b list res" where
  "mapM_res f [] = Inr []"
| "mapM_res f (x # xs) = bindR (f x) (\<lambda>y. bindR (mapM_res f xs) (\<lambda>ys. Inr (y # ys)))"

definition aggregate_by_integration :: "uuid \<Rightarrow> db \<Rightarrow> integration_aggregate list res" where
  "aggregate_by_integration endpoint_id d =
     (let rs = filter (\<lambda>r. rq_endpoint_id r = endpoint_id \<and> rq_detected_integration r \<noteq> None)
            (db_requests d);
          per_integration = group_count (\<lambda>r. the (rq_detected_integration r)) rs;
          row = (\<lambda>(integration, total).
            let mine = filter (\<lambda>r. rq_detected_integration r = Some integration) rs;
                per_event = group_count rq_detected_event_type
                  (filter (\<lambda>r. rq_detected_event_type r \<noteq> None) mine);
                per_status = group_count rq_signature_status mine
            in bindR (json_object_agg per_event) (\<lambda>event_types.
               bindR (json_object_agg per_status) (\<lambda>status_counts.
               Inr \<lparr>ia_integration = integration, ia_total = total,
                    ia_event_types = event_types,
                    ia_signature_status_counts = status_counts\<rparr>)))
      in mapM_res row (rev (sort_key snd per_integration)))"

section \<open>Replays\<close>

definition replay_save :: "replay \<Rightarrow> db \<Rightarrow> unit res \<times> db" where
  "replay_save r d =
     (if \<not> list_all text_ok (replay_texts r) then (Inl DataError, d)
      else if rp_id r \<in> rp_id ` set (db_replays d) \<or> rp_request_id r \<notin> request_ids d \<or>
         \<not> replay_outcome_xor r
      then (Inl IntegrityError, d)
      else (Inr (), d\<lparr>db_replays := db_replays d @ [r]\<rparr>))"

definition replay_list_by_request :: "uuid \<Rightarrow> db \<Rightarrow> replay list" where
  "replay_list_by_request request_id d =
     rev (sort_key rp_attempted_at (filter (\<lambda>r. rp_request_id r = request_id) (db_replays d)))"

section \<open>What the repositories keep\<close>

lemma request_find_eq: "request_find_by_id i d = lookup_row rq_id i (db_requests d)"
  by (simp add: request_find_by_id_def)

lemma request_save_InrD:
  assumes "request_save sv r d = (Inr u, d')"
  shows "d' = d\<lparr>db_requests := db_requests d @ [r], db_notified := db_notified d @ [notify_payload r]\<rparr>"
    "rq_id r \<notin> request_ids d" "rq_endpoint_id r \<in> endpoint_ids d"
    "integration_check (rq_detected_integration r)"
    "list_all text_ok (request_texts r)" "list_all utf8_valid (request_texts r)"
  using assms by (auto simp: request_save_def Let_def split: if_splits)

lemma request_save_ok:
  assumes "db_ok d" and "request_save sv r d = (Inr u, d')"
  shows "db_ok d'"
  using assms(1) request_save_InrD [OF assms(2)]
  by (auto simp: db_ok_defs key_ok_append_one lookup_row_None_image)

lemma request_save_find:
  assumes "request_save sv r d = (Inr u, d')"
  shows "request_find_by_id (rq_id r) d' = Some r"
  using request_save_InrD [OF assms]
  by (simp add: request_find_eq lookup_row_append flip: lookup_row_None_image)

lemma replay_save_ok:
  assumes "db_ok d" and "replay_save r d = (Inr u, d')"
  shows "db_ok d'"
  using assms
  by (auto simp: replay_save_def db_ok_defs key_ok_append_one lookup_row_None_image split: if_splits)

lemma json_object_agg_Some:
  "\<forall>(k, n) \<in> set gs. k \<noteq> None \<Longrightarrow> json_object_agg gs = Inr (map (\<lambda>(k, n). (the k, n)) gs)"
  by (induction gs rule: json_object_agg.induct) auto

lemma mapM_res_Inr: "(\<And>x. x \<in> set xs \<Longrightarrow> f x = Inr (g x)) \<Longrightarrow> mapM_res f xs = Inr (map g xs)"
  by (induction xs) auto

lemma group_count_keys: "(k, n) \<in> set (group_count f rs) \<Longrightarrow> k \<in> f ` set rs"
  by (auto simp: group_count_def)

lemma group_count_sum: "sum_list (map snd (group_count f rs)) = length rs"
proof -
  have "sum_list (map snd (group_count f rs)) = (\<Sum>k \<in> f ` set rs. length (filter (\<lambda>r. f r = k) rs))"
    by (simp add: group_count_def comp_def sum.distinct_set_conv_list [symmetric] flip: set_map)
  also have "\<dots> = length rs"
  proof -
    have "length (filter (\<lambda>r. f r = k) rs) = (\<Sum>r\<leftarrow>rs. if f r = k then 1 else 0)" for k
      by (induction rs) auto
    then have "(\<Sum>k \<in> f ` set rs. length (filter (\<lambda>r. f r = k) rs)) =
        (\<Sum>r\<leftarrow>rs. \<Sum>k \<in> f ` set rs. if f r = k then 1 else (0 :: nat))"
      by (simp add: sum_list_sum_nth) (subst sum.swap, simp)
    also have "\<dots> = (\<Sum>r\<leftarrow>rs. 1)"
      by (rule arg_cong [where f = sum_list], rule map_cong) (auto simp: sum.delta)
    finally show ?thesis by (simp add: sum_list_triv)
  qed
  finally show ?thesis .
qed

definition aggregate_row :: "captured_request list \<Rightarrow> string \<times> nat \<Rightarrow> integration_aggregate" where
  "aggregate_row rs p =
     (let mine = filter (\<lambda>r. rq_detected_integration r = Some (fst p)) rs
      in \<lparr>ia_integration = fst p, ia_total = snd p,
          ia_event_types = map (\<lambda>(k, n). (the k, n)) (group_count rq_detected_event_type
            (filter (\<lambda>r. rq_detected_event_type r \<noteq> None) mine)),
          ia_signature_status_counts =
            map (\<lambda>(k, n). (the k, n)) (group_count rq_signature_status mine)\<rparr>)"

definition statuses_set :: "db \<Rightarrow> bool" where
  "statuses_set d \<longleftrightarrow> (\<forall>r \<in> set (db_requests d). rq_signature_status r \<noteq> None)"

lemma map_snd_the: "snd \<circ> (\<lambda>(k, n). (the k, n)) = snd"
  by auto

lemma json_object_agg_group:
  assumes "\<forall>r \<in> set rs. f r \<noteq> None"
  shows "json_object_agg (group_count f rs) = Inr (map (\<lambda>(k, n). (the k, n)) (group_count f rs))"
  by (rule json_object_agg_Some) (use assms in \<open>auto dest!: group_count_keys\<close>)

lemma aggregate_by_integration_eq:
  assumes "statuses_set d"
  shows "aggregate_by_integration endpoint_id d =
    (let rs = filter (\<lambda>r. rq_endpoint_id r = endpoint_id \<and> rq_detected_integration r \<noteq> None)
            (db_requests d)
     in Inr (map (aggregate_row rs)
       (rev (sort_key snd (group_count (\<lambda>r. the (rq_detected_integration r)) rs)))))"
  using assms unfolding aggregate_by_integration_def Let_def statuses_set_def
  by (intro mapM_res_Inr)
    (auto simp: aggregate_row_def Let_def json_object_agg_group)

lemma group_count_length: "(k, n) \<in> set (group_count f rs) \<Longrightarrow> n = length (filter (\<lambda>r. f r = k) rs)"
  by (auto simp: group_count_def)

lemma aggregate_totals:
  assumes "statuses_set d" and "aggregate_by_integration endpoint_id d = Inr as"
  shows "sum_list (map ia_total as) =
      length (filter (\<lambda>r. rq_endpoint_id r = endpoint_id \<and> rq_detected_integration r \<noteq> None) (db_requests d))"
    "a \<in> set as \<Longrightarrow> sum_list (map snd (ia_signature_status_counts a)) = ia_total a"
proof -
  let ?rs = "filter (\<lambda>r. rq_endpoint_id r = endpoint_id \<and> rq_detected_integration r \<noteq> None) (db_requests d)"
  let ?gs = "rev (sort_key snd (group_count (\<lambda>r. the (rq_detected_integration r)) ?rs))"
  have as: "as = map (aggregate_row ?rs) ?gs"
    using assms(2) by (simp add: aggregate_by_integration_eq [OF assms(1)] Let_def)
  have "sum_list (map ia_total as) = sum_list (map snd ?gs)"
    by (simp add: as comp_def aggregate_row_def Let_def)
  also have "\<dots> = sum_mset (mset (map snd ?gs))" by (simp only: sum_mset_sum_list)
  also have "mset (map snd ?gs) = mset (map snd (group_count (\<lambda>r. the (rq_detected_integration r)) ?rs))"
    by simp
  finally show "sum_list (map ia_total as) = length ?rs"
    by (simp only: sum_mset_sum_list group_count_sum)
  show "sum_list (map snd (ia_signature_status_counts a)) = ia_total a" if "a \<in> set as"
  proof -
    from that obtain p where p: "p \<in> set ?gs" "a = aggregate_row ?rs p" by (auto simp: as)
    have "snd p = length (filter (\<lambda>r. the (rq_detected_integration r) = fst p) ?rs)"
      by (rule group_count_length) (use p(1) in simp)
    also have "\<dots> = length (filter (\<lambda>r. rq_detected_integration r = Some (fst p)) ?rs)"
      by (rule arg_cong [where f = length], rule filter_cong) auto
    finally show ?thesis
      by (simp add: p(2) aggregate_row_def Let_def map_snd_the group_count_sum)
  qed
qed

section \<open>The listing\<close>

text \<open>The listing of captured requests keeps the promise of a keyset listing.\<close>

definition request_rows :: "services \<Rightarrow> uuid \<Rightarrow> string option \<Rightarrow> db \<Rightarrow> captured_request list" where
  "request_rows sv endpoint_id q d = newest_first rq_received_at rq_id
     (filter (\<lambda>r. rq_endpoint_id r = endpoint_id \<and>
        (case q of None \<Rightarrow> True | Some s \<Rightarrow> s = [] \<or> sv_search sv s r)) (db_requests d))"

lemma key_ok_filter: "key_ok key t \<Longrightarrow> key_ok key (filter p t)"
  by (induction t) (auto simp: key_ok_def)

lemma request_page_first:
  "request_list_by_endpoint sv eid limit None q d = take limit (request_rows sv eid q d)"
  by (simp add: request_list_by_endpoint_def request_rows_def keyset_page_first Let_def)

lemma request_page_after:
  assumes "key_ok rq_id (db_requests d)" and "i < length (request_rows sv eid q d)"
  shows "request_list_by_endpoint sv eid limit (Some (rq_id (request_rows sv eid q d ! i))) q d =
    take limit (drop (Suc i) (request_rows sv eid q d))"
proof -
  let ?rs = "request_rows sv eid q d"
  have "?rs ! i \<in> set (db_requests d)"
    using nth_mem [OF assms(2)] by (auto simp: request_rows_def)
  then have "lookup_row rq_id (rq_id (?rs ! i)) (db_requests d) = Some (?rs ! i)"
    by (rule lookup_row_unique [OF assms(1)])
  then show ?thesis
    using keyset_page_after [OF key_ok_filter [OF assms(1)]] assms(2)
    by (simp add: request_list_by_endpoint_def Let_def request_rows_def)
qed

interpretation requests: keyset_listing
  "\<lambda>(sv, eid, q, d) limit before. request_list_by_endpoint sv eid limit before q d"
  "\<lambda>(sv, eid, q, d). request_rows sv eid q d" rq_id "\<lambda>(sv, eid, q, d). key_ok rq_id (db_requests d)"
  by unfold_locales (auto simp: request_page_first request_page_after)

end
