(* ===== verification/Capture.thy ===== *)
theory Capture
  imports Hmac_Validators Integration_Detector Request_Repository Forward_Repository
begin

text \<open>
  Capturing a webhook (\<open>application/use_cases/capture_request.py\<close>): the endpoint is looked up,
  the signature checked, the sender detected, the body stored inline or as a blob, and the row, the
  counter and the pending forward are written in the caller's transaction.
\<close>

section \<open>Input and result\<close>

record capture_input =
  ci_token :: string
  ci_method :: string
  ci_path :: string
  ci_query_string :: "string option"
  ci_headers :: dict
  ci_body :: string
  ci_source_ip :: string

text \<open>The wiring of the use case, and what the clock and \<open>uuid4()\<close> give during one call.\<close>

record capture_env =
  ce_inline_threshold :: nat
  ce_secrets_key :: string
  ce_request_id :: uuid
  ce_forward_id :: uuid
  ce_now :: time
  ce_forward_now :: time

record capture_result =
  cr_captured :: captured_request
  cr_endpoint :: endpoint
  cr_pending_forward_id :: "uuid option"

section \<open>The use case\<close>

definition capture_signature_status ::
  "services \<Rightarrow> string \<Rightarrow> endpoint \<Rightarrow> dict \<Rightarrow> string \<Rightarrow> string res" where
  "capture_signature_status sv key endpoint headers body =
     (if \<not> falsy (ep_signature_provider endpoint) \<and> \<not> falsy (ep_signature_secret endpoint) then
        (case get_validator (the (ep_signature_provider endpoint)) of
           None \<Rightarrow> Inr (result_value NO_PROVIDER)
         | Some validate \<Rightarrow>
             (case bindR (decrypt_secret sv key (the (ep_signature_secret endpoint))) (\<lambda>secret.
                   validate sv body headers secret) of
                Inl e \<Rightarrow> if e = InvalidTag then Inr (result_value INVALID) else Inl e
              | Inr result \<Rightarrow> Inr (result_value result)))
      else Inr (result_value NO_PROVIDER))"

definition dict_get :: "dict \<Rightarrow> string \<Rightarrow> string \<Rightarrow> string" where
  "dict_get d k dflt = (case map_of d k of None \<Rightarrow> dflt | Some v \<Rightarrow> v)"

definition detect_captured :: "dict \<Rightarrow> string \<Rightarrow> string option \<times> string option" where
  "detect_captured headers body =
     (let form_params = parse_form_params body (dict_get headers ''content-type'' []);
          user_agent = dict_get headers ''user-agent'' [];
          (integration, event_type) = detect_integration headers user_agent form_params
      in (integration,
          if integration = Some ''stripe'' then extract_stripe_event_type body else event_type))"

text \<open>The body goes to the blob storage; when that fails the row keeps no body.\<close>

definition store_body :: "services \<Rightarrow> captured_request \<Rightarrow> string \<Rightarrow> captured_request act" where
  "store_body sv captured body =
     (case rq_blob_key captured of
        None \<Rightarrow> ret captured
      | Some key \<Rightarrow>
          catchA (bindA (blob_put sv key body) (\<lambda>_. ret captured))
            (\<lambda>e. ret (captured\<lparr>rq_body_preview := None, rq_blob_key := None\<rparr>)))"

text \<open>A forward that cannot be saved is counted, and the capture goes on.\<close>

definition save_pending_forward :: "forward \<Rightarrow> uuid option act" where
  "save_pending_forward f =
     catchA (bindA (run_db_res (forward_save f)) (\<lambda>_. ret (Some (fw_id f))))
       (\<lambda>e. bindA (emit Forward_enqueue_failed) (\<lambda>_. ret None))"

text \<open>The writes: the row with its notification, the counter, the pending forward.\<close>

definition persist_capture ::
  "services \<Rightarrow> capture_env \<Rightarrow> endpoint \<Rightarrow> captured_request \<Rightarrow> capture_result act" where
  "persist_capture sv env endpoint captured =
     bindA (run_db_res (request_save sv captured)) (\<lambda>_.
     bindA (run_db (\<lambda>d. ((), increment_request_count (ep_id endpoint) d))) (\<lambda>_.
     bindA (if falsy (ep_forward_url endpoint) then ret None
            else save_pending_forward (forward_create (ce_forward_id env) (rq_id captured)
                   (ep_id endpoint) (the (ep_forward_url endpoint)) (ce_forward_now env)))
       (\<lambda>pending.
     bindA (emit (Request_captured (rq_method captured) (rq_blob_key captured \<noteq> None)
         (rq_body_size captured))) (\<lambda>_.
     ret \<lparr>cr_captured = captured, cr_endpoint = endpoint, cr_pending_forward_id = pending\<rparr>))))"

definition capture_request ::
  "services \<Rightarrow> capture_env \<Rightarrow> capture_input \<Rightarrow> capture_result act" where
  "capture_request sv env inp =
     bindA (read_db (find_by_token (ci_token inp))) (\<lambda>found.
     case found of
       None \<Rightarrow> fail EndpointNotFoundError
     | Some endpoint \<Rightarrow>
         bindA (lift_res (capture_signature_status sv (ce_secrets_key env) endpoint
             (ci_headers inp) (ci_body inp))) (\<lambda>signature_status.
         case detect_captured (ci_headers inp) (ci_body inp) of (integration, event_type) \<Rightarrow>
         bindA (lift_res (captured_request_create (ce_request_id env) (ce_now env) (ep_id endpoint)
             (str_upper (ci_method inp)) (ci_path inp) (ci_query_string inp) (ci_headers inp)
             (ci_body inp) (ci_source_ip inp) (ce_inline_threshold env) signature_status
             integration event_type)) (\<lambda>created.
         bindA (store_body sv created (ci_body inp)) (\<lambda>captured.
         persist_capture sv env endpoint captured))))"

text \<open>
  The body read back by the forward worker and by a replay: the blob (nothing when it is gone) or
  the inline preview.
\<close>

definition load_body :: "services \<Rightarrow> captured_request \<Rightarrow> string act" where
  "load_body sv captured =
     (case rq_blob_key captured of
        Some key \<Rightarrow> bindA (blob_get sv key) (\<lambda>b. ret (case b of None \<Rightarrow> [] | Some x \<Rightarrow> x))
      | None \<Rightarrow> ret (case rq_body_preview captured of None \<Rightarrow> [] | Some x \<Rightarrow> x))"

section \<open>The signature status\<close>

lemma capture_signature_status_value:
  "capture_signature_status sv key e hs b = Inr st \<Longrightarrow> st \<in> set SIGNATURE_STATUS_VALUES"
proof -
  assume "capture_signature_status sv key e hs b = Inr st"
  then have "\<exists>r. st = result_value r"
    unfolding capture_signature_status_def
    by (simp only: split: if_splits option.splits sum.splits) (blast dest: Inr_inject)+
  then show ?thesis by auto
qed

section \<open>The stored body\<close>

lemma store_body_total: "\<exists>c w'. store_body sv captured b w = (Inr c, w')"
  by (auto simp: store_body_def catchA_def bindA_def blob_put_def split: option.splits)

text \<open>What the storage step may change: the blob reference of the row, and the blobs.\<close>

lemma store_bodyD:
  assumes "store_body sv created b w = (Inr c, w')"
  shows "w_db w' = w_db w" "w_aborted w' = w_aborted w" "w_jobs w' = w_jobs w" "w_sent w' = w_sent w"
    "rq_blob_key created = None \<Longrightarrow> c = created \<and> w' = w"
    "rq_blob_key created = Some key \<Longrightarrow> sv_blob_fault sv = None \<Longrightarrow>
       c = created \<and> map_of (w_blobs w') key = Some b"
    "rq_blob_key created = Some key \<Longrightarrow> sv_blob_fault sv \<noteq> None \<Longrightarrow>
       c = created\<lparr>rq_body_preview := None, rq_blob_key := None\<rparr>"
    "\<exists>p k. c = created\<lparr>rq_body_preview := p, rq_blob_key := k\<rparr>"
proof -
  have "\<exists>p k. created = created\<lparr>rq_body_preview := p, rq_blob_key := k\<rparr>"
    by (intro exI [of _ "rq_body_preview created"] exI [of _ "rq_blob_key created"]) simp
  moreover have "\<exists>p k. created\<lparr>rq_body_preview := None, rq_blob_key := None\<rparr> =
      created\<lparr>rq_body_preview := p, rq_blob_key := k\<rparr>" by blast
  ultimately show "\<exists>p k. c = created\<lparr>rq_body_preview := p, rq_blob_key := k\<rparr>"
    using assms by (auto simp: store_body_def catchA_def bindA_def blob_put_def split: option.splits)
qed (use assms in \<open>auto simp: store_body_def catchA_def bindA_def blob_put_def split: option.splits\<close>)

lemma save_pending_forward_total:
  "\<exists>p w'. save_pending_forward f w = (Inr p, w') \<and>
     (w_aborted w' \<or> p = Some (fw_id f) \<and> (\<exists>d. forward_save f (w_db w) = (Inr (), d) \<and> w' = w\<lparr>w_db := d\<rparr>))"
proof (cases "forward_save f (w_db w)")
  case (Pair r d)
  then show ?thesis
    by (cases r) (simp_all add: save_pending_forward_def catchA_def bindA_def run_db_res_def)
qed

lemma captured_request_createD:
  assumes "captured_request_create rid now eid m p q hs b ip th st i ev = Inr c"
  shows "rq_id c = rid" "rq_endpoint_id c = eid" "rq_method c = m" "rq_signature_status c = Some st"
    "rq_headers c = hs" "rq_detected_integration c = i" "rq_source_ip c = ip" "rq_path c = p"
    "rq_query_string c = q" "rq_body_size c = length b" "rq_received_at c = now"
    "rq_detected_event_type c = ev"
    "rq_body_preview c = (if length b \<le> th then Some (decode_body_safe b) else None)"
    "rq_blob_key c = (if length b \<le> th then None else Some (uuid_str eid @ ''/'' @ uuid_str rid))"
  using assms by (auto simp: captured_request_create_def Let_def split: if_splits)

section \<open>A successful capture\<close>

text \<open>Everything a capture that commits did, in the order of the code.\<close>

lemma capture_requestE:
  assumes "with_session (capture_request sv env inp) w = (Inr r, w')"
  obtains endpoint st created captured w1 d1 where
    "find_by_token (ci_token inp) (w_db w) = Some endpoint"
    "capture_signature_status sv (ce_secrets_key env) endpoint (ci_headers inp) (ci_body inp) = Inr st"
    "captured_request_create (ce_request_id env) (ce_now env) (ep_id endpoint)
       (str_upper (ci_method inp)) (ci_path inp) (ci_query_string inp) (ci_headers inp) (ci_body inp)
       (ci_source_ip inp) (ce_inline_threshold env) st
       (fst (detect_captured (ci_headers inp) (ci_body inp)))
       (snd (detect_captured (ci_headers inp) (ci_body inp))) = Inr created"
    "store_body sv created (ci_body inp) w = (Inr captured, w1)"
    "request_save sv captured (w_db w) = (Inr (), d1)"
    "cr_captured r = captured" "cr_endpoint r = endpoint" "w_blobs w' = w_blobs w1"
    "falsy (ep_forward_url endpoint) \<Longrightarrow> cr_pending_forward_id r = None \<and>
       w_db w' = increment_request_count (ep_id endpoint) d1"
    "\<not> falsy (ep_forward_url endpoint) \<Longrightarrow> cr_pending_forward_id r = Some (ce_forward_id env) \<and>
       forward_save (forward_create (ce_forward_id env) (rq_id captured) (ep_id endpoint)
           (the (ep_forward_url endpoint)) (ce_forward_now env))
         (increment_request_count (ep_id endpoint) d1) = (Inr (), w_db w')"
proof -
  let ?det = "detect_captured (ci_headers inp) (ci_body inp)"
  from assms have run: "capture_request sv env inp w = (Inr r, w')" and ok: "\<not> w_aborted w'"
    by auto
  obtain endpoint where e: "find_by_token (ci_token inp) (w_db w) = Some endpoint"
    using run by (cases "find_by_token (ci_token inp) (w_db w)") (auto simp: capture_request_def)
  obtain st where st: "capture_signature_status sv (ce_secrets_key env) endpoint (ci_headers inp)
      (ci_body inp) = Inr st"
    using run e
    by (cases "capture_signature_status sv (ce_secrets_key env) endpoint (ci_headers inp) (ci_body inp)")
      (auto simp: capture_request_def)
  let ?create = "captured_request_create (ce_request_id env) (ce_now env) (ep_id endpoint)
       (str_upper (ci_method inp)) (ci_path inp) (ci_query_string inp) (ci_headers inp) (ci_body inp)
       (ci_source_ip inp) (ce_inline_threshold env) st (fst ?det) (snd ?det)"
  obtain created where c: "?create = Inr created"
    using run e st by (cases "?create") (auto simp: capture_request_def split: prod.splits)
  obtain captured w1 where s: "store_body sv created (ci_body inp) w = (Inr captured, w1)"
    using store_body_total by blast
  note same = store_bodyD(1,2) [OF s]
  have rest: "persist_capture sv env endpoint captured w1 = (Inr r, w')"
    using run e st c
    by (simp add: capture_request_def
        bindA_step [where m = "store_body sv created (ci_body inp)" and w = w, OF s] split: prod.splits)
  obtain d1 where d1: "request_save sv captured (w_db w) = (Inr (), d1)"
    using rest same by (auto simp: persist_capture_def bindA_Inr_iff run_db_res_Inr)
  let ?d2 = "increment_request_count (ep_id endpoint) d1"
  let ?f = "forward_create (ce_forward_id env) (rq_id captured) (ep_id endpoint)
      (the (ep_forward_url endpoint)) (ce_forward_now env)"
  let ?w2 = "w1\<lparr>w_db := ?d2\<rparr>"
  obtain p w3 where p: "(if falsy (ep_forward_url endpoint) then ret None
      else save_pending_forward ?f) ?w2 = (Inr p, w3)"
    and r: "r = \<lparr>cr_captured = captured, cr_endpoint = endpoint, cr_pending_forward_id = p\<rparr>"
    and w': "w_db w' = w_db w3" "w_blobs w' = w_blobs w3" "w_aborted w' = w_aborted w3"
    using rest d1 same
    by (auto simp: persist_capture_def bindA_Inr_iff run_db_res_Inr simp del: bindA_run)
  have cases: "if falsy (ep_forward_url endpoint) then p = None \<and> w3 = ?w2
      else p = Some (ce_forward_id env) \<and> (\<exists>d. forward_save ?f ?d2 = (Inr (), d) \<and> w3 = ?w2\<lparr>w_db := d\<rparr>)"
    using p ok w'(3) save_pending_forward_total [of ?f ?w2]
    by (auto simp: forward_create_def split: if_splits)
  show ?thesis
    by (rule that [OF e st c s d1]) (use cases r w' in \<open>auto split: if_splits\<close>)
qed

lemma increment_request_count_frame [simp]:
  "db_requests (increment_request_count i d) = db_requests d"
  "db_forwards (increment_request_count i d) = db_forwards d"
  "db_notified (increment_request_count i d) = db_notified d"
  "db_replays (increment_request_count i d) = db_replays d"
  by (simp_all add: increment_request_count_def)

lemma find_by_token_frame [simp]:
  "find_by_token t (d\<lparr>db_forwards := fs\<rparr>) = find_by_token t d"
  "find_by_token t (d\<lparr>db_requests := rs\<rparr>) = find_by_token t d"
  "find_by_token t (d\<lparr>db_replays := ps\<rparr>) = find_by_token t d"
  "find_by_token t (d\<lparr>db_notified := ns\<rparr>) = find_by_token t d"
  by (simp_all add: find_by_token_eq)

lemma stored_fields:
  assumes "store_body sv created b w = (Inr c, w')"
  shows "rq_id c = rq_id created" "rq_endpoint_id c = rq_endpoint_id created"
    "rq_signature_status c = rq_signature_status created" "rq_method c = rq_method created"
    "rq_detected_integration c = rq_detected_integration created" "rq_headers c = rq_headers created"
    "rq_body_size c = rq_body_size created" "rq_path c = rq_path created"
    "rq_source_ip c = rq_source_ip created" "rq_query_string c = rq_query_string created"
    "rq_detected_event_type c = rq_detected_event_type created"
    "rq_received_at c = rq_received_at created"
  using store_bodyD(8) [OF assms] by auto

lemma falsy_url: "\<not> falsy u \<Longrightarrow> u = Some (the u)"
  by (cases u) auto

lemma capture_commits:
  assumes "db_ok (w_db w)" and "with_session (capture_request sv env inp) w = (Inr r, w')"
  shows "find_by_token (ci_token inp) (w_db w) = Some (cr_endpoint r) \<and>
    db_requests (w_db w') = db_requests (w_db w) @ [cr_captured r] \<and>
    request_find_by_id (ce_request_id env) (w_db w') = Some (cr_captured r) \<and>
    rq_endpoint_id (cr_captured r) = ep_id (cr_endpoint r) \<and>
    rq_body_size (cr_captured r) = length (ci_body inp) \<and>
    (\<exists>st \<in> set SIGNATURE_STATUS_VALUES. rq_signature_status (cr_captured r) = Some st) \<and>
    db_notified (w_db w') = db_notified (w_db w) @ [notify_payload (cr_captured r)] \<and>
    find_by_token (ci_token inp) (w_db w') = Some ((cr_endpoint r)
      \<lparr>ep_request_count := ep_request_count (cr_endpoint r) + 1\<rparr>) \<and>
    db_forwards (w_db w') = db_forwards (w_db w) @
      (if falsy (ep_forward_url (cr_endpoint r)) then []
       else [forward_create (ce_forward_id env) (ce_request_id env) (ep_id (cr_endpoint r))
               (the (ep_forward_url (cr_endpoint r))) (ce_forward_now env)]) \<and>
    db_ok (w_db w')"
  using assms(2)
proof (rule capture_requestE)
  fix endpoint st created captured w1 d1
  assume e: "find_by_token (ci_token inp) (w_db w) = Some endpoint"
    and st: "capture_signature_status sv (ce_secrets_key env) endpoint (ci_headers inp) (ci_body inp) = Inr st"
    and c: "captured_request_create (ce_request_id env) (ce_now env) (ep_id endpoint)
       (str_upper (ci_method inp)) (ci_path inp) (ci_query_string inp) (ci_headers inp) (ci_body inp)
       (ci_source_ip inp) (ce_inline_threshold env) st
       (fst (detect_captured (ci_headers inp) (ci_body inp)))
       (snd (detect_captured (ci_headers inp) (ci_body inp))) = Inr created"
    and s: "store_body sv created (ci_body inp) w = (Inr captured, w1)"
    and save: "request_save sv captured (w_db w) = (Inr (), d1)"
    and r: "cr_captured r = captured" "cr_endpoint r = endpoint"
    and none: "falsy (ep_forward_url endpoint) \<Longrightarrow> cr_pending_forward_id r = None \<and>
       w_db w' = increment_request_count (ep_id endpoint) d1"
    and some: "\<not> falsy (ep_forward_url endpoint) \<Longrightarrow> cr_pending_forward_id r = Some (ce_forward_id env) \<and>
       forward_save (forward_create (ce_forward_id env) (rq_id captured) (ep_id endpoint)
           (the (ep_forward_url endpoint)) (ce_forward_now env))
         (increment_request_count (ep_id endpoint) d1) = (Inr (), w_db w')"
  note cf = captured_request_createD [OF c] and sf = stored_fields [OF s]
  note d1 = request_save_InrD(1) [OF save]
  let ?d2 = "increment_request_count (ep_id endpoint) d1"
  let ?fs = "if falsy (ep_forward_url endpoint) then []
       else [forward_create (ce_forward_id env) (ce_request_id env) (ep_id endpoint)
               (the (ep_forward_url endpoint)) (ce_forward_now env)]"
  have ok1: "db_ok d1" by (rule request_save_ok [OF assms(1) save])
  have final: "w_db w' = ?d2\<lparr>db_forwards := db_forwards ?d2 @ ?fs\<rparr>" "db_ok (w_db w')"
  proof -
    have ok2: "db_ok ?d2" by (rule increment_request_count_ok [OF ok1])
    show "w_db w' = ?d2\<lparr>db_forwards := db_forwards ?d2 @ ?fs\<rparr>" "db_ok (w_db w')"
      using none some ok2 forward_save_ok [OF ok2]
      by (cases "falsy (ep_forward_url endpoint)"; force simp: cf sf)+
  qed
  have id: "rq_id captured = ce_request_id env" by (simp add: cf sf)
  have found: "request_find_by_id (ce_request_id env) d1 = Some captured"
    using request_save_find [OF save] by (simp add: id)
  have tok: "find_by_token (ci_token inp) (w_db w') =
      Some (endpoint\<lparr>ep_request_count := ep_request_count endpoint + 1\<rparr>)"
    using e by (simp add: final(1) find_by_token_increment d1)
  have row: "request_find_by_id (ce_request_id env) (w_db w') = Some captured"
    using found by (simp add: final(1) request_find_eq)
  show ?thesis
    using e row tok capture_signature_status_value [OF st] final(2)
    by (auto simp: r cf sf) (simp_all add: final(1) d1)
qed

text \<open>
  A capture that commits has stored exactly one new request, the one it returns, under its
  identifier and with one of the four signature statuses; it has notified the listeners of that
  request, counted it on its endpoint, created one pending forward to the configured URL if there
  is one and none otherwise, and kept every constraint of the database.
\<close>

lemma capture_effect:
  assumes "db_ok (w_db w)" and "with_session (capture_request sv env inp) w = (Inr r, w')"
  shows "find_by_token (ci_token inp) (w_db w) = Some (cr_endpoint r) \<and>
    db_requests (w_db w') = db_requests (w_db w) @ [cr_captured r] \<and>
    request_find_by_id (ce_request_id env) (w_db w') = Some (cr_captured r) \<and>
    rq_endpoint_id (cr_captured r) = ep_id (cr_endpoint r) \<and>
    rq_body_size (cr_captured r) = length (ci_body inp) \<and>
    (\<exists>st \<in> set SIGNATURE_STATUS_VALUES. rq_signature_status (cr_captured r) = Some st) \<and>
    db_notified (w_db w') = db_notified (w_db w) @ [notify_payload (cr_captured r)] \<and>
    find_by_token (ci_token inp) (w_db w') = Some ((cr_endpoint r)
      \<lparr>ep_request_count := ep_request_count (cr_endpoint r) + 1\<rparr>) \<and>
    db_forwards (w_db w') = db_forwards (w_db w) @
      (if falsy (ep_forward_url (cr_endpoint r)) then []
       else [forward_create (ce_forward_id env) (ce_request_id env) (ep_id (cr_endpoint r))
               (the (ep_forward_url (cr_endpoint r))) (ce_forward_now env)]) \<and>
    db_ok (w_db w')"
  by (rule capture_commits [OF assms])

section \<open>The body comes back\<close>

lemma load_bodyD:
  assumes "sv_blob_fault sv = None"
  shows "load_body sv c w = (Inr (case rq_blob_key c of
      Some key \<Rightarrow> (case map_of (w_blobs w) key of None \<Rightarrow> [] | Some x \<Rightarrow> x)
    | None \<Rightarrow> (case rq_body_preview c of None \<Rightarrow> [] | Some x \<Rightarrow> x)), w)"
  using assms by (simp add: load_body_def bindA_def blob_get_def split: option.splits)

lemma stored_body_loads:
  assumes "with_session (capture_request sv env inp) w = (Inr r, w')"
    and "sv_blob_fault sv = None" and "sv_blob_fault sv' = None"
  shows "\<exists>b. load_body sv' (cr_captured r) w' = (Inr b, w') \<and>
    (b = ci_body inp \<longleftrightarrow> ce_inline_threshold env < length (ci_body inp) \<or> utf8_valid (ci_body inp)) \<and>
    (length (ci_body inp) \<le> ce_inline_threshold env \<longrightarrow> \<not> utf8_valid (ci_body inp) \<longrightarrow>
       b = bytes_repr (ci_body inp))"
  using assms(1)
proof (rule capture_requestE)
  fix endpoint st created captured w1
  assume c: "captured_request_create (ce_request_id env) (ce_now env) (ep_id endpoint)
       (str_upper (ci_method inp)) (ci_path inp) (ci_query_string inp) (ci_headers inp) (ci_body inp)
       (ci_source_ip inp) (ce_inline_threshold env) st
       (fst (detect_captured (ci_headers inp) (ci_body inp)))
       (snd (detect_captured (ci_headers inp) (ci_body inp))) = Inr created"
    and s: "store_body sv created (ci_body inp) w = (Inr captured, w1)"
    and r: "cr_captured r = captured" and blobs: "w_blobs w' = w_blobs w1"
  note key = captured_request_createD(13,14) [OF c]
  have "captured = created" "rq_blob_key created = Some k \<Longrightarrow> map_of (w_blobs w1) k = Some (ci_body inp)" for k
    using store_bodyD(5,6) [OF s] assms(2) by (cases "rq_blob_key created"; auto)+
  then show ?thesis
    using assms(3) key decode_body_safe_id_iff [of "ci_body inp"]
    by (auto simp: load_bodyD r blobs decode_body_safe_def utf8_decode_def split: if_splits)
qed

text \<open>
  C10. Body fidelity: when the blob storage works, the body read back for a forward or a replay
  right after the capture is the captured body, byte for byte, exactly when it was large enough to
  be stored as a blob or is valid UTF-8. A small body that is not UTF-8 comes back as the text of
  its Python representation instead.
\<close>

theorem capture_body_roundtrip:
  assumes "with_session (capture_request sv env inp) w = (Inr r, w')"
    and "sv_blob_fault sv = None" and "sv_blob_fault sv' = None"
  shows "\<exists>b. load_body sv' (cr_captured r) w' = (Inr b, w') \<and>
    (b = ci_body inp \<longleftrightarrow> ce_inline_threshold env < length (ci_body inp) \<or> utf8_valid (ci_body inp)) \<and>
    (length (ci_body inp) \<le> ce_inline_threshold env \<longrightarrow> \<not> utf8_valid (ci_body inp) \<longrightarrow>
       b = bytes_repr (ci_body inp))"
  by (rule stored_body_loads [OF assms])

section \<open>No webhook is lost\<close>

lemma captured_request_create_upper:
  "\<exists>c. captured_request_create rid now eid (str_upper m) p q hs b ip th st i ev = Inr c"
  by (simp add: captured_request_create_def Let_def)

text \<open>The texts of the request a PostgreSQL row cannot hold, besides the body.\<close>

definition input_storable :: "services \<Rightarrow> capture_input \<Rightarrow> bool" where
  "input_storable sv inp \<longleftrightarrow>
     list_all storable ([str_upper (ci_method inp), ci_path inp] @
       (case ci_query_string inp of None \<Rightarrow> [] | Some q \<Rightarrow> [q]) @
       map fst (ci_headers inp) @ map snd (ci_headers inp) @
       (case snd (detect_captured (ci_headers inp) (ci_body inp)) of None \<Rightarrow> [] | Some t \<Rightarrow> [t])) \<and>
     sv_inet sv (ci_source_ip inp)"

lemma detect_captured_check: "integration_check (fst (detect_captured hs b))"
  using detected_check by (simp add: detect_captured_def Let_def split: prod.splits) (metis fst_conv)

lemma text_ok_bytes_repr: "text_ok (bytes_repr b)"
proof -
  have hex: "char_of (0 :: nat) \<notin> set (hex_fixed k n)" for k n
    by (auto dest!: set_hex_fixed arg_cong [where f = byte] simp: byte_hex_digit split: if_splits)
  have "char_of (0 :: nat) \<notin> set (repr_char q c)" if "byte q \<noteq> 0" for q c
    using that hex by (auto simp: repr_char_def Let_def dest: arg_cong [where f = byte] split: if_splits)
  then show ?thesis
    by (auto simp: text_ok_def bytes_repr_def repr_quote_def Let_def dest: arg_cong [where f = byte])
qed

lemma storable_preview:
  assumes "utf8_valid b \<Longrightarrow> text_ok b"
  shows "utf8_valid (decode_body_safe b)" "text_ok (decode_body_safe b)"
  using assms utf8_valid_decode_body_safe text_ok_bytes_repr
  by (auto simp: decode_body_safe_def utf8_decode_def split: if_splits)

text \<open>\<open>request_texts\<close> of the row are the texts of the input, and the stored preview.\<close>

lemma request_texts_stored:
  assumes "captured_request_create rid now eid (str_upper m) p q hs b ip th st i ev = Inr created"
    and "store_body sv created b w = (Inr c, w1)"
    and "x \<in> set (request_texts c)"
  shows "x \<in> set ([str_upper m, p] @ (case q of None \<Rightarrow> [] | Some q \<Rightarrow> [q]) @ map fst hs @
      map snd hs @ (case ev of None \<Rightarrow> [] | Some t \<Rightarrow> [t])) \<or>
    length b \<le> th \<and> x = decode_body_safe b"
proof -
  have "rq_body_preview c = rq_body_preview created \<or> rq_body_preview c = None"
  proof (cases "rq_blob_key created")
    case None
    then show ?thesis using store_bodyD(5) [OF assms(2)] by simp
  next
    case (Some key)
    then show ?thesis
      using store_bodyD(6,7) [OF assms(2) Some] by (cases "sv_blob_fault sv = None") simp_all
  qed
  then have "rq_body_preview c = None \<or> rq_body_preview c = Some (decode_body_safe b) \<and> length b \<le> th"
    by (cases "length b \<le> th") (auto simp: captured_request_createD(13) [OF assms(1)])
  then show ?thesis
  proof
    assume "rq_body_preview c = None"
    with assms(3) show ?thesis
      unfolding request_texts_def captured_request_createD [OF assms(1)] stored_fields [OF assms(2)]
      by simp
  next
    assume "rq_body_preview c = Some (decode_body_safe b) \<and> length b \<le> th"
    with assms(3) show ?thesis
      unfolding request_texts_def captured_request_createD [OF assms(1)] stored_fields [OF assms(2)]
      by (simp only: option.case set_append list.set Un_iff) blast
  qed
qed

lemma persist_succeeds:
  assumes "request_save sv c (w_db w) = (Inr (), d1)" and "\<not> w_aborted w"
    and "\<not> falsy (ep_forward_url e) \<Longrightarrow>
      \<exists>d2. forward_save (forward_create (ce_forward_id env) (rq_id c) (ep_id e) (the (ep_forward_url e))
          (ce_forward_now env)) (increment_request_count (ep_id e) d1) = (Inr (), d2)"
  shows "\<exists>r w'. persist_capture sv env e c w = (Inr r, w') \<and> \<not> w_aborted w' \<and>
    (cr_pending_forward_id r = None \<longleftrightarrow> falsy (ep_forward_url e))"
proof -
  have save: "run_db_res (request_save sv c) w = (Inr (), w\<lparr>w_db := d1\<rparr>)"
    using assms(1) by (simp add: run_db_res_Inr)
  show ?thesis
  proof (cases "falsy (ep_forward_url e)")
    case True
    then show ?thesis
      using assms(2) by (simp add: persist_capture_def bindA_step [where m = "run_db_res (request_save sv c)" and w = w, OF save])
  next
    case False
    with assms(3) obtain d2 where d2: "forward_save (forward_create (ce_forward_id env) (rq_id c) (ep_id e)
        (the (ep_forward_url e)) (ce_forward_now env)) (increment_request_count (ep_id e) d1) = (Inr (), d2)"
      by blast
    let ?w2 = "w\<lparr>w_db := increment_request_count (ep_id e) d1\<rparr>"
    let ?f = "forward_create (ce_forward_id env) (rq_id c) (ep_id e) (the (ep_forward_url e)) (ce_forward_now env)"
    have "save_pending_forward ?f ?w2 = (Inr (Some (fw_id ?f)), ?w2\<lparr>w_db := d2\<rparr>)"
      using d2 by (simp add: save_pending_forward_def catchA_def bindA_def run_db_res_def)
    then show ?thesis
      using assms(2) False
      by (simp add: persist_capture_def bindA_step [where m = "run_db_res (request_save sv c)" and w = w, OF save]
          bindA_step [where m = "save_pending_forward ?f" and w = ?w2])
  qed
qed

lemma capture_completes:
  assumes "db_ok (w_db w)" and "\<not> w_aborted w"
    and "find_by_token (ci_token inp) (w_db w) = Some endpoint"
    and "\<exists>st. capture_signature_status sv (ce_secrets_key env) endpoint (ci_headers inp)
      (ci_body inp) = Inr st"
    and "ce_request_id env \<notin> request_ids (w_db w)"
    and "ce_forward_id env \<notin> fw_id ` set (db_forwards (w_db w))"
    and "input_storable sv inp"
    and "length (ci_body inp) \<le> ce_inline_threshold env \<Longrightarrow> utf8_valid (ci_body inp) \<Longrightarrow>
      text_ok (ci_body inp)"
  shows "\<exists>r w'. with_session (capture_request sv env inp) w = (Inr r, w') \<and>
    (cr_pending_forward_id r = None \<longleftrightarrow> falsy (ep_forward_url endpoint))"
proof -
  let ?det = "detect_captured (ci_headers inp) (ci_body inp)"
  obtain st where st: "capture_signature_status sv (ce_secrets_key env) endpoint (ci_headers inp)
      (ci_body inp) = Inr st" using assms(4) by blast
  obtain created where c: "captured_request_create (ce_request_id env) (ce_now env) (ep_id endpoint)
       (str_upper (ci_method inp)) (ci_path inp) (ci_query_string inp) (ci_headers inp) (ci_body inp)
       (ci_source_ip inp) (ce_inline_threshold env) st (fst ?det) (snd ?det) = Inr created"
    using captured_request_create_upper by blast
  obtain captured w1 where s: "store_body sv created (ci_body inp) w = (Inr captured, w1)"
    using store_body_total by blast
  note cf = captured_request_createD [OF c] and sf = stored_fields [OF s]
  note same = store_bodyD(1,2) [OF s]
  have "utf8_valid x \<and> text_ok x" if "x \<in> set (request_texts captured)" for x
    using request_texts_stored [OF c s that] assms(7,8) storable_preview
    unfolding input_storable_def storable_def list_all_iff by metis
  then have texts: "list_all utf8_valid (request_texts captured)" "list_all text_ok (request_texts captured)"
    by (simp_all add: list_all_iff)
  have e: "endpoint \<in> set (db_endpoints (w_db w))"
    using assms(3) by (rule find_by_token_SomeD [THEN conjunct1])
  let ?d1 = "(w_db w)\<lparr>db_requests := db_requests (w_db w) @ [captured],
      db_notified := db_notified (w_db w) @ [notify_payload captured]\<rparr>"
  have save: "request_save sv captured (w_db w) = (Inr (), ?d1)"
    using texts assms(5,7) e detect_captured_check
    by (simp add: request_save_def Let_def cf sf input_storable_def)
  have ids: "endpoint_ids (increment_request_count (ep_id endpoint) ?d1) = endpoint_ids (w_db w)"
    by (simp add: increment_request_count_def key_image_sql_update)
  have "\<exists>r w'. persist_capture sv env endpoint captured w1 = (Inr r, w') \<and> \<not> w_aborted w' \<and>
      (cr_pending_forward_id r = None \<longleftrightarrow> falsy (ep_forward_url endpoint))"
    by (rule persist_succeeds)
      (use save same assms(2,6) e ids in \<open>auto simp: forward_save_def Let_def forward_create_def\<close>)
  moreover obtain i ev where det: "?det = (i, ev)" by force
  ultimately show ?thesis
    using assms(3) st c [unfolded det fst_conv snd_conv] det
    by (simp add: capture_request_def
        bindA_step [where m = "store_body sv created (ci_body inp)" and w = w, OF s])
qed

text \<open>
  No webhook is lost: a request to an existing endpoint is stored, whatever its body, its
  signature and the state of the blob storage, provided that the signature check gives a status,
  the fresh identifiers are new, and the texts of the request fit a PostgreSQL row: the source
  address is an address, and neither the path, the query, the headers, the event type nor an inline
  body that is UTF-8 contains a NUL character.
\<close>

lemma capture_succeeds:
  assumes "db_ok (w_db w)" and "\<not> w_aborted w"
    and "find_by_token (ci_token inp) (w_db w) = Some endpoint"
    and "\<exists>st. capture_signature_status sv (ce_secrets_key env) endpoint (ci_headers inp)
      (ci_body inp) = Inr st"
    and "ce_request_id env \<notin> request_ids (w_db w)"
    and "ce_forward_id env \<notin> fw_id ` set (db_forwards (w_db w))"
    and "input_storable sv inp"
    and "length (ci_body inp) \<le> ce_inline_threshold env \<Longrightarrow> utf8_valid (ci_body inp) \<Longrightarrow>
      text_ok (ci_body inp)"
  shows "\<exists>r w'. with_session (capture_request sv env inp) w = (Inr r, w') \<and>
    (cr_pending_forward_id r = None \<longleftrightarrow> falsy (ep_forward_url endpoint))"
  by (rule capture_completes [OF assms])

section \<open>Aggregation\<close>

lemma capture_statuses_set:
  assumes "statuses_set (w_db w)" and "with_session (capture_request sv env inp) w = (Inr r, w')"
  shows "statuses_set (w_db w')"
  using assms(2)
proof (rule capture_requestE)
  fix endpoint st created captured w1 d1
  assume c: "captured_request_create (ce_request_id env) (ce_now env) (ep_id endpoint)
       (str_upper (ci_method inp)) (ci_path inp) (ci_query_string inp) (ci_headers inp) (ci_body inp)
       (ci_source_ip inp) (ce_inline_threshold env) st
       (fst (detect_captured (ci_headers inp) (ci_body inp)))
       (snd (detect_captured (ci_headers inp) (ci_body inp))) = Inr created"
    and s: "store_body sv created (ci_body inp) w = (Inr captured, w1)"
    and save: "request_save sv captured (w_db w) = (Inr (), d1)"
    and none: "falsy (ep_forward_url endpoint) \<Longrightarrow> cr_pending_forward_id r = None \<and>
       w_db w' = increment_request_count (ep_id endpoint) d1"
    and some: "\<not> falsy (ep_forward_url endpoint) \<Longrightarrow> cr_pending_forward_id r = Some (ce_forward_id env) \<and>
       forward_save (forward_create (ce_forward_id env) (rq_id captured) (ep_id endpoint)
           (the (ep_forward_url endpoint)) (ce_forward_now env))
         (increment_request_count (ep_id endpoint) d1) = (Inr (), w_db w')"
  have "db_requests d = db_requests d0" if "forward_save f d0 = (Inr u, d)" for f d0 d u
    using that by (auto simp: forward_save_def Let_def split: if_splits)
  then have "db_requests (w_db w') = db_requests (w_db w) @ [captured]"
    using none some request_save_InrD(1) [OF save] by (cases "falsy (ep_forward_url endpoint)") force+
  moreover have "rq_signature_status captured = Some st"
    by (simp add: stored_fields [OF s] captured_request_createD [OF c])
  ultimately show ?thesis
    using assms(1) by (simp add: statuses_set_def)
qed

text \<open>
  The aggregation is complete: on a database that only captures have filled, and after one
  more, the integrations page never fails, its totals add up to the number of requests with a
  detected sender, and for each sender the counts per signature status add up to its total.
\<close>

lemma capture_keeps_aggregation:
  assumes "statuses_set (w_db w)" and "with_session (capture_request sv env inp) w = (Inr r, w')"
  shows "\<exists>as. aggregate_by_integration eid (w_db w') = Inr as \<and>
    sum_list (map ia_total as) = length (filter (\<lambda>q. rq_endpoint_id q = eid \<and>
      rq_detected_integration q \<noteq> None) (db_requests (w_db w'))) \<and>
    (\<forall>a \<in> set as. sum_list (map snd (ia_signature_status_counts a)) = ia_total a)"
proof -
  have set: "statuses_set (w_db w')" by (rule capture_statuses_set [OF assms])
  obtain as where as: "aggregate_by_integration eid (w_db w') = Inr as"
    using aggregate_by_integration_eq [OF set] by (auto simp: Let_def)
  then show ?thesis using aggregate_totals [OF set as] by blast
qed

section \<open>A concrete capture\<close>

definition demo_env :: capture_env where
  "demo_env = \<lparr>ce_inline_threshold = 4, ce_secrets_key = [], ce_request_id = 2, ce_forward_id = 3,
     ce_now = 10, ce_forward_now = 11\<rparr>"

definition demo_input :: capture_input where
  "demo_input = \<lparr>ci_token = ''tok'', ci_method = ''post'', ci_path = ''/x'', ci_query_string = None,
     ci_headers = [(''x-n8n-signature'', ''ab'')], ci_body = ''hello'', ci_source_ip = ''1.2.3.4''\<rparr>"

lemma demo_capture_facts:
  "find_by_token (ci_token demo_input) (w_db (new_world demo_db)) = Some demo_endpoint"
  "\<exists>st. capture_signature_status demo_services (ce_secrets_key demo_env) demo_endpoint
      (ci_headers demo_input) (ci_body demo_input) = Inr st"
  "input_storable demo_services demo_input"
  "ce_request_id demo_env \<notin> request_ids (w_db (new_world demo_db))"
  "ce_forward_id demo_env \<notin> fw_id ` set (db_forwards (w_db (new_world demo_db)))"
  "length (ci_body demo_input) \<le> ce_inline_threshold demo_env \<Longrightarrow> text_ok (ci_body demo_input)"
proof -
  show "find_by_token (ci_token demo_input) (w_db (new_world demo_db)) = Some demo_endpoint"
    by (simp add: find_by_token_eq demo_db_def demo_input_def demo_endpoint_def empty_db_def)
  show "\<exists>st. capture_signature_status demo_services (ce_secrets_key demo_env) demo_endpoint
      (ci_headers demo_input) (ci_body demo_input) = Inr st"
    by (simp add: capture_signature_status_def demo_endpoint_def)
  show "input_storable demo_services demo_input" by code_simp
qed (simp_all add: demo_env_def demo_input_def demo_db_def empty_db_def)

lemma demo_capture:
  obtains r w' where
    "with_session (capture_request demo_services demo_env demo_input) (new_world demo_db) = (Inr r, w')"
  using capture_completes [OF _ _ demo_capture_facts(1,2,4,5,3)] demo_capture_facts(6)
  by (auto simp: demo_db_ok)

lemma capture_effect_witness:
  "\<exists>r w'. with_session (capture_request demo_services demo_env demo_input) (new_world demo_db) = (Inr r, w') \<and>
     request_find_by_id 2 (w_db w') = Some (cr_captured r) \<and> db_ok (w_db w')"
proof (rule demo_capture)
  fix r w'
  assume run: "with_session (capture_request demo_services demo_env demo_input) (new_world demo_db) = (Inr r, w')"
  from capture_effect [OF _ run] show ?thesis
    using run by (auto simp: demo_db_ok demo_env_def)
qed

theorem capture_body_roundtrip_witness:
  "\<exists>r w'. with_session (capture_request demo_services demo_env demo_input) (new_world demo_db) = (Inr r, w') \<and>
     load_body demo_services (cr_captured r) w' = (Inr ''hello'', w')"
proof (rule demo_capture)
  fix r w'
  assume run: "with_session (capture_request demo_services demo_env demo_input) (new_world demo_db) = (Inr r, w')"
  from capture_body_roundtrip [OF run, of demo_services] show ?thesis
    using run by (auto simp: demo_env_def demo_input_def)
qed

lemma capture_succeeds_witness:
  "\<exists>r w'. with_session (capture_request demo_services demo_env demo_input) (new_world demo_db) = (Inr r, w') \<and>
     (cr_pending_forward_id r = None \<longleftrightarrow> falsy (ep_forward_url demo_endpoint))"
  by (rule capture_succeeds [OF _ _ demo_capture_facts(1,2,4,5,3)])
    (use demo_capture_facts(6) in \<open>simp_all add: demo_db_ok\<close>)

lemma capture_keeps_aggregation_witness:
  "\<exists>r w' as. with_session (capture_request demo_services demo_env demo_input) (new_world demo_db) = (Inr r, w') \<and>
     aggregate_by_integration 1 (w_db w') = Inr as"
proof (rule demo_capture)
  fix r w'
  assume run: "with_session (capture_request demo_services demo_env demo_input) (new_world demo_db) = (Inr r, w')"
  have "statuses_set (w_db (new_world demo_db))" by (simp add: statuses_set_def demo_db_def empty_db_def)
  from capture_keeps_aggregation [OF this run, of 1] show ?thesis
    using run by blast
qed

end
