(* ===== verification/Ip_Address.thy ===== *)
theory Ip_Address
  imports Codecs
begin

unbundle bit_operations_syntax

text \<open>
  The part of Python 3.13's \<open>ipaddress\<close> that the SSRF guard uses: parsing a text as an IPv4 or
  IPv6 address and the properties the guard reads. A network is a base address with a prefix
  length.
\<close>

type_synonym ipv4 = "32 word"
type_synonym ipv6 = "128 word"

datatype ip_addr = V4 ipv4 | V6 ipv6 "string option"

section \<open>Parsing\<close>

definition dec_char :: "char \<Rightarrow> bool" where
  "dec_char c \<longleftrightarrow> 48 \<le> byte c \<and> byte c \<le> 57"

definition parse_octet :: "string \<Rightarrow> nat option" where
  "parse_octet s =
     (if s = [] \<or> \<not> list_all dec_char s \<or> 3 < length s \<or> (s \<noteq> ''0'' \<and> hd s = CHR ''0'') then None
      else let n = dec_number s in if 255 < n then None else Some n)"

definition v4 :: "nat \<Rightarrow> nat \<Rightarrow> nat \<Rightarrow> nat \<Rightarrow> ipv4" where
  "v4 a b c d = word_of_int (((int a * 256 + int b) * 256 + int c) * 256 + int d)"

definition parse_ipv4 :: "string \<Rightarrow> ipv4 option" where
  "parse_ipv4 s =
     (case map parse_octet (split_on (CHR ''.'') s) of
        [Some a, Some b, Some c, Some d] \<Rightarrow> Some (v4 a b c d)
      | _ \<Rightarrow> None)"

definition parse_hextet :: "string \<Rightarrow> nat option" where
  "parse_hextet s = (if s = [] \<or> 4 < length s then None else hex_number s)"

fun all_some :: "'a option list \<Rightarrow> 'a list option" where
  "all_some [] = Some []"
| "all_some (None # xs) = None"
| "all_some (Some x # xs) = map_option (\<lambda>ys. x # ys) (all_some xs)"

text \<open>An IPv4 suffix becomes two groups.\<close>

definition v6_parts :: "string \<Rightarrow> string list option" where
  "v6_parts s =
     (let parts = split_on (CHR '':'') s in
      if length parts < 3 then None
      else if CHR ''.'' \<in> set (last parts) then
        (case parse_ipv4 (last parts) of
           None \<Rightarrow> None
         | Some w \<Rightarrow> Some (butlast parts @
             [hex_fixed 4 (unat w div 65536), hex_fixed 4 (unat w mod 65536)]))
      else Some parts)"

definition v6_groups :: "string list \<Rightarrow> nat list option" where
  "v6_groups parts =
     (let n = length parts;
          skips = filter (\<lambda>i. parts ! i = []) [1..<n - 1] in
      if 9 < n then None
      else case skips of
        [] \<Rightarrow>
          (if n \<noteq> 8 \<or> hd parts = [] \<or> last parts = [] then None
           else all_some (map parse_hextet parts))
      | [k] \<Rightarrow>
          (let hi = (if hd parts = [] then k - 1 else k);
               lo = (if last parts = [] then n - k - 2 else n - k - 1) in
           if hd parts = [] \<and> hi \<noteq> 0 \<or> last parts = [] \<and> lo \<noteq> 0 \<or> 8 \<le> hi + lo then None
           else case (all_some (map parse_hextet (take hi parts)),
                      all_some (map parse_hextet (drop (n - lo) parts))) of
             (Some xs, Some ys) \<Rightarrow> Some (xs @ replicate (8 - (hi + lo)) 0 @ ys)
           | _ \<Rightarrow> None)
      | _ \<Rightarrow> None)"

definition v6 :: "nat list \<Rightarrow> ipv6" where
  "v6 gs = word_of_int (foldl (\<lambda>acc g. acc * 65536 + int g) 0 gs)"

definition parse_ipv6 :: "string \<Rightarrow> (ipv6 \<times> string option) option" where
  "parse_ipv6 s =
     (let addr = str_before (CHR 0x25) s;
          scope = (if CHR 0x25 \<in> set s then Some (str_after (CHR 0x25) s) else None) in
      if CHR ''/'' \<in> set s \<or>
         (case scope of None \<Rightarrow> False | Some z \<Rightarrow> z = [] \<or> CHR 0x25 \<in> set z) \<or> addr = [] then None
      else case v6_parts addr of
        None \<Rightarrow> None
      | Some parts \<Rightarrow> map_option (\<lambda>gs. (v6 gs, scope)) (v6_groups parts))"

definition ip_address :: "string \<Rightarrow> ip_addr res" where
  "ip_address s =
     (case parse_ipv4 s of
        Some w \<Rightarrow> Inr (V4 w)
      | None \<Rightarrow> (case parse_ipv6 s of Some (w, z) \<Rightarrow> Inr (V6 w z) | None \<Rightarrow> Inl ValueError))"

section \<open>Networks\<close>

definition in_net :: "('a :: len) word \<Rightarrow> 'a word \<times> nat \<Rightarrow> bool" where
  "in_net w net =
     (drop_bit (size w - snd net) w = drop_bit (size w - snd net) (fst net))"

definition v4_private :: "(ipv4 \<times> nat) list" where
  "v4_private =
     [(v4 0 0 0 0, 8), (v4 10 0 0 0, 8), (v4 127 0 0 0, 8), (v4 169 254 0 0, 16),
      (v4 172 16 0 0, 12), (v4 192 0 0 0, 24), (v4 192 0 0 170, 31), (v4 192 0 2 0, 24),
      (v4 192 168 0 0, 16), (v4 198 18 0 0, 15), (v4 198 51 100 0, 24), (v4 203 0 113 0, 24),
      (v4 240 0 0 0, 4), (v4 255 255 255 255, 32)]"

definition v4_private_exceptions :: "(ipv4 \<times> nat) list" where
  "v4_private_exceptions = [(v4 192 0 0 9, 32), (v4 192 0 0 10, 32)]"

fun v6h :: "nat list \<Rightarrow> ipv6" where
  "v6h gs = v6 (gs @ replicate (8 - length gs) 0)"

definition v6_private :: "(ipv6 \<times> nat) list" where
  "v6_private =
     [(1, 128), (0, 128), (v6 [0, 0, 0, 0, 0, 0xFFFF, 0, 0], 96), (v6h [0x64, 0xFF9B, 1], 48),
      (v6h [0x100], 64), (v6h [0x2001], 23), (v6h [0x2001, 0xDB8], 32), (v6h [0x2002], 16),
      (v6h [0x3FFF], 20), (v6h [0xFC00], 7), (v6h [0xFE80], 10)]"

definition v6_private_exceptions :: "(ipv6 \<times> nat) list" where
  "v6_private_exceptions =
     [(v6 [0x2001, 1, 0, 0, 0, 0, 0, 1], 128), (v6 [0x2001, 1, 0, 0, 0, 0, 0, 2], 128),
      (v6h [0x2001, 3], 32), (v6h [0x2001, 4, 0x112], 48), (v6h [0x2001, 0x20], 28),
      (v6h [0x2001, 0x30], 28)]"

definition v6_reserved :: "(ipv6 \<times> nat) list" where
  "v6_reserved =
     [(0, 8), (v6h [0x100], 8), (v6h [0x200], 7), (v6h [0x400], 6), (v6h [0x800], 5),
      (v6h [0x1000], 4), (v6h [0x4000], 3), (v6h [0x6000], 3), (v6h [0x8000], 3), (v6h [0xA000], 3),
      (v6h [0xC000], 3), (v6h [0xE000], 4), (v6h [0xF000], 5), (v6h [0xF800], 6), (v6h [0xFE00], 9)]"

section \<open>Properties of addresses\<close>

definition v4_is_private :: "ipv4 \<Rightarrow> bool" where
  "v4_is_private w \<longleftrightarrow>
     list_ex (in_net w) v4_private \<and> \<not> list_ex (in_net w) v4_private_exceptions"

definition v4_blocked :: "ipv4 \<Rightarrow> bool" where
  "v4_blocked w \<longleftrightarrow>
     v4_is_private w \<or> in_net w (v4 127 0 0 0, 8) \<or> in_net w (v4 169 254 0 0, 16) \<or>
     in_net w (v4 224 0 0 0, 4) \<or> in_net w (v4 240 0 0 0, 4) \<or> w = 0"

definition ipv4_mapped :: "ipv6 \<Rightarrow> ipv4 option" where
  "ipv4_mapped w =
     (if drop_bit 32 w = 0xFFFF then Some (ucast w) else None)"

definition v6_is_private :: "ipv6 \<Rightarrow> bool" where
  "v6_is_private w \<longleftrightarrow>
     list_ex (in_net w) v6_private \<and> \<not> list_ex (in_net w) v6_private_exceptions"

definition v6_blocked :: "ipv6 \<Rightarrow> bool" where
  "v6_blocked w \<longleftrightarrow>
     (case ipv4_mapped w of
        Some x \<Rightarrow> v4_blocked x
      | None \<Rightarrow> v6_is_private w \<or> w = 1 \<or> in_net w (v6h [0xFE80], 10) \<or>
          in_net w (v6h [0xFF00], 8) \<or> list_ex (in_net w) v6_reserved \<or> w = 0)"

fun addr_blocked :: "ip_addr \<Rightarrow> bool" where
  "addr_blocked (V4 w) = v4_blocked w"
| "addr_blocked (V6 w scope) = v6_blocked w"

section \<open>Ranges\<close>

lemma in_net_iff:
  fixes w :: "'a :: len word"
  shows "in_net w (b, p) \<longleftrightarrow> unat w div 2 ^ (LENGTH('a) - p) = unat b div 2 ^ (LENGTH('a) - p)"
  by (simp only: in_net_def word_size word_unat_eq_iff unat_drop_bit_eq fst_conv snd_conv)
    (simp only: drop_bit_eq_div)

lemma unat_v4:
  assumes "a < 256" "b < 256" "c < 256" "d < 256"
  shows "unat (v4 a b c d) = ((a * 256 + b) * 256 + c) * 256 + d"
proof -
  have "v4 a b c d = of_nat (((a * 256 + b) * 256 + c) * 256 + d)"
  proof -
    have "((int a * 256 + int b) * 256 + int c) * 256 + int d = int (((a * 256 + b) * 256 + c) * 256 + d)"
      by simp
    then show ?thesis unfolding v4_def by (simp only: of_int_of_nat_eq)
  qed
  moreover have "((a * 256 + b) * 256 + c) * 256 + d < 2 ^ 32" using assms by simp
  ultimately show ?thesis by (simp only: unat_of_nat) (simp add: take_bit_nat_eq_self)
qed

definition octets :: "nat \<Rightarrow> nat \<Rightarrow> nat \<Rightarrow> nat \<Rightarrow> bool" where
  "octets a b c d \<longleftrightarrow> a < 256 \<and> b < 256 \<and> c < 256 \<and> d < 256"

lemma unat_v4_div:
  assumes "octets a b c d"
  shows "unat (v4 a b c d) div 2 ^ 28 = a div 16" "unat (v4 a b c d) div 2 ^ 24 = a"
    "unat (v4 a b c d) div 2 ^ 20 = a * 16 + b div 16" "unat (v4 a b c d) div 2 ^ 17 = a * 128 + b div 2"
    "unat (v4 a b c d) div 2 ^ 16 = a * 256 + b" "unat (v4 a b c d) div 2 ^ 8 = (a * 256 + b) * 256 + c"
    "unat (v4 a b c d) div 2 ^ 1 = ((a * 256 + b) * 256 + c) * 128 + d div 2"
    "unat (v4 a b c d) div 2 ^ 0 = ((a * 256 + b) * 256 + c) * 256 + d"
proof -
  let ?x = "unat (v4 a b c d)"
  have bounds: "a < 256" "b < 256" "c < 256" "d < 256"
    using assms by (simp_all add: octets_def)
  have digit: "(q * 256 + r) div 256 = q" if "r < 256" for q r :: nat
    using that by simp
  have more: "?x div 2 ^ (m + n) = ?x div 2 ^ m div 2 ^ n" for m n
    by (simp only: power_add div_mult2_eq)
  have half: "(q * 256 + r) div 2 ^ 4 = q * 16 + r div 16" "(q * 256 + r) div 2 = q * 128 + r div 2"
    for q r :: nat by simp_all
  show d0: "?x div 2 ^ 0 = ((a * 256 + b) * 256 + c) * 256 + d"
    using unat_v4 bounds by simp
  show "?x div 2 ^ 1 = ((a * 256 + b) * 256 + c) * 128 + d div 2"
    using more [of 0 1] by (simp only: d0 half power_one_right add_0)
  show d8: "?x div 2 ^ 8 = (a * 256 + b) * 256 + c"
    using more [of 0 8] digit [OF bounds(4)] by (simp only: d0 add_0) simp
  show d16: "?x div 2 ^ 16 = a * 256 + b"
    using more [of 8 8] digit [OF bounds(3)] by (simp only: d8) simp
  show "?x div 2 ^ 17 = a * 128 + b div 2"
    using more [of 16 1] by (simp only: d16 half power_one_right) simp
  show "?x div 2 ^ 20 = a * 16 + b div 16"
    using more [of 16 4] by (simp only: d16 half) simp
  show d24: "?x div 2 ^ 24 = a"
    using more [of 16 8] digit [OF bounds(2)] by (simp only: d16) simp
  show "?x div 2 ^ 28 = a div 16"
    using more [of 24 4] by (simp only: d24) simp
qed

lemma digit_eq: "r < m \<Longrightarrow> r' < m \<Longrightarrow> q * m + r = q' * m + r' \<longleftrightarrow> q = q' \<and> r = (r' :: nat)"
  by (metis add.commute div_mult_self3 div_less add.right_neutral add_left_imp_eq gr_implies_not0)

lemma in_net_v4:
  assumes "octets a b c d" and "octets a' b' c' d'"
  shows "in_net (v4 a b c d) (v4 a' b' c' d', 4) \<longleftrightarrow> a div 16 = a' div 16"
    "in_net (v4 a b c d) (v4 a' b' c' d', 8) \<longleftrightarrow> a = a'"
    "in_net (v4 a b c d) (v4 a' b' c' d', 12) \<longleftrightarrow> a = a' \<and> b div 16 = b' div 16"
    "in_net (v4 a b c d) (v4 a' b' c' d', 15) \<longleftrightarrow> a = a' \<and> b div 2 = b' div 2"
    "in_net (v4 a b c d) (v4 a' b' c' d', 16) \<longleftrightarrow> a = a' \<and> b = b'"
    "in_net (v4 a b c d) (v4 a' b' c' d', 24) \<longleftrightarrow> a = a' \<and> b = b' \<and> c = c'"
    "in_net (v4 a b c d) (v4 a' b' c' d', 31) \<longleftrightarrow> a = a' \<and> b = b' \<and> c = c' \<and> d div 2 = d' div 2"
    "in_net (v4 a b c d) (v4 a' b' c' d', 32) \<longleftrightarrow> a = a' \<and> b = b' \<and> c = c' \<and> d = d'"
proof -
  note u = unat_v4_div [OF assms(1)] unat_v4_div [OF assms(2)]
  have bounds: "b < 256" "b' < 256" "c < 256" "c' < 256" "d < 256" "d' < 256"
      "b div 16 < 16" "b' div 16 < 16" "b div 2 < 128" "b' div 2 < 128" "d div 2 < 128" "d' div 2 < 128"
    using assms by (auto simp: octets_def)
  have net: "in_net (v4 a b c d) (v4 a' b' c' d', p) \<longleftrightarrow>
      unat (v4 a b c d) div 2 ^ (32 - p) = unat (v4 a' b' c' d') div 2 ^ (32 - p)" for p
    by (simp add: in_net_iff)
  have subs: "32 - 4 = (28 :: nat)" "32 - 8 = (24 :: nat)" "32 - 12 = (20 :: nat)" "32 - 15 = (17 :: nat)"
    "32 - 16 = (16 :: nat)" "32 - 24 = (8 :: nat)" "32 - 31 = (1 :: nat)" "32 - 32 = (0 :: nat)" by simp_all
  show "in_net (v4 a b c d) (v4 a' b' c' d', 4) \<longleftrightarrow> a div 16 = a' div 16"
    by (simp only: net subs u digit_eq bounds conj_assoc)
  show "in_net (v4 a b c d) (v4 a' b' c' d', 8) \<longleftrightarrow> a = a'"
    by (simp only: net subs u digit_eq bounds conj_assoc)
  show "in_net (v4 a b c d) (v4 a' b' c' d', 12) \<longleftrightarrow> a = a' \<and> b div 16 = b' div 16"
    by (simp only: net subs u digit_eq bounds conj_assoc)
  show "in_net (v4 a b c d) (v4 a' b' c' d', 15) \<longleftrightarrow> a = a' \<and> b div 2 = b' div 2"
    by (simp only: net subs u digit_eq bounds conj_assoc)
  show "in_net (v4 a b c d) (v4 a' b' c' d', 16) \<longleftrightarrow> a = a' \<and> b = b'"
    by (simp only: net subs u digit_eq bounds conj_assoc)
  show "in_net (v4 a b c d) (v4 a' b' c' d', 24) \<longleftrightarrow> a = a' \<and> b = b' \<and> c = c'"
    by (simp only: net subs u digit_eq bounds conj_assoc)
  show "in_net (v4 a b c d) (v4 a' b' c' d', 31) \<longleftrightarrow> a = a' \<and> b = b' \<and> c = c' \<and> d div 2 = d' div 2"
    by (simp only: net subs u digit_eq bounds conj_assoc)
  show "in_net (v4 a b c d) (v4 a' b' c' d', 32) \<longleftrightarrow> a = a' \<and> b = b' \<and> c = c' \<and> d = d'"
    by (simp only: net subs u digit_eq bounds conj_assoc)
qed

lemma octets_concrete [simp]:
  "octets 0 0 0 0" "octets 10 0 0 0" "octets 127 0 0 0" "octets 169 254 0 0" "octets 172 16 0 0"
  "octets 192 0 0 0" "octets 192 0 0 170" "octets 192 0 2 0" "octets 192 168 0 0" "octets 198 18 0 0"
  "octets 198 51 100 0" "octets 203 0 113 0" "octets 240 0 0 0" "octets 255 255 255 255"
  "octets 192 0 0 9" "octets 192 0 0 10" "octets 224 0 0 0"
  by (simp_all add: octets_def)

text \<open>The addresses the guard rejects, as ranges of the octets.\<close>

definition octets_blocked :: "nat \<Rightarrow> nat \<Rightarrow> nat \<Rightarrow> nat \<Rightarrow> bool" where
  "octets_blocked a b c d \<longleftrightarrow>
     a = 0 \<or> a = 10 \<or> a = 127 \<or> (a = 169 \<and> b = 254) \<or> (a = 172 \<and> 16 \<le> b \<and> b \<le> 31) \<or>
     (a = 192 \<and> b = 0 \<and> c = 0 \<and> d \<noteq> 9 \<and> d \<noteq> 10) \<or> (a = 192 \<and> b = 0 \<and> c = 2) \<or>
     (a = 192 \<and> b = 168) \<or> (a = 198 \<and> (b = 18 \<or> b = 19)) \<or> (a = 198 \<and> b = 51 \<and> c = 100) \<or>
     (a = 203 \<and> b = 0 \<and> c = 113) \<or> 224 \<le> a"

lemma v4_blocked_octets:
  assumes "octets a b c d"
  shows "v4_blocked (v4 a b c d) \<longleftrightarrow> octets_blocked a b c d"
proof -
  have bounds: "a < 256" "b < 256" "c < 256" "d < 256"
    using assms by (simp_all add: octets_def)
  have zero: "v4 a b c d = 0 \<longleftrightarrow> a = 0 \<and> b = 0 \<and> c = 0 \<and> d = 0"
    using bounds by (simp add: word_unat_eq_iff unat_v4)
  have divs: "a div 16 = 15 \<longleftrightarrow> 240 \<le> a" "a div 16 = 14 \<longleftrightarrow> 224 \<le> a \<and> a < 240"
    "b div 16 = Suc 0 \<longleftrightarrow> 16 \<le> b \<and> b \<le> 31" "b div 2 = 9 \<longleftrightarrow> b = 18 \<or> b = 19"
    using bounds by arith+
  note defs = v4_blocked_def v4_is_private_def v4_private_def v4_private_exceptions_def zero
    octets_blocked_def
  consider "a = 192" | "224 \<le> a" "a \<noteq> 192" | "a < 224" "a \<noteq> 192" by arith
  then show ?thesis
  proof cases
    case 1
    then show ?thesis unfolding defs using assms by (simp add: in_net_v4) auto
  next
    case 2
    then have "a div 16 = 14 \<or> a div 16 = 15" using divs(1,2) by arith
    with 2 show ?thesis unfolding defs by (simp add: in_net_v4 assms)
  next
    case 3
    then have "a div 16 \<noteq> 14" "a div 16 \<noteq> 15" "a \<noteq> 255" "\<not> 224 \<le> a" using divs(1,2) by arith+
    with 3 show ?thesis unfolding defs by (simp add: in_net_v4 assms divs(3,4), cases "a = 127"; cases "a = 169"; cases "a = 0"; simp)
  qed
qed

section \<open>IPv6 ranges\<close>

text \<open>
  What is left of the IPv6 addresses, read as a number: the global unicast block \<open>2000::/3\<close> without 6to4 (\<open>2002::/16\<close>),
  the documentation ranges (\<open>2001:db8::/32\<close>, \<open>3fff::/20\<close>) and the protocol assignments \<open>2001::/23\<close>, of which the
  addresses \<open>2001:1::1\<close> and \<open>2001:1::2\<close> and the nets \<open>2001:3::/32\<close>, \<open>2001:4:112::/48\<close>, \<open>2001:20::/28\<close> and
  \<open>2001:30::/28\<close> remain; and the deprecated site-local block \<open>fec0::/10\<close>, which \<open>ipaddress\<close> counts neither as
  private nor as reserved.
\<close>

definition v6_open :: "nat \<Rightarrow> bool" where
  "v6_open n \<longleftrightarrow>
     (0x2000 \<le> n div 2 ^ 112 \<and> n div 2 ^ 112 < 0x4000 \<and> n div 2 ^ 112 \<noteq> 0x2002 \<and> n div 2 ^ 96 \<noteq> 0x20010DB8 \<and>
      n div 2 ^ 108 \<noteq> 0x3FFF0 \<and>
      (n div 2 ^ 105 \<noteq> 0x100080 \<or>
       n = 0x20010001000000000000000000000001 \<or> n = 0x20010001000000000000000000000002 \<or>
       n div 2 ^ 96 = 0x20010003 \<or> n div 2 ^ 80 = 0x200100040112 \<or>
       n div 2 ^ 100 = 0x2001002 \<or> n div 2 ^ 100 = 0x2001003)) \<or>
     0xFEC0 \<le> n div 2 ^ 112 \<and> n div 2 ^ 112 < 0xFF00"

lemma ipv6_zeros: "replicate 5 x = [x, x, x, x, x]" "replicate 6 x = [x, x, x, x, x, x]" "replicate 7 x = [x, x, x, x, x, x, x]"
  by (simp_all add: numeral_eq_Suc)

lemma div_range:
  fixes n c :: nat
  shows "c \<le> n div numeral k \<longleftrightarrow> c * numeral k \<le> n" "n div numeral k < c \<longleftrightarrow> n < c * numeral k"
    "n div numeral k = c \<longleftrightarrow> c * numeral k \<le> n \<and> n < (c + 1) * numeral k"
proof -
  show ge: "c \<le> n div numeral k \<longleftrightarrow> c * numeral k \<le> n" for c by (simp add: less_eq_div_iff_mult_less_eq)
  show lt: "n div numeral k < c \<longleftrightarrow> n < c * numeral k" for c by (simp add: div_less_iff_less_mult)
  have "n div numeral k = c \<longleftrightarrow> c \<le> n div numeral k \<and> n div numeral k < c + 1" by auto
  then show "n div numeral k = c \<longleftrightarrow> c * numeral k \<le> n \<and> n < (c + 1) * numeral k" unfolding ge lt .
qed

lemma adjoin:
  fixes n :: nat
  shows "b \<le> c \<Longrightarrow> n < b \<or> b \<le> n \<and> n < c \<or> P \<longleftrightarrow> n < c \<or> P"
    "a \<le> b \<Longrightarrow> b \<le> c \<Longrightarrow> a \<le> n \<and> n < b \<or> b \<le> n \<and> n < c \<or> P \<longleftrightarrow> a \<le> n \<and> n < c \<or> P"
  by auto

lemma ipv6_bound: "unat (w :: ipv6) < 340282366920938463463374607431768211456"
  using unsigned_less [of w, where 'a = nat] by simp

lemma reserved_range: "list_ex (in_net w) v6_reserved \<longleftrightarrow>
    unat w div 2 ^ 112 < 0x2000 \<or> 0x4000 \<le> unat w div 2 ^ 112 \<and> unat w div 2 ^ 112 < 0xFC00 \<or>
    0xFE00 \<le> unat w div 2 ^ 112 \<and> unat w div 2 ^ 112 < 0xFE80"
  by (simp add: v6_reserved_def in_net_iff v6_def ipv6_zeros div_range adjoin)

lemma private_range: "list_ex (in_net w) v6_private \<longleftrightarrow>
   unat w = 0 \<or> unat w = 1 \<or> unat w div 2 ^ 32 = 0xFFFF \<or> unat w div 2 ^ 80 = 0x64FF9B0001 \<or> 
   unat w div 2 ^ 64 = 0x100000000000000 \<or> unat w div 2 ^ 105 = 0x100080 \<or> 
   unat w div 2 ^ 96 = 0x20010DB8 \<or> unat w div 2 ^ 112 = 0x2002 \<or> 
   unat w div 2 ^ 108 = 0x3FFF0 \<or> unat w div 2 ^ 121 = 0x7E \<or> unat w div 2 ^ 118 = 0x3FA"
  by (simp add: v6_private_def in_net_iff v6_def ipv6_zeros) blast
lemma exceptions_range: "list_ex (in_net w) v6_private_exceptions \<longleftrightarrow> 
       unat w = 0x20010001000000000000000000000001 \<or> unat w = 0x20010001000000000000000000000002 \<or>
       unat w div 2 ^ 96 = 0x20010003 \<or> unat w div 2 ^ 80 = 0x200100040112 \<or>
       unat w div 2 ^ 100 = 0x2001002 \<or> unat w div 2 ^ 100 = 0x2001003"
  by (simp add: v6_private_exceptions_def in_net_iff v6_def ipv6_zeros)

lemma exceptions_inside:
  assumes "list_ex (in_net w) v6_private_exceptions"
  shows "unat w div 2 ^ 105 = 0x100080"
  using assms unfolding exceptions_range by (elim disjE) (simp_all add: div_range)

lemma v6_open_unblocked:
  assumes "ipv4_mapped w = None"
  shows "v6_blocked w \<longleftrightarrow> \<not> v6_open (unat w)"
proof -
  let ?n = "unat w" and ?E = "list_ex (in_net w) v6_private_exceptions"
  let ?g = "?n div 2 ^ 112"
  have nets: "in_net w (v6h [0xFE80], 10) \<longleftrightarrow> ?n div 2 ^ 118 = 0x3FA" "in_net w (v6h [0xFF00], 8) \<longleftrightarrow> ?n div 2 ^ 120 = 0xFF"
    "w = 1 \<longleftrightarrow> ?n = 1" "w = 0 \<longleftrightarrow> ?n = 0"
    by (simp_all add: in_net_iff v6_def ipv6_zeros word_unat_eq_iff)
  note blocked = v6_blocked_def assms option.case v6_is_private_def private_range nets reserved_range
  have bound: "?g < 0x10000" using ipv6_bound [of w] by (simp add: div_range)
  consider "?g < 0x2000" | "0x2000 \<le> ?g" "?g < 0x4000" | "0x4000 \<le> ?g" "?g < 0xFE80" | "0xFE80 \<le> ?g" "?g < 0xFEC0"
    | "0xFEC0 \<le> ?g" "?g < 0xFF00" | "0xFF00 \<le> ?g"
    by linarith
  then show ?thesis
  proof cases
    case 1
    then show ?thesis unfolding blocked v6_open_def by simp
  next
    case 2
    then have "?n \<noteq> 0" "?n \<noteq> 1" "?n div 2 ^ 32 \<noteq> 0xFFFF" "?n div 2 ^ 80 \<noteq> 0x64FF9B0001"
      "?n div 2 ^ 64 \<noteq> 0x100000000000000" "?n div 2 ^ 121 \<noteq> 0x7E" "?n div 2 ^ 118 \<noteq> 0x3FA" "?n div 2 ^ 120 \<noteq> 0xFF"
      by (auto simp: div_range)
    moreover have "?n div 2 ^ 96 \<noteq> 0x20010DB8 \<and> ?g \<noteq> 0x2002 \<and> ?n div 2 ^ 108 \<noteq> 0x3FFF0" if ?E
      using exceptions_inside [OF that] by (simp add: div_range)
    moreover have "\<not> ?g < 0x2000" "\<not> 0x4000 \<le> ?g" "\<not> 0xFE00 \<le> ?g" "\<not> 0xFEC0 \<le> ?g" using 2 by linarith+
    moreover have "?E \<Longrightarrow> ?n div 2 ^ 105 = 0x100080" by (rule exceptions_inside)
    ultimately show ?thesis using 2 unfolding blocked v6_open_def exceptions_range [symmetric] by argo
  next
    case 3
    have "\<not> ?E" using exceptions_inside [of w] 3 by (auto simp: div_range)
    moreover have "?g < 0xFC00 \<or> ?n div 2 ^ 121 = 0x7E \<or> 0xFE00 \<le> ?g" by (simp add: div_range) linarith
    moreover have "\<not> ?g < 0x4000" "\<not> 0xFEC0 \<le> ?g" using 3 by linarith+
    ultimately show ?thesis using 3 unfolding blocked v6_open_def by argo
  next
    case 4
    then have "?n div 2 ^ 118 = 0x3FA" by (simp add: div_range)
    then show ?thesis using 4 unfolding blocked v6_open_def by simp
  next
    case 5
    have "?n div 2 ^ 105 \<noteq> 0x100080" "?n div 2 ^ 118 \<noteq> 0x3FA" "?n div 2 ^ 121 \<noteq> 0x7E" "?n div 2 ^ 120 \<noteq> 0xFF"
      "?n div 2 ^ 96 \<noteq> 0x20010DB8" "?n div 2 ^ 108 \<noteq> 0x3FFF0" "?n div 2 ^ 64 \<noteq> 0x100000000000000" "?n div 2 ^ 80 \<noteq> 0x64FF9B0001"
      "?n div 2 ^ 32 \<noteq> 0xFFFF" "?n \<noteq> 0" "?n \<noteq> 1"
      using 5 by (simp_all add: div_range)
    moreover have "\<not> ?g < 0x2000" "\<not> ?g < 0xFC00" "\<not> ?g < 0xFE80" "?g \<noteq> 0x2002" using 5 by linarith+
    ultimately have "\<not> v6_blocked w" unfolding blocked by blast
    then show ?thesis using 5 unfolding v6_open_def by blast
  next
    case 6
    then have "?n div 2 ^ 120 = 0xFF" using bound by (simp add: div_range)
    then show ?thesis using 6 unfolding blocked v6_open_def by simp
  qed
qed

lemma ipv4_octets:
  obtains a b c d where "octets a b c d" "w = v4 a b c d"
proof -
  let ?n = "unat w"
  have n: "?n < 0x100000000" using unsigned_less [of w, where 'a = nat] by simp
  define a b c d where "a = ?n div 2 ^ 24" and "b = ?n div 2 ^ 16 mod 256" and "c = ?n div 2 ^ 8 mod 256" and "d = ?n mod 256"
  have oct: "octets a b c d" using n by (simp add: octets_def a_def b_def c_def d_def)
  have "?n div 2 ^ 24 = ?n div 2 ^ 16 div 256" "?n div 2 ^ 16 = ?n div 2 ^ 8 div 256" "?n div 2 ^ 8 = ?n div 256" by (simp_all add: div_mult2_eq [symmetric])
  then have "((a * 256 + b) * 256 + c) * 256 + d = ?n" unfolding a_def b_def c_def d_def
    by (simp only: div_mult_mod_eq) 
  then have "unat (v4 a b c d) = ?n" using oct by (simp add: unat_v4 octets_def)
  then show thesis using that oct by (metis word_unat_eq_iff)
qed

lemma ipv4_mapped_Some:
  "ipv4_mapped w = Some x \<Longrightarrow> unat w = 0xFFFF00000000 + unat x"
proof -
  assume "ipv4_mapped w = Some x"
  then have "drop_bit 32 w = 0xFFFF" and x: "x = ucast w" by (auto simp: ipv4_mapped_def split: if_splits)
  then have "unat (drop_bit 32 w) = 0xFFFF" by simp
  then have "unat w div 2 ^ 32 = 0xFFFF" by (simp only: unat_drop_bit_eq) (simp only: drop_bit_eq_div)
  moreover have "unat x = unat w mod 2 ^ 32" unfolding x by (simp add: unsigned_ucast_eq take_bit_eq_mod)
  ultimately show ?thesis using div_mult_mod_eq [of "unat w" "2 ^ 32"] by simp
qed

lemma unblocked_addr:
  assumes "\<not> addr_blocked ip"
  shows "(\<exists>a b c d. octets a b c d \<and> \<not> octets_blocked a b c d \<and>
      (ip = V4 (v4 a b c d) \<or> (\<exists>w z. ip = V6 w z \<and> unat w = 0xFFFF00000000 + unat (v4 a b c d)))) \<or>
    (\<exists>w z. ip = V6 w z \<and> v6_open (unat w))"
proof (cases ip)
  case (V4 x)
  obtain a b c d where "octets a b c d" "x = v4 a b c d" by (rule ipv4_octets)
  then show ?thesis using assms V4 by (auto simp: v4_blocked_octets)
next
  case (V6 w z)
  show ?thesis
  proof (cases "ipv4_mapped w")
    case None
    then show ?thesis using assms V6 by (simp add: v6_open_unblocked)
  next
    case (Some x)
    obtain a b c d where "octets a b c d" "x = v4 a b c d" by (rule ipv4_octets)
    moreover from this have "\<not> octets_blocked a b c d" using assms V6 Some by (simp add: v6_blocked_def v4_blocked_octets)
    ultimately show ?thesis using ipv4_mapped_Some [OF Some] V6 by blast
  qed
qed

lemma ip_examples:
  "ip_address ''10.1.2.3'' = Inr (V4 (v4 10 1 2 3))" "ip_address ''01.1.2.3'' = Inl ValueError"
  "ip_address ''::1'' = Inr (V6 1 None)" "ip_address ''1::2::3'' = Inl ValueError"
  by code_simp+

end
