(* ===== verification/Ssrf.thy ===== *)
theory Ssrf
  imports Ip_Address World
begin

text \<open>
  The outbound HTTP target with its SSRF guard (\<open>infrastructure/http/safe_replay_target.py\<close>),
  on the parts of \<open>urllib.parse.urlsplit\<close> (Python 3.13) it reads. The locale \<open>http_target\<close>
  states the port \<open>HttpReplayTarget\<close> for its two clients, forwards and replays.
\<close>

section \<open>urlsplit\<close>

record split_url =
  us_scheme :: string
  us_netloc :: string

definition ascii_alpha :: "char \<Rightarrow> bool" where
  "ascii_alpha c \<longleftrightarrow> (65 \<le> byte c \<and> byte c \<le> 90) \<or> (97 \<le> byte c \<and> byte c \<le> 122)"

definition scheme_char :: "char \<Rightarrow> bool" where
  "scheme_char c \<longleftrightarrow> ascii_alpha c \<or> dec_char c \<or> c \<in> {CHR ''+'', CHR ''-'', CHR ''.''}"

text \<open>\<open>s.partition(c)[0]\<close>, \<open>s.partition(c)[2]\<close> and \<open>s.rpartition(c)[2]\<close>.\<close>

definition part_after :: "char \<Rightarrow> string \<Rightarrow> string" where
  "part_after c s = (if c \<in> set s then str_after c s else [])"

definition after_last :: "char \<Rightarrow> string \<Rightarrow> string" where
  "after_last c s = last (split_on c s)"

definition before_last :: "char \<Rightarrow> string \<Rightarrow> string" where
  "before_last c s = (if c \<in> set s then take (length s - length (after_last c s) - 1) s else [])"

definition hex_char :: "char \<Rightarrow> bool" where
  "hex_char c \<longleftrightarrow> hex_value c \<noteq> None"

definition check_bracketed_host :: "string \<Rightarrow> unit res" where
  "check_bracketed_host hostname =
     (if prefix ''v'' hostname then
        (let rest = drop 1 hostname; digits = takeWhile hex_char rest; tail = drop (length digits) rest
         in raise_unless (digits \<noteq> [] \<and> prefix ''.'' tail \<and> 2 \<le> length tail) ValueError)
      else case ip_address hostname of
        Inr (V6 w z) \<Rightarrow> Inr ()
      | _ \<Rightarrow> Inl ValueError)"

definition check_bracketed_netloc :: "string \<Rightarrow> unit res" where
  "check_bracketed_netloc netloc =
     (let hostname_and_port = after_last (CHR ''@'') netloc in
      if CHR ''['' \<in> set hostname_and_port then
        (let before = str_before (CHR ''['') hostname_and_port;
             bracketed = part_after (CHR ''['') hostname_and_port;
             hostname = str_before (CHR '']'') bracketed;
             port = part_after (CHR '']'') bracketed
         in bindR (raise_unless (before = [] \<and> (port = [] \<or> prefix '':'' port)) ValueError) (\<lambda>_.
            check_bracketed_host hostname))
      else check_bracketed_host (str_before (CHR '':'') hostname_and_port))"

definition checknetloc :: "services \<Rightarrow> string \<Rightarrow> unit res" where
  "checknetloc sv netloc =
     (if netloc = [] \<or> is_ascii netloc then Inr ()
      else let n = filter (\<lambda>c. c \<notin> set ''@:#?'') netloc; n2 = sv_nfkc sv n
        in if n = n2 then Inr ()
           else raise_unless (\<forall>c \<in> set ''/?#@:''. c \<notin> set n2) ValueError)"

definition urlsplit :: "services \<Rightarrow> string \<Rightarrow> split_url res" where
  "urlsplit sv url =
     (let u = filter (\<lambda>c. byte c \<notin> {9, 10, 13}) (dropWhile (\<lambda>c. byte c \<le> 32) url);
          pre = str_before (CHR '':'') u;
          has_scheme = (CHR '':'' \<in> set u \<and> pre \<noteq> [] \<and> ascii_alpha (hd pre) \<and> list_all scheme_char pre);
          scheme = (if has_scheme then str_lower pre else []);
          rest = (if has_scheme then str_after (CHR '':'') u else u);
          netloc = (if prefix ''//'' rest
            then takeWhile (\<lambda>c. c \<notin> set ''/?#'') (drop 2 rest) else [])
      in bindR (raise_unless ((CHR ''['' \<in> set netloc) = (CHR '']'' \<in> set netloc)) ValueError) (\<lambda>_.
         bindR (if CHR ''['' \<in> set netloc then check_bracketed_netloc netloc else Inr ()) (\<lambda>_.
         bindR (checknetloc sv netloc) (\<lambda>_.
         Inr \<lparr>us_scheme = scheme, us_netloc = netloc\<rparr>))))"

text \<open>The properties \<open>username\<close>, \<open>password\<close>, \<open>hostname\<close> and \<open>port\<close> of the result.\<close>

definition us_username :: "split_url \<Rightarrow> string option" where
  "us_username p =
     (if CHR ''@'' \<in> set (us_netloc p)
      then Some (str_before (CHR '':'') (before_last (CHR ''@'') (us_netloc p))) else None)"

definition us_password :: "split_url \<Rightarrow> string option" where
  "us_password p =
     (let userinfo = before_last (CHR ''@'') (us_netloc p)
      in if CHR ''@'' \<in> set (us_netloc p) \<and> CHR '':'' \<in> set userinfo
         then Some (str_after (CHR '':'') userinfo) else None)"

definition hostinfo :: "split_url \<Rightarrow> string \<times> string option" where
  "hostinfo p =
     (let info = after_last (CHR ''@'') (us_netloc p);
          bracketed = part_after (CHR ''['') info;
          (hostname, port) =
            (if CHR ''['' \<in> set info
             then (str_before (CHR '']'') bracketed,
                   part_after (CHR '':'') (part_after (CHR '']'') bracketed))
             else (str_before (CHR '':'') info, part_after (CHR '':'') info))
      in (hostname, if port = [] then None else Some port))"

definition us_hostname :: "split_url \<Rightarrow> string option" where
  "us_hostname p =
     (let hostname = fst (hostinfo p) in
      if hostname = [] then None
      else let h = str_before (CHR 0x25) hostname in Some (str_lower h @ drop (length h) hostname))"

definition us_port :: "split_url \<Rightarrow> int option res" where
  "us_port p =
     (case snd (hostinfo p) of
        None \<Rightarrow> Inr None
      | Some s \<Rightarrow>
          (if \<not> list_all dec_char s then Inl ValueError
           else let n = int (dec_number s)
             in if 0 \<le> n \<and> n \<le> 65535 then Inr (Some n) else Inl ValueError))"

section \<open>The guard\<close>

record target =
  vt_url :: string
  vt_host :: string
  vt_port :: int
  vt_ip :: string

definition ALLOWED_SCHEMES :: "string list" where
  "ALLOWED_SCHEMES = [''http'', ''https'']"

definition ALLOWED_PORTS :: "int list" where
  "ALLOWED_PORTS = [80, 443]"

definition DEFAULT_BLOCKED_HOST_SUFFIXES :: "string list" where
  "DEFAULT_BLOCKED_HOST_SUFFIXES = [''hooktrace.io'']"

definition DEFAULT_MAX_RESPONSE_BYTES :: nat where
  "DEFAULT_MAX_RESPONSE_BYTES = 256 * 1024"

definition resolve :: "services \<Rightarrow> string \<Rightarrow> string list res" where
  "resolve sv host =
     (case sv_resolve sv host of
        Inl e \<Rightarrow> if e = TimeoutError
          then Inl (SsrfBlockedError (''DNS resolution timed out for '' @ host)) else Inl e
      | Inr ips \<Rightarrow> Inr ips)"

definition is_private_or_reserved :: "string \<Rightarrow> bool res" where
  "is_private_or_reserved ip_str = bindR (ip_address ip_str) (\<lambda>ip. Inr (addr_blocked ip))"

fun check_ips :: "string list \<Rightarrow> unit res" where
  "check_ips [] = Inr ()"
| "check_ips (ip # ips) =
     bindR (is_private_or_reserved ip) (\<lambda>private.
       if private then Inl (SsrfBlockedError (''resolved to private/reserved IP: '' @ ip))
       else check_ips ips)"

definition host_blocked :: "string list \<Rightarrow> string \<Rightarrow> bool" where
  "host_blocked blocked host =
     (let host_normalized = str_lower (rev (dropWhile (\<lambda>c. c = CHR ''.'') (rev host)))
      in list_ex (\<lambda>s. host_normalized = s \<or> suffix (''.'' @ s) host_normalized) blocked)"

definition validate_target :: "services \<Rightarrow> string list \<Rightarrow> string \<Rightarrow> target res" where
  "validate_target sv blocked_suffixes url =
     bindR (urlsplit sv url) (\<lambda>parts.
     bindR (raise_unless (str_lower (us_scheme parts) \<in> set ALLOWED_SCHEMES)
       (SsrfBlockedError (''scheme not allowed: '' @ us_scheme parts))) (\<lambda>_.
     bindR (raise_unless (falsy (us_username parts) \<and> falsy (us_password parts))
       (SsrfBlockedError ''userinfo not allowed'')) (\<lambda>_.
     case us_hostname parts of
       None \<Rightarrow> Inl (SsrfBlockedError ''missing host'')
     | Some host \<Rightarrow>
         bindR (us_port parts) (\<lambda>given.
         let port = (case given of
               None \<Rightarrow> if us_scheme parts = ''https'' then 443 else 80
             | Some n \<Rightarrow> if n = 0 then (if us_scheme parts = ''https'' then 443 else 80) else n) in
         bindR (raise_unless (port \<in> set ALLOWED_PORTS)
           (SsrfBlockedError (''port not allowed: '' @ str_int port))) (\<lambda>_.
         bindR (raise_unless (\<not> host_blocked (map str_lower blocked_suffixes) host)
           (SsrfBlockedError (''host suffix blocked: '' @ host))) (\<lambda>_.
         bindR (case ip_address host of Inr a \<Rightarrow> Inr [host] | Inl e \<Rightarrow> resolve sv host) (\<lambda>ips.
         bindR (raise_unless (ips \<noteq> [])
           (SsrfBlockedError (''DNS returned no addresses for '' @ host))) (\<lambda>_.
         bindR (check_ips ips) (\<lambda>_.
         Inr \<lparr>vt_url = url, vt_host = host, vt_port = port, vt_ip = hd ips\<rparr>)))))))))"

section \<open>Sending\<close>

text \<open>
  The response body is read in chunks, until the cap is reached; every exception of the transport
  becomes an \<open>HttpRequestFailedError\<close>.
\<close>

fun read_capped :: "nat \<Rightarrow> string \<Rightarrow> string list \<Rightarrow> string" where
  "read_capped cap acc [] = acc"
| "read_capped cap acc (chunk # chunks) =
     (let acc' = acc @ chunk in if cap \<le> length acc' then take cap acc' else read_capped cap acc' chunks)"

definition send_target ::
  "services \<Rightarrow> nat \<Rightarrow> string \<Rightarrow> target \<Rightarrow> dict \<Rightarrow> string \<Rightarrow> (int \<times> dict \<times> string) act" where
  "send_target sv max_response_bytes method validated headers body w =
     (let ob = \<lparr>ob_method = method, ob_url = vt_url validated, ob_headers = headers, ob_body = body\<rparr>;
          w' = w\<lparr>w_sent := w_sent w @ [ob]\<rparr>
      in case sv_http sv ob of
           Inl msg \<Rightarrow> (Inl (HttpRequestFailedError msg), w')
         | Inr (status, resp_headers, chunks) \<Rightarrow>
             (Inr (status, resp_headers, read_capped max_response_bytes [] chunks), w'))"

definition make_validate :: "services \<Rightarrow> string \<Rightarrow> target res" where
  "make_validate sv = validate_target sv DEFAULT_BLOCKED_HOST_SUFFIXES"

definition make_send ::
  "services \<Rightarrow> string \<Rightarrow> target \<Rightarrow> dict \<Rightarrow> string \<Rightarrow> (int \<times> dict \<times> string) act" where
  "make_send sv = send_target sv DEFAULT_MAX_RESPONSE_BYTES"

section \<open>What the target promises\<close>

text \<open>
  \<open>validate url\<close> gives the target to send to or raises; one send appends one request to the log
  of the network, touches nothing else of the world, raises \<open>HttpRequestFailedError\<close> only, and
  gives a body within the cap.
\<close>

locale http_target =
  fixes validate :: "string \<Rightarrow> 'v res"
    and send :: "string \<Rightarrow> 'v \<Rightarrow> dict \<Rightarrow> string \<Rightarrow> (int \<times> dict \<times> string) act"
    and request :: "string \<Rightarrow> 'v \<Rightarrow> dict \<Rightarrow> string \<Rightarrow> outbound"
    and admitted :: "string \<Rightarrow> 'v \<Rightarrow> bool"
    and cap :: nat
  assumes validate_admitted: "validate url = Inr v \<Longrightarrow> admitted url v"
    and send_world: "snd (send m v h b w) = w\<lparr>w_sent := w_sent w @ [request m v h b]\<rparr>"
    and send_raises: "fst (send m v h b w) = Inl e \<Longrightarrow> \<exists>msg. e = HttpRequestFailedError msg"
    and send_cap: "fst (send m v h b w) = Inr (code, hs, body) \<Longrightarrow> length body \<le> cap"
begin

lemma delivery_blocked:
  "validate url = Inl e \<Longrightarrow> bindA (lift_res (validate url)) (\<lambda>v. send m v h b) w = (Inl e, w)"
  by simp

lemma delivery_sends:
  assumes "validate url = Inr v"
  shows "snd (bindA (lift_res (validate url)) (\<lambda>v. send m v h b) w) =
    w\<lparr>w_sent := w_sent w @ [request m v h b]\<rparr>" "admitted url v"
  using assms send_world validate_admitted by simp_all

lemma delivery_at_most_once:
  "\<exists>obs. w_sent (snd (bindA (lift_res (validate url)) (\<lambda>v. send m v h b) w)) = w_sent w @ obs \<and>
     length obs \<le> 1 \<and> (obs \<noteq> [] \<longrightarrow> (\<exists>v. admitted url v \<and> obs = [request m v h b]))"
proof (cases "validate url")
  case (Inr v)
  then show ?thesis
    using send_world [of m v h b w] validate_admitted by (intro exI [of _ "[request m v h b]"]) auto
qed simp

lemma delivery_db: "w_db (snd (bindA (lift_res (validate url)) (\<lambda>v. send m v h b) w)) = w_db w"
  by (cases "validate url") (use send_world in auto)

end

lemma length_read_capped: "length acc \<le> cap \<Longrightarrow> length (read_capped cap acc chunks) \<le> cap"
  by (induction cap acc chunks rule: read_capped.induct) (auto simp: Let_def)

text \<open>The body is the prefix of the whole response body within the cap.\<close>

lemma read_capped_take:
  assumes "length acc < cap"
  shows "read_capped cap acc chunks = take cap (acc @ concat chunks)"
  using assms
proof (induction cap acc chunks rule: read_capped.induct)
  case (2 cap acc chunk chunks)
  then show ?case
    by (cases "cap \<le> length (acc @ chunk)") (simp_all add: Let_def)
qed simp

text \<open>What the guard checked of an admitted target.\<close>

definition target_admitted :: "services \<Rightarrow> string list \<Rightarrow> string \<Rightarrow> target \<Rightarrow> bool" where
  "target_admitted sv blocked url t \<longleftrightarrow>
     vt_url t = url \<and> vt_port t \<in> set ALLOWED_PORTS \<and> \<not> host_blocked (map str_lower blocked) (vt_host t) \<and>
     (\<exists>parts ips. urlsplit sv url = Inr parts \<and> str_lower (us_scheme parts) \<in> set ALLOWED_SCHEMES \<and>
        falsy (us_username parts) \<and> falsy (us_password parts) \<and>
        us_hostname parts = Some (vt_host t) \<and>
        (case ip_address (vt_host t) of Inr a \<Rightarrow> ips = [vt_host t]
         | Inl e \<Rightarrow> sv_resolve sv (vt_host t) = Inr ips) \<and>
        ips \<noteq> [] \<and> vt_ip t = hd ips \<and>
        (\<forall>ip \<in> set ips. \<exists>a. ip_address ip = Inr a \<and> \<not> addr_blocked a))"

lemma check_ips_Inr:
  "check_ips ips = Inr u \<longleftrightarrow> (\<forall>ip \<in> set ips. \<exists>a. ip_address ip = Inr a \<and> \<not> addr_blocked a)"
  by (induction ips) (auto simp: bindR_Inr_iff is_private_or_reserved_def)

lemma resolve_Inr [simp]: "resolve sv h = Inr ips \<longleftrightarrow> sv_resolve sv h = Inr ips"
  by (auto simp: resolve_def split: sum.splits if_splits)

lemma validate_target_admitted:
  assumes "validate_target sv blocked url = Inr t"
  shows "target_admitted sv blocked url t"
proof -
  from assms obtain parts where p: "urlsplit sv url = Inr parts"
    by (cases "urlsplit sv url") (simp_all add: validate_target_def)
  note run = assms [unfolded validate_target_def p bindR.simps]
  have scheme: "str_lower (us_scheme parts) \<in> set ALLOWED_SCHEMES"
    and info: "falsy (us_username parts) \<and> falsy (us_password parts)"
    using run by (auto simp only: bindR_Inr_iff raise_unless_Inr)
  obtain host where host: "us_hostname parts = Some host"
    using run by (cases "us_hostname parts") (simp_all only: bindR_Inr_iff option.case, simp_all)
  define port_of where "port_of = (\<lambda>given :: int option. case given of
      None \<Rightarrow> if us_scheme parts = ''https'' then 443 else 80
    | Some n \<Rightarrow> if n = 0 then (if us_scheme parts = ''https'' then 443 else 80) else n)"
  from run obtain given ips u where
    "port_of given \<in> set ALLOWED_PORTS" "\<not> host_blocked (map str_lower blocked) host"
    "(case ip_address host of Inr a \<Rightarrow> Inr [host] | Inl e \<Rightarrow> resolve sv host) = Inr ips"
    "ips \<noteq> []" "check_ips ips = Inr u"
    "t = \<lparr>vt_url = url, vt_host = host, vt_port = port_of given, vt_ip = hd ips\<rparr>"
    unfolding host option.case Let_def port_of_def [symmetric]
    by (simp only: bindR_Inr_iff raise_unless_Inr sum.inject) blast
  then show ?thesis
    unfolding target_admitted_def using p scheme info host
    by (auto simp: check_ips_Inr split: sum.splits)
qed

interpretation safe_target: http_target "validate_target sv blocked" "send_target sv cap"
  "\<lambda>m v h b. \<lparr>ob_method = m, ob_url = vt_url v, ob_headers = h, ob_body = b\<rparr>"
  "target_admitted sv blocked" cap
  by unfold_locales
    (auto simp: send_target_def Let_def length_read_capped split: sum.splits prod.splits
      intro: validate_target_admitted)

section \<open>Dotted quads\<close>

text \<open>A URL whose host is plain: no delimiter of the authority and no character that is dropped.\<close>

definition plain_char :: "char \<Rightarrow> bool" where
  "plain_char c \<longleftrightarrow> 33 \<le> byte c \<and> byte c < 128 \<and> c \<notin> set ''/?#@[]:'' \<and> c \<noteq> CHR 0x25"

definition simple_url :: "string \<Rightarrow> string \<Rightarrow> string \<Rightarrow> string" where
  "simple_url scheme host path = scheme @ ''://'' @ host @ ''/'' @ path"

lemma scheme_facts:
  assumes "scheme \<in> {''http'', ''https''}"
  shows "scheme \<noteq> []" "\<not> byte (hd scheme) \<le> 32" "\<forall>c \<in> set scheme. byte c \<notin> {9, 10, 13}"
    "CHR '':'' \<notin> set scheme" "ascii_alpha (hd scheme)" "list_all scheme_char scheme"
    "str_lower scheme = scheme"
proof -
  have "list_all (\<lambda>s. s \<noteq> [] \<and> \<not> byte (hd s) \<le> 32 \<and> list_all (\<lambda>c. byte c \<notin> {9, 10, 13}) s \<and>
      CHR '':'' \<notin> set s \<and> ascii_alpha (hd s) \<and> list_all scheme_char s \<and> str_lower s = s)
      [''http'', ''https'']" by code_simp
  then have "scheme \<noteq> [] \<and> \<not> byte (hd scheme) \<le> 32 \<and> list_all (\<lambda>c. byte c \<notin> {9, 10, 13}) scheme \<and>
      CHR '':'' \<notin> set scheme \<and> ascii_alpha (hd scheme) \<and> list_all scheme_char scheme \<and>
      str_lower scheme = scheme"
    using assms unfolding list_all_iff by fastforce
  then show "scheme \<noteq> []" "\<not> byte (hd scheme) \<le> 32" "\<forall>c \<in> set scheme. byte c \<notin> {9, 10, 13}"
    "CHR '':'' \<notin> set scheme" "ascii_alpha (hd scheme)" "list_all scheme_char scheme"
    "str_lower scheme = scheme" by (simp_all add: list_all_iff)
qed

lemma plain_host:
  assumes "list_all plain_char host"
  shows "\<forall>c \<in> set host. byte c \<notin> {9, 10, 13}" "\<forall>c \<in> set host. c \<notin> set ''/?#''" "is_ascii host"
    "CHR ''@'' \<notin> set host" "CHR ''['' \<notin> set host" "CHR '']'' \<notin> set host" "CHR '':'' \<notin> set host"
    "CHR 0x25 \<notin> set host"
proof -
  have p: "33 \<le> byte c \<and> byte c < 128 \<and> c \<notin> set ''/?#@[]:'' \<and> c \<noteq> CHR 0x25" if "c \<in> set host" for c
    using assms that unfolding list_all_iff plain_char_def by blast
  show "\<forall>c \<in> set host. byte c \<notin> {9, 10, 13}" using p by force
  show "\<forall>c \<in> set host. c \<notin> set ''/?#''"
  proof
    fix c assume "c \<in> set host"
    from p [OF this] show "c \<notin> set ''/?#''" by (simp only: list.set insert_iff) blast
  qed
  show "is_ascii host" using p by (simp add: is_ascii_def list_all_iff)
  have "\<not> plain_char x" if "x \<in> set ''@[]:''" for x
    using that by (simp only: plain_char_def list.set insert_iff empty_iff) blast
  moreover have "\<forall>c \<in> set host. plain_char c" using assms by (simp only: list_all_iff)
  ultimately show "CHR ''@'' \<notin> set host" "CHR ''['' \<notin> set host" "CHR '']'' \<notin> set host" "CHR '':'' \<notin> set host"
    by (metis list.set_intros)+
  show "CHR 0x25 \<notin> set host" using p by blast
qed

lemma urlsplit_simple:
  assumes "scheme \<in> {''http'', ''https''}" and "list_all plain_char host"
  shows "urlsplit sv (simple_url scheme host path) = Inr \<lparr>us_scheme = scheme, us_netloc = host\<rparr>"
proof -
  note sf = scheme_facts [OF assms(1)] and hf = plain_host [OF assms(2)]
  let ?keep = "filter (\<lambda>c. byte c \<notin> {9, 10, 13})"
  let ?rest = "''//'' @ host @ ''/'' @ ?keep path"
  obtain c cs where c: "scheme = c # cs" using sf(1) by (cases scheme) auto
  have drop: "dropWhile (\<lambda>c. byte c \<le> 32) (simple_url scheme host path) = simple_url scheme host path"
    using sf(2) by (simp add: c simple_url_def)
  have lits: "?keep ''://'' = ''://''" "?keep ''/'' = ''/''" by code_simp+
  have same: "?keep scheme = scheme" "?keep host = host"
    using sf(3) hf(1) by (auto simp only: filter_id_conv)
  have u: "?keep (simple_url scheme host path) = scheme @ CHR '':'' # ?rest"
    unfolding simple_url_def filter_append lits same by simp
  have netloc: "takeWhile (\<lambda>c. c \<notin> set ''/?#'') (drop 2 ?rest) = host"
    using hf(2) by (simp add: takeWhile_append2)
  have dslash: "prefix ''//'' ?rest" by (rule prefixI) simp
  have has: "CHR '':'' \<in> set (scheme @ CHR '':'' # ?rest)" by simp
  have ok: "checknetloc sv host = Inr ()" using hf(3) by (simp add: checknetloc_def)
  have scheme_ok: "(CHR '':'' \<in> set (scheme @ CHR '':'' # ?rest) \<and> scheme \<noteq> [] \<and>
      ascii_alpha (hd scheme) \<and> list_all scheme_char scheme) = True" using sf by simp
  have brackets: "((CHR ''['' \<in> set host) = (CHR '']'' \<in> set host)) = True"
    "(CHR ''['' \<in> set host) = False" using hf by simp_all
  have "urlsplit sv (simple_url scheme host path) =
      bindR (raise_unless ((CHR ''['' \<in> set host) = (CHR '']'' \<in> set host)) ValueError) (\<lambda>_.
      bindR (if CHR ''['' \<in> set host then check_bracketed_netloc host else Inr ()) (\<lambda>_.
      bindR (checknetloc sv host) (\<lambda>_. Inr \<lparr>us_scheme = scheme, us_netloc = host\<rparr>)))"
    unfolding urlsplit_def drop u Let_def before_append [OF sf(4)] after_append [OF sf(4)] scheme_ok
      if_True eqTrueI [OF dslash] netloc sf(7) ..
  also have "\<dots> = Inr \<lparr>us_scheme = scheme, us_netloc = host\<rparr>"
    using hf(6) unfolding brackets ok by simp
  finally show ?thesis .
qed

lemma simple_parts:
  assumes "list_all plain_char host" and "host \<noteq> []"
  shows "us_username \<lparr>us_scheme = s, us_netloc = host\<rparr> = None"
    "us_password \<lparr>us_scheme = s, us_netloc = host\<rparr> = None"
    "us_hostname \<lparr>us_scheme = s, us_netloc = host\<rparr> = Some (str_lower host)"
    "us_port \<lparr>us_scheme = s, us_netloc = host\<rparr> = Inr None"
proof -
  note hf = plain_host [OF assms(1)]
  have cut: "str_before ch host = host" if "ch \<notin> set host" for ch
    using that by (auto simp: str_before_def takeWhile_eq_all_conv)
  have info: "hostinfo \<lparr>us_scheme = s, us_netloc = host\<rparr> = (host, None)"
    using hf(4,5,7) cut by (simp add: hostinfo_def after_last_def split_on_no_sep part_after_def)
  show "us_username \<lparr>us_scheme = s, us_netloc = host\<rparr> = None"
    "us_password \<lparr>us_scheme = s, us_netloc = host\<rparr> = None"
    using hf(4) by (simp_all add: us_username_def us_password_def)
  show "us_hostname \<lparr>us_scheme = s, us_netloc = host\<rparr> = Some (str_lower host)"
    using hf(8) cut assms(2) by (simp add: us_hostname_def info)
  show "us_port \<lparr>us_scheme = s, us_netloc = host\<rparr> = Inr None"
    by (simp add: us_port_def info)
qed

definition quad :: "nat \<Rightarrow> nat \<Rightarrow> nat \<Rightarrow> nat \<Rightarrow> string" where
  "quad a b c d = str_nat a @ ''.'' @ str_nat b @ ''.'' @ str_nat c @ ''.'' @ str_nat d"

lemma hd_str_nat: "0 < n \<Longrightarrow> hd (str_nat n) \<noteq> CHR ''0''"
proof (induction n rule: str_nat.induct)
  case (1 n)
  have "dec_digit k \<noteq> CHR ''0''" if "0 < k" "k < 10" for k
    using that by (auto simp: dec_digit_def byte_def dest: arg_cong [where f = byte])
  with 1 show ?case by (cases "n < 10") (auto simp: hd_append str_nat.simps [of n])
qed

lemma str_nat_zero: "str_nat 0 = ''0''"
  by code_simp

lemma byte_dot: "byte (CHR ''.'') = 46"
  by code_simp

lemma length_str_nat: "n < 1000 \<Longrightarrow> length (str_nat n) \<le> 3"
  by (subst str_nat.simps, subst str_nat.simps, subst str_nat.simps) simp

lemma parse_octet_str_nat:
  assumes "n < 256"
  shows "parse_octet (str_nat n) = Some n"
proof -
  have "list_all dec_char (str_nat n)"
    by (auto simp: list_all_iff dec_char_def dest: str_nat_digits)
  moreover have "str_nat n = ''0'' \<or> hd (str_nat n) \<noteq> CHR ''0''"
    using hd_str_nat [of n] by (cases "n = 0") (simp_all add: str_nat_zero)
  ultimately show ?thesis
    using assms length_str_nat [of n] by (auto simp: parse_octet_def dec_number_str_nat)
qed

lemma str_nat_no_dot: "CHR ''.'' \<notin> set (str_nat n)"
  using str_nat_digits [of "CHR ''.''" n] by (auto simp: byte_def)

lemma parse_quad: "octets a b c d \<Longrightarrow> parse_ipv4 (quad a b c d) = Some (v4 a b c d)"
  using str_nat_no_dot
  by (simp add: quad_def parse_ipv4_def split_on_append split_on_no_sep parse_octet_str_nat octets_def)

lemma quad_char:
  assumes "x \<in> set (quad a b c d)"
  shows "plain_char x" "lower_char x = x" "x \<noteq> CHR ''o''"
proof -
  have "48 \<le> byte x \<and> byte x \<le> 57 \<or> x = CHR ''.''"
    using assms by (auto simp: quad_def dest: str_nat_digits)
  then have "byte x \<in> set (46 # [48..<58])"
    by (elim disjE) (simp_all only: byte_dot list.set set_upt insert_iff atLeastLessThan_iff, simp_all)
  moreover have "list_all (\<lambda>n. plain_char (char_of n) \<and> lower_char (char_of n) = char_of n \<and>
      char_of n \<noteq> CHR ''o'') (46 # [48..<58])" by code_simp
  ultimately have "plain_char (char_of (byte x)) \<and> lower_char (char_of (byte x)) = char_of (byte x) \<and>
      char_of (byte x) \<noteq> CHR ''o''" by (auto simp only: list_all_iff)
  then show "plain_char x" "lower_char x = x" "x \<noteq> CHR ''o''" by simp_all
qed

lemma quad_plain: "list_all plain_char (quad a b c d)" "str_lower (quad a b c d) = quad a b c d"
    "quad a b c d \<noteq> []"
proof -
  show "list_all plain_char (quad a b c d)" using quad_char(1) by (simp only: list_all_iff) blast
  show "str_lower (quad a b c d) = quad a b c d"
    unfolding str_lower_def by (rule map_idI) (rule quad_char(2))
  show "quad a b c d \<noteq> []" by (simp add: quad_def)
qed

lemma quad_not_suffix_blocked:
  "\<not> host_blocked (map str_lower DEFAULT_BLOCKED_HOST_SUFFIXES) (quad a b c d)"
proof -
  let ?n = "str_lower (rev (dropWhile (\<lambda>c. c = CHR ''.'') (rev (quad a b c d))))"
  have no: "CHR ''o'' \<notin> set ?n"
  proof
    assume "CHR ''o'' \<in> set ?n"
    then obtain x where "x \<in> set (quad a b c d)" "lower_char x = CHR ''o''"
      by (auto simp: str_lower_def dest!: set_dropWhileD)
    with quad_char(2,3) show False by metis
  qed
  have low: "map str_lower DEFAULT_BLOCKED_HOST_SUFFIXES = [''hooktrace.io'']" by code_simp
  have "?n \<noteq> ''hooktrace.io''" "\<not> suffix (''.'' @ ''hooktrace.io'') ?n"
    using no by (auto simp: suffix_def)
  then show ?thesis unfolding host_blocked_def low by simp
qed

text \<open>
  The SSRF guard on addresses: for every IPv4 address written as a host, the guard raises
  \<open>SsrfBlockedError\<close> exactly when the address lies in one of the listed ranges (this network,
  loopback, link-local with the cloud metadata address, the three private ranges, the
  documentation and benchmark ranges, multicast and everything above), and admits the URL, with the
  port of its scheme, for every other address.
\<close>

lemma ssrf_guard_quads:
  assumes "scheme \<in> {''http'', ''https''}" and "octets a b c d"
  shows "make_validate sv (simple_url scheme (quad a b c d) path) =
    (if octets_blocked a b c d
     then Inl (SsrfBlockedError (''resolved to private/reserved IP: '' @ quad a b c d))
     else Inr \<lparr>vt_url = simple_url scheme (quad a b c d) path, vt_host = quad a b c d,
               vt_port = (if scheme = ''https'' then 443 else 80), vt_ip = quad a b c d\<rparr>)"
proof -
  let ?h = "quad a b c d"
  note parts = simple_parts [OF quad_plain(1,3), of scheme, unfolded quad_plain(2)]
  have ip: "ip_address ?h = Inr (V4 (v4 a b c d))"
    by (simp add: ip_address_def parse_quad assms(2))
  have port: "(if scheme = ''https'' then 443 else 80 :: int) \<in> set ALLOWED_PORTS"
    by (simp add: ALLOWED_PORTS_def)
  have scheme: "str_lower scheme \<in> set ALLOWED_SCHEMES"
    unfolding scheme_facts(7) [OF assms(1)] ALLOWED_SCHEMES_def using assms(1) by simp
  have "check_ips [?h] = (if octets_blocked a b c d
      then Inl (SsrfBlockedError (''resolved to private/reserved IP: '' @ ?h)) else Inr ())"
    by (simp add: is_private_or_reserved_def ip v4_blocked_octets assms(2))
  then show ?thesis
    unfolding make_validate_def validate_target_def urlsplit_simple [OF assms(1) quad_plain(1)]
      bindR.simps split_url.simps parts option.case Let_def ip sum.case
    using port scheme quad_not_suffix_blocked by (simp add: split del: if_split) (simp split: if_split)
qed

lemma ssrf_guard_quads_witness:
  "make_validate demo_services (simple_url ''http'' (quad 169 254 169 254) ''latest'') =
     Inl (SsrfBlockedError (''resolved to private/reserved IP: '' @ quad 169 254 169 254))"
  using ssrf_guard_quads [of "''http''" 169 254 169 254 demo_services "''latest''"]
  by (simp add: octets_def octets_blocked_def)

text \<open>
  The text of a host below one of the program's own domains, in any case and with any number of dots at its end.
\<close>

lemma host_allowed:
  assumes "\<not> host_blocked [suf] host" and "suf \<noteq> []" and "last suf \<noteq> CHR ''.''"
  shows "\<nexists>sub k. str_lower host = sub @ suf @ replicate k (CHR ''.'') \<and> (sub = [] \<or> last sub = CHR ''.'')"
proof (intro notI, elim exE conjE)
  fix sub k
  assume eq: "str_lower host = sub @ suf @ replicate k (CHR ''.'')" and sub: "sub = [] \<or> last sub = CHR ''.''"
  have dot: "lower_char c = CHR ''.'' \<longleftrightarrow> c = CHR ''.''" for c
    by (simp add: lower_char_def byte_dot flip: byte_inject)
  have "str_lower (rev (dropWhile (\<lambda>c. c = CHR ''.'') (rev host))) = rev (dropWhile (\<lambda>c. c = CHR ''.'') (rev (str_lower host)))"
    by (simp add: str_lower_def rev_map dropWhile_map comp_def dot)
  also have "\<dots> = sub @ suf"
    using assms(2,3) by (cases suf rule: rev_cases) (simp_all add: eq dropWhile_append)
  finally have norm: "str_lower (rev (dropWhile (\<lambda>c. c = CHR ''.'') (rev host))) = sub @ suf" .
  have "sub @ suf = suf \<or> suffix (''.'' @ suf) (sub @ suf)"
    using sub by (cases sub rule: rev_cases) (auto simp: suffix_def)
  then show False using assms(1) by (simp add: host_blocked_def norm)
qed

text \<open>
  C15. What an admitted target is: the scheme is http or https, there are no credentials, the port
  is 80 or 443, the host is neither \<open>hooktrace.io\<close> nor a name below it, in any case and with any dots at
  the end, and every address the host is or resolves to at that moment parses and lies outside these
  ranges. IPv4, plain or mapped into IPv6: \<open>0.0.0.0/8\<close>, \<open>10.0.0.0/8\<close>, \<open>127.0.0.0/8\<close>, \<open>169.254.0.0/16\<close>,
  \<open>172.16.0.0/12\<close>, \<open>192.0.0.0/24\<close> without \<open>192.0.0.9\<close> and \<open>192.0.0.10\<close>, \<open>192.0.2.0/24\<close>, \<open>192.168.0.0/16\<close>,
  \<open>198.18.0.0/15\<close>, \<open>198.51.100.0/24\<close>, \<open>203.0.113.0/24\<close> and everything from \<open>224.0.0.0\<close> on. Any other IPv6
  address is a global unicast address without the special nets of \<open>v6_open\<close>, or one of \<open>fec0::/10\<close>. The
  reported address is the first of them. Addresses of \<open>100.64.0.0/10\<close> and of \<open>fec0::/10\<close> are not among the
  rejected ones, although neither is public.
\<close>

theorem ssrf_guard_sound:
  assumes "make_validate sv url = Inr t"
  shows "vt_url t = url \<and> vt_port t \<in> {80, 443} \<and>
    (\<nexists>sub k. str_lower (vt_host t) = sub @ ''hooktrace.io'' @ replicate k (CHR ''.'') \<and> (sub = [] \<or> last sub = CHR ''.'')) \<and>
    (\<exists>parts ips. urlsplit sv url = Inr parts \<and> str_lower (us_scheme parts) \<in> {''http'', ''https''} \<and>
       falsy (us_username parts) \<and> falsy (us_password parts) \<and> us_hostname parts = Some (vt_host t) \<and>
       (case ip_address (vt_host t) of Inr a \<Rightarrow> ips = [vt_host t]
        | Inl e \<Rightarrow> sv_resolve sv (vt_host t) = Inr ips) \<and>
       ips \<noteq> [] \<and> vt_ip t = hd ips \<and>
       (\<forall>ip \<in> set ips.
          (\<exists>a b c d. octets a b c d \<and> \<not> octets_blocked a b c d \<and>
             (ip_address ip = Inr (V4 (v4 a b c d)) \<or>
              (\<exists>w z. ip_address ip = Inr (V6 w z) \<and> unat w = 0xFFFF00000000 + unat (v4 a b c d)))) \<or>
          (\<exists>w z. ip_address ip = Inr (V6 w z) \<and> v6_open (unat w))))"
proof -
  have low: "map str_lower DEFAULT_BLOCKED_HOST_SUFFIXES = [''hooktrace.io'']" by code_simp
  have sets: "set ALLOWED_PORTS = {80, 443}" "set ALLOWED_SCHEMES = {''http'', ''https''}"
    by (simp_all add: ALLOWED_PORTS_def ALLOWED_SCHEMES_def)
  note admitted = validate_target_admitted [OF assms [unfolded make_validate_def], unfolded target_admitted_def low sets]
  then have host: "\<not> host_blocked [''hooktrace.io''] (vt_host t)" by blast
  let ?open = "\<lambda>ip. (\<exists>a b c d. octets a b c d \<and> \<not> octets_blocked a b c d \<and>
      (ip_address ip = Inr (V4 (v4 a b c d)) \<or>
       (\<exists>w z. ip_address ip = Inr (V6 w z) \<and> unat w = 0xFFFF00000000 + unat (v4 a b c d)))) \<or>
    (\<exists>w z. ip_address ip = Inr (V6 w z) \<and> v6_open (unat w))"
  have ranges: "?open ip" if "\<exists>x. ip_address ip = Inr x \<and> \<not> addr_blocked x" for ip
    using that unblocked_addr by fastforce
  obtain parts ips where split: "urlsplit sv url = Inr parts" "str_lower (us_scheme parts) \<in> {''http'', ''https''}"
      "falsy (us_username parts)" "falsy (us_password parts)" "us_hostname parts = Some (vt_host t)"
    and ips: "case ip_address (vt_host t) of Inr a \<Rightarrow> ips = [vt_host t] | Inl e \<Rightarrow> sv_resolve sv (vt_host t) = Inr ips"
      "ips \<noteq> []" "vt_ip t = hd ips" "\<forall>ip \<in> set ips. \<exists>x. ip_address ip = Inr x \<and> \<not> addr_blocked x"
    using admitted by blast
  have "\<forall>ip \<in> set ips. ?open ip" using ips(4) ranges by blast
  moreover have "vt_url t = url" "vt_port t \<in> {80, 443}" using admitted by blast+
  moreover have "\<nexists>sub k. str_lower (vt_host t) = sub @ ''hooktrace.io'' @ replicate k (CHR ''.'') \<and> (sub = [] \<or> last sub = CHR ''.'')"
    by (rule host_allowed [OF host]) simp_all
  ultimately show ?thesis using split ips(1-3) by blast
qed

theorem ssrf_guard_sound_witness:
  "\<exists>t a b c d. make_validate demo_services (simple_url ''https'' (quad 93 184 216 34) []) = Inr t \<and>
     vt_port t \<in> {80, 443} \<and> ip_address (vt_ip t) = Inr (V4 (v4 a b c d)) \<and> \<not> octets_blocked a b c d"
proof -
  have run: "make_validate demo_services (simple_url ''https'' (quad 93 184 216 34) []) =
      Inr \<lparr>vt_url = simple_url ''https'' (quad 93 184 216 34) [], vt_host = quad 93 184 216 34, vt_port = 443,
        vt_ip = quad 93 184 216 34\<rparr>"
    using ssrf_guard_quads [of "''https''" 93 184 216 34 demo_services "[]"] by (simp add: octets_def octets_blocked_def)
  have ip: "ip_address (quad 93 184 216 34) = Inr (V4 (v4 93 184 216 34))"
    by (simp add: ip_address_def parse_quad octets_def)
  from ssrf_guard_sound [OF run] show ?thesis unfolding run by (auto simp: ip)
qed

text \<open>The carrier-grade NAT range and the site-local addresses are not among the blocked ones.\<close>

lemma cgnat_not_blocked: "\<not> v4_blocked (v4 100 64 0 1)"
  by (simp add: v4_blocked_octets octets_def octets_blocked_def)

lemma site_local_not_blocked: "\<not> addr_blocked (V6 (v6 [0xFEC0, 0, 0, 0, 0, 0, 0, 2]) None)"
proof -
  have n: "unat (v6 [0xFEC0, 0, 0, 0, 0, 0, 0, 2]) = 0xFEC00000000000000000000000000002" by (simp add: v6_def)
  have "ipv4_mapped (v6 [0xFEC0, 0, 0, 0, 0, 0, 0, 2]) \<noteq> Some x" for x
    using ipv4_mapped_Some [of "v6 [0xFEC0, 0, 0, 0, 0, 0, 0, 2]" x] unsigned_less [of x, where 'a = nat] by (auto simp: n)
  then have "ipv4_mapped (v6 [0xFEC0, 0, 0, 0, 0, 0, 0, 2]) = None" by (rule not_Some_eq [THEN iffD1, OF allI])
  then show ?thesis by (simp add: v6_open_unblocked n v6_open_def)
qed

end
