(* ===== verification/Forwarding.thy ===== *)
theory Forwarding
  imports Capture Ssrf
begin

text \<open>
  Delivering one forward (\<open>application/use_cases/execute_forward.py\<close> and the job wrapper of
  \<open>jobs/worker.py\<close>): claim and load in one transaction, validate and send without one, record
  the outcome in a second one, then schedule the next attempt.
\<close>

section \<open>Outbound headers\<close>

definition HEADERS_TO_STRIP_FROM_CAPTURED :: "string list" where
  "HEADERS_TO_STRIP_FROM_CAPTURED =
     [''connection'', ''keep-alive'', ''te'', ''trailers'', ''upgrade'', ''transfer-encoding'',
      ''proxy-authenticate'', ''proxy-authorization'', ''content-length'', ''host'',
      ''authorization'', ''cookie'', ''set-cookie'', ''stripe-signature'', ''x-hub-signature-256'',
      ''x-shopify-hmac-sha256'', ''x-twilio-signature'', ''x-slack-signature'', ''x-zoom-signature'']"

definition strip_captured :: "dict \<Rightarrow> dict" where
  "strip_captured hs = dict_filter (\<lambda>k. str_lower k \<notin> set HEADERS_TO_STRIP_FROM_CAPTURED) hs"

record claimed_state =
  cs_forward :: forward
  cs_endpoint :: endpoint
  cs_captured :: captured_request
  cs_body :: string

definition idempotency_key :: "forward \<Rightarrow> string" where
  "idempotency_key f = uuid_str (fw_id f) @ '':'' @ str_int (fw_attempt_count f)"

definition unsigned_headers :: "claimed_state \<Rightarrow> dict" where
  "unsigned_headers state =
     (let captured = strip_captured (rq_headers (cs_captured state));
          fused = (case ep_forward_headers (cs_endpoint state) of
              None \<Rightarrow> captured
            | Some fh \<Rightarrow> if fh = [] then captured else dict_update captured fh)
      in AList.update ''X-Hooktrace-Forward-Id'' (uuid_str (fw_id (cs_forward state)))
           (AList.update ''Idempotency-Key'' (idempotency_key (cs_forward state)) fused))"

definition forward_headers_of :: "services \<Rightarrow> string \<Rightarrow> int \<Rightarrow> claimed_state \<Rightarrow> dict res" where
  "forward_headers_of sv secrets_key ts state =
     (let hs = unsigned_headers state in
      if falsy (ep_forward_secret (cs_endpoint state)) then Inr hs
      else bindR (decrypt_secret sv secrets_key (the (ep_forward_secret (cs_endpoint state)))) (\<lambda>secret.
        let sig = sign_forward sv secret ts (cs_body state)
        in Inr (AList.update ''X-Hooktrace-Signature'' (''t='' @ str_int ts @ '',v1='' @ sig) hs)))"

section \<open>The phases\<close>

text \<open>What the clock gives at each reading of one execution; \<open>fc_unix\<close> is \<open>int(time.time())\<close>.\<close>

record forward_clock =
  fc_claim :: time
  fc_missing :: time
  fc_unix :: int
  fc_next :: time
  fc_record :: time

definition claim_phase :: "services \<Rightarrow> forward_clock \<Rightarrow> uuid \<Rightarrow> claimed_state option act" where
  "claim_phase sv clk forward_id = with_session (
     bindA (run_db (claim_for_attempt forward_id (fc_claim clk))) (\<lambda>claimed.
     case claimed of
       None \<Rightarrow> bindA (emit (Forward_attempt ''skipped'')) (\<lambda>_. ret None)
     | Some f \<Rightarrow>
         bindA (read_db (endpoint_find_by_id (fw_endpoint_id f))) (\<lambda>endpoint.
         bindA (read_db (request_find_by_id (fw_request_id f))) (\<lambda>captured.
         case (endpoint, captured) of
           (Some e, Some c) \<Rightarrow>
             bindA (load_body sv c) (\<lambda>body.
             ret (Some \<lparr>cs_forward = f, cs_endpoint = e, cs_captured = c, cs_body = body\<rparr>))
         | _ \<Rightarrow>
             bindA (run_db (\<lambda>d. ((), record_outcome forward_id NDead None
               (Some ''endpoint or request not found (TTL expired?)'') None (fc_missing clk) d))) (\<lambda>_.
             bindA (emit (Forward_attempt ''dead'')) (\<lambda>_. ret None))))))"

text \<open>The result: HTTP status, network error, final error, message of the SSRF guard.\<close>

type_synonym http_result = "int option \<times> bool \<times> string option \<times> string option"

fun http_handler :: "exn \<Rightarrow> http_result act" where
  "http_handler (SsrfBlockedError m) = ret (None, False, None, Some m)"
| "http_handler (HttpRequestFailedError m) = ret (None, True, Some m, None)"
| "http_handler e = fail e"

definition http_phase :: "services \<Rightarrow> string \<Rightarrow> int \<Rightarrow> claimed_state \<Rightarrow> http_result act" where
  "http_phase sv secrets_key ts state =
     bindA (lift_res (forward_headers_of sv secrets_key ts state)) (\<lambda>hs.
     catchA
       (bindA (bindA (lift_res (make_validate sv (fw_target_url (cs_forward state)))) (\<lambda>validated.
          make_send sv (rq_method (cs_captured state)) validated hs (cs_body state)))
          (\<lambda>(status, resp_headers, resp_body). ret (Some status, False, None, None)))
       http_handler)"

definition record_phase ::
  "uuid \<Rightarrow> next_status \<Rightarrow> int option \<Rightarrow> string option \<Rightarrow> time option \<Rightarrow> time \<Rightarrow> unit act" where
  "record_phase forward_id ns code err next now =
     with_session (run_db (\<lambda>d. ((), record_outcome forward_id ns code err next now d)))"

definition whole_second :: "time \<Rightarrow> time" where
  "whole_second t = (t div 1000000) * 1000000"

definition finish_forward ::
  "services \<Rightarrow> forward_clock \<Rightarrow> uuid \<Rightarrow> int \<Rightarrow> http_result \<Rightarrow> unit act" where
  "finish_forward sv clk forward_id attempt_count result =
     (case result of (http_status, network_error, final_error, ssrf_error) \<Rightarrow>
        case ssrf_error of
          Some m \<Rightarrow>
            bindA (record_phase forward_id NDead None (Some (''SsrfBlockedError: '' @ m)) None
              (fc_record clk)) (\<lambda>_. emit (Forward_attempt ''ssrf_blocked''))
        | None \<Rightarrow>
            bindA (lift_res (decide attempt_count http_status network_error)) (\<lambda>decision.
            let ns = next_status decision;
                next_attempt_at = (if ns = NFailed then Some (whole_second (fc_next clk)) else None) in
            bindA (record_phase forward_id ns http_status final_error next_attempt_at (fc_record clk)) (\<lambda>_.
            bindA (if ns = NFailed then arq_enqueue sv forward_id (defer_seconds decision) else ret ()) (\<lambda>_.
            emit (Forward_attempt (status_str (status_of_next ns)))))))"

definition execute_forward :: "services \<Rightarrow> string \<Rightarrow> forward_clock \<Rightarrow> uuid \<Rightarrow> unit act" where
  "execute_forward sv secrets_key clk forward_id =
     bindA (claim_phase sv clk forward_id) (\<lambda>claimed.
     case claimed of
       None \<Rightarrow> ret ()
     | Some state \<Rightarrow>
         bindA (http_phase sv secrets_key (fc_unix clk) state) (\<lambda>result.
         finish_forward sv clk forward_id (fw_attempt_count (cs_forward state)) result))"

text \<open>The arq job: the argument is parsed, and every exception is logged and swallowed.\<close>

definition execute_forward_job :: "services \<Rightarrow> string \<Rightarrow> forward_clock \<Rightarrow> string \<Rightarrow> unit act" where
  "execute_forward_job sv secrets_key clk forward_id_str =
     catchA (bindA (lift_res (uuid_parse forward_id_str)) (\<lambda>i. execute_forward sv secrets_key clk i))
       (\<lambda>e. ret ())"

section \<open>Headers\<close>

lemma strip_captured_lookup:
  "map_of (strip_captured hs) k =
     (if str_lower k \<in> set HEADERS_TO_STRIP_FROM_CAPTURED then None else map_of hs k)"
  by (simp add: strip_captured_def map_of_dict_filter)

definition own_headers :: "string list" where
  "own_headers = [''X-Hooktrace-Forward-Id'', ''Idempotency-Key'', ''X-Hooktrace-Signature'']"

lemma forward_headers_ofD:
  assumes "forward_headers_of sv key ts state = Inr hs"
  shows "map_of hs ''Idempotency-Key'' = Some (idempotency_key (cs_forward state))"
    "map_of hs ''X-Hooktrace-Forward-Id'' = Some (uuid_str (fw_id (cs_forward state)))"
    "\<not> falsy (ep_forward_secret (cs_endpoint state)) \<Longrightarrow>
       \<exists>secret. decrypt_secret sv key (the (ep_forward_secret (cs_endpoint state))) = Inr secret \<and>
         map_of hs ''X-Hooktrace-Signature'' =
           Some (''t='' @ str_int ts @ '',v1='' @ sign_forward sv secret ts (cs_body state))"
    "k \<notin> set own_headers \<Longrightarrow> str_lower k \<in> set HEADERS_TO_STRIP_FROM_CAPTURED \<Longrightarrow>
       k \<in> fst ` set hs \<Longrightarrow>
       \<exists>fh. ep_forward_headers (cs_endpoint state) = Some fh \<and> k \<in> fst ` set fh"
proof -
  let ?base = "strip_captured (rq_headers (cs_captured state))"
  let ?fused = "case ep_forward_headers (cs_endpoint state) of
      None \<Rightarrow> ?base | Some fh \<Rightarrow> if fh = [] then ?base else dict_update ?base fh"
  have hs: "hs = unsigned_headers state \<or> (\<exists>v. hs = AList.update ''X-Hooktrace-Signature'' v (unsigned_headers state))"
    using assms by (auto simp: forward_headers_of_def bindR_Inr_iff Let_def split: if_splits)
  have un: "map_of (unsigned_headers state) ''Idempotency-Key'' = Some (idempotency_key (cs_forward state))"
    "map_of (unsigned_headers state) ''X-Hooktrace-Forward-Id'' = Some (uuid_str (fw_id (cs_forward state)))"
    by (simp_all add: unsigned_headers_def Let_def)
  show "map_of hs ''Idempotency-Key'' = Some (idempotency_key (cs_forward state))"
    "map_of hs ''X-Hooktrace-Forward-Id'' = Some (uuid_str (fw_id (cs_forward state)))"
    using hs un by auto
  show "\<exists>secret. decrypt_secret sv key (the (ep_forward_secret (cs_endpoint state))) = Inr secret \<and>
         map_of hs ''X-Hooktrace-Signature'' =
           Some (''t='' @ str_int ts @ '',v1='' @ sign_forward sv secret ts (cs_body state))"
    if "\<not> falsy (ep_forward_secret (cs_endpoint state))"
    using assms that by (auto simp: forward_headers_of_def bindR_Inr_iff Let_def)
  show "\<exists>fh. ep_forward_headers (cs_endpoint state) = Some fh \<and> k \<in> fst ` set fh"
    if "k \<notin> set own_headers" "str_lower k \<in> set HEADERS_TO_STRIP_FROM_CAPTURED" "k \<in> fst ` set hs"
  proof -
    have "k \<in> fst ` set (unsigned_headers state)"
      using hs that(1,3) unfolding own_headers_def by (elim disjE exE) (simp_all add: fst_update)
    then have "k \<in> fst ` set ?fused"
      using that(1) unfolding unsigned_headers_def Let_def fst_update own_headers_def by auto
    moreover have "k \<notin> fst ` set ?base"
      using that(2) strip_captured_lookup [of "rq_headers (cs_captured state)" k]
      by (simp add: map_of_None_iff [symmetric])
    ultimately show ?thesis
      by (auto simp: fst_dict_update split: option.splits if_splits)
  qed
qed

section \<open>The phases one by one\<close>

definition world_ok :: "world \<Rightarrow> bool" where
  "world_ok w \<longleftrightarrow> db_ok (w_db w) \<and> \<not> w_aborted w"

lemma load_body_world: "load_body sv c w = (r, w') \<Longrightarrow> w' = w"
  by (auto simp: load_body_def bindA_def blob_get_def split: option.splits)

lemma claim_frame [simp]:
  "endpoint_find_by_id e (snd (claim_for_attempt i now d)) = endpoint_find_by_id e d"
  "request_find_by_id q (snd (claim_for_attempt i now d)) = request_find_by_id q d"
  by (simp_all add: endpoint_find_by_id_eq request_find_eq claim_for_attempt_def)

text \<open>Nothing to claim: the job ends, whatever made it run a second time.\<close>

lemma claim_phase_None:
  assumes "\<not> w_aborted w" and "fst (claim_for_attempt i (fc_claim clk) (w_db w)) = None"
  shows "claim_phase sv clk i w = (Inr None, w\<lparr>w_db := snd (claim_for_attempt i (fc_claim clk) (w_db w)),
    w_metrics := w_metrics w @ [Forward_attempt ''skipped'']\<rparr>)"
  using assms by (simp add: claim_phase_def with_session_def)

lemma claim_phase_missing:
  assumes "\<not> w_aborted w" and "fst (claim_for_attempt i (fc_claim clk) (w_db w)) = Some f"
    and "endpoint_find_by_id (fw_endpoint_id f) (w_db w) = None \<or>
      request_find_by_id (fw_request_id f) (w_db w) = None"
  shows "claim_phase sv clk i w = (Inr None, w\<lparr>
    w_db := record_outcome i NDead None (Some ''endpoint or request not found (TTL expired?)'') None
      (fc_missing clk) (snd (claim_for_attempt i (fc_claim clk) (w_db w))),
    w_metrics := w_metrics w @ [Forward_attempt ''dead'']\<rparr>)"
  using assms by (auto simp: claim_phase_def with_session_def split: option.splits)

lemma claim_phase_found:
  assumes "\<not> w_aborted w" and "fst (claim_for_attempt i (fc_claim clk) (w_db w)) = Some f"
    and "endpoint_find_by_id (fw_endpoint_id f) (w_db w) = Some e"
    and "request_find_by_id (fw_request_id f) (w_db w) = Some c"
    and "load_body sv c (w\<lparr>w_db := snd (claim_for_attempt i (fc_claim clk) (w_db w))\<rparr>) = (r, w1)"
  shows "claim_phase sv clk i w =
    (case r of
       Inl x \<Rightarrow> (Inl x, w)
     | Inr b \<Rightarrow> (Inr (Some \<lparr>cs_forward = f, cs_endpoint = e, cs_captured = c, cs_body = b\<rparr>),
         w\<lparr>w_db := snd (claim_for_attempt i (fc_claim clk) (w_db w))\<rparr>))"
proof -
  have w1: "w1 = w\<lparr>w_db := snd (claim_for_attempt i (fc_claim clk) (w_db w))\<rparr>"
    by (rule load_body_world [OF assms(5)])
  have unmarked: "w\<lparr>w_aborted := False\<rparr> = w" using assms(1) by (cases w) simp
  show ?thesis
  proof (cases r)
    case (Inl x)
    show ?thesis
      using assms(1-4) unmarked
      by (simp add: claim_phase_def with_session_def Inl
          bindA_raise [where m = "load_body sv c", OF assms(5) [unfolded Inl w1]])
  next
    case (Inr b)
    show ?thesis
      using assms(1-4) unmarked
      by (simp add: claim_phase_def with_session_def Inr
          bindA_step [where m = "load_body sv c", OF assms(5) [unfolded Inr w1]])
  qed
qed

text \<open>All that a claim phase can give, for a world in order.\<close>

lemma claim_phase_cases:
  assumes "world_ok w" and "claim_phase sv clk i w = (r, w')"
  obtains (raised) x where "r = Inl x" "w' = w"
    | (ended) "r = Inr None" "w_sent w' = w_sent w" "w_jobs w' = w_jobs w" "world_ok w'"
    | (claimed) st g where "r = Inr (Some st)" "w' = w\<lparr>w_db := snd (claim_for_attempt i (fc_claim clk) (w_db w))\<rparr>"
        "world_ok w'" "forward_find_by_id i (w_db w) = Some g" "fw_status g \<in> {Pending, Failed}"
        "cs_forward st = set_claimed (fc_claim clk) g"
        "endpoint_find_by_id (fw_endpoint_id g) (w_db w) = Some (cs_endpoint st)"
        "request_find_by_id (fw_request_id g) (w_db w) = Some (cs_captured st)"
        "load_body sv (cs_captured st) w' = (Inr (cs_body st), w')"
proof (cases "fst (claim_for_attempt i (fc_claim clk) (w_db w))")
  case None
  with assms show ?thesis
    by (intro ended) (auto simp: world_ok_def claim_phase_None intro: forward_ops_db_ok)
next
  case (Some f)
  let ?d = "snd (claim_for_attempt i (fc_claim clk) (w_db w))"
  let ?w1 = "w\<lparr>w_db := ?d\<rparr>"
  have ok: "db_ok (w_db w)" "\<not> w_aborted w" using assms(1) by (simp_all add: world_ok_def)
  obtain g where g: "forward_find_by_id i (w_db w) = Some g" "fw_status g \<in> {Pending, Failed}"
    "f = set_claimed (fc_claim clk) g"
    using pg.claim_SomeD(5) [OF ok(1), of i "fc_claim clk" f ?d] Some by (auto simp: prod_eq_iff)
  have ok1: "world_ok ?w1" using ok by (simp add: world_ok_def forward_ops_db_ok)
  show ?thesis
  proof (cases "endpoint_find_by_id (fw_endpoint_id f) (w_db w) = None \<or>
      request_find_by_id (fw_request_id f) (w_db w) = None")
    case True
    have "claim_phase sv clk i w = (Inr None, w\<lparr>
      w_db := record_outcome i NDead None (Some ''endpoint or request not found (TTL expired?)'') None
        (fc_missing clk) ?d, w_metrics := w_metrics w @ [Forward_attempt ''dead'']\<rparr>)"
      by (rule claim_phase_missing [OF ok(2) Some True])
    with assms(2) ok ok1 show ?thesis
      by (intro ended) (auto simp: world_ok_def intro: forward_ops_db_ok)
  next
    case False
    then obtain e c where ec: "endpoint_find_by_id (fw_endpoint_id f) (w_db w) = Some e"
      "request_find_by_id (fw_request_id f) (w_db w) = Some c" by auto
    obtain lr lw where load: "load_body sv c ?w1 = (lr, lw)" by fastforce
    note eq = claim_phase_found [OF ok(2) Some ec load]
    show ?thesis
    proof (cases lr)
      case (Inl x)
      then show ?thesis using assms(2) eq by (intro raised) auto
    next
      case (Inr b)
      have "lw = ?w1" by (rule load_body_world [OF load])
      then show ?thesis
        using assms(2) eq Inr g ec ok1 load
        by (intro claimed [of "\<lparr>cs_forward = f, cs_endpoint = e, cs_captured = c, cs_body = b\<rparr>" g]) auto
    qed
  qed
qed

text \<open>The HTTP phase changes nothing but the log of the network.\<close>

definition the_request :: "claimed_state \<Rightarrow> dict \<Rightarrow> outbound" where
  "the_request st hs = \<lparr>ob_method = rq_method (cs_captured st), ob_url = fw_target_url (cs_forward st),
     ob_headers = hs, ob_body = cs_body st\<rparr>"

text \<open>How the receiver answers one attempt: blocked by the guard, no answer, or a status.\<close>

datatype answer = Blocked string | Unreachable string | Answered int

fun answer_result :: "answer \<Rightarrow> http_result" where
  "answer_result (Blocked m) = (None, False, None, Some m)"
| "answer_result (Unreachable m) = (None, True, Some m, None)"
| "answer_result (Answered c) = (Some c, False, None, None)"

fun attempt_answer :: "services \<Rightarrow> claimed_state \<Rightarrow> dict \<Rightarrow> answer res" where
  "attempt_answer sv st hs =
     (case make_validate sv (fw_target_url (cs_forward st)) of
        Inl (SsrfBlockedError m) \<Rightarrow> Inr (Blocked m)
      | Inl (HttpRequestFailedError m) \<Rightarrow> Inr (Unreachable m)
      | Inl e \<Rightarrow> Inl e
      | Inr v \<Rightarrow>
          (case sv_http sv (the_request st hs) of
             Inl m \<Rightarrow> Inr (Unreachable m)
           | Inr (c, x) \<Rightarrow> Inr (Answered c)))"

definition attempt_sent :: "services \<Rightarrow> claimed_state \<Rightarrow> dict \<Rightarrow> outbound list" where
  "attempt_sent sv st hs =
     (case make_validate sv (fw_target_url (cs_forward st)) of Inl e \<Rightarrow> [] | Inr v \<Rightarrow> [the_request st hs])"

lemma make_validate_url: "make_validate sv url = Inr v \<Longrightarrow> vt_url v = url"
  using validate_target_admitted [of sv _ url v] by (auto simp: make_validate_def target_admitted_def)

lemma http_phase_eq:
  assumes "forward_headers_of sv key ts st = Inr hs"
  shows "http_phase sv key ts st w =
    (map_sum (\<lambda>e. e) answer_result (attempt_answer sv st hs),
     w\<lparr>w_sent := w_sent w @ attempt_sent sv st hs\<rparr>)"
proof (cases "make_validate sv (fw_target_url (cs_forward st))")
  case (Inl e)
  then show ?thesis
    using assms by (cases e) (simp_all add: http_phase_def catchA_def bindA_def attempt_sent_def)
next
  case (Inr v)
  have "vt_url v = fw_target_url (cs_forward st)" by (rule make_validate_url [OF Inr])
  then show ?thesis
    using assms Inr
    by (simp add: http_phase_def catchA_def bindA_def attempt_sent_def make_send_def send_target_def
        Let_def the_request_def split: sum.splits prod.splits)
qed

lemma http_phase_headers_fail:
  "forward_headers_of sv key ts st = Inl e \<Longrightarrow> http_phase sv key ts st w = (Inl e, w)"
  by (simp add: http_phase_def)

lemma http_phase_sent:
  assumes "http_phase sv key ts st w = (r, w')"
  obtains obs where "w' = w\<lparr>w_sent := w_sent w @ obs\<rparr>" "length obs \<le> 1"
    "\<And>ob. ob \<in> set obs \<Longrightarrow> \<exists>hs v. forward_headers_of sv key ts st = Inr hs \<and>
       ob = the_request st hs \<and> make_validate sv (fw_target_url (cs_forward st)) = Inr v"
proof (cases "forward_headers_of sv key ts st")
  case (Inl e)
  with assms show ?thesis by (intro that [of "[]"]) (auto simp: http_phase_headers_fail)
next
  case (Inr hs)
  with assms show ?thesis
    by (intro that [of "attempt_sent sv st hs"]) (auto simp: http_phase_eq attempt_sent_def split: sum.splits)
qed

lemma record_phase_eq:
  "\<not> w_aborted w \<Longrightarrow> record_phase i ns c e t now w =
     (Inr (), w\<lparr>w_db := record_outcome i ns c e t now (w_db w)\<rparr>)"
  by (simp add: record_phase_def with_session_def)

lemma finish_forward_frame:
  assumes "world_ok w" and "finish_forward sv clk i n result w = (r, w')"
  shows "w_sent w' = w_sent w" "world_ok w'"
proof -
  obtain http net ferr ssrf where res: "result = (http, net, ferr, ssrf)" by (cases result)
  have "w_sent w' = w_sent w \<and> world_ok w'"
  proof (cases ssrf)
    case (Some m)
    then show ?thesis
      using assms res
      by (auto simp: finish_forward_def world_ok_def record_phase_eq bindA_def intro: forward_ops_db_ok)
  next
    case None
    then show ?thesis
      using assms res
      by (cases "decide n http net")
        (auto simp: finish_forward_def world_ok_def record_phase_eq bindA_def Let_def arq_enqueue_eq
          intro: forward_ops_db_ok split: option.splits if_splits)
  qed
  then show "w_sent w' = w_sent w" "world_ok w'" by simp_all
qed

end
