(* ===== verification/Delivery.thy ===== *)
theory Delivery
  imports Forwarding
begin

text \<open>
  What one execution of a forward amounts to: the detailed phases of \<open>execute_forward\<close> against
  a specification that reads the receiver's answer and gives the row, the job and the metric.
\<close>

section \<open>The specification of an attempt\<close>

text \<open>The next status and the delay, from the number of attempts made and the answer.\<close>

fun attempt_verdict :: "int \<Rightarrow> answer \<Rightarrow> next_status \<times> int" where
  "attempt_verdict n (Blocked m) = (NDead, 0)"
| "attempt_verdict n (Unreachable m) =
     (if n < 5 then (NFailed, [30, 120, 600, 3600] ! nat (n - 1)) else (NDead, 0))"
| "attempt_verdict n (Answered c) =
     (if 200 \<le> c \<and> c < 300 then (NSucceeded, 0)
      else if c \<in> {408, 425, 429, 500, 502, 503, 504, 507, 508} \<and> n < 5
      then (NFailed, [30, 120, 600, 3600] ! nat (n - 1))
      else (NDead, 0))"

fun answer_code :: "answer \<Rightarrow> int option" where
  "answer_code (Answered c) = Some c"
| "answer_code (Blocked m) = None"
| "answer_code (Unreachable m) = None"

fun answer_error :: "answer \<Rightarrow> string option" where
  "answer_error (Answered c) = None"
| "answer_error (Blocked m) = Some (''SsrfBlockedError: '' @ m)"
| "answer_error (Unreachable m) = Some m"

fun answer_label :: "answer \<Rightarrow> next_status \<Rightarrow> string" where
  "answer_label (Blocked m) ns = ''ssrf_blocked''"
| "answer_label (Answered c) ns = status_str (status_of_next ns)"
| "answer_label (Unreachable m) ns = status_str (status_of_next ns)"

definition next_at :: "next_status \<Rightarrow> time \<Rightarrow> time option" where
  "next_at ns t = (if ns = NFailed then Some (whole_second t) else None)"

text \<open>The row after the attempt: claimed, then given its outcome.\<close>

definition attempted_row :: "forward_clock \<Rightarrow> answer \<Rightarrow> forward \<Rightarrow> forward" where
  "attempted_row clk a g =
     (let ns = fst (attempt_verdict (fw_attempt_count g + 1) a) in
      g\<lparr>fw_status := status_of_next ns, fw_attempt_count := fw_attempt_count g + 1,
        fw_last_attempt_at := Some (fc_claim clk), fw_started_at := Some (fc_claim clk),
        fw_final_status_code := answer_code a, fw_final_error := answer_error a,
        fw_next_attempt_at := next_at ns (fc_next clk),
        fw_completed_at := (if ns = NFailed then None else Some (fc_record clk))\<rparr>)"

lemma decide_answer:
  assumes "1 \<le> n" and "\<And>m. a \<noteq> Blocked m"
  shows "decide n (answer_code a) (case a of Unreachable m \<Rightarrow> True | _ \<Rightarrow> False) =
    Inr \<lparr>next_status = fst (attempt_verdict n a), defer_seconds = snd (attempt_verdict n a)\<rparr>"
proof -
  have "n < 5 \<Longrightarrow> RETRY_BACKOFFS ! nat (n - 1) = [30, 120, 600, 3600] ! nat (n - 1)"
  proof -
    assume "n < 5"
    with assms(1) have "n = 1 \<or> n = 2 \<or> n = 3 \<or> n = 4" by arith
    then show ?thesis by (auto simp: RETRY_BACKOFFS_def)
  qed
  then show ?thesis
    using assms py_index_backoffs [of n]
    by (cases a) (auto simp: decide_def success_status_def is_retryable_def RETRYABLE_STATUS_def)
qed

lemma finish_forward_eq:
  assumes "\<not> w_aborted w" and "1 \<le> n" and "sv_queue_fault sv = None"
    and "attempt_verdict n a = (ns, delay)"
  shows "finish_forward sv clk i n (answer_result a) w = (Inr (), w\<lparr>
    w_db := record_outcome i ns (answer_code a) (answer_error a) (next_at ns (fc_next clk))
      (fc_record clk) (w_db w),
    w_jobs := w_jobs w @ (if ns = NFailed then accepted sv i delay else []),
    w_metrics := w_metrics w @ [Forward_attempt (answer_label a ns)]\<rparr>)"
proof (cases a)
  case (Blocked m)
  then show ?thesis
    using assms by (auto simp: finish_forward_def record_phase_eq bindA_def next_at_def)
next
  case (Unreachable m)
  then show ?thesis
    using assms decide_answer [of n a]
    by (auto simp: finish_forward_def record_phase_eq bindA_def next_at_def Let_def arq_enqueue_eq
        split: if_splits)
next
  case (Answered c)
  then show ?thesis
    using assms decide_answer [of n a]
    by (auto simp: finish_forward_def record_phase_eq bindA_def next_at_def Let_def arq_enqueue_eq
        simp del: attempt_verdict.simps)
qed

lemma outcome_of_claimed:
  assumes "attempt_verdict (fw_attempt_count g + 1) a = (ns, delay)"
  shows "set_outcome ns (answer_code a) (answer_error a) (next_at ns (fc_next clk)) (fc_record clk)
    (set_claimed (fc_claim clk) g) = attempted_row clk a g"
  using assms by (cases ns) (simp_all add: attempted_row_def set_outcome_def set_claimed_def)

lemma load_body_db: "load_body sv c w = (Inr b, w) \<Longrightarrow> load_body sv c (w\<lparr>w_db := d\<rparr>) = (Inr b, w\<lparr>w_db := d\<rparr>)"
  by (auto simp: load_body_def bindA_def blob_get_def split: option.splits)

text \<open>The claim phase on a row that is waiting, with its endpoint, request and body there.\<close>

lemma claim_phase_ready:
  assumes "world_ok w" and "forward_find_by_id i (w_db w) = Some g" and "fw_status g \<in> {Pending, Failed}"
    and "endpoint_find_by_id (fw_endpoint_id g) (w_db w) = Some e"
    and "request_find_by_id (fw_request_id g) (w_db w) = Some c"
    and "load_body sv c w = (Inr b, w)"
  shows "claim_phase sv clk i w = (Inr (Some \<lparr>cs_forward = set_claimed (fc_claim clk) g,
      cs_endpoint = e, cs_captured = c, cs_body = b\<rparr>),
    w\<lparr>w_db := snd (claim_for_attempt i (fc_claim clk) (w_db w))\<rparr>)"
proof -
  have ok: "\<not> w_aborted w" "db_ok (w_db w)" using assms(1) by (simp_all add: world_ok_def)
  have "fw_id g = i" by (rule forward_find_SomeD [OF assms(2)])
  with ok(2) assms(2,3) have "fst (claim_for_attempt i (fc_claim clk) (w_db w)) = Some (set_claimed (fc_claim clk) g)"
    by (simp add: pg.claim_result row_hit_def claimable_def)
  from claim_phase_found [OF ok(1) this _ _ load_body_db [OF assms(6)]] assms(4,5)
  show ?thesis by simp
qed

section \<open>The execution as a whole\<close>

lemma job_runs:
  "execute_forward_job sv key clk (uuid_str i) w =
     (case execute_forward sv key clk i w of (r, w') \<Rightarrow> (Inr (), w'))"
  by (auto simp: execute_forward_job_def uuid_parse_str catchA_def split: prod.splits sum.splits)

lemma execute_forward_claimed:
  assumes "claim_phase sv clk i w = (Inr (Some st), w1)"
  shows "execute_forward sv key clk i w =
    bindA (http_phase sv key (fc_unix clk) st) (\<lambda>result.
      finish_forward sv clk i (fw_attempt_count (cs_forward st)) result) w1"
  using assms by (simp add: execute_forward_def bindA_def)

lemma execute_forward_ended:
  assumes "claim_phase sv clk i w = (Inr None, w1)"
  shows "execute_forward sv key clk i w = (Inr (), w1)"
  using assms by (simp add: execute_forward_def bindA_def)

lemma execute_forward_raised:
  assumes "claim_phase sv clk i w = (Inl x, w1)"
  shows "execute_forward sv key clk i w = (Inl x, w1)"
  using assms by (simp add: execute_forward_def bindA_def)

lemma execute_forward_attempt:
  assumes "world_ok w" and "forward_find_by_id i (w_db w) = Some g" and "fw_status g \<in> {Pending, Failed}"
    and "0 \<le> fw_attempt_count g"
    and "endpoint_find_by_id (fw_endpoint_id g) (w_db w) = Some e"
    and "request_find_by_id (fw_request_id g) (w_db w) = Some c"
    and "load_body sv c w = (Inr b, w)"
    and st: "st = \<lparr>cs_forward = set_claimed (fc_claim clk) g, cs_endpoint = e, cs_captured = c, cs_body = b\<rparr>"
    and hs: "forward_headers_of sv key (fc_unix clk) st = Inr hs"
    and a: "attempt_answer sv st hs = Inr a"
    and "sv_queue_fault sv = None"
    and v: "attempt_verdict (fw_attempt_count g + 1) a = (ns, delay)"
  shows "execute_forward sv key clk i w = (Inr (), w\<lparr>
    w_db := record_outcome i ns (answer_code a) (answer_error a) (next_at ns (fc_next clk))
      (fc_record clk) (snd (claim_for_attempt i (fc_claim clk) (w_db w))),
    w_jobs := w_jobs w @ (if ns = NFailed then accepted sv i delay else []),
    w_metrics := w_metrics w @ [Forward_attempt (answer_label a ns)],
    w_sent := w_sent w @ attempt_sent sv st hs\<rparr>)"
proof -
  let ?w1 = "w\<lparr>w_db := snd (claim_for_attempt i (fc_claim clk) (w_db w))\<rparr>"
  have claim: "claim_phase sv clk i w = (Inr (Some st), ?w1)"
    unfolding st by (rule claim_phase_ready) fact+
  have n: "fw_attempt_count (cs_forward st) = fw_attempt_count g + 1"
    by (simp add: st set_claimed_def)
  have http: "http_phase sv key (fc_unix clk) st ?w1 =
      (Inr (answer_result a), ?w1\<lparr>w_sent := w_sent w @ attempt_sent sv st hs\<rparr>)"
    using http_phase_eq [OF hs, of ?w1] a by simp
  show ?thesis
    unfolding execute_forward_claimed [OF claim] n
      bindA_step [where m = "http_phase sv key (fc_unix clk) st", OF http]
    using finish_forward_eq [OF _ _ assms(11) v, of "?w1\<lparr>w_sent := w_sent w @ attempt_sent sv st hs\<rparr>" clk i]
      assms(1,4)
    by (simp add: world_ok_def)
qed

lemma delivery_outcome:
  assumes "world_ok w" and "forward_find_by_id i (w_db w) = Some g" and "fw_status g \<in> {Pending, Failed}"
    and "0 \<le> fw_attempt_count g"
    and "endpoint_find_by_id (fw_endpoint_id g) (w_db w) = Some e"
    and "request_find_by_id (fw_request_id g) (w_db w) = Some c"
    and "load_body sv c w = (Inr b, w)"
    and "st = \<lparr>cs_forward = set_claimed (fc_claim clk) g, cs_endpoint = e, cs_captured = c, cs_body = b\<rparr>"
    and "forward_headers_of sv key (fc_unix clk) st = Inr hs"
    and "attempt_answer sv st hs = Inr a"
    and "sv_queue_fault sv = None"
    and "attempt_verdict (fw_attempt_count g + 1) a = (ns, delay)"
  shows "\<exists>w'. execute_forward_job sv key clk (uuid_str i) w = (Inr (), w') \<and>
    forward_find_by_id i (w_db w') = Some (attempted_row clk a g) \<and>
    (\<forall>j. j \<noteq> i \<longrightarrow> forward_find_by_id j (w_db w') = forward_find_by_id j (w_db w)) \<and>
    w_jobs w' = w_jobs w @ (if ns = NFailed then accepted sv i delay else []) \<and>
    w_metrics w' = w_metrics w @ [Forward_attempt (answer_label a ns)] \<and>
    w_sent w' = w_sent w @ attempt_sent sv st hs \<and> world_ok w'"
proof -
  let ?d = "snd (claim_for_attempt i (fc_claim clk) (w_db w))"
  have ok: "db_ok (w_db w)" "\<not> w_aborted w" using assms(1) by (simp_all add: world_ok_def)
  have id: "fw_id g = i" by (rule forward_find_SomeD [OF assms(2)])
  have d: "forward_find_by_id i ?d = Some (set_claimed (fc_claim clk) g)"
    using assms(2,3) id by (simp add: find_after_statement claimable_def)
  have row: "forward_find_by_id i (record_outcome i ns (answer_code a) (answer_error a)
      (next_at ns (fc_next clk)) (fc_record clk) ?d) = Some (attempted_row clk a g)"
    unfolding pg.outcome_overwrites [OF forward_ops_db_ok(1) [OF ok(1)] d]
    by (simp only: outcome_of_claimed [OF assms(12)])
  have other: "forward_find_by_id j (record_outcome i ns (answer_code a) (answer_error a)
      (next_at ns (fc_next clk)) (fc_record clk) ?d) = forward_find_by_id j (w_db w)" if "j \<noteq> i" for j
    using that forward_find_SomeD [of j "w_db w"]
    by (cases "forward_find_by_id j (w_db w)") (auto simp: find_after_statement claimable_def)
  show ?thesis
    using execute_forward_attempt [OF assms] row other ok
    by (simp add: job_runs world_ok_def forward_ops_db_ok)
qed

text \<open>
  C1. One delivery attempt, end to end: when a job runs for a row that is pending or failed, whose
  endpoint, request and body can be read, whose headers can be built and whose target is either
  blocked by the guard, unreachable or answers, the job ends and the row has one attempt more and
  the status the answer calls for (2xx succeeded; a network error or a retryable status failed below
  five attempts; all else dead), with the answer's code or error and its completion time unless it
  failed; every other row is as it was; a job is handed to arq, with the delay of the schedule, exactly
  when the row failed, and is scheduled unless arq still holds one of that identifier; one metric is
  counted; and the request was sent unless the guard blocked it.
\<close>

theorem execute_forward_delivers:
  assumes "world_ok w" and "forward_find_by_id i (w_db w) = Some g" and "fw_status g \<in> {Pending, Failed}"
    and "0 \<le> fw_attempt_count g"
    and "endpoint_find_by_id (fw_endpoint_id g) (w_db w) = Some e"
    and "request_find_by_id (fw_request_id g) (w_db w) = Some c"
    and "load_body sv c w = (Inr b, w)"
    and "st = \<lparr>cs_forward = set_claimed (fc_claim clk) g, cs_endpoint = e, cs_captured = c, cs_body = b\<rparr>"
    and "forward_headers_of sv key (fc_unix clk) st = Inr hs"
    and "attempt_answer sv st hs = Inr a"
    and "sv_queue_fault sv = None"
    and "attempt_verdict (fw_attempt_count g + 1) a = (ns, delay)"
  shows "\<exists>w'. execute_forward_job sv key clk (uuid_str i) w = (Inr (), w') \<and>
    forward_find_by_id i (w_db w') = Some (attempted_row clk a g) \<and>
    (\<forall>j. j \<noteq> i \<longrightarrow> forward_find_by_id j (w_db w') = forward_find_by_id j (w_db w)) \<and>
    w_jobs w' = w_jobs w @ (if ns = NFailed then accepted sv i delay else []) \<and>
    w_metrics w' = w_metrics w @ [Forward_attempt (answer_label a ns)] \<and>
    w_sent w' = w_sent w @ attempt_sent sv st hs \<and> world_ok w'"
  by (rule delivery_outcome) fact+

lemma execute_forward_sends:
  assumes "world_ok w" and "execute_forward sv key clk i w = (r, w')"
  shows "world_ok w' \<and> (w_sent w' = w_sent w \<or>
    (\<exists>g c ob v. forward_find_by_id i (w_db w) = Some g \<and> fw_status g \<in> {Pending, Failed} \<and>
       request_find_by_id (fw_request_id g) (w_db w) = Some c \<and>
       make_validate sv (fw_target_url g) = Inr v \<and>
       w_sent w' = w_sent w @ [ob] \<and> ob_url ob = fw_target_url g \<and> ob_method ob = rq_method c \<and>
       map_of (ob_headers ob) ''X-Hooktrace-Forward-Id'' = Some (uuid_str i) \<and>
       map_of (ob_headers ob) ''Idempotency-Key'' =
         Some (uuid_str i @ '':'' @ str_int (fw_attempt_count g + 1))))"
proof -
  obtain r1 w1 where cp: "claim_phase sv clk i w = (r1, w1)" by fastforce
  from assms(1) cp show ?thesis
  proof (cases rule: claim_phase_cases)
    case (raised x)
    then show ?thesis using assms cp by (simp add: execute_forward_raised)
  next
    case ended
    then show ?thesis using assms cp by (auto simp: execute_forward_ended)
  next
    case (claimed st g)
    obtain r2 w2 where hp: "http_phase sv key (fc_unix clk) st w1 = (r2, w2)" by fastforce
    obtain obs where obs: "w2 = w1\<lparr>w_sent := w_sent w1 @ obs\<rparr>" "length obs \<le> 1"
      "\<And>ob. ob \<in> set obs \<Longrightarrow> \<exists>hs v. forward_headers_of sv key (fc_unix clk) st = Inr hs \<and>
         ob = the_request st hs \<and> make_validate sv (fw_target_url (cs_forward st)) = Inr v"
      using http_phase_sent [OF hp] by blast
    have w2: "world_ok w2" using claimed(3) obs(1) by (simp add: world_ok_def)
    have run: "execute_forward sv key clk i w =
        bindA (http_phase sv key (fc_unix clk) st) (\<lambda>result.
          finish_forward sv clk i (fw_attempt_count (cs_forward st)) result) w1"
      using cp claimed(1) by (simp add: execute_forward_claimed)
    have fin: "w_sent w' = w_sent w2 \<and> world_ok w'"
    proof (cases r2)
      case (Inl x)
      then show ?thesis using assms(2) run hp w2 by (simp add: bindA_def)
    next
      case (Inr res)
      then have "finish_forward sv clk i (fw_attempt_count (cs_forward st)) res w2 = (r, w')"
        using assms(2) run hp by (simp add: bindA_def)
      from finish_forward_frame [OF w2 this] show ?thesis by simp
    qed
    have id: "fw_id g = i" by (rule forward_find_SomeD [OF claimed(4)])
    show ?thesis
    proof (cases obs)
      case Nil
      then show ?thesis using fin obs(1) claimed(2) by simp
    next
      case (Cons ob rest)
      then have one: "obs = [ob]" using obs(2) by simp
      obtain hs v where hs: "forward_headers_of sv key (fc_unix clk) st = Inr hs"
        "ob = the_request st hs" "make_validate sv (fw_target_url (cs_forward st)) = Inr v"
        using obs(3) [of ob] one by auto
      note headers = forward_headers_ofD(1,2) [OF hs(1)]
      have "ob_url ob = fw_target_url g" "ob_method ob = rq_method (cs_captured st)"
        "map_of (ob_headers ob) ''X-Hooktrace-Forward-Id'' = Some (uuid_str i)"
        "map_of (ob_headers ob) ''Idempotency-Key'' =
           Some (uuid_str i @ '':'' @ str_int (fw_attempt_count g + 1))"
        using headers id claimed(6)
        by (simp_all add: hs(2) the_request_def idempotency_key_def set_claimed_def)
      moreover have "make_validate sv (fw_target_url g) = Inr v" using hs(3) claimed(6) by simp
      moreover have "w_sent w' = w_sent w @ [ob]" using fin obs(1) one claimed(2) by simp
      ultimately show ?thesis using fin claimed(4,5,8) by blast
    qed
  qed
qed

text \<open>
  C2. A job sends at most one request. It sends one only if the row was pending or failed when the
  job claimed it, the request goes to the row's target with the captured method, it carries the
  row's identifier and an idempotency key made of the identifier and the number of this attempt, and
  the target was admitted by the guard.
\<close>

theorem execute_forward_sends_at_most_one:
  assumes "world_ok w" and "execute_forward_job sv key clk (uuid_str i) w = (r, w')"
  shows "r = Inr () \<and> world_ok w' \<and> (w_sent w' = w_sent w \<or>
    (\<exists>g c ob v. forward_find_by_id i (w_db w) = Some g \<and> fw_status g \<in> {Pending, Failed} \<and>
       request_find_by_id (fw_request_id g) (w_db w) = Some c \<and>
       make_validate sv (fw_target_url g) = Inr v \<and>
       w_sent w' = w_sent w @ [ob] \<and> ob_url ob = fw_target_url g \<and> ob_method ob = rq_method c \<and>
       map_of (ob_headers ob) ''X-Hooktrace-Forward-Id'' = Some (uuid_str i) \<and>
       map_of (ob_headers ob) ''Idempotency-Key'' =
         Some (uuid_str i @ '':'' @ str_int (fw_attempt_count g + 1))))"
proof -
  obtain r1 where "execute_forward sv key clk i w = (r1, w')" "r = Inr ()"
    using assms(2) unfolding job_runs by (auto split: prod.splits)
  with execute_forward_sends [OF assms(1) this(1)] show ?thesis by simp
qed

text \<open>A job for a row that is not waiting changes nothing but a counter.\<close>

definition not_waiting :: "uuid \<Rightarrow> db \<Rightarrow> bool" where
  "not_waiting i d \<longleftrightarrow> (\<forall>f. forward_find_by_id i d = Some f \<longrightarrow> fw_status f \<notin> {Pending, Failed})"

lemma claim_nothing:
  assumes "db_ok d" and "not_waiting i d"
  shows "claim_for_attempt i t d = (None, d)"
proof -
  have none: "row_hit (claimable i) (set_claimed t) (forward_find_by_id i d) = None"
    using assms(2) by (auto simp: not_waiting_def row_hit_None_iff claimable_def)
  have "\<not> claimable i f" if "f \<in> set (db_forwards d)" for f
  proof
    assume f: "claimable i f"
    then have "forward_find_by_id i d = Some f"
      using lookup_row_unique [OF db_ok_forward_keys [OF assms(1)] that]
      by (simp add: claimable_def forward_find_by_id_eq)
    with f assms(2) show False by (auto simp: not_waiting_def claimable_def)
  qed
  then have "snd (claim_for_attempt i t d) = d"
    by (simp add: claim_for_attempt_def sql_update_none)
  moreover have "fst (claim_for_attempt i t d) = None"
    unfolding pg.claim_result [OF assms(1)] by (rule none)
  ultimately show ?thesis by (simp add: prod_eq_iff)
qed

lemma job_skips:
  assumes "world_ok w" and "not_waiting i (w_db w)"
  shows "execute_forward_job sv key clk (uuid_str i) w =
    (Inr (), w\<lparr>w_metrics := w_metrics w @ [Forward_attempt ''skipped'']\<rparr>)"
proof -
  have ok: "db_ok (w_db w)" "\<not> w_aborted w" using assms(1) by (simp_all add: world_ok_def)
  have "claim_phase sv clk i w = (Inr None, w\<lparr>w_metrics := w_metrics w @ [Forward_attempt ''skipped'']\<rparr>)"
    using claim_phase_None [OF ok(2), of i clk sv] claim_nothing [OF ok(1) assms(2), of "fc_claim clk"] by simp
  then show ?thesis by (simp add: job_runs execute_forward_ended)
qed

text \<open>
  C37. An attempt that fails while it builds its headers or checks its target, with anything but the guard's or
  the client's own errors (an unresolvable host, a URL that does not parse, a secret that cannot be decrypted), is
  swallowed by the job and strands its row: it stays in flight with the attempt counted, and nothing is sent,
  scheduled or counted. No job brings it back: every later one leaves the row as it is. The reclaiming of a
  redrive does, once more than five minutes have passed since the claim, and not before: it makes the row
  failed and due.
\<close>

theorem execute_forward_strands:
  assumes "world_ok w" and "forward_find_by_id i (w_db w) = Some g" and "fw_status g \<in> {Pending, Failed}"
    and "endpoint_find_by_id (fw_endpoint_id g) (w_db w) = Some e"
    and "request_find_by_id (fw_request_id g) (w_db w) = Some c"
    and "load_body sv c w = (Inr b, w)"
    and "st = \<lparr>cs_forward = set_claimed (fc_claim clk) g, cs_endpoint = e, cs_captured = c, cs_body = b\<rparr>"
    and "bindR (forward_headers_of sv key (fc_unix clk) st) (attempt_answer sv st) = Inl x"
  shows "\<exists>w'. execute_forward_job sv key clk (uuid_str i) w = (Inr (), w') \<and>
    forward_find_by_id i (w_db w') = Some (set_claimed (fc_claim clk) g) \<and>
    w_sent w' = w_sent w \<and> w_jobs w' = w_jobs w \<and> w_metrics w' = w_metrics w \<and>
    (\<forall>sv' key' clk'. \<exists>w''. execute_forward_job sv' key' clk' (uuid_str i) w' = (Inr (), w'') \<and>
       w_db w'' = w_db w' \<and> w_sent w'' = w_sent w') \<and>
    (\<forall>now. forward_find_by_id i (snd (reclaim_stuck_in_flight (fw_endpoint_id g) (5 * 60) now (w_db w'))) =
       Some (if fc_claim clk < now - seconds 300
             then (set_claimed (fc_claim clk) g)\<lparr>fw_status := Failed, fw_next_attempt_at := Some now\<rparr>
             else set_claimed (fc_claim clk) g))"
proof -
  let ?w1 = "w\<lparr>w_db := snd (claim_for_attempt i (fc_claim clk) (w_db w))\<rparr>"
  have ok: "db_ok (w_db w)" "\<not> w_aborted w" using assms(1) by (simp_all add: world_ok_def)
  have claim: "claim_phase sv clk i w = (Inr (Some st), ?w1)"
    unfolding assms(7) by (rule claim_phase_ready) fact+
  have http: "http_phase sv key (fc_unix clk) st ?w1 = (Inl x, ?w1)"
  proof (cases "forward_headers_of sv key (fc_unix clk) st")
    case (Inl y)
    then show ?thesis using assms(8) by (simp add: http_phase_headers_fail)
  next
    case (Inr hs)
    then have a: "attempt_answer sv st hs = Inl x" using assms(8) by simp
    then have "attempt_sent sv st hs = []"
      by (auto simp: attempt_sent_def split: sum.splits exn.splits)
    then show ?thesis using http_phase_eq [OF Inr, of ?w1] a by simp
  qed
  have run: "execute_forward sv key clk i w = (Inl x, ?w1)"
    unfolding execute_forward_claimed [OF claim] by (rule bindA_raise [where m = "http_phase sv key (fc_unix clk) st", OF http])
  have id: "fw_id g = i" by (rule forward_find_SomeD [OF assms(2)])
  have row: "forward_find_by_id i (w_db ?w1) = Some (set_claimed (fc_claim clk) g)"
    using assms(2,3) id by (simp add: find_after_statement claimable_def)
  have w1: "world_ok ?w1" "not_waiting i (w_db ?w1)"
    using ok row by (simp_all add: world_ok_def forward_ops_db_ok not_waiting_def set_claimed_def)
  have later: "\<exists>w''. execute_forward_job sv' key' clk' (uuid_str i) ?w1 = (Inr (), w'') \<and>
       w_db w'' = w_db ?w1 \<and> w_sent w'' = w_sent ?w1" for sv' key' clk'
    by (simp add: job_skips [OF w1])
  have reclaimed: "forward_find_by_id i (snd (reclaim_stuck_in_flight (fw_endpoint_id g) (5 * 60) now (w_db ?w1))) =
       Some (if fc_claim clk < now - seconds 300
             then (set_claimed (fc_claim clk) g)\<lparr>fw_status := Failed, fw_next_attempt_at := Some now\<rparr>
             else set_claimed (fc_claim clk) g)" for now
    unfolding find_after_statement row
    by (simp add: row_upd_def stuck_in_flight_def set_reclaimed_def set_claimed_def)
  show ?thesis
    by (rule exI [of _ ?w1]) (use run row later reclaimed in \<open>simp add: job_runs\<close>)
qed

section \<open>The signature of a forward\<close>

lemma str_chars_ascii: "is_ascii s \<Longrightarrow> str_chars s = map (\<lambda>c. [c]) s"
proof (induction s rule: str_chars.induct)
  case (2 c s)
  have none: "takeWhile is_cont s = []" "dropWhile is_cont s = s"
    using "2.prems" by (cases s; simp add: is_cont_def cont_byte_def)+
  then show ?case using "2.IH" "2.prems" by simp
qed simp

lemma white_space_single: "[c] \<in> set white_space \<Longrightarrow> byte c < 33"
proof -
  have "list_all (\<lambda>w. length w \<noteq> 1 \<or> byte (hd w) < 33) white_space" by code_simp
  then show "[c] \<in> set white_space \<Longrightarrow> byte c < 33" by (auto simp: list_all_iff)
qed

lemma str_strip_plain:
  assumes "\<And>c. c \<in> set s \<Longrightarrow> 33 \<le> byte c \<and> byte c < 128"
  shows "str_strip s = s"
proof -
  have ws: "[c] \<notin> set white_space" if "c \<in> set s" for c
    using white_space_single [of c] assms [OF that] by auto
  have asc: "is_ascii s" using assms by (simp add: is_ascii_def list_all_iff)
  have drop: "dropWhile (\<lambda>c. c \<in> set white_space) (map (\<lambda>c. [c]) t) = map (\<lambda>c. [c]) t" if "set t \<subseteq> set s" for t
    using that ws by (cases t) auto
  show ?thesis
    unfolding str_strip_def Let_def str_chars_ascii [OF asc]
    using drop [of s] drop [of "rev s"] by (simp add: rev_map)
qed

lemma str_int_plain: "c \<in> set (str_int i) \<Longrightarrow> 33 \<le> byte c \<and> byte c < 128 \<and> c \<noteq> CHR '','' \<and> c \<noteq> CHR ''=''"
  using str_int_chars [of c i] by (auto simp: byte_def)

lemma hexdigest_plain: "c \<in> set (hexdigest b) \<Longrightarrow> 33 \<le> byte c \<and> byte c < 128 \<and> c \<noteq> CHR '','' \<and> c \<noteq> CHR ''=''"
proof -
  assume "c \<in> set (hexdigest b)"
  then obtain n where n: "n < 16" "c = hex_digit n" using set_hexdigest by blast
  then have "byte c = (if n < 10 then 48 + n else 87 + n)" by (simp add: byte_hex_digit)
  then have "48 \<le> byte c \<and> byte c < 128 \<and> byte c \<noteq> 44 \<and> byte c \<noteq> 61" using n(1) by (auto split: if_splits)
  then show ?thesis by (auto simp: byte_def)
qed

lemma stripe_parse_forward:
  "stripe_parse (''t='' @ str_int ts @ '',v1='' @ hexdigest d) = (Some (str_int ts), [hexdigest d])"
proof -
  have t: "CHR '','' \<notin> set (''t='' @ str_int ts)" using str_int_plain by auto
  have v: "CHR '','' \<notin> set (''v1='' @ hexdigest d)" using hexdigest_plain by auto
  have chunks: "split_on (CHR '','') (''t='' @ str_int ts @ '',v1='' @ hexdigest d) =
      [''t='' @ str_int ts, ''v1='' @ hexdigest d]"
    using split_on_append [OF t, of "''v1='' @ hexdigest d"] split_on_no_sep [OF v] by simp
  have "CHR ''='' \<notin> set ''t''" "CHR ''='' \<notin> set ''v1''" by simp_all
  from before_append [OF this(1), of "str_int ts"] after_append [OF this(1), of "str_int ts"]
    before_append [OF this(2), of "hexdigest d"] after_append [OF this(2), of "hexdigest d"]
  have parts: "str_before (CHR ''='') (''t='' @ str_int ts) = ''t''"
    "str_after (CHR ''='') (''t='' @ str_int ts) = str_int ts"
    "str_before (CHR ''='') (''v1='' @ hexdigest d) = ''v1''"
    "str_after (CHR ''='') (''v1='' @ hexdigest d) = hexdigest d" by simp_all
  have strips: "str_strip (str_int ts) = str_int ts" "str_strip (hexdigest d) = hexdigest d"
    using str_int_plain hexdigest_plain by (auto intro!: str_strip_plain)
  have names: "str_strip ''t'' = ''t''" "str_strip ''v1'' = ''v1''" by code_simp+
  show ?thesis
    unfolding stripe_parse_def chunks
    by (simp add: stripe_chunk_def Let_def parts [simplified] strips names)
qed

text \<open>
  The signature of a forward verifies: when the endpoint's forward secret was encrypted under
  the configured key with a twelve byte nonce (and AES-GCM decrypts what it encrypted), the headers
  can be built, and the value of \<open>X-Hooktrace-Signature\<close> checks as valid, with that secret and the
  forwarded body, in the scheme the program itself uses for Stripe, if the body is UTF-8.
\<close>

lemma forward_signature_verifies:
  assumes "aead_correct sv" and "length nonce = NONCE_SIZE" and "utf8_valid secret"
    and "encrypt_secret sv nonce key secret = Inr blob" and "ep_forward_secret (cs_endpoint st) = Some blob"
    and "utf8_valid (cs_body st)"
  shows "\<exists>hs v. forward_headers_of sv key ts st = Inr hs \<and> map_of hs ''X-Hooktrace-Signature'' = Some v \<and>
    stripe_validate sv (cs_body st) [(''stripe-signature'', v)] secret = Inr VALID"
proof -
  have dec: "decrypt_secret sv key blob = Inr secret" by (rule decrypt_encrypt) fact+
  have "blob \<noteq> []" using dec by (auto simp: decrypt_secret_def bindR_Inr_iff NONCE_SIZE_def)
  then have some: "\<not> falsy (ep_forward_secret (cs_endpoint st))" using assms(5) by simp
  then obtain hs where hs: "forward_headers_of sv key ts st = Inr hs"
    using dec assms(5) by (simp add: forward_headers_of_def Let_def)
  let ?sig = "sign_forward sv secret ts (cs_body st)"
  let ?v = "''t='' @ str_int ts @ '',v1='' @ ?sig"
  have v: "map_of hs ''X-Hooktrace-Signature'' = Some ?v"
    using forward_headers_ofD(3) [OF hs some] dec assms(5) by auto
  have parse: "stripe_parse ?v = (Some (str_int ts), [?sig])"
    unfolding sign_forward_def by (rule stripe_parse_forward)
  have header: "header_value [(''stripe-signature'', ?v)] ''stripe-signature'' ''Stripe-Signature'' = Some ?v"
    by (simp add: header_value_def dict_get_or_def)
  have offered: "stripe_offered (cs_body st) [(''stripe-signature'', ?v)] = Some [?sig]"
    unfolding stripe_offered_def header by (simp only: option.map parse snd_conv)
  have expected: "stripe_expected sv secret (cs_body st) [(''stripe-signature'', ?v)] = Some ?sig"
    unfolding stripe_expected_def header using assms(6)
    by (simp only: option.case parse fst_conv) (simp add: hex_hmac_def sign_forward_def)
  have "stripe_validate sv (cs_body st) [(''stripe-signature'', ?v)] secret = Inr VALID"
    by (rule stripe.valid_complete [OF offered _ expected]) (simp_all add: sign_forward_def)
  with hs v show ?thesis by blast
qed

section \<open>A concrete delivery\<close>

definition delivery_request :: captured_request where
  "delivery_request = \<lparr>rq_id = 2, rq_endpoint_id = 1, rq_method = ''POST'', rq_path = ''/x'',
     rq_query_string = None, rq_headers = [(''cookie'', ''a''), (''accept'', ''b'')],
     rq_body_preview = Some ''hello'', rq_body_size = 5, rq_blob_key = None, rq_source_ip = ''1.2.3.4'',
     rq_received_at = 10, rq_signature_status = Some ''no_provider'', rq_detected_integration = None,
     rq_detected_event_type = None\<rparr>"

definition delivery_forward :: forward where
  "delivery_forward = forward_create 3 2 1 ''https://example.com/hook'' 11"

definition delivery_world :: world where
  "delivery_world = new_world (demo_db\<lparr>db_requests := [delivery_request], db_forwards := [delivery_forward]\<rparr>)"

definition delivery_clock :: forward_clock where
  "delivery_clock = \<lparr>fc_claim = 20, fc_missing = 21, fc_unix = 22, fc_next = 23, fc_record = 24\<rparr>"

definition delivery_state :: claimed_state where
  "delivery_state = \<lparr>cs_forward = set_claimed (fc_claim delivery_clock) delivery_forward,
     cs_endpoint = demo_endpoint, cs_captured = delivery_request, cs_body = ''hello''\<rparr>"

lemma delivery_world_ready:
  "world_ok delivery_world" "forward_find_by_id 3 (w_db delivery_world) = Some delivery_forward"
  "fw_status delivery_forward \<in> {Pending, Failed}" "0 \<le> fw_attempt_count delivery_forward"
  "endpoint_find_by_id (fw_endpoint_id delivery_forward) (w_db delivery_world) = Some demo_endpoint"
  "request_find_by_id (fw_request_id delivery_forward) (w_db delivery_world) = Some delivery_request"
  "load_body sv delivery_request delivery_world = (Inr ''hello'', delivery_world)"
  by (simp_all add: world_ok_def delivery_world_def demo_db_def empty_db_def db_ok_defs
      delivery_request_def delivery_forward_def forward_create_def demo_endpoint_def key_ok_def
      flag_reason_check_def integration_check_def new_world_def forward_find_by_id_eq
      endpoint_find_by_id_eq request_find_eq load_body_def)

lemma delivery_headers:
  "forward_headers_of sv key ts delivery_state = Inr (unsigned_headers delivery_state)"
  by (simp add: forward_headers_of_def delivery_state_def demo_endpoint_def)

lemma delivery_target:
  "make_validate demo_services (fw_target_url (cs_forward delivery_state)) =
     Inr \<lparr>vt_url = ''https://example.com/hook'', vt_host = ''example.com'', vt_port = 443,
       vt_ip = ''93.184.216.34''\<rparr>"
  by code_simp

lemma delivery_answer:
  "attempt_answer demo_services delivery_state hs = Inr (Answered 200)"
  by (simp add: delivery_target) (simp add: demo_services_def)

theorem execute_forward_delivers_witness:
  "\<exists>w'. execute_forward_job demo_services [] delivery_clock (uuid_str 3) delivery_world = (Inr (), w') \<and>
     forward_find_by_id 3 (w_db w') = Some (attempted_row delivery_clock (Answered 200) delivery_forward) \<and>
     fw_status (attempted_row delivery_clock (Answered 200) delivery_forward) = Succeeded \<and>
     w_jobs w' = [] \<and> length (w_sent w') = 1"
proof -
  have v: "attempt_verdict (fw_attempt_count delivery_forward + 1) (Answered 200) = (NSucceeded, 0)"
    by simp
  have start: "w_jobs delivery_world = []" "w_sent delivery_world = []"
    by (simp_all add: delivery_world_def new_world_def)
  have sent: "length (attempt_sent demo_services delivery_state hs) = 1" for hs
    by (simp add: attempt_sent_def delivery_target)
  show ?thesis
    using execute_forward_delivers [OF delivery_world_ready delivery_state_def delivery_headers
        delivery_answer _ v, of "[]"] start sent
    by (auto simp: attempted_row_def)
qed

theorem execute_forward_sends_at_most_one_witness:
  "\<exists>r w'. execute_forward_job demo_services [] delivery_clock (uuid_str 3) delivery_world = (r, w') \<and>
     r = Inr () \<and> world_ok w'"
proof -
  obtain r w' where run: "execute_forward_job demo_services [] delivery_clock (uuid_str 3) delivery_world = (r, w')"
    by fastforce
  from execute_forward_sends_at_most_one [OF delivery_world_ready(1) run] run show ?thesis by blast
qed

theorem execute_forward_strands_witness:
  "\<exists>w'. execute_forward_job (demo_services\<lparr>sv_resolve := \<lambda>h. Inl OSError\<rparr>) [] delivery_clock (uuid_str 3)
       delivery_world = (Inr (), w') \<and>
     forward_find_by_id 3 (w_db w') = Some (set_claimed 20 delivery_forward) \<and> w_jobs w' = [] \<and>
     map_option fw_status (forward_find_by_id 3 (snd (reclaim_stuck_in_flight 1 (5 * 60) (seconds 400) (w_db w')))) = Some Failed"
proof -
  let ?sv = "demo_services\<lparr>sv_resolve := \<lambda>h. Inl OSError\<rparr>"
  have "make_validate ?sv (fw_target_url (cs_forward delivery_state)) = Inl OSError" by code_simp
  then have "bindR (forward_headers_of ?sv [] (fc_unix delivery_clock) delivery_state)
      (attempt_answer ?sv delivery_state) = Inl OSError"
    by (simp add: delivery_headers)
  note stranded = execute_forward_strands [OF delivery_world_ready(1-3,5-7) delivery_state_def this]
  have facts: "fw_endpoint_id delivery_forward = 1" "fc_claim delivery_clock = 20" "w_jobs delivery_world = []"
    "20 < seconds 400 - seconds 300"
    by (simp_all add: delivery_forward_def forward_create_def delivery_clock_def delivery_world_def new_world_def seconds_def)
  show ?thesis using stranded unfolding facts by (auto simp: facts(4))
qed

definition signed_state :: claimed_state where
  "signed_state = delivery_state\<lparr>cs_endpoint := demo_endpoint\<lparr>ep_forward_secret :=
     Some (replicate 12 (CHR ''n'') @ replicate 32 (CHR ''k'') @ ''whsec'')\<rparr>\<rparr>"

lemma demo_aead: "aead_correct demo_services"
  by (simp add: aead_correct_def demo_services_def)

lemma forward_signature_verifies_witness:
  "\<exists>hs v. forward_headers_of demo_services (replicate 32 (CHR ''k'')) 22 signed_state = Inr hs \<and>
     map_of hs ''X-Hooktrace-Signature'' = Some v \<and>
     stripe_validate demo_services (cs_body signed_state) [(''stripe-signature'', v)] ''whsec'' = Inr VALID"
proof (rule forward_signature_verifies [OF demo_aead, of "replicate 12 (CHR ''n'')"])
  show "encrypt_secret demo_services (replicate 12 (CHR ''n'')) (replicate 32 (CHR ''k'')) ''whsec'' =
      Inr (replicate 12 (CHR ''n'') @ replicate 32 (CHR ''k'') @ ''whsec'')"
    by (simp add: encrypt_secret_def demo_services_def)
  show "utf8_valid ''whsec''" "utf8_valid (cs_body signed_state)"
    by (simp_all add: utf8_valid_ascii signed_state_def delivery_state_def byte_def)
qed (simp_all add: NONCE_SIZE_def signed_state_def)

end
