(* ===== verification/Endpoints.thy ===== *)
theory Endpoints
  imports Capture
begin

text \<open>
  Creating, configuring and fetching an endpoint (\<open>use_cases/create_endpoint.py\<close>,
  \<open>update_endpoint_config.py\<close>, \<open>get_endpoint.py\<close>), with the checks on the names users choose
  (\<open>slug_validator.py\<close>, \<open>slug_denylist.py\<close>) and the request schema of the configuration route.
\<close>

section \<open>Slugs\<close>

definition RESERVED_SLUGS :: "string list" where
  "RESERVED_SLUGS =
     [''api'', ''h'', ''health'', ''healthz'', ''stream'', ''static'', ''admin'', ''app'', ''hook'',
      ''www'', ''assets'', ''docs'', ''stripe'', ''github'', ''slack'', ''shopify'', ''twilio'',
      ''zapier'', ''discord'']"

definition slug_alnum :: "char \<Rightarrow> bool" where
  "slug_alnum c \<longleftrightarrow> (97 \<le> byte c \<and> byte c \<le> 122) \<or> (48 \<le> byte c \<and> byte c \<le> 57)"

definition slug_char :: "char \<Rightarrow> bool" where
  "slug_char c \<longleftrightarrow> slug_alnum c \<or> c = CHR ''-''"

text \<open>
  \<open>re.match\<close> with \<open>^[a-z0-9][a-z0-9-]{1,30}[a-z0-9]$\<close>: \<open>$\<close> also matches before a newline
  that ends the text.
\<close>

definition slug_shape :: "string \<Rightarrow> bool" where
  "slug_shape s \<longleftrightarrow>
     3 \<le> length s \<and> length s \<le> 32 \<and> slug_alnum (hd s) \<and> slug_alnum (last s) \<and>
     list_all slug_char (butlast (tl s))"

definition SLUG_RE_match :: "string \<Rightarrow> bool" where
  "SLUG_RE_match s \<longleftrightarrow>
     slug_shape s \<or> (s \<noteq> [] \<and> last s = CHR 0x0A \<and> slug_shape (butlast s))"

definition validate_slug :: "string \<Rightarrow> unit res" where
  "validate_slug slug =
     (if slug \<in> set RESERVED_SLUGS then Inl ReservedSlugError
      else if \<not> SLUG_RE_match slug then Inl InvalidSlugError
      else Inr ())"

definition DENYLISTED_SUBSTRINGS :: "string list" where
  "DENYLISTED_SUBSTRINGS =
     [''stripe'', ''paypal'', ''square'', ''klarna'', ''google'', ''amazon'', ''microsoft'', ''apple'',
      ''facebook'', ''meta'', ''twitter'', ''tiktok'', ''openai'', ''anthropic'', ''github'',
      ''discord'', ''slack'', ''shopify'', ''twilio'', ''mailgun'', ''zapier'', ''n8n'', ''admin'',
      ''root'', ''system'', ''support'', ''verify'', ''login'', ''signin'', ''secure'',
      ''account-update'', ''password-reset'']"

definition is_denylisted :: "string \<Rightarrow> bool" where
  "is_denylisted slug \<longleftrightarrow> (\<exists>needle \<in> set DENYLISTED_SUBSTRINGS. str_in needle (str_lower slug))"

section \<open>The use cases\<close>

text \<open>\<open>generated\<close> is the result of \<open>secrets.token_urlsafe(16)\<close>.\<close>

definition create_endpoint ::
  "string \<Rightarrow> uuid \<Rightarrow> time \<Rightarrow> int \<Rightarrow> string option \<Rightarrow> int \<Rightarrow> string \<Rightarrow> dict option \<Rightarrow> int \<Rightarrow> endpoint act" where
  "create_endpoint generated new_id now ttl_days slug status_code body headers delay_ms =
     bindA (lift_res (case slug of
         None \<Rightarrow> Inr generated
       | Some s \<Rightarrow> bindR (validate_slug s) (\<lambda>_.
           if is_denylisted s then Inl SlugDenylistedError else Inr s))) (\<lambda>token.
     bindA (lift_res (endpoint_create new_id now token ttl_days status_code body headers delay_ms))
       (\<lambda>endpoint.
     bindA (run_db_res (endpoint_save endpoint)) (\<lambda>_.
     bindA (emit Endpoint_created) (\<lambda>_. ret endpoint))))"

definition get_endpoint :: "string \<Rightarrow> endpoint act" where
  "get_endpoint token =
     bindA (read_db (find_by_token token)) (\<lambda>found.
     case found of None \<Rightarrow> fail EndpointNotFoundError | Some endpoint \<Rightarrow> ret endpoint)"

text \<open>The settings a patch carries; \<open>nonce1\<close> and \<open>nonce2\<close> are the readings of \<open>os.urandom\<close>.\<close>

record config_patch =
  cp_signature_provider :: "string option"
  cp_signature_secret :: "string option"
  cp_forward_url :: "string option"
  cp_forward_headers :: "dict option"
  cp_forward_secret :: "string option"

definition set_signature :: "services \<Rightarrow> string \<Rightarrow> string \<Rightarrow> config_patch \<Rightarrow> endpoint \<Rightarrow> endpoint res" where
  "set_signature sv key nonce p e =
     (case cp_signature_provider p of
        None \<Rightarrow> Inr e
      | Some provider \<Rightarrow>
          let e' = e\<lparr>ep_signature_provider := Some provider\<rparr> in
          case cp_signature_secret p of
            None \<Rightarrow> Inr e'
          | Some secret \<Rightarrow> bindR (encrypt_secret sv nonce key secret) (\<lambda>blob.
              Inr (e'\<lparr>ep_signature_secret := Some blob\<rparr>)))"

definition set_forwarding :: "services \<Rightarrow> string \<Rightarrow> string \<Rightarrow> config_patch \<Rightarrow> endpoint \<Rightarrow> endpoint res" where
  "set_forwarding sv key nonce p e =
     (case cp_forward_url p of
        None \<Rightarrow> Inr e
      | Some url \<Rightarrow>
          let e' = e\<lparr>ep_forward_url := Some url, ep_forward_headers := cp_forward_headers p\<rparr> in
          case cp_forward_secret p of
            None \<Rightarrow> Inr e'
          | Some secret \<Rightarrow> bindR (encrypt_secret sv nonce key secret) (\<lambda>blob.
              Inr (e'\<lparr>ep_forward_secret := Some blob\<rparr>)))"

definition update_endpoint_config ::
  "services \<Rightarrow> string \<Rightarrow> string \<Rightarrow> string \<Rightarrow> string \<Rightarrow> config_patch \<Rightarrow> unit act" where
  "update_endpoint_config sv key nonce1 nonce2 token p =
     bindA (get_endpoint token) (\<lambda>endpoint.
     bindA (lift_res (bindR (set_signature sv key nonce1 p endpoint) (set_forwarding sv key nonce2 p)))
       (\<lambda>e. run_db_res (endpoint_update e)))"

text \<open>\<open>EndpointConfigPatch\<close>: what the schema of the route admits.\<close>

definition patch_valid :: "config_patch \<Rightarrow> bool" where
  "patch_valid p \<longleftrightarrow>
     (case cp_signature_provider p of
        None \<Rightarrow> cp_signature_secret p = None
      | Some provider \<Rightarrow> provider \<in> set INTEGRATION_NAMES \<and> \<not> falsy (cp_signature_secret p)) \<and>
     (case cp_forward_url p of
        None \<Rightarrow> cp_forward_headers p = None \<and> cp_forward_secret p = None
      | Some url \<Rightarrow>
          (case cp_forward_secret p of None \<Rightarrow> True
           | Some s \<Rightarrow> 8 \<le> str_len s \<and> str_len s \<le> 128))"

section \<open>Creating\<close>

text \<open>A slug the service accepts.\<close>

definition slug_acceptable :: "string \<Rightarrow> bool" where
  "slug_acceptable s \<longleftrightarrow> SLUG_RE_match s \<and> s \<notin> set RESERVED_SLUGS \<and> \<not> is_denylisted s"

lemma validate_slug_iff: "validate_slug s = Inr () \<longleftrightarrow> SLUG_RE_match s \<and> s \<notin> set RESERVED_SLUGS"
  unfolding validate_slug_def by (simp split: if_split)

lemma validate_slug_Inl: "validate_slug s = Inl e \<Longrightarrow> e = ReservedSlugError \<or> e = InvalidSlugError"
  unfolding validate_slug_def by (simp split: if_splits)

definition slug_token :: "string \<Rightarrow> string option \<Rightarrow> string" where
  "slug_token generated slug = (case slug of None \<Rightarrow> generated | Some s \<Rightarrow> s)"

lemma slug_check_iff:
  "(case slug of None \<Rightarrow> Inr generated
     | Some s \<Rightarrow> bindR (validate_slug s) (\<lambda>_. if is_denylisted s then Inl SlugDenylistedError else Inr s)) = Inr t
   \<longleftrightarrow> (\<forall>s. slug = Some s \<longrightarrow> slug_acceptable s) \<and> t = slug_token generated slug"
  by (auto simp: bindR_Inr_iff slug_acceptable_def slug_token_def validate_slug_iff
      split: option.split if_splits)

lemma endpoint_save_iff:
  "(\<exists>d'. endpoint_save e d = (Inr u, d')) \<longleftrightarrow>
     list_all storable (ep_token e # config_texts e) \<and> ep_id e \<notin> endpoint_ids d \<and> ep_token e \<notin> ep_token ` set (db_endpoints d) \<and>
     flag_reason_check (ep_flag_reason e)"
  unfolding list_all_storable by (auto simp: endpoint_save_def Let_def split: if_splits)

lemma endpoint_create_flag:
  "endpoint_create i now tok ttl code body hs d = Inr e \<Longrightarrow> ep_flag_reason e = None"
  by (auto simp: endpoint_create_def bindR_Inr_iff Let_def)

text \<open>The texts of a new endpoint.\<close>

lemma endpoint_create_texts:
  assumes "endpoint_create i now tok ttl code body hs delay = Inr e"
  shows "ep_token e # config_texts e =
    [tok, body] @ (case hs of None \<Rightarrow> [] | Some h \<Rightarrow> map fst h @ map snd h)"
  using assms by (auto simp: endpoint_create_def bindR_Inr_iff Let_def config_texts_def split: option.splits if_splits)

lemma create_endpointD:
  assumes "with_session (create_endpoint gen i now ttl slug code body hs delay) w = (Inr e, w')"
  shows "\<forall>s. slug = Some s \<longrightarrow> slug_acceptable s"
    "endpoint_create i now (slug_token gen slug) ttl code body hs delay = Inr e"
    "endpoint_save e (w_db w) = (Inr (), w_db w')"
    "w' = w\<lparr>w_db := (w_db w)\<lparr>db_endpoints := db_endpoints (w_db w) @ [e]\<rparr>,
        w_metrics := w_metrics w @ [Endpoint_created]\<rparr>"
proof -
  obtain t where t: "\<forall>s. slug = Some s \<longrightarrow> slug_acceptable s" "t = slug_token gen slug"
    and e: "endpoint_create i now t ttl code body hs delay = Inr e"
    and s: "\<exists>w1 u. run_db_res (endpoint_save e) w = (Inr u, w1) \<and>
      w' = w1\<lparr>w_metrics := w_metrics w1 @ [Endpoint_created]\<rparr>"
    using assms by (auto simp: create_endpoint_def bindA_Inr_iff slug_check_iff)
  show "\<forall>s. slug = Some s \<longrightarrow> slug_acceptable s" by (rule t(1))
  show "endpoint_create i now (slug_token gen slug) ttl code body hs delay = Inr e"
    using e t(2) by simp
  from s obtain d where d: "endpoint_save e (w_db w) = (Inr (), d)"
    and w': "w' = w\<lparr>w_db := d, w_metrics := w_metrics w @ [Endpoint_created]\<rparr>"
    by (auto simp: run_db_res_Inr)
  show "endpoint_save e (w_db w) = (Inr (), w_db w')" using d w' by simp
  show "w' = w\<lparr>w_db := (w_db w)\<lparr>db_endpoints := db_endpoints (w_db w) @ [e]\<rparr>,
        w_metrics := w_metrics w @ [Endpoint_created]\<rparr>"
    using w' endpoint_save_eq [OF d] by simp
qed

lemma find_by_token_append:
  assumes "ep_token e \<notin> ep_token ` set (db_endpoints d)"
  shows "find_by_token t (d\<lparr>db_endpoints := db_endpoints d @ [e]\<rparr>) =
       (if t = ep_token e then Some e else find_by_token t d)"
proof -
  have "lookup_row ep_token (ep_token e) (db_endpoints d) = None"
    using assms by (simp add: lookup_row_None_image)
  then show ?thesis
    by (cases "lookup_row ep_token t (db_endpoints d)") (auto simp: find_by_token_eq lookup_row_append)
qed

lemma create_endpoint_ok:
  assumes "\<not> w_aborted w" and "\<forall>s. slug = Some s \<longrightarrow> slug_acceptable s"
    and "endpoint_create i now (slug_token gen slug) ttl code body hs delay = Inr e"
    and "i \<notin> endpoint_ids (w_db w)"
    and "slug_token gen slug \<notin> ep_token ` set (db_endpoints (w_db w))"
    and "list_all storable ([slug_token gen slug, body] @ (case hs of None \<Rightarrow> [] | Some h \<Rightarrow> map fst h @ map snd h))"
  shows "\<exists>w'. with_session (create_endpoint gen i now ttl slug code body hs delay) w = (Inr e, w')"
proof -
  have "\<exists>d'. endpoint_save e (w_db w) = (Inr (), d')"
    unfolding endpoint_save_iff endpoint_create_texts [OF assms(3)]
    using assms(4,5,6) endpoint_createD(2,3) [OF assms(3)] endpoint_create_flag [OF assms(3)]
    by (simp add: flag_reason_check_def)
  then obtain d' where save: "endpoint_save e (w_db w) = (Inr (), d')" by blast
  have tok: "(case slug of None \<Rightarrow> Inr gen
     | Some s \<Rightarrow> bindR (validate_slug s) (\<lambda>_. if is_denylisted s then Inl SlugDenylistedError else Inr s)) =
     Inr (slug_token gen slug)"
    using assms(2) by (simp add: slug_check_iff)
  show ?thesis
    using assms(1) save
    by (simp add: create_endpoint_def tok assms(3) bindA_def run_db_res_def)
qed

text \<open>
  C38. Creating an endpoint: with a fresh identifier the call succeeds exactly when the slug, if there
  is one, has the shape of a slug, is not reserved and contains no denylisted word in any case, the
  time to live is positive, the response configuration is within its bounds (status 100 to 599, delay
  up to 30 seconds, body up to 64 KiB, no header the server controls), no endpoint has the token, and token,
  body and headers are UTF-8 without a NUL character, which PostgreSQL cannot store. Nothing checks the last
  of these before the insert, so such a call raises a database error and leaves nothing.
  The new endpoint is then found under that token, every other token leads where it led, and the
  stored endpoint is within those bounds and expires after its creation.
\<close>

theorem create_endpoint_outcome:
  assumes "db_ok (w_db w)" and "\<not> w_aborted w" and "i \<notin> endpoint_ids (w_db w)"
    and "run = with_session (create_endpoint gen i now ttl slug code body hs delay) w"
  shows "((\<exists>e w'. run = (Inr e, w')) \<longleftrightarrow>
      (\<forall>s. slug = Some s \<longrightarrow> SLUG_RE_match s \<and> s \<notin> set RESERVED_SLUGS \<and> \<not> is_denylisted s) \<and>
      0 < ttl \<and> response_ok code body (case hs of None \<Rightarrow> [] | Some h \<Rightarrow> h) delay \<and>
      list_all storable ([slug_token gen slug, body] @ (case hs of None \<Rightarrow> [] | Some h \<Rightarrow> map fst h @ map snd h)) \<and>
      slug_token gen slug \<notin> ep_token ` set (db_endpoints (w_db w))) \<and>
    (\<forall>e w'. run = (Inr e, w') \<longrightarrow>
      db_ok (w_db w') \<and> endpoint_ok e \<and> ep_id e = i \<and> ep_expires_at e = now + days ttl \<and>
      (\<forall>t. find_by_token t (w_db w') =
         (if t = slug_token gen slug then Some e else find_by_token t (w_db w)))) \<and>
    (\<forall>x w'. run = (Inl x, w') \<longrightarrow> w_db w' = w_db w)"
proof -
  let ?run = "with_session (create_endpoint gen i now ttl slug code body hs delay) w"
  let ?cond = "(\<forall>s. slug = Some s \<longrightarrow> SLUG_RE_match s \<and> s \<notin> set RESERVED_SLUGS \<and> \<not> is_denylisted s) \<and>
      0 < ttl \<and> response_ok code body (case hs of None \<Rightarrow> [] | Some h \<Rightarrow> h) delay \<and>
      list_all storable ([slug_token gen slug, body] @ (case hs of None \<Rightarrow> [] | Some h \<Rightarrow> map fst h @ map snd h)) \<and>
      slug_token gen slug \<notin> ep_token ` set (db_endpoints (w_db w))"
  have ok: ?cond if "?run = (Inr e, w')" for e w'
  proof -
    note D = create_endpointD [OF that]
    have "list_all storable (ep_token e # config_texts e)" "slug_token gen slug \<notin> ep_token ` set (db_endpoints (w_db w))"
      using D(3) endpoint_createD(3) [OF D(2)] endpoint_save_iff [of e "w_db w" "()"] by auto
    note this [unfolded endpoint_create_texts [OF D(2)]]
    moreover have "0 < ttl \<and> response_ok code body (case hs of None \<Rightarrow> [] | Some h \<Rightarrow> h) delay"
      using endpoint_create_Inr_iff [of i now "slug_token gen slug" ttl code body hs delay] D(2) by blast
    ultimately show ?thesis using D(1) by (simp add: slug_acceptable_def)
  qed
  have converse: "\<exists>e w'. ?run = (Inr e, w')" if c: ?cond
  proof -
    obtain e where "endpoint_create i now (slug_token gen slug) ttl code body hs delay = Inr e"
      using c endpoint_create_Inr_iff [of i now "slug_token gen slug" ttl code body hs delay] by blast
    then show ?thesis
      using create_endpoint_ok [OF assms(2) _ _ assms(3)] c by (simp add: slug_acceptable_def) blast
  qed
  have effect: "db_ok (w_db w') \<and> endpoint_ok e \<and> ep_id e = i \<and> ep_expires_at e = now + days ttl \<and>
      (\<forall>t. find_by_token t (w_db w') =
         (if t = slug_token gen slug then Some e else find_by_token t (w_db w)))"
    if r: "?run = (Inr e, w')" for e w'
  proof -
    note D = create_endpointD [OF r]
    have new: "ep_token e \<notin> ep_token ` set (db_endpoints (w_db w))"
      using ok [OF r] endpoint_createD(3) [OF D(2)] by simp
    show ?thesis
      using endpoint_save_ok [OF assms(1) D(3)] endpoint_createD [OF D(2)] D(4)
        find_by_token_append [OF new] by simp
  qed
  show ?thesis
    unfolding assms(4) using ok converse effect with_session_Inl by blast
qed

text \<open>A slug that ends in a newline passes the format check.\<close>

lemma slug_trailing_newline: "slug_acceptable (''my-hook'' @ [CHR 0x0A])"
  by code_simp

lemma demo_slug: "slug_acceptable ''my-hook''"
  by code_simp

theorem create_endpoint_outcome_witness:
  "\<exists>e w'. with_session (create_endpoint ''gen'' 9 0 30 (Some ''my-hook'') 200 [] None 0) (new_world demo_db) =
      (Inr e, w') \<and> find_by_token ''my-hook'' (w_db w') = Some e \<and>
   (\<nexists>e w'. with_session (create_endpoint ''gen'' 9 0 30 (Some ''my-hook'') 200 [CHR 0x00] None 0) (new_world demo_db) =
      (Inr e, w'))"
proof -
  let ?run = "with_session (create_endpoint ''gen'' 9 0 30 (Some ''my-hook'') 200 [] None 0) (new_world demo_db)"
  let ?nul = "with_session (create_endpoint ''gen'' 9 0 30 (Some ''my-hook'') 200 [CHR 0x00] None 0) (new_world demo_db)"
  have prem: "db_ok (w_db (new_world demo_db))" "\<not> w_aborted (new_world demo_db)"
    "9 \<notin> endpoint_ids (w_db (new_world demo_db))"
    using demo_db_ok by (simp_all add: new_world_def) (simp add: demo_db_def demo_endpoint_def)
  have texts: "list_all storable [''my-hook'', []]" "\<not> storable [CHR 0x00]" by code_simp+
  note outcome = create_endpoint_outcome [OF prem,
      of ?run "''gen''" 0 30 "Some ''my-hook''" 200 "[]" None 0, OF refl]
  have "\<exists>e w'. ?run = (Inr e, w')"
    unfolding outcome [THEN conjunct1] using demo_slug texts(1)
    by (simp add: slug_acceptable_def response_ok_def slug_token_def demo_db_def demo_endpoint_def new_world_def)
  then obtain e w' where run: "?run = (Inr e, w')" by blast
  from outcome [THEN conjunct2] run have "find_by_token ''my-hook'' (w_db w') = Some e"
    by (simp add: slug_token_def)
  moreover have "\<nexists>e w'. ?nul = (Inr e, w')"
    using create_endpoint_outcome [OF prem, of ?nul "''gen''" 0 30 "Some ''my-hook''" 200 "[CHR 0x00]" None 0, OF refl,
      THEN conjunct1] texts(2) by simp
  ultimately show ?thesis using run by blast
qed

section \<open>Configuring\<close>

lemma set_signature_SomeE:
  assumes "length key = 32" and "cp_signature_provider p = Some provider" and "cp_signature_secret p = Some secret"
  shows "set_signature sv key nonce p e = Inr (e\<lparr>ep_signature_provider := Some provider,
    ep_signature_secret := Some (nonce @ sv_encrypt sv key nonce secret)\<rparr>)"
  using assms by (simp add: set_signature_def encrypt_secret_def)

text \<open>The texts of a patch that go into the row as they are.\<close>

definition patch_texts :: "config_patch \<Rightarrow> string list" where
  "patch_texts p =
     (case cp_signature_provider p of None \<Rightarrow> [] | Some s \<Rightarrow> [s]) @
     (case cp_forward_url p of None \<Rightarrow> [] | Some u \<Rightarrow> [u]) @
     (case cp_forward_headers p of None \<Rightarrow> [] | Some hs \<Rightarrow> map fst hs @ map snd hs)"

lemma set_forwarding_total:
  assumes "length key = 32"
  obtains e' where "set_forwarding sv key nonce p e = Inr e'" "ep_id e' = ep_id e" "ep_token e' = ep_token e"
    "ep_flag_reason e' = ep_flag_reason e" "ep_signature_provider e' = ep_signature_provider e"
    "ep_signature_secret e' = ep_signature_secret e" "set (config_texts e') \<subseteq> set (config_texts e) \<union> set (patch_texts p)"
proof -
  have "\<exists>e'. set_forwarding sv key nonce p e = Inr e' \<and> ep_id e' = ep_id e \<and> ep_token e' = ep_token e \<and>
    ep_flag_reason e' = ep_flag_reason e \<and> ep_signature_provider e' = ep_signature_provider e \<and>
    ep_signature_secret e' = ep_signature_secret e \<and> set (config_texts e') \<subseteq> set (config_texts e) \<union> set (patch_texts p)"
    using assms by (cases "cp_forward_url p"; cases "cp_forward_secret p"; cases "cp_forward_headers p")
      (auto simp: set_forwarding_def encrypt_secret_def Let_def config_texts_def patch_texts_def)
  with that show ?thesis by blast
qed

lemma find_by_token_update:
  assumes "db_ok d" and "find_by_token t d = Some e0" and "ep_id e = ep_id e0" and "ep_token e = ep_token e0"
    and "endpoint_update e d = (Inr u, d')"
  shows "find_by_token t' d' =
    (if t' = t then Some (endpoint_set_config e e0) else find_by_token t' d)"
proof -
  have e0: "e0 \<in> set (db_endpoints d)" "ep_token e0 = t" using find_by_token_SomeD [OF assms(2)] by simp_all
  have d': "d' = d\<lparr>db_endpoints :=
      sql_update (\<lambda>row. ep_id row = ep_id e) (endpoint_set_config e) (db_endpoints d)\<rparr>"
    using assms(5) by (auto simp: endpoint_update_def split: if_splits)
  have same: "r = e0" if "r \<in> set (db_endpoints d)" "ep_id r = ep_id e0" for r
  proof -
    have "key_ok ep_id (db_endpoints d)" using assms(1) by (simp add: db_ok_defs)
    note unique = lookup_row_unique [OF this]
    have "Some r = lookup_row ep_id (ep_id e0) (db_endpoints d)"
      unfolding that(2) [symmetric] by (rule unique [OF that(1), symmetric])
    also have "\<dots> = Some e0" by (rule unique [OF e0(1)])
    finally show ?thesis by (rule option.inject [THEN iffD1])
  qed
  show ?thesis
  proof (cases "find_by_token t' d")
    case None
    then have "t' \<noteq> t" using assms(2) by auto
    with None show ?thesis by (simp add: d' find_by_token_eq lookup_sql_update)
  next
    case (Some r)
    have r: "r \<in> set (db_endpoints d)" "ep_token r = t'"
      using find_by_token_SomeD [OF Some] by simp_all
    have eq: "find_by_token t' d' = Some (if ep_id r = ep_id e then endpoint_set_config e r else r)"
      using Some by (simp add: d' find_by_token_eq lookup_sql_update)
    show ?thesis
    proof (cases "t' = t")
      case True
      then have "r = e0" using Some assms(2) by simp
      with True show ?thesis using eq assms(3) by simp
    next
      case False
      then have "r \<noteq> e0" using r(2) e0(2) by auto
      then have "ep_id r \<noteq> ep_id e" using same [OF r(1)] assms(3) by auto
      with False show ?thesis using eq Some by simp
    qed
  qed
qed

text \<open>
  A configured secret is the one captures are checked with: setting a provider and a secret of an
  existing endpoint succeeds with a key of 32 bytes and nonces of twelve, if the texts of row and patch can be
  stored; after it, the signature
  status of any captured request for that token is the verdict of that provider's validator under the
  secret that was given, and every other token leads to the endpoint it led to.
\<close>

lemma configured_secret_checks:
  assumes "db_ok (w_db w)" and "\<not> w_aborted w" and "find_by_token token (w_db w) = Some e0"
    and "aead_correct sv" and "length key = 32" and "length nonce1 = NONCE_SIZE" and "length nonce2 = NONCE_SIZE"
    and "cp_signature_provider p = Some provider" and "cp_signature_secret p = Some secret"
    and "patch_valid p" and "utf8_valid secret" and "list_all storable (config_texts e0 @ patch_texts p)"
  shows "\<exists>w' e v. with_session (update_endpoint_config sv key nonce1 nonce2 token p) w = (Inr (), w') \<and>
    db_ok (w_db w') \<and> find_by_token token (w_db w') = Some e \<and> get_validator provider = Some v \<and>
    (\<forall>headers body. capture_signature_status sv key e headers body =
       (case v sv body headers secret of Inl x \<Rightarrow> Inl x | Inr r \<Rightarrow> Inr (result_value r))) \<and>
    (\<forall>t. t \<noteq> token \<longrightarrow> find_by_token t (w_db w') = find_by_token t (w_db w))"
proof -
  let ?blob = "nonce1 @ sv_encrypt sv key nonce1 secret"
  let ?e1 = "e0\<lparr>ep_signature_provider := Some provider, ep_signature_secret := Some ?blob\<rparr>"
  obtain e2 where e2: "set_forwarding sv key nonce2 p ?e1 = Inr e2" "ep_id e2 = ep_id e0"
    "ep_token e2 = ep_token e0" "ep_flag_reason e2 = ep_flag_reason e0"
    "ep_signature_provider e2 = Some provider" "ep_signature_secret e2 = Some ?blob"
    "set (config_texts e2) \<subseteq> set (config_texts ?e1) \<union> set (patch_texts p)"
    using set_forwarding_total [OF assms(5), of sv nonce2 p ?e1] by auto
  have e0: "e0 \<in> set (db_endpoints (w_db w))" using find_by_token_SomeD [OF assms(3)] by simp
  then have "ep_id e2 \<in> endpoint_ids (w_db w)" "flag_reason_check (ep_flag_reason e2)"
    using e2 assms(1) by (auto simp: db_ok_defs)
  moreover have "list_all storable (config_texts e2)"
  proof -
    have "set (config_texts ?e1) \<subseteq> set (config_texts e0) \<union> set (patch_texts p)"
      using assms(8) by (auto simp: config_texts_def patch_texts_def)
    then show ?thesis using assms(12) e2(7) by (auto simp: list_all_iff)
  qed
  ultimately obtain d' where d': "endpoint_update e2 (w_db w) = (Inr (), d')"
    by (simp add: endpoint_update_def list_all_storable)
  have prov: "provider \<in> set INTEGRATION_NAMES" using assms(8,10) by (simp add: patch_valid_def)
  have lower: "list_all (\<lambda>n. str_lower n = n \<and> n \<noteq> []) INTEGRATION_NAMES" by code_simp
  have "get_validator provider \<noteq> None"
    unfolding get_validator_iff using prov lower by (simp add: list_all_iff)
  then obtain v where v: "get_validator provider = Some v" by blast
  have provne: "provider \<noteq> []" using prov lower by (auto simp: list_all_iff)
  have run: "with_session (update_endpoint_config sv key nonce1 nonce2 token p) w = (Inr (), w\<lparr>w_db := d'\<rparr>)"
    using assms(2,3) d' e2(1)
    by (simp add: update_endpoint_config_def get_endpoint_def bindA_def read_db_def
        set_signature_SomeE [OF assms(5,8,9)] run_db_res_def)
  note found = find_by_token_update [OF assms(1,3) e2(2,3) d']
  let ?e = "endpoint_set_config e2 e0"
  have dec: "decrypt_secret sv key ?blob = Inr secret"
    by (rule decrypt_encrypt [OF assms(4,6,11)]) (simp add: encrypt_secret_def assms(5))
  have status: "capture_signature_status sv key ?e headers body =
       (case v sv body headers secret of Inl x \<Rightarrow> Inl x | Inr r \<Rightarrow> Inr (result_value r))" for headers body
  proof -
    have "?blob \<noteq> []" using assms(6) by (auto simp: NONCE_SIZE_def)
    moreover have "v sv body headers secret \<noteq> Inl InvalidTag"
      using validators_answer(2) [OF v] by blast
    ultimately show ?thesis
      using dec e2(5,6) provne v
      by (simp add: capture_signature_status_def endpoint_set_config_def split: sum.split)
  qed
  show ?thesis
    using run found v status endpoint_update_ok [OF assms(1) d'] by auto
qed

definition demo_patch :: config_patch where
  "demo_patch = \<lparr>cp_signature_provider = Some ''n8n'', cp_signature_secret = Some ''whsec'',
     cp_forward_url = None, cp_forward_headers = None, cp_forward_secret = None\<rparr>"

lemma demo_aead_correct: "aead_correct demo_services"
  by (simp add: aead_correct_def demo_services_def)

lemma configured_secret_checks_witness:
  "\<exists>w' e. with_session (update_endpoint_config demo_services (replicate 32 (CHR ''k'')) (replicate 12 (CHR ''n''))
       (replicate 12 (CHR ''m'')) ''tok'' demo_patch) (new_world demo_db) = (Inr (), w') \<and>
     find_by_token ''tok'' (w_db w') = Some e"
proof -
  have found: "find_by_token ''tok'' (w_db (new_world demo_db)) = Some demo_endpoint"
    by (simp add: find_by_token_eq demo_db_def demo_endpoint_def empty_db_def)
  have valid: "patch_valid demo_patch" by code_simp
  have p: "cp_signature_provider demo_patch = Some ''n8n''" "cp_signature_secret demo_patch = Some ''whsec''"
    by (simp_all add: demo_patch_def)
  have utf8: "utf8_valid ''whsec''" and texts: "list_all storable (config_texts demo_endpoint @ patch_texts demo_patch)"
    by code_simp+
  show ?thesis
    using configured_secret_checks [OF _ _ found demo_aead_correct _ _ _ p valid utf8 texts,
        of "replicate 32 (CHR ''k'')" "replicate 12 (CHR ''n'')" "replicate 12 (CHR ''m'')"]
    by (auto simp: demo_db_ok NONCE_SIZE_def)
qed

end
