(* ===== verification/Dlq.thy ===== *)
theory Dlq
  imports Delivery Endpoints
begin

text \<open>
  The dead letter operations of the web application: listing and counting forwards, retrying and
  abandoning one, redriving the stuck ones (\<open>use_cases/retry_forward.py\<close>, \<open>abandon_forward.py\<close>,
  \<open>redrive_pending_forwards.py\<close>, \<open>list_forwards.py\<close>, \<open>get_forward_stats.py\<close>), and the listings of
  requests and integrations.
\<close>

section \<open>The use cases\<close>

definition retry_forward :: "time \<Rightarrow> string \<Rightarrow> uuid \<Rightarrow> forward act" where
  "retry_forward now token forward_id =
     bindA (read_db (find_by_token token)) (\<lambda>found.
     case found of
       None \<Rightarrow> fail EndpointNotFoundError
     | Some endpoint \<Rightarrow>
         bindA (run_db (claim_for_manual_retry forward_id (ep_id endpoint) now)) (\<lambda>claimed.
         case claimed of None \<Rightarrow> fail ForwardNotRetryableError | Some f \<Rightarrow> ret f))"

definition abandon_forward :: "time \<Rightarrow> string \<Rightarrow> uuid \<Rightarrow> forward act" where
  "abandon_forward now token forward_id =
     bindA (read_db (find_by_token token)) (\<lambda>found.
     case found of
       None \<Rightarrow> fail EndpointNotFoundError
     | Some endpoint \<Rightarrow>
         bindA (run_db (abandon forward_id (ep_id endpoint) now)) (\<lambda>abandoned.
         case abandoned of None \<Rightarrow> fail ForwardNotFoundError | Some f \<Rightarrow> ret f))"

definition STUCK_PENDING_THRESHOLD_SECONDS :: int where
  "STUCK_PENDING_THRESHOLD_SECONDS = 5 * 60"

definition STUCK_IN_FLIGHT_THRESHOLD_SECONDS :: int where
  "STUCK_IN_FLIGHT_THRESHOLD_SECONDS = 5 * 60"

text \<open>The loop over the rows to enqueue: a failure is logged and the next row is tried.\<close>

fun enqueue_each :: "services \<Rightarrow> uuid list \<Rightarrow> unit act" where
  "enqueue_each sv [] = ret ()"
| "enqueue_each sv (fid # fids) =
     bindA (catchA (arq_enqueue sv fid 0) (\<lambda>e. ret ())) (\<lambda>_. enqueue_each sv fids)"

definition redrive_pending_forwards :: "services \<Rightarrow> time \<Rightarrow> string \<Rightarrow> nat act" where
  "redrive_pending_forwards sv now token =
     bindA (read_db (find_by_token token)) (\<lambda>found.
     case found of
       None \<Rightarrow> fail EndpointNotFoundError
     | Some endpoint \<Rightarrow>
         bindA (run_db (reclaim_stuck_in_flight (ep_id endpoint) STUCK_IN_FLIGHT_THRESHOLD_SECONDS now)) (\<lambda>_.
         bindA (read_db (list_overdue_failed (ep_id endpoint) now)) (\<lambda>overdue_failed_ids.
         bindA (read_db (redrive_stuck_pending (ep_id endpoint) STUCK_PENDING_THRESHOLD_SECONDS now))
           (\<lambda>pending_ids.
         bindA (enqueue_each sv (overdue_failed_ids @ pending_ids)) (\<lambda>_.
         ret (length overdue_failed_ids + length pending_ids))))))"

definition list_forwards ::
  "string \<Rightarrow> string list option \<Rightarrow> nat \<Rightarrow> uuid option \<Rightarrow> forward list act" where
  "list_forwards token statuses limit before_id =
     bindA (read_db (find_by_token token)) (\<lambda>found.
     case found of
       None \<Rightarrow> fail EndpointNotFoundError
     | Some endpoint \<Rightarrow> read_db (forward_list_by_endpoint (ep_id endpoint) statuses limit before_id))"

definition get_forward_stats :: "string \<Rightarrow> (forward_status \<times> int) list act" where
  "get_forward_stats token =
     bindA (read_db (find_by_token token)) (\<lambda>found.
     case found of
       None \<Rightarrow> fail EndpointNotFoundError
     | Some endpoint \<Rightarrow> read_db (count_by_status (ep_id endpoint)))"

definition list_requests ::
  "services \<Rightarrow> string \<Rightarrow> nat \<Rightarrow> uuid option \<Rightarrow> string option \<Rightarrow> captured_request list act" where
  "list_requests sv token limit before_id q =
     bindA (read_db (find_by_token token)) (\<lambda>found.
     case found of
       None \<Rightarrow> fail EndpointNotFoundError
     | Some endpoint \<Rightarrow> read_db (request_list_by_endpoint sv (ep_id endpoint) limit before_id q))"

definition list_integrations :: "string \<Rightarrow> integration_aggregate list act" where
  "list_integrations token =
     bindA (read_db (find_by_token token)) (\<lambda>found.
     case found of
       None \<Rightarrow> fail EndpointNotFoundError
     | Some endpoint \<Rightarrow> bindA (read_db (aggregate_by_integration (ep_id endpoint))) (\<lambda>r. lift_res r))"

section \<open>Retrying and abandoning\<close>

lemma use_case_missing:
  assumes "find_by_token token (w_db w) = None"
  shows "retry_forward now token i w = (Inl EndpointNotFoundError, w)"
    "abandon_forward now token i w = (Inl EndpointNotFoundError, w)"
    "redrive_pending_forwards sv now token w = (Inl EndpointNotFoundError, w)"
    "list_forwards token ss l b w = (Inl EndpointNotFoundError, w)"
    "get_forward_stats token w = (Inl EndpointNotFoundError, w)"
    "list_requests sv token l b q w = (Inl EndpointNotFoundError, w)"
    "list_integrations token w = (Inl EndpointNotFoundError, w)"
  using assms
  by (simp_all add: retry_forward_def abandon_forward_def redrive_pending_forwards_def list_forwards_def
      get_forward_stats_def list_requests_def list_integrations_def)

lemma retry_forward_eq:
  assumes "world_ok w" and "find_by_token token (w_db w) = Some e"
  shows "with_session (retry_forward now token i) w =
    (case row_hit (retryable_row i (ep_id e)) (set_manual_retry now) (forward_find_by_id i (w_db w)) of
       None \<Rightarrow> (Inl ForwardNotRetryableError, w)
     | Some f \<Rightarrow> (Inr f, w\<lparr>w_db := snd (claim_for_manual_retry i (ep_id e) now (w_db w))\<rparr>))"
proof -
  have ok: "db_ok (w_db w)" "\<not> w_aborted w" using assms(1) by (simp_all add: world_ok_def)
  have same: "w\<lparr>w_aborted := False\<rparr> = w" using ok(2) by (cases w) simp
  show ?thesis
    using assms(2) ok same
    by (simp add: retry_forward_def with_session_def pg.retry_result [OF ok(1)] split: option.split)
qed

lemma abandon_forward_eq:
  assumes "world_ok w" and "find_by_token token (w_db w) = Some e"
  shows "with_session (abandon_forward now token i) w =
    (case row_hit (abandonable i (ep_id e)) (set_abandoned now) (forward_find_by_id i (w_db w)) of
       None \<Rightarrow> (Inl ForwardNotFoundError, w)
     | Some f \<Rightarrow> (Inr f, w\<lparr>w_db := snd (abandon i (ep_id e) now (w_db w))\<rparr>))"
proof -
  have ok: "db_ok (w_db w)" "\<not> w_aborted w" using assms(1) by (simp_all add: world_ok_def)
  have same: "w\<lparr>w_aborted := False\<rparr> = w" using ok(2) by (cases w) simp
  show ?thesis
    using assms(2) ok same
    by (simp add: abandon_forward_def with_session_def pg.give_up_result [OF ok(1)] split: option.split)
qed

lemma row_upd_other:
  assumes "\<And>f. p f \<Longrightarrow> fw_id f = i" and "j \<noteq> i"
  shows "row_upd p g (forward_find_by_id j d) = forward_find_by_id j d"
proof (cases "forward_find_by_id j d")
  case (Some f)
  then have "\<not> p f" using assms forward_find_SomeD by metis
  with Some show ?thesis by simp
qed simp

text \<open>
  Retrying belongs to the endpoint: with a token's endpoint \<open>e\<close>, a manual retry succeeds exactly
  for a row of \<open>e\<close> that failed, died or was abandoned; that row becomes pending, due now, without
  outcome, with its budget set to one attempt if it was dead or abandoned and as it was if it had
  failed, and no other row changes. For a row of another endpoint, a row in another status and no row
  the same error is raised and nothing changes.
\<close>

lemma retry_forward_outcome:
  assumes "world_ok w" and "find_by_token token (w_db w) = Some e"
  shows "if \<exists>g. forward_find_by_id i (w_db w) = Some g \<and> fw_endpoint_id g = ep_id e \<and>
           fw_status g \<in> {Failed, Dead, Abandoned}
    then \<exists>g f w'. forward_find_by_id i (w_db w) = Some g \<and>
      with_session (retry_forward now token i) w = (Inr f, w') \<and>
      f = g\<lparr>fw_status := Pending, fw_attempt_count := (if fw_status g = Failed then fw_attempt_count g else 4),
            fw_manual_retry_at := Some now, fw_next_attempt_at := Some now, fw_final_error := None,
            fw_final_status_code := None, fw_completed_at := None\<rparr> \<and>
      world_ok w' \<and> (\<forall>j. forward_find_by_id j (w_db w') =
        (if j = i then Some f else forward_find_by_id j (w_db w)))
    else with_session (retry_forward now token i) w = (Inl ForwardNotRetryableError, w)"
proof -
  have ok: "db_ok (w_db w)" "\<not> w_aborted w" using assms(1) by (simp_all add: world_ok_def)
  note eq = retry_forward_eq [OF assms, of now i]
  show ?thesis
  proof (cases "\<exists>g. forward_find_by_id i (w_db w) = Some g \<and> fw_endpoint_id g = ep_id e \<and>
           fw_status g \<in> {Failed, Dead, Abandoned}")
    case True
    then obtain g where g: "forward_find_by_id i (w_db w) = Some g" "fw_endpoint_id g = ep_id e"
      "fw_status g \<in> {Failed, Dead, Abandoned}" by blast
    have id: "fw_id g = i" by (rule forward_find_SomeD [OF g(1)])
    have row: "retryable_row i (ep_id e) g" using g id by (simp add: retryable_row_def)
    let ?w' = "w\<lparr>w_db := snd (claim_for_manual_retry i (ep_id e) now (w_db w))\<rparr>"
    have run: "with_session (retry_forward now token i) w = (Inr (set_manual_retry now g), ?w')"
      unfolding eq using g(1) row by (simp add: row_hit_def)
    have f: "set_manual_retry now g = g\<lparr>fw_status := Pending,
            fw_attempt_count := (if fw_status g = Failed then fw_attempt_count g else 4),
            fw_manual_retry_at := Some now, fw_next_attempt_at := Some now, fw_final_error := None,
            fw_final_status_code := None, fw_completed_at := None\<rparr>"
      using g(3) by (auto simp: set_manual_retry_def)
    have other: "forward_find_by_id j (w_db ?w') =
        (if j = i then Some (set_manual_retry now g) else forward_find_by_id j (w_db w))" for j
    proof (cases "j = i")
      case True
      then show ?thesis using g(1) row by (simp add: find_after_statement)
    next
      case False
      then show ?thesis
        using row_upd_other [of "retryable_row i (ep_id e)" i j] by (simp add: find_after_statement retryable_row_def)
    qed
    have wok: "world_ok ?w'" using ok by (simp add: world_ok_def forward_ops_db_ok)
    show ?thesis
      unfolding if_P [OF True]
      by (rule exI [of _ g], rule exI [of _ "set_manual_retry now g"], rule exI [of _ ?w'])
        (intro conjI allI; fact g(1) run f wok other)
  next
    case False
    then have none: "row_hit (retryable_row i (ep_id e)) (set_manual_retry now) (forward_find_by_id i (w_db w)) = None"
      unfolding row_hit_None_iff retryable_row_def by blast
    show ?thesis unfolding if_not_P [OF False] eq none by simp
  qed
qed



lemma retry_frame [simp]:
  "endpoint_find_by_id x (snd (claim_for_manual_retry i eid now d)) = endpoint_find_by_id x d"
  "request_find_by_id q (snd (claim_for_manual_retry i eid now d)) = request_find_by_id q d"
  by (simp_all add: endpoint_find_by_id_eq request_find_eq claim_for_manual_retry_def)


text \<open>
  C35. An abandoned forward is not taken up again: abandoning succeeds for the owner on every row that is
  pending, in flight or failed, and every job for it that starts after the abandon has committed, under any
  key, clock and network, leaves the database as it is, sends nothing and schedules nothing. An attempt that was
  under way when the owner abandoned is not such a job.
\<close>

theorem abandoned_forward_is_left_alone:
  assumes "world_ok w" and "find_by_token token (w_db w) = Some e"
    and "forward_find_by_id i (w_db w) = Some g" and "fw_endpoint_id g = ep_id e"
    and "fw_status g \<in> {Pending, In_flight, Failed}"
  shows "\<exists>f w1. with_session (abandon_forward now token i) w = (Inr f, w1) \<and> fw_status f = Abandoned \<and>
    fw_completed_at f = Some now \<and> forward_find_by_id i (w_db w1) = Some f \<and>
    (\<forall>sv key clk. \<exists>w2. execute_forward_job sv key clk (uuid_str i) w1 = (Inr (), w2) \<and>
       w_db w2 = w_db w1 \<and> w_sent w2 = w_sent w1 \<and> w_jobs w2 = w_jobs w1)"
proof -
  have ok: "db_ok (w_db w)" "\<not> w_aborted w" using assms(1) by (simp_all add: world_ok_def)
  have id: "fw_id g = i" by (rule forward_find_SomeD [OF assms(3)])
  have row: "abandonable i (ep_id e) g" using assms(4,5) id by (auto simp: abandonable_def)
  let ?w1 = "w\<lparr>w_db := snd (abandon i (ep_id e) now (w_db w))\<rparr>"
  have run: "with_session (abandon_forward now token i) w = (Inr (set_abandoned now g), ?w1)"
    unfolding abandon_forward_eq [OF assms(1,2)] using assms(3) row by (simp add: row_hit_def)
  have f: "forward_find_by_id i (w_db ?w1) = Some (set_abandoned now g)"
    using assms(3) row by (simp add: find_after_statement)
  have w1: "world_ok ?w1" "not_waiting i (w_db ?w1)"
    using ok f by (simp_all add: world_ok_def forward_ops_db_ok not_waiting_def set_abandoned_def)
  have jobs: "\<exists>w2. execute_forward_job sv key clk (uuid_str i) ?w1 = (Inr (), w2) \<and>
       w_db w2 = w_db ?w1 \<and> w_sent w2 = w_sent ?w1 \<and> w_jobs w2 = w_jobs ?w1" for sv key clk
    by (simp add: job_skips [OF w1])
  show ?thesis
    by (rule exI [of _ "set_abandoned now g"], rule exI [of _ ?w1])
      (use run f jobs in \<open>simp add: set_abandoned_def\<close>)
qed

section \<open>Redriving\<close>

text \<open>The rows a redrive enqueues.\<close>

definition redrivable :: "uuid \<Rightarrow> time \<Rightarrow> forward \<Rightarrow> bool" where
  "redrivable eid now f \<longleftrightarrow> fw_endpoint_id f = eid \<and>
     (case fw_status f of
        Pending \<Rightarrow> fw_created_at f < now - seconds 300
      | Failed \<Rightarrow> null_le (fw_next_attempt_at f) now
      | In_flight \<Rightarrow> null_lt (fw_started_at f) (now - seconds 300)
      | _ \<Rightarrow> False)"

text \<open>The jobs arq takes of those the loop hands it.\<close>

definition taken_jobs :: "services \<Rightarrow> uuid list \<Rightarrow> arq_job list" where
  "taken_jobs sv ids =
     (if sv_queue_fault sv = None then map (\<lambda>i. the_job i 0) (filter (\<lambda>i. \<not> held sv i 0) ids) else [])"

lemma enqueue_each_eq:
  "enqueue_each sv ids w = (Inr (), w\<lparr>w_jobs := w_jobs w @ taken_jobs sv ids\<rparr>)"
  by (induction ids arbitrary: w) (auto simp: bindA_def catchA_def arq_enqueue_eq taken_jobs_def accepted_def split: option.splits)

abbreviation stuck_now :: "uuid \<Rightarrow> time \<Rightarrow> forward \<Rightarrow> bool" where
  "stuck_now eid now \<equiv> stuck_in_flight eid (now - seconds 300)"

definition reclaimed_db :: "uuid \<Rightarrow> time \<Rightarrow> db \<Rightarrow> db" where
  "reclaimed_db eid now d = snd (reclaim_stuck_in_flight eid STUCK_IN_FLIGHT_THRESHOLD_SECONDS now d)"

definition redrive_ids :: "uuid \<Rightarrow> time \<Rightarrow> db \<Rightarrow> uuid list" where
  "redrive_ids eid now d = list_overdue_failed eid now (reclaimed_db eid now d) @
     redrive_stuck_pending eid STUCK_PENDING_THRESHOLD_SECONDS now (reclaimed_db eid now d)"

lemma redrive_eq:
  assumes "\<not> w_aborted w" and "find_by_token token (w_db w) = Some e"
  shows "with_session (redrive_pending_forwards sv now token) w =
    (Inr (length (redrive_ids (ep_id e) now (w_db w))), w\<lparr>w_db := reclaimed_db (ep_id e) now (w_db w),
      w_jobs := w_jobs w @ taken_jobs sv (redrive_ids (ep_id e) now (w_db w))\<rparr>)"
  using assms
  by (simp add: redrive_pending_forwards_def bindA_step [where m = "enqueue_each sv _", OF enqueue_each_eq]
      redrive_ids_def reclaimed_db_def with_session_def del: enqueue_each.simps)

lemma reclaimed_rows:
  "db_forwards (reclaimed_db eid now d) =
     map (\<lambda>f. if stuck_now eid now f then set_reclaimed now f else f) (db_forwards d)"
  by (simp add: reclaimed_db_def reclaim_stuck_in_flight_def Let_def sql_update_def
      STUCK_IN_FLIGHT_THRESHOLD_SECONDS_def)

lemma redrivable_reclaimed:
  "redrivable eid now f \<longleftrightarrow>
     (let f' = (if stuck_now eid now f then set_reclaimed now f else f) in
      fw_endpoint_id f' = eid \<and>
        (fw_status f' = Failed \<and> fw_next_attempt_at f' \<noteq> None \<and> null_le (fw_next_attempt_at f') now \<or>
         fw_status f' = Pending \<and> fw_created_at f' < now - seconds 300))"
  by (cases "fw_status f"; cases "fw_next_attempt_at f")
    (auto simp: redrivable_def stuck_in_flight_def set_reclaimed_def Let_def)

lemma set_redrive_ids:
  "set (redrive_ids eid now d) = fw_id ` {f \<in> set (db_forwards d). redrivable eid now f}"
proof -
  let ?r = "\<lambda>f. if stuck_now eid now f then set_reclaimed now f else f"
  have "set (redrive_ids eid now d) = fw_id ` {f \<in> ?r ` set (db_forwards d).
      fw_endpoint_id f = eid \<and> (fw_status f = Failed \<and> fw_next_attempt_at f \<noteq> None \<and> null_le (fw_next_attempt_at f) now \<or>
         fw_status f = Pending \<and> fw_created_at f < now - seconds 300)}"
    by (auto simp: redrive_ids_def list_overdue_failed_def redrive_stuck_pending_def Let_def
        reclaimed_rows STUCK_PENDING_THRESHOLD_SECONDS_def)
  also have "\<dots> = fw_id ` ?r ` {f \<in> set (db_forwards d). redrivable eid now f}"
    unfolding redrivable_reclaimed Let_def by blast
  also have "\<dots> = fw_id ` {f \<in> set (db_forwards d). redrivable eid now f}"
    unfolding image_image by (rule image_cong) simp_all
  finally show ?thesis .
qed

lemma distinct_map_sort_filter:
  assumes "distinct (map g xs)"
  shows "distinct (map g (sort_key k (filter p xs)))"
  using assms by (simp add: distinct_map inj_on_def)

lemma distinct_redrive_ids:
  assumes "db_ok d"
  shows "distinct (redrive_ids eid now d)"
proof -
  let ?t = "db_forwards (reclaimed_db eid now d)"
  have "key_ok fw_id ?t"
    unfolding reclaimed_db_def by (rule db_ok_forward_keys [OF forward_ops_db_ok(5) [OF assms]])
  then have keys: "distinct (map fw_id ?t)" by (simp add: key_ok_def)
  have disjoint: "fw_id ` set (filter p ?t) \<inter> fw_id ` set (filter q ?t) = {}"
    if pq: "\<And>f. p f \<Longrightarrow> fw_status f = Failed" "\<And>f. q f \<Longrightarrow> fw_status f = Pending" for p q
  proof (rule equals0I)
    fix i
    assume "i \<in> fw_id ` set (filter p ?t) \<inter> fw_id ` set (filter q ?t)"
    then obtain f g where fg: "f \<in> set ?t" "p f" "g \<in> set ?t" "q g" "fw_id f = fw_id g" by auto
    have "f = g" using keys fg(1,3,5) by (simp add: distinct_map inj_on_def)
    with pq(1) [OF fg(2)] pq(2) [OF fg(4)] show False by simp
  qed
  show ?thesis
    unfolding redrive_ids_def list_overdue_failed_def redrive_stuck_pending_def Let_def distinct_append
      set_map set_sort
    by (intro conjI distinct_map_sort_filter [OF keys] disjoint) simp_all
qed

text \<open>
  C23. A redrive finds every stuck forward of the endpoint, once: the rows pending for over five
  minutes, the failed ones whose next attempt is due and the ones in flight for over five minutes. The
  latter become failed and due, nothing else changes, and the result is the number of the rows. When the
  queue works, each of them is handed to arq once, for now: exactly the rows whose job identifier arq does not
  hold get a job. It holds the identifier for an hour after a job of that row for now has run, so such a
  row is counted in the result and not scheduled; when the queue fails, none is, and the result is the same.
\<close>

theorem redrive_complete:
  assumes "world_ok w" and "find_by_token token (w_db w) = Some e"
  shows "\<exists>ids w'. with_session (redrive_pending_forwards sv now token) w = (Inr (length ids), w') \<and>
    distinct ids \<and> set ids = fw_id ` {f \<in> set (db_forwards (w_db w)). redrivable (ep_id e) now f} \<and>
    w_jobs w' = w_jobs w @ (if sv_queue_fault sv = None
      then map (\<lambda>i. the_job i 0) (filter (\<lambda>i. \<not> sv_queue_holds sv (job_id (the_job i 0))) ids) else []) \<and>
    world_ok w' \<and> (\<forall>i. forward_find_by_id i (w_db w') = map_option
      (\<lambda>f. if fw_endpoint_id f = ep_id e \<and> fw_status f = In_flight \<and> null_lt (fw_started_at f) (now - seconds 300)
           then f\<lparr>fw_status := Failed, fw_next_attempt_at := Some now\<rparr> else f)
      (forward_find_by_id i (w_db w)))"
proof -
  have ok: "db_ok (w_db w)" "\<not> w_aborted w" using assms(1) by (simp_all add: world_ok_def)
  let ?ids = "redrive_ids (ep_id e) now (w_db w)"
  let ?w' = "w\<lparr>w_db := reclaimed_db (ep_id e) now (w_db w), w_jobs := w_jobs w @ taken_jobs sv ?ids\<rparr>"
  have rows: "forward_find_by_id i (reclaimed_db (ep_id e) now (w_db w)) = map_option
      (\<lambda>f. if fw_endpoint_id f = ep_id e \<and> fw_status f = In_flight \<and> null_lt (fw_started_at f) (now - seconds 300)
           then f\<lparr>fw_status := Failed, fw_next_attempt_at := Some now\<rparr> else f)
      (forward_find_by_id i (w_db w))" for i
    unfolding reclaimed_db_def find_after_statement row_upd_def stuck_in_flight_def set_reclaimed_def
      STUCK_IN_FLIGHT_THRESHOLD_SECONDS_def by simp
  have wok: "world_ok ?w'"
    using ok by (simp add: world_ok_def reclaimed_db_def forward_ops_db_ok)
  show ?thesis
    by (rule exI [of _ ?ids], rule exI [of _ ?w'])
      (use redrive_eq [OF ok(2) assms(2), of sv now] distinct_redrive_ids [OF ok(1)] set_redrive_ids
        wok rows in \<open>simp add: taken_jobs_def held_def\<close>)
qed

section \<open>Counting and listing\<close>

lemma group_by_status_lookup:
  "map_of (group_by_status eid d) s =
     (let n = length (filter (\<lambda>f. fw_endpoint_id f = eid \<and> fw_status f = s) (db_forwards d))
      in if n = 0 then None else Some (int n))"
proof -
  let ?fs = "filter (\<lambda>f. fw_endpoint_id f = eid) (db_forwards d)"
  have "map_of (map (\<lambda>s. (s, g s)) xs) s = (if s \<in> set xs then Some (g s) else None)" for g :: "forward_status \<Rightarrow> int" and xs
    by (induction xs) auto
  moreover have "s \<in> set (remdups (map fw_status ?fs)) \<longleftrightarrow> filter (\<lambda>f. fw_status f = s) ?fs \<noteq> []"
    by (auto simp: filter_empty_conv)
  ultimately show ?thesis
    by (simp add: group_by_status_def Let_def conj_commute)
qed

lemma dict_wf_group: "dict_wf (group_by_status eid d)"
  by (simp add: group_by_status_def dict_wf_def Let_def comp_def)

lemma count_by_status_lookup:
  "map_of (count_by_status eid d) s =
     Some (int (length (filter (\<lambda>f. fw_endpoint_id f = eid \<and> fw_status f = s) (db_forwards d))))"
proof -
  have zero: "map_of (map (\<lambda>s. (s, 0 :: int)) enum_class.enum) s = Some 0"
    by (cases s) (simp_all add: enum_forward_status_def)
  show ?thesis
    unfolding count_by_status_def map_of_dict_update [OF dict_wf_group] group_by_status_lookup Let_def
    by (simp add: zero)
qed

lemma sum_over_statuses:
  "(\<Sum>s \<leftarrow> enum_class.enum. length (filter (\<lambda>f. p f \<and> fw_status f = s) fs)) = length (filter p fs)"
proof (induction fs)
  case Nil
  show ?case by (simp add: enum_forward_status_def)
next
  case (Cons f fs)
  then show ?case by (cases "fw_status f") (simp_all add: enum_forward_status_def)
qed

text \<open>
  The dashboard counts are exact: every status has an entry, the number of the endpoint's forwards
  in that status (0 when there is none), and the entries add up to the number of its forwards.
\<close>

lemma forward_stats_exact:
  assumes "find_by_token token (w_db w) = Some e"
  shows "\<exists>counts. get_forward_stats token w = (Inr counts, w) \<and>
    (\<forall>s. map_of counts s =
       Some (int (length (filter (\<lambda>f. fw_endpoint_id f = ep_id e \<and> fw_status f = s) (db_forwards (w_db w)))))) \<and>
    (\<Sum>s \<leftarrow> enum_class.enum. the (map_of counts s)) =
      int (length (filter (\<lambda>f. fw_endpoint_id f = ep_id e) (db_forwards (w_db w))))"
proof -
  let ?p = "\<lambda>f. fw_endpoint_id f = ep_id e"
  let ?fs = "db_forwards (w_db w)"
  have "(\<Sum>s \<leftarrow> enum_class.enum. int (length (filter (\<lambda>f. ?p f \<and> fw_status f = s) ?fs))) = int (length (filter ?p ?fs))"
    unfolding sum_over_statuses [symmetric, of ?p] by (simp add: enum_forward_status_def)
  then show ?thesis
    using assms by (simp add: get_forward_stats_def read_db_def count_by_status_lookup)
qed

definition forward_rows :: "uuid \<Rightarrow> string list option \<Rightarrow> db \<Rightarrow> forward list" where
  "forward_rows eid statuses d = newest_first fw_created_at fw_id
     (filter (\<lambda>f. fw_endpoint_id f = eid \<and> status_filter statuses f) (db_forwards d))"

lemma map_forward_to_entity_list [simp]: "map forward_to_entity fs = fs"
  by (induction fs) simp_all

lemma forward_page_first:
  "forward_list_by_endpoint eid ss limit None d = take limit (forward_rows eid ss d)"
  by (simp add: forward_list_by_endpoint_def forward_rows_def keyset_page_first Let_def)

lemma forward_page_after:
  assumes "key_ok fw_id (db_forwards d)" and "i < length (forward_rows eid ss d)"
  shows "forward_list_by_endpoint eid ss limit (Some (fw_id (forward_rows eid ss d ! i))) d =
    take limit (drop (Suc i) (forward_rows eid ss d))"
proof -
  have "forward_rows eid ss d ! i \<in> set (db_forwards d)"
    using nth_mem [OF assms(2)] by (auto simp: forward_rows_def)
  from lookup_row_unique [OF assms(1) this] show ?thesis
    using keyset_page_after [OF key_ok_filter [OF assms(1)]] assms(2)
    by (simp add: forward_list_by_endpoint_def Let_def forward_rows_def)
qed

interpretation forwards: keyset_listing
  "\<lambda>(eid, ss, d) limit before. forward_list_by_endpoint eid ss limit before d"
  "\<lambda>(eid, ss, d). forward_rows eid ss d" fw_id "\<lambda>(eid, ss, d). key_ok fw_id (db_forwards d)"
  by unfold_locales (auto simp: forward_page_first forward_page_after)

text \<open>The two listings as a client of the API reads them, page by page.\<close>

definition page_of :: "'a list act \<Rightarrow> world \<Rightarrow> 'a list" where
  "page_of m w = (case m w of (Inr xs, w') \<Rightarrow> xs | (Inl e, w') \<Rightarrow> [])"

text \<open>
  C40. Both listings can be read to the end: a client that follows the cursor of each full page gets,
  in one more request than there are rows at the latest, every captured request of the endpoint that
  the search matches, and every forward of the endpoint in one of the wanted statuses, each exactly
  once and from the newest to the oldest.
\<close>

theorem listings_are_complete:
  assumes "world_ok w" and "find_by_token token (w_db w) = Some e" and "0 < limit"
  shows "fetch_all (\<lambda>b. page_of (list_forwards token ss limit b) w) fw_id limit
        (Suc (length (forward_rows (ep_id e) ss (w_db w)))) None = Some (forward_rows (ep_id e) ss (w_db w)) \<and>
    mset (forward_rows (ep_id e) ss (w_db w)) =
      mset (filter (\<lambda>f. fw_endpoint_id f = ep_id e \<and> status_filter ss f) (db_forwards (w_db w))) \<and>
    fetch_all (\<lambda>b. page_of (list_requests sv token limit b q) w) rq_id limit
        (Suc (length (request_rows sv (ep_id e) q (w_db w)))) None = Some (request_rows sv (ep_id e) q (w_db w)) \<and>
    mset (request_rows sv (ep_id e) q (w_db w)) =
      mset (filter (\<lambda>r. rq_endpoint_id r = ep_id e \<and>
        (case q of None \<Rightarrow> True | Some s \<Rightarrow> s = [] \<or> sv_search sv s r)) (db_requests (w_db w)))"
proof -
  have keys: "key_ok fw_id (db_forwards (w_db w))" "key_ok rq_id (db_requests (w_db w))"
    using assms(1) by (simp_all add: world_ok_def db_ok_defs)
  have pages: "(\<lambda>b. page_of (list_forwards token ss limit b) w) =
      (\<lambda>b. forward_list_by_endpoint (ep_id e) ss limit b (w_db w))"
    "(\<lambda>b. page_of (list_requests sv token limit b q) w) =
      (\<lambda>b. request_list_by_endpoint sv (ep_id e) limit b q (w_db w))"
    using assms(2) by (simp_all add: page_of_def list_forwards_def list_requests_def read_db_def fun_eq_iff)
  show ?thesis
    unfolding pages
    using forwards.fetch_everything [of "(ep_id e, ss, w_db w)" limit]
      requests.fetch_everything [of "(sv, ep_id e, q, w_db w)" limit] keys assms(3)
    by (simp add: forward_rows_def request_rows_def mset_newest_first)
qed

section \<open>Concrete rows\<close>

definition dlq_world :: "forward \<Rightarrow> world" where
  "dlq_world f = new_world (demo_db\<lparr>db_requests := [delivery_request], db_forwards := [f]\<rparr>)"

definition dead_forward :: forward where
  "dead_forward = delivery_forward\<lparr>fw_status := Dead, fw_attempt_count := 5\<rparr>"

lemma dlq_world_facts:
  assumes "fw_id f = 3" and "fw_endpoint_id f = 1" and "fw_request_id f = 2"
  shows "world_ok (dlq_world f)" "find_by_token ''tok'' (w_db (dlq_world f)) = Some demo_endpoint"
    "forward_find_by_id 3 (w_db (dlq_world f)) = Some f" "db_forwards (w_db (dlq_world f)) = [f]"
    "endpoint_find_by_id 1 (w_db (dlq_world f)) = Some demo_endpoint"
    "request_find_by_id 2 (w_db (dlq_world f)) = Some delivery_request"
  using assms
  by (simp_all add: world_ok_def dlq_world_def demo_db_def empty_db_def db_ok_defs delivery_request_def
      demo_endpoint_def key_ok_def flag_reason_check_def integration_check_def new_world_def
      forward_find_by_id_eq find_by_token_eq endpoint_find_by_id_eq request_find_eq)

lemma delivery_forward_fields [simp]:
  "fw_id delivery_forward = 3" "fw_endpoint_id delivery_forward = 1" "fw_request_id delivery_forward = 2"
  "fw_status delivery_forward = Pending" "fw_created_at delivery_forward = 11"
  by (simp_all add: delivery_forward_def forward_create_def)

lemma dead_forward_fields [simp]:
  "fw_id dead_forward = 3" "fw_endpoint_id dead_forward = 1" "fw_request_id dead_forward = 2"
  "fw_status dead_forward = Dead" "fw_target_url dead_forward = ''https://example.com/hook''"
  by (simp_all add: dead_forward_def) (simp add: delivery_forward_def forward_create_def)

lemma demo_endpoint_id [simp]: "ep_id demo_endpoint = 1"
  by (simp add: demo_endpoint_def)

lemmas dead_world_facts = dlq_world_facts [OF dead_forward_fields(1-3)]
lemmas pending_world_facts = dlq_world_facts [OF delivery_forward_fields(1-3)]


theorem abandoned_forward_is_left_alone_witness:
  "\<exists>f w1 w2. with_session (abandon_forward 50 ''tok'' 3) (dlq_world delivery_forward) = (Inr f, w1) \<and>
     fw_status f = Abandoned \<and> forward_find_by_id 3 (w_db w1) = Some f \<and>
     execute_forward_job demo_services [] delivery_clock (uuid_str 3) w1 = (Inr (), w2) \<and>
     forward_find_by_id 3 (w_db w2) = Some f \<and> w_sent w2 = w_sent w1 \<and> w_jobs w2 = w_jobs w1"
proof -
  obtain f w1 where a: "with_session (abandon_forward 50 ''tok'' 3) (dlq_world delivery_forward) = (Inr f, w1)"
    "fw_status f = Abandoned" "forward_find_by_id 3 (w_db w1) = Some f"
    "\<exists>w2. execute_forward_job demo_services [] delivery_clock (uuid_str 3) w1 = (Inr (), w2) \<and>
       w_db w2 = w_db w1 \<and> w_sent w2 = w_sent w1 \<and> w_jobs w2 = w_jobs w1"
    using abandoned_forward_is_left_alone [OF pending_world_facts(1-3), of 50] by auto
  then show ?thesis by (elim exE conjE) (intro exI conjI, assumption+, simp_all)
qed

theorem redrive_complete_witness:
  "(\<exists>w'. with_session (redrive_pending_forwards demo_services (seconds 400) ''tok'') (dlq_world delivery_forward) =
     (Inr 1, w') \<and> w_jobs w' = [the_job 3 0]) \<and>
   (\<exists>w'. with_session (redrive_pending_forwards (demo_services\<lparr>sv_queue_holds := \<lambda>job. True\<rparr>) (seconds 400) ''tok'')
     (dlq_world delivery_forward) = (Inr 1, w') \<and> w_jobs w' = [])"
proof -
  have "redrivable 1 (seconds 400) delivery_forward" by (simp add: redrivable_def seconds_def)
  then have one: "{f \<in> set [delivery_forward]. redrivable 1 (seconds 400) f} = {delivery_forward}" by auto
  have only: "ids = [3]" if "distinct ids" "set ids = {3}" for ids :: "uuid list"
    using that by (cases ids; cases "tl ids") auto
  have none: "w_jobs (dlq_world delivery_forward) = []" by (simp add: dlq_world_def new_world_def)
  have holds: "sv_queue_holds demo_services = (\<lambda>job. False)" by (simp add: demo_services_def)
  show ?thesis
    using redrive_complete [OF pending_world_facts(1,2), of demo_services "seconds 400"]
      redrive_complete [OF pending_world_facts(1,2), of "demo_services\<lparr>sv_queue_holds := \<lambda>job. True\<rparr>" "seconds 400"]
      pending_world_facts(4) one none holds by (auto dest!: only)
qed

theorem listings_are_complete_witness:
  "fetch_all (\<lambda>b. page_of (list_forwards ''tok'' None 2 b) (dlq_world dead_forward)) fw_id 2 2 None =
     Some [dead_forward]"
proof -
  have rows: "forward_rows 1 None (w_db (dlq_world dead_forward)) = [dead_forward]"
    by (simp add: forward_rows_def dead_world_facts(4) status_filter_def newest_first_def)
  show ?thesis
    using listings_are_complete [OF dead_world_facts(1,2), of 2 None] rows
    by (simp add: eval_nat_numeral)
qed

end
