(* ===== verification/Replaying.thy ===== *)
theory Replaying
  imports Forwarding
begin

text \<open>
  Replaying a captured request to a URL the owner gives (\<open>use_cases/replay_request.py\<close>): a
  transaction that authorizes and loads, the request without one, a transaction that stores the
  outcome.
\<close>

section \<open>The use case\<close>

definition MAX_REPLAY_BODY_BYTES :: nat where
  "MAX_REPLAY_BODY_BYTES = 1 * 1024 * 1024"

record authorized_state =
  as_endpoint :: endpoint
  as_captured :: captured_request
  as_body :: string

text \<open>\<open>uuid4()\<close>, the clock and the duration in milliseconds of one replay.\<close>

record replay_clock =
  rc_id :: uuid
  rc_now :: time
  rc_duration_ms :: int

definition authorize_phase :: "services \<Rightarrow> string \<Rightarrow> uuid \<Rightarrow> authorized_state act" where
  "authorize_phase sv token request_id = with_session (
     bindA (read_db (find_by_token token)) (\<lambda>endpoint.
     case endpoint of
       None \<Rightarrow> bindA (emit (Replay_attempt ''endpoint_not_found'')) (\<lambda>_. fail EndpointNotFoundError)
     | Some e \<Rightarrow>
         bindA (read_db (request_find_by_id request_id)) (\<lambda>captured.
         case captured of
           None \<Rightarrow> bindA (emit (Replay_attempt ''request_not_found'')) (\<lambda>_. fail RequestNotFoundError)
         | Some c \<Rightarrow>
             if rq_endpoint_id c \<noteq> ep_id e
             then bindA (emit (Replay_attempt ''request_not_found'')) (\<lambda>_. fail RequestNotFoundError)
             else bindA (load_body sv c) (\<lambda>body.
               ret \<lparr>as_endpoint = e, as_captured = c, as_body = body\<rparr>))))"

definition replay_record_phase :: "replay \<Rightarrow> unit act" where
  "replay_record_phase r = with_session (run_db_res (replay_save r))"

definition conclude_replay :: "replay \<Rightarrow> string \<Rightarrow> replay act" where
  "conclude_replay r label =
     bindA (replay_record_phase r) (\<lambda>_. bindA (emit (Replay_attempt label)) (\<lambda>_. ret r))"

text \<open>The attempt: the outcome row and the label of the metric.\<close>

definition replay_attempt ::
  "services \<Rightarrow> replay_clock \<Rightarrow> uuid \<Rightarrow> string \<Rightarrow> target \<Rightarrow> string \<Rightarrow> dict \<Rightarrow> string \<Rightarrow> (replay \<times> string) act" where
  "replay_attempt sv clk request_id target_url validated method headers body =
     catchA
       (bindA (make_send sv method validated headers body) (\<lambda>(status_code, resp_headers, resp_body).
          ret (replay_success (rc_id clk) request_id target_url status_code
                (Some (utf8_replace (take REPLAY_RESPONSE_BODY_PREVIEW_BYTES resp_body))) resp_headers
                (rc_duration_ms clk) (rc_now clk),
              if 200 \<le> status_code \<and> status_code < 300 then ''success'' else ''target_error'')))
       (\<lambda>e. case e of
          HttpRequestFailedError m \<Rightarrow>
            ret (replay_failure (rc_id clk) request_id target_url m (rc_duration_ms clk) (rc_now clk),
                 ''network_error'')
        | _ \<Rightarrow> fail e)"

definition replay_request ::
  "services \<Rightarrow> replay_clock \<Rightarrow> string \<Rightarrow> uuid \<Rightarrow> string \<Rightarrow> bool \<Rightarrow> bool \<Rightarrow> replay act" where
  "replay_request sv clk token request_id target_url include_headers include_body =
     bindA (authorize_phase sv token request_id) (\<lambda>state.
     let body = (if include_body then as_body state else []) in
     if MAX_REPLAY_BODY_BYTES < length body
     then bindA (emit (Replay_attempt ''payload_too_large'')) (\<lambda>_. fail ReplayPayloadTooLargeError)
     else
       let headers = (if include_headers then strip_captured (rq_headers (as_captured state)) else []) in
       case make_validate sv target_url of
         Inl (SsrfBlockedError m) \<Rightarrow>
           conclude_replay (replay_failure (rc_id clk) request_id target_url (''SsrfBlockedError: '' @ m)
             (rc_duration_ms clk) (rc_now clk)) ''ssrf_blocked''
       | Inl e \<Rightarrow> fail e
       | Inr validated \<Rightarrow>
           bindA (replay_attempt sv clk request_id target_url validated (rq_method (as_captured state))
             headers body) (\<lambda>(replay, label). conclude_replay replay label))"

section \<open>Step by step\<close>

definition count_replay :: "string \<Rightarrow> world \<Rightarrow> world" where
  "count_replay label w = w\<lparr>w_metrics := w_metrics w @ [Replay_attempt label]\<rparr>"

lemma count_replay_frame [simp]:
  "w_db (count_replay l w) = w_db w" "w_sent (count_replay l w) = w_sent w"
  "w_jobs (count_replay l w) = w_jobs w" "w_blobs (count_replay l w) = w_blobs w"
  "w_metrics (count_replay l w) = w_metrics w @ [Replay_attempt l]"
  "world_ok (count_replay l w) = world_ok w" "w_aborted (count_replay l w) = w_aborted w"
  by (simp_all add: count_replay_def world_ok_def)

lemma authorize_phase_eq:
  assumes "\<not> w_aborted w"
  shows "authorize_phase sv token rid w =
    (case find_by_token token (w_db w) of
       None \<Rightarrow> (Inl EndpointNotFoundError, count_replay ''endpoint_not_found'' w)
     | Some e \<Rightarrow>
         (case request_find_by_id rid (w_db w) of
            None \<Rightarrow> (Inl RequestNotFoundError, count_replay ''request_not_found'' w)
          | Some c \<Rightarrow>
              if rq_endpoint_id c \<noteq> ep_id e
              then (Inl RequestNotFoundError, count_replay ''request_not_found'' w)
              else (case fst (load_body sv c w) of
                      Inl x \<Rightarrow> (Inl x, w)
                    | Inr b \<Rightarrow> (Inr \<lparr>as_endpoint = e, as_captured = c, as_body = b\<rparr>, w))))"
proof -
  have clear: "w'\<lparr>w_db := w_db w, w_aborted := False\<rparr> = w'"
    if "w_db w' = w_db w" "\<not> w_aborted w'" for w' :: world
    using that by (cases w') simp
  have load: "load_body sv c w = (fst (load_body sv c w), w)" for c
    using load_body_world [of sv c w] by (cases "load_body sv c w") auto
  have bind: "bindA (load_body sv c) f w =
      (case fst (load_body sv c w) of Inl x \<Rightarrow> (Inl x, w) | Inr b \<Rightarrow> f b w)" for c and f :: "string \<Rightarrow> 'b act"
    unfolding bindA_def by (subst load) (simp split: sum.split)
  show ?thesis
    using assms clear [of w] clear [of "count_replay _ w"]
    by (simp add: authorize_phase_def with_session_def bind count_replay_def split: option.split sum.split)
qed

lemma replay_record_phase_Inr:
  "\<not> w_aborted w \<Longrightarrow> replay_record_phase r w = (Inr u, w') \<longleftrightarrow>
     (\<exists>d. replay_save r (w_db w) = (Inr u, d) \<and> w' = w\<lparr>w_db := d\<rparr>)"
  by (auto simp: replay_record_phase_def run_db_res_Inr)

lemma replay_record_phase_Inl:
  assumes "\<not> w_aborted w" and "replay_record_phase r w = (Inl e, w')"
  shows "w' = w" "e = DataError \<or> e = IntegrityError"
proof -
  have clear: "w\<lparr>w_db := w_db w, w_aborted := False\<rparr> = w" using assms(1) by (cases w) simp
  show "w' = w" "e = DataError \<or> e = IntegrityError"
    using assms clear
    by (auto simp: replay_record_phase_def with_session_def run_db_res_def replay_save_def
        split: if_splits)
qed

text \<open>The request a replay sends, and the row and label it leaves.\<close>

definition replay_outbound :: "captured_request \<Rightarrow> string \<Rightarrow> bool \<Rightarrow> string \<Rightarrow> outbound" where
  "replay_outbound c url include_headers body =
     \<lparr>ob_method = rq_method c, ob_url = url,
      ob_headers = (if include_headers then strip_captured (rq_headers c) else []), ob_body = body\<rparr>"

definition replay_row ::
  "replay_clock \<Rightarrow> uuid \<Rightarrow> string \<Rightarrow> string + (int \<times> dict \<times> string list) \<Rightarrow> replay \<times> string" where
  "replay_row clk rid url reply =
     (case reply of
        Inl m \<Rightarrow> (replay_failure (rc_id clk) rid url m (rc_duration_ms clk) (rc_now clk), ''network_error'')
      | Inr (code, hs, chunks) \<Rightarrow>
          (replay_success (rc_id clk) rid url code (Some (utf8_replace (take 4096 (concat chunks)))) hs
             (rc_duration_ms clk) (rc_now clk),
           if 200 \<le> code \<and> code < 300 then ''success'' else ''target_error''))"

lemma preview_of_capped:
  "take REPLAY_RESPONSE_BODY_PREVIEW_BYTES (read_capped DEFAULT_MAX_RESPONSE_BYTES [] chunks) = take 4096 (concat chunks)"
  by (simp add: read_capped_take DEFAULT_MAX_RESPONSE_BYTES_def REPLAY_RESPONSE_BODY_PREVIEW_BYTES_def min_def)

lemma replay_attempt_eq:
  assumes "make_validate sv url = Inr v"
  shows "replay_attempt sv clk rid url v (rq_method c) (if ih then strip_captured (rq_headers c) else []) body w =
    (Inr (replay_row clk rid url (sv_http sv (replay_outbound c url ih body))),
     w\<lparr>w_sent := w_sent w @ [replay_outbound c url ih body]\<rparr>)"
  using make_validate_url [OF assms]
  by (auto simp: replay_attempt_def catchA_def bindA_def make_send_def send_target_def Let_def
      replay_outbound_def replay_row_def preview_of_capped split: sum.split prod.split)

lemma replay_authorized_eq:
  assumes "\<not> w_aborted w" and "find_by_token token (w_db w) = Some e"
    and "request_find_by_id rid (w_db w) = Some c" and "rq_endpoint_id c = ep_id e"
    and "fst (load_body sv c w) = Inr b" and "body = (if ib then b else [])"
  shows "replay_request sv clk token rid url ih ib w =
    (if 1048576 < length body then (Inl ReplayPayloadTooLargeError, count_replay ''payload_too_large'' w)
     else case make_validate sv url of
       Inl x \<Rightarrow>
         (case x of
            SsrfBlockedError m \<Rightarrow>
              conclude_replay (replay_failure (rc_id clk) rid url (''SsrfBlockedError: '' @ m)
                (rc_duration_ms clk) (rc_now clk)) ''ssrf_blocked'' w
          | _ \<Rightarrow> (Inl x, w))
     | Inr v \<Rightarrow>
         (case replay_row clk rid url (sv_http sv (replay_outbound c url ih body)) of (r, label) \<Rightarrow>
            conclude_replay r label (w\<lparr>w_sent := w_sent w @ [replay_outbound c url ih body]\<rparr>)))"
proof -
  have auth: "authorize_phase sv token rid w = (Inr \<lparr>as_endpoint = e, as_captured = c, as_body = b\<rparr>, w)"
    using assms(2-5) by (simp add: authorize_phase_eq [OF assms(1)])
  show ?thesis
  proof (cases "make_validate sv url")
    case (Inl x)
    then show ?thesis
      unfolding replay_request_def bindA_step [where m = "authorize_phase sv token rid", OF auth]
      by (cases x) (simp_all add: Let_def assms(6) count_replay_def MAX_REPLAY_BODY_BYTES_def)
  next
    case (Inr v)
    show ?thesis
      unfolding replay_request_def bindA_step [where m = "authorize_phase sv token rid", OF auth]
      using Inr
      by (cases "1048576 < length body") (simp_all add: Let_def assms(6) count_replay_def MAX_REPLAY_BODY_BYTES_def
          bindA_step [where m = "replay_attempt sv clk rid url v (rq_method c)
            (if ih then strip_captured (rq_headers c) else []) body", OF replay_attempt_eq [OF Inr], unfolded assms(6)]
          prod.case_distrib [where h = "\<lambda>f. f _"] case_prod_beta split del: if_split cong: if_cong)
  qed
qed

section \<open>Who may replay what\<close>

lemma conclude_replay_frame:
  assumes "world_ok w" and "conclude_replay r label w = (x, w')"
  shows "world_ok w'" "w_sent w' = w_sent w" "w_jobs w' = w_jobs w"
    "w_db w' = w_db w \<or> w_db w' = (w_db w)\<lparr>db_replays := db_replays (w_db w) @ [r]\<rparr>"
    "x = Inr r \<and> w_db w' = (w_db w)\<lparr>db_replays := db_replays (w_db w) @ [r]\<rparr> \<and>
       w_metrics w' = w_metrics w @ [Replay_attempt label] \<or>
     (\<exists>e. x = Inl e \<and> (e = DataError \<or> e = IntegrityError)) \<and> w_metrics w' = w_metrics w"
proof -
  have ok: "\<not> w_aborted w" "db_ok (w_db w)" using assms(1) by (simp_all add: world_ok_def)
  obtain y w1 where rec: "replay_record_phase r w = (y, w1)" by fastforce
  have "world_ok w' \<and> w_sent w' = w_sent w \<and> w_jobs w' = w_jobs w \<and>
    (w_db w' = w_db w \<or> w_db w' = (w_db w)\<lparr>db_replays := db_replays (w_db w) @ [r]\<rparr>) \<and>
    (x = Inr r \<and> w_db w' = (w_db w)\<lparr>db_replays := db_replays (w_db w) @ [r]\<rparr> \<and>
       w_metrics w' = w_metrics w @ [Replay_attempt label] \<or>
     (\<exists>e. x = Inl e \<and> (e = DataError \<or> e = IntegrityError)) \<and> w_metrics w' = w_metrics w)"
  proof (cases y)
    case (Inl e)
    then have "w1 = w" "e = DataError \<or> e = IntegrityError"
      using replay_record_phase_Inl [OF ok(1)] rec by auto
    moreover have "x = Inl e" "w' = w1"
      using assms(2) rec Inl by (simp_all add: conclude_replay_def bindA_def)
    ultimately show ?thesis using assms(1) by simp
  next
    case (Inr u)
    then obtain d where d: "replay_save r (w_db w) = (Inr (), d)" "w1 = w\<lparr>w_db := d\<rparr>"
      using replay_record_phase_Inr [OF ok(1), of r u w1] rec by auto
    then have "d = (w_db w)\<lparr>db_replays := db_replays (w_db w) @ [r]\<rparr>"
      by (auto simp: replay_save_def split: if_splits)
    moreover have "db_ok d" by (rule replay_save_ok [OF ok(2) d(1)])
    moreover have "x = Inr r" "w' = w1\<lparr>w_metrics := w_metrics w1 @ [Replay_attempt label]\<rparr>"
      using assms(2) rec Inr by (simp_all add: conclude_replay_def bindA_def)
    ultimately show ?thesis using d(2) ok(1) by (simp add: world_ok_def)
  qed
  then show "world_ok w'" "w_sent w' = w_sent w" "w_jobs w' = w_jobs w"
    "w_db w' = w_db w \<or> w_db w' = (w_db w)\<lparr>db_replays := db_replays (w_db w) @ [r]\<rparr>"
    "x = Inr r \<and> w_db w' = (w_db w)\<lparr>db_replays := db_replays (w_db w) @ [r]\<rparr> \<and>
       w_metrics w' = w_metrics w @ [Replay_attempt label] \<or>
     (\<exists>e. x = Inl e \<and> (e = DataError \<or> e = IntegrityError)) \<and> w_metrics w' = w_metrics w"
    by blast+
qed

lemma replay_row_request: "rp_request_id (fst (replay_row clk rid url reply)) = rid"
  by (simp add: replay_row_def replay_failure_def replay_success_def split: sum.split prod.split)

text \<open>How a replay ends: refused, failed before anything was sent, blocked, or sent.\<close>

lemma replay_cases:
  assumes "world_ok w" and "replay_request sv clk token rid url ih ib w = (x, w')"
  obtains (refused) e l where "x = Inl e" "e \<in> {EndpointNotFoundError, RequestNotFoundError}" "w' = count_replay l w"
      "\<not> (\<exists>e c. find_by_token token (w_db w) = Some e \<and> request_find_by_id rid (w_db w) = Some c \<and> rq_endpoint_id c = ep_id e)"
    | (too_large) "x = Inl ReplayPayloadTooLargeError" "w' = count_replay ''payload_too_large'' w"
    | (raised) e where "x = Inl e" "w' = w"
    | (blocked) m where "conclude_replay (replay_failure (rc_id clk) rid url m (rc_duration_ms clk) (rc_now clk))
        ''ssrf_blocked'' w = (x, w')"
    | (sent) e c b v r label where "find_by_token token (w_db w) = Some e"
        "request_find_by_id rid (w_db w) = Some c" "rq_endpoint_id c = ep_id e"
        "fst (load_body sv c w) = Inr b" "length (if ib then b else []) \<le> 1048576"
        "make_validate sv url = Inr v"
        "(r, label) = replay_row clk rid url (sv_http sv (replay_outbound c url ih (if ib then b else [])))"
        "conclude_replay r label (w\<lparr>w_sent := w_sent w @ [replay_outbound c url ih (if ib then b else [])]\<rparr>) = (x, w')"
proof -
  have ok: "\<not> w_aborted w" using assms(1) by (simp add: world_ok_def)
  note auth = authorize_phase_eq [OF ok, of sv token rid]
  show ?thesis
  proof (cases "\<exists>e c. find_by_token token (w_db w) = Some e \<and> request_find_by_id rid (w_db w) = Some c \<and> rq_endpoint_id c = ep_id e")
    case False
    then have "\<exists>e l. authorize_phase sv token rid w = (Inl e, count_replay l w) \<and>
        e \<in> {EndpointNotFoundError, RequestNotFoundError}"
      unfolding auth by (auto split: option.splits)
    then obtain e l where el: "authorize_phase sv token rid w = (Inl e, count_replay l w)"
      "e \<in> {EndpointNotFoundError, RequestNotFoundError}" by blast
    then have "replay_request sv clk token rid url ih ib w = (Inl e, count_replay l w)"
      unfolding replay_request_def by (simp add: bindA_raise [where m = "authorize_phase sv token rid"])
    with assms(2) el(2) False show ?thesis by (intro refused) auto
  next
    case True
    then obtain e c where ec: "find_by_token token (w_db w) = Some e"
      "request_find_by_id rid (w_db w) = Some c" "rq_endpoint_id c = ep_id e" by blast
    show ?thesis
    proof (cases "fst (load_body sv c w)")
      case (Inl y)
      then have "authorize_phase sv token rid w = (Inl y, w)" unfolding auth using ec by simp
      then have "replay_request sv clk token rid url ih ib w = (Inl y, w)"
        unfolding replay_request_def by (simp add: bindA_raise [where m = "authorize_phase sv token rid"])
      with assms(2) show ?thesis by (intro raised) auto
    next
      case (Inr b)
      note eq = replay_authorized_eq [OF ok ec Inr refl, of clk url ih ib, unfolded assms(2)]
      show ?thesis
      proof (cases "1048576 < length (if ib then b else [])")
        case True
        then show ?thesis using eq by (intro too_large) auto
      next
        case small: False
        show ?thesis
        proof (cases "make_validate sv url")
          case (Inl y)
          then show ?thesis
            using eq small raised blocked by (cases y) auto
        next
          case valid: (Inr v)
          obtain r label where rl: "replay_row clk rid url (sv_http sv (replay_outbound c url ih (if ib then b else []))) = (r, label)"
            by fastforce
          show ?thesis
            by (rule sent [OF ec Inr _ valid rl [symmetric]]) (use eq small valid rl in auto)
        qed
      qed
    qed
  qed
qed

text \<open>
  C39. Replays are confined to their owner. Whatever a call of the replay use case does, it sends at
  most one request, and only if the token's endpoint captured the request and the guard admitted the
  URL: then it goes to that URL with the captured method, at most a mebibyte of the captured body (or
  none) and none of the captured headers that must not leak. The database gains at most one row, a
  replay of that request, and keeps its constraints; no job is scheduled.
\<close>

theorem replay_confined:
  assumes "world_ok w" and "replay_request sv clk token rid url ih ib w = (x, w')"
  shows "world_ok w' \<and> w_jobs w' = w_jobs w \<and>
    (w_db w' = w_db w \<or> (\<exists>r. rp_request_id r = rid \<and> replay_outcome_xor r \<and>
       w_db w' = (w_db w)\<lparr>db_replays := db_replays (w_db w) @ [r]\<rparr>)) \<and>
    (w_sent w' = w_sent w \<or> (\<exists>e c v ob. find_by_token token (w_db w) = Some e \<and>
       request_find_by_id rid (w_db w) = Some c \<and> rq_endpoint_id c = ep_id e \<and>
       make_validate sv url = Inr v \<and> w_sent w' = w_sent w @ [ob] \<and> ob_url ob = url \<and>
       ob_method ob = rq_method c \<and> length (ob_body ob) \<le> 1048576 \<and>
       (ob_body ob = [] \<or> load_body sv c w = (Inr (ob_body ob), w)) \<and>
       (\<forall>k \<in> fst ` set (ob_headers ob). k \<in> fst ` set (rq_headers c) \<and>
          str_lower k \<notin> set HEADERS_TO_STRIP_FROM_CAPTURED)))"
  using assms
proof (cases rule: replay_cases)
  case (refused e l)
  then show ?thesis using assms(1) by simp
next
  case too_large
  then show ?thesis using assms(1) by simp
next
  case (raised e)
  then show ?thesis using assms(1) by simp
next
  case (blocked m)
  note F = conclude_replay_frame [OF assms(1) blocked]
  let ?r = "replay_failure (rc_id clk) rid url m (rc_duration_ms clk) (rc_now clk)"
  have "rp_request_id ?r = rid" "replay_outcome_xor ?r" by (simp_all add: replay_failure_def replay_outcome_xor_def)
  then show ?thesis using F by blast
next
  case (sent e c b v r label)
  let ?body = "if ib then b else []"
  let ?ob = "replay_outbound c url ih ?body"
  have ok1: "world_ok (w\<lparr>w_sent := w_sent w @ [?ob]\<rparr>)" using assms(1) by (simp add: world_ok_def)
  note F = conclude_replay_frame [OF ok1 sent(8)]
  have r: "rp_request_id r = rid" "replay_outcome_xor r"
    using replay_row_request [of clk rid url "sv_http sv ?ob"] sent(7)
    by (auto simp: replay_row_def replay_failure_def replay_success_def replay_outcome_xor_def
        split: sum.splits prod.splits)
  have load: "load_body sv c w = (Inr b, w)"
    using sent(4) load_body_world [of sv c w] by (cases "load_body sv c w") auto
  have ob: "ob_url ?ob = url" "ob_method ?ob = rq_method c" "ob_body ?ob = ?body"
    "\<forall>k \<in> fst ` set (ob_headers ?ob). k \<in> fst ` set (rq_headers c) \<and> str_lower k \<notin> set HEADERS_TO_STRIP_FROM_CAPTURED"
    by (auto simp: replay_outbound_def strip_captured_def dict_filter_def)
  have db: "w_db w' = w_db w \<or> (\<exists>r. rp_request_id r = rid \<and> replay_outcome_xor r \<and>
       w_db w' = (w_db w)\<lparr>db_replays := db_replays (w_db w) @ [r]\<rparr>)"
    using F(4) r by auto
  have body: "w_sent w' = w_sent w @ [?ob]" "length (ob_body ?ob) \<le> 1048576"
    "ob_body ?ob = [] \<or> load_body sv c w = (Inr (ob_body ?ob), w)"
    using F(2) sent(5) load ob(3) by auto
  have jobs: "w_jobs w' = w_jobs w" using F(3) by simp
  have "\<exists>e c v ob. find_by_token token (w_db w) = Some e \<and>
       request_find_by_id rid (w_db w) = Some c \<and> rq_endpoint_id c = ep_id e \<and>
       make_validate sv url = Inr v \<and> w_sent w' = w_sent w @ [ob] \<and> ob_url ob = url \<and>
       ob_method ob = rq_method c \<and> length (ob_body ob) \<le> 1048576 \<and>
       (ob_body ob = [] \<or> load_body sv c w = (Inr (ob_body ob), w)) \<and>
       (\<forall>k \<in> fst ` set (ob_headers ob). k \<in> fst ` set (rq_headers c) \<and>
          str_lower k \<notin> set HEADERS_TO_STRIP_FROM_CAPTURED)"
    by (rule exI [of _ e], rule exI [of _ c], rule exI [of _ v], rule exI [of _ ?ob])
      (intro conjI sent(1-3,6) body ob(1,2,4))
  then show ?thesis by (intro conjI F(1) jobs db) (rule disjI2)
qed

text \<open>
  A replay that is allowed is carried out and recorded: for the owner's request with a body within
  the limit, an admitted URL and a fresh identifier, the request is sent and the call returns the row
  it stored - the status, the headers and the first four kibibytes of the answer as text, or the
  client's error - and counts one attempt under the label of the outcome, provided that the texts of
  the answer contain no NUL character.
\<close>

lemma replay_recorded:
  assumes "world_ok w" and "find_by_token token (w_db w) = Some e"
    and "request_find_by_id rid (w_db w) = Some c" and "rq_endpoint_id c = ep_id e"
    and "load_body sv c w = (Inr b, w)" and "body = (if ib then b else [])" and "length body \<le> 1048576"
    and "make_validate sv url = Inr v" and "ob = replay_outbound c url ih body"
    and "replay_row clk rid url (sv_http sv ob) = (r, label)"
    and "rc_id clk \<notin> rp_id ` set (db_replays (w_db w))" and "list_all text_ok (replay_texts r)"
  shows "\<exists>w'. replay_request sv clk token rid url ih ib w = (Inr r, w') \<and> world_ok w' \<and>
    w_sent w' = w_sent w @ [ob] \<and> w_metrics w' = w_metrics w @ [Replay_attempt label] \<and>
    w_db w' = (w_db w)\<lparr>db_replays := db_replays (w_db w) @ [r]\<rparr> \<and>
    (case sv_http sv ob of
       Inl m \<Rightarrow> rp_error r = Some m \<and> rp_status_code r = None
     | Inr (code, hs, chunks) \<Rightarrow> rp_error r = None \<and> rp_status_code r = Some code \<and>
         rp_response_headers r = Some hs \<and>
         rp_response_body_preview r = Some (utf8_replace (take 4096 (concat chunks))))"
proof -
  have ok: "\<not> w_aborted w" "db_ok (w_db w)" using assms(1) by (simp_all add: world_ok_def)
  let ?w1 = "w\<lparr>w_sent := w_sent w @ [ob]\<rparr>"
  have ok1: "world_ok ?w1" using assms(1) by (simp add: world_ok_def)
  have b: "fst (load_body sv c w) = Inr b" using assms(5) by simp
  have run: "replay_request sv clk token rid url ih ib w = conclude_replay r label ?w1"
    using replay_authorized_eq [OF ok(1) assms(2-4) b assms(6), of clk url ih] assms(7-10) by simp
  have c: "c \<in> set (db_requests (w_db w))" "rq_id c = rid"
    using assms(3) lookup_row_SomeD [of rq_id rid "db_requests (w_db w)" c] by (simp_all add: request_find_eq)
  then have known: "rid \<in> request_ids (w_db w)" by blast
  have row: "rp_id r = rc_id clk" "rp_request_id r = rid" "replay_outcome_xor r"
    using assms(10) by (auto simp: replay_row_def replay_failure_def replay_success_def replay_outcome_xor_def
        split: sum.splits prod.splits)
  have save: "replay_save r (w_db ?w1) = (Inr (), (w_db w)\<lparr>db_replays := db_replays (w_db w) @ [r]\<rparr>)"
    using row known assms(11,12) by (simp add: replay_save_def)
  let ?w2 = "?w1\<lparr>w_db := (w_db w)\<lparr>db_replays := db_replays (w_db w) @ [r]\<rparr>\<rparr>"
  have rec: "replay_record_phase r ?w1 = (Inr (), ?w2)"
    using replay_record_phase_Inr [of ?w1 r "()" ?w2] ok(1) save by simp
  have conc: "conclude_replay r label ?w1 = (Inr r, ?w2\<lparr>w_metrics := w_metrics w @ [Replay_attempt label]\<rparr>)"
    by (simp add: conclude_replay_def bindA_step [where m = "replay_record_phase r", OF rec])
  have spec: "case sv_http sv ob of
       Inl m \<Rightarrow> rp_error r = Some m \<and> rp_status_code r = None
     | Inr (code, hs, chunks) \<Rightarrow> rp_error r = None \<and> rp_status_code r = Some code \<and>
         rp_response_headers r = Some hs \<and>
         rp_response_body_preview r = Some (utf8_replace (take 4096 (concat chunks)))"
    using assms(10) by (auto simp: replay_row_def replay_failure_def replay_success_def split: sum.splits)
  show ?thesis
    using conc spec conclude_replay_frame(1) [OF ok1 conc] by (simp add: run)
qed

text \<open>
  A refused replay is counted once and does nothing else, and it does not tell a request that does
  not exist from one that another endpoint captured: with a valid token both give the same error and
  the same world.
\<close>

lemma replay_refused:
  assumes "world_ok w" and "find_by_token token (w_db w) = Some e"
    and "\<And>c. request_find_by_id rid (w_db w) = Some c \<Longrightarrow> rq_endpoint_id c \<noteq> ep_id e"
  shows "replay_request sv clk token rid url ih ib w =
    (Inl RequestNotFoundError, w\<lparr>w_metrics := w_metrics w @ [Replay_attempt ''request_not_found'']\<rparr>)"
proof -
  have ok: "\<not> w_aborted w" using assms(1) by (simp add: world_ok_def)
  have "authorize_phase sv token rid w = (Inl RequestNotFoundError, count_replay ''request_not_found'' w)"
    unfolding authorize_phase_eq [OF ok] using assms(2,3) by (auto split: option.split)
  from bindA_raise [where m = "authorize_phase sv token rid", OF this] show ?thesis
    by (simp add: replay_request_def count_replay_def)
qed

section \<open>A concrete replay\<close>

definition replay_demo_request :: captured_request where
  "replay_demo_request = \<lparr>rq_id = 2, rq_endpoint_id = 1, rq_method = ''POST'', rq_path = ''/x'',
     rq_query_string = None, rq_headers = [(''cookie'', ''a''), (''accept'', ''b'')],
     rq_body_preview = Some ''hello'', rq_body_size = 5, rq_blob_key = None, rq_source_ip = ''1.2.3.4'',
     rq_received_at = 10, rq_signature_status = Some ''no_provider'', rq_detected_integration = None,
     rq_detected_event_type = None\<rparr>"

definition replay_world :: world where
  "replay_world = new_world (demo_db\<lparr>db_requests := [replay_demo_request]\<rparr>)"

definition replay_demo_clock :: replay_clock where
  "replay_demo_clock = \<lparr>rc_id = 7, rc_now = 30, rc_duration_ms = 12\<rparr>"

definition replay_demo_url :: string where
  "replay_demo_url = ''https://example.com/again''"

lemma replay_world_facts:
  "world_ok replay_world" "find_by_token ''tok'' (w_db replay_world) = Some demo_endpoint"
  "request_find_by_id 2 (w_db replay_world) = Some replay_demo_request"
  "rq_endpoint_id replay_demo_request = ep_id demo_endpoint"
  "load_body sv replay_demo_request replay_world = (Inr ''hello'', replay_world)"
  "db_replays (w_db replay_world) = []"
  by (simp_all add: world_ok_def replay_world_def demo_db_def empty_db_def db_ok_defs key_ok_def
      replay_demo_request_def demo_endpoint_def flag_reason_check_def integration_check_def new_world_def
      find_by_token_eq request_find_eq load_body_def)

lemma replay_target:
  "make_validate demo_services replay_demo_url =
     Inr \<lparr>vt_url = replay_demo_url, vt_host = ''example.com'', vt_port = 443, vt_ip = ''93.184.216.34''\<rparr>"
  by code_simp

theorem replay_confined_witness:
  "\<exists>x w'. replay_request demo_services replay_demo_clock ''tok'' 2 replay_demo_url True True replay_world = (x, w') \<and>
     world_ok w' \<and> w_jobs w' = []"
proof -
  obtain x w' where run: "replay_request demo_services replay_demo_clock ''tok'' 2 replay_demo_url True True replay_world = (x, w')"
    by fastforce
  from replay_confined [OF replay_world_facts(1) run] run show ?thesis
    by (auto simp: replay_world_def new_world_def)
qed

lemma replay_recorded_witness:
  "\<exists>r w'. replay_request demo_services replay_demo_clock ''tok'' 2 replay_demo_url True True replay_world = (Inr r, w') \<and>
     rp_status_code r = Some 200 \<and> rp_response_body_preview r = Some ''ok'' \<and>
     w_metrics w' = [Replay_attempt ''success'']"
proof -
  let ?ob = "replay_outbound replay_demo_request replay_demo_url True ''hello''"
  have http: "sv_http demo_services ?ob = Inr (200, [], [''ok''])" by (simp add: demo_services_def)
  have ascii: "utf8_replace ''ok'' = ''ok''" by code_simp
  let ?r = "replay_success 7 2 replay_demo_url 200 (Some ''ok'') [] 12 30"
  have row: "replay_row replay_demo_clock 2 replay_demo_url (sv_http demo_services ?ob) = (?r, ''success'')"
    unfolding http by (simp add: replay_row_def replay_demo_clock_def ascii)
  have texts: "list_all text_ok (replay_texts ?r)" by code_simp
  have start: "w_metrics replay_world = []" by (simp add: replay_world_def new_world_def)
  show ?thesis
    using replay_recorded [OF replay_world_facts(1-5) _ _ replay_target refl row _ texts, of True]
      replay_world_facts(6) http start ascii by auto
qed

end
