(* ===== verification/Abuse_Scan.thy ===== *)
theory Abuse_Scan
  imports World
begin

text \<open>
  The daily abuse scan (\<open>jobs/abuse_scan.py\<close>, \<open>domain/services/phishing_heuristic.py\<close>,
  \<open>infrastructure/notifications/discord_webhook.py\<close>): count per endpoint the form-like requests
  and the successful forwards of the last day, flag the endpoints that only collect, and post
  their list. The HTTP client of the alert is a parameter.
\<close>

section \<open>The heuristic\<close>

definition MIN_SUSPICIOUS_POSTS :: int where
  "MIN_SUSPICIOUS_POSTS = 20"

record phishing_signal =
  ps_endpoint_id :: uuid
  ps_post_count_24h :: int
  ps_forward_succeeded_count_24h :: int

definition is_suspicious :: "phishing_signal \<Rightarrow> bool" where
  "is_suspicious s \<longleftrightarrow> MIN_SUSPICIOUS_POSTS \<le> ps_post_count_24h s \<and> ps_forward_succeeded_count_24h s = 0"

section \<open>The scan\<close>

text \<open>
  The query: two grouped counts, joined to the endpoints that are not flagged yet. A row of a
  grouped count exists only for an endpoint that has rows; \<open>COALESCE\<close> fills in the zero.
\<close>

definition group_count :: "('r \<Rightarrow> uuid) \<Rightarrow> 'r list \<Rightarrow> (uuid \<times> int) list" where
  "group_count key rows = map (\<lambda>k. (k, int (length (filter (\<lambda>r. key r = k) rows)))) (remdups (map key rows))"

definition post_counts :: "time \<Rightarrow> db \<Rightarrow> (uuid \<times> int) list" where
  "post_counts cutoff d = group_count rq_endpoint_id
     (filter (\<lambda>r. cutoff < rq_received_at r \<and> rq_method r \<in> {''POST'', ''PUT'', ''PATCH''}) (db_requests d))"

definition forward_ok_counts :: "time \<Rightarrow> db \<Rightarrow> (uuid \<times> int) list" where
  "forward_ok_counts cutoff d = group_count fw_endpoint_id
     (filter (\<lambda>f. null_gt (fw_completed_at f) cutoff \<and> fw_status f = Succeeded) (db_forwards d))"

definition coalesce :: "(uuid \<times> int) list \<Rightarrow> uuid \<Rightarrow> int" where
  "coalesce counts k = (case map_of counts k of None \<Rightarrow> 0 | Some n \<Rightarrow> n)"

definition scan_rows :: "time \<Rightarrow> db \<Rightarrow> phishing_signal list" where
  "scan_rows cutoff d =
     (let p = coalesce (post_counts cutoff d); f = coalesce (forward_ok_counts cutoff d)
      in map (\<lambda>e. \<lparr>ps_endpoint_id = ep_id e, ps_post_count_24h = p (ep_id e),
             ps_forward_succeeded_count_24h = f (ep_id e)\<rparr>)
           (filter (\<lambda>e. ep_flagged_at e = None \<and> MIN_SUSPICIOUS_POSTS \<le> p (ep_id e)) (db_endpoints d)))"

definition set_flagged :: "time \<Rightarrow> endpoint \<Rightarrow> endpoint" where
  "set_flagged now e = e\<lparr>ep_flagged_at := Some now, ep_flag_reason := Some FLAG_REASON_PHISHING\<rparr>"

definition flag_endpoint :: "time \<Rightarrow> uuid \<Rightarrow> db \<Rightarrow> db" where
  "flag_endpoint now i d = d\<lparr>db_endpoints := sql_update (\<lambda>e. ep_id e = i) (set_flagged now) (db_endpoints d)\<rparr>"

text \<open>The loop over the rows of the query: flag, and remember, what is suspicious.\<close>

fun flag_each :: "time \<Rightarrow> phishing_signal list \<Rightarrow> db \<Rightarrow> phishing_signal list \<times> db" where
  "flag_each now [] d = ([], d)"
| "flag_each now (s # ss) d =
     (if is_suspicious s
      then (case flag_each now ss (flag_endpoint now (ps_endpoint_id s) d) of (found, d') \<Rightarrow> (s # found, d'))
      else flag_each now ss d)"

text \<open>
  The alert. \<open>client_post\<close> stands for \<open>httpx.AsyncClient.post(url, json=...)\<close>; a message is cut to
  two thousand characters.
\<close>

type_synonym json_post = "string \<Rightarrow> (string \<times> string) list \<Rightarrow> unit act"

definition post_discord_alert :: "json_post \<Rightarrow> string \<Rightarrow> string \<Rightarrow> unit act" where
  "post_discord_alert client_post webhook_url message =
     client_post webhook_url [(''content'', concat (take 2000 (str_chars message)))]"

definition alert_line :: "phishing_signal \<Rightarrow> string" where
  "alert_line s = ''- endpoint '' @ uuid_str (ps_endpoint_id s) @ '': '' @ str_int (ps_post_count_24h s) @
     '' POSTs, '' @ str_int (ps_forward_succeeded_count_24h s) @ '' successful forwards (phishing suspicion)''"

fun join_lines :: "string list \<Rightarrow> string" where
  "join_lines [] = []"
| "join_lines [l] = l"
| "join_lines (l # ls) = l @ [CHR 0x0A] @ join_lines ls"

definition alert_message :: "phishing_signal list \<Rightarrow> string" where
  "alert_message suspicious = ''**Abuse scan '' @ [CHR 0xE2, CHR 0x80, CHR 0x94] @ '' '' @
     str_int (int (length suspicious)) @ '' endpoint(s) flagged:**'' @ [CHR 0x0A] @
     join_lines (map alert_line suspicious)"

text \<open>
  \<open>now\<close> is the clock of the worker, \<open>db_now\<close> the \<open>NOW()\<close> of the transaction. The post is
  best effort: an exception of it is logged.
\<close>

definition run_abuse_scan ::
  "json_post \<Rightarrow> string option \<Rightarrow> time \<Rightarrow> time \<Rightarrow> int act" where
  "run_abuse_scan client_post abuse_webhook_url now db_now =
     (let cutoff = now - seconds (24 * 3600) in
      bindA (with_session
        (bindA (read_db (scan_rows cutoff)) (\<lambda>rows. run_db (flag_each db_now rows)))) (\<lambda>suspicious.
      bindA (if suspicious \<noteq> [] \<and> \<not> falsy abuse_webhook_url
             then catchA (post_discord_alert client_post (the abuse_webhook_url) (alert_message suspicious))
                    (\<lambda>e. ret ())
             else ret ()) (\<lambda>_.
      ret (int (length suspicious)))))"

section \<open>The counts are exact\<close>

lemma coalesce_group_count:
  "coalesce (group_count key rows) k = int (length (filter (\<lambda>r. key r = k) rows))"
proof -
  have "map_of (map (\<lambda>k. (k, g k)) xs) k = (if k \<in> set xs then Some (g k) else None)"
    for g :: "uuid \<Rightarrow> int" and xs
    by (induction xs) auto
  moreover have "k \<notin> set (remdups (map key rows)) \<Longrightarrow> filter (\<lambda>r. key r = k) rows = []"
    by (auto simp: filter_empty_conv)
  ultimately show ?thesis by (simp add: coalesce_def group_count_def split: option.splits)
qed

definition day_posts :: "time \<Rightarrow> db \<Rightarrow> uuid \<Rightarrow> nat" where
  "day_posts cutoff d i = length (filter (\<lambda>r. rq_endpoint_id r = i \<and> cutoff < rq_received_at r \<and>
     rq_method r \<in> {''POST'', ''PUT'', ''PATCH''}) (db_requests d))"

definition day_successes :: "time \<Rightarrow> db \<Rightarrow> uuid \<Rightarrow> nat" where
  "day_successes cutoff d i = length (filter (\<lambda>f. fw_endpoint_id f = i \<and> null_gt (fw_completed_at f) cutoff \<and>
     fw_status f = Succeeded) (db_forwards d))"

text \<open>An endpoint the scan has to flag.\<close>

definition collects_only :: "time \<Rightarrow> db \<Rightarrow> endpoint \<Rightarrow> bool" where
  "collects_only cutoff d e \<longleftrightarrow> ep_flagged_at e = None \<and> 20 \<le> day_posts cutoff d (ep_id e) \<and>
     day_successes cutoff d (ep_id e) = 0"

lemma coalesce_counts:
  "coalesce (post_counts cutoff d) i = int (day_posts cutoff d i)"
  "coalesce (forward_ok_counts cutoff d) i = int (day_successes cutoff d i)"
  by (simp_all only: post_counts_def forward_ok_counts_def coalesce_group_count filter_filter
      day_posts_def day_successes_def conj_commute conj_left_commute conj_assoc)

lemma suspicious_rows:
  "filter is_suspicious (scan_rows cutoff d) = map (\<lambda>e. \<lparr>ps_endpoint_id = ep_id e,
     ps_post_count_24h = int (day_posts cutoff d (ep_id e)), ps_forward_succeeded_count_24h = 0\<rparr>)
     (filter (collects_only cutoff d) (db_endpoints d))"
proof -
  have pick: "filter is_suspicious (map f (filter p xs)) = map g (filter q xs)"
    if "\<And>x. q x \<longleftrightarrow> p x \<and> is_suspicious (f x)" "\<And>x. q x \<Longrightarrow> f x = g x" for f g p q and xs :: "endpoint list"
    using that by (induction xs) auto
  show ?thesis
    unfolding scan_rows_def Let_def coalesce_counts
    by (rule pick) (auto simp: collects_only_def is_suspicious_def MIN_SUSPICIOUS_POSTS_def)
qed

lemma flag_each_eq:
  "flag_each now ss d = (filter is_suspicious ss, d\<lparr>db_endpoints := map
     (\<lambda>e. if ep_id e \<in> ps_endpoint_id ` set (filter is_suspicious ss) then set_flagged now e else e) (db_endpoints d)\<rparr>)"
proof (induction ss arbitrary: d)
  case (Cons s ss)
  have "ep_id (set_flagged now e) = ep_id e" "set_flagged now (set_flagged now e) = set_flagged now e" for e
    by (simp_all add: set_flagged_def)
  then show ?case
    by (auto simp: Cons.IH flag_endpoint_def sql_update_def)
qed simp
text \<open>The transaction of the scan, and the whole job for any client that leaves the database alone.\<close>

lemma scan_transaction:
  assumes "\<not> w_aborted w"
  shows "with_session (bindA (read_db (scan_rows cutoff)) (\<lambda>rows. run_db (flag_each db_now rows))) w =
    (Inr (filter is_suspicious (scan_rows cutoff (w_db w))), w\<lparr>w_db := (w_db w)\<lparr>db_endpoints :=
       map (\<lambda>e. if ep_id e \<in> ep_id ` set (filter (collects_only cutoff (w_db w)) (db_endpoints (w_db w)))
            then set_flagged db_now e else e) (db_endpoints (w_db w))\<rparr>\<rparr>)"
proof -
  have "ps_endpoint_id ` set (filter is_suspicious (scan_rows cutoff (w_db w))) =
      ep_id ` set (filter (collects_only cutoff (w_db w)) (db_endpoints (w_db w)))"
    unfolding suspicious_rows set_map image_image by simp
  then show ?thesis using assms by (simp add: with_session_def flag_each_eq)
qed

lemma flagged_rows:
  assumes "key_ok ep_id es"
  shows "map (\<lambda>e. if ep_id e \<in> ep_id ` set (filter p es) then f e else e) es = map (\<lambda>e. if p e then f e else e) es"
  using assms by (intro map_cong refl) (auto simp: key_ok_def distinct_map inj_on_def)

lemma db_ok_flagged:
  assumes "db_ok d"
  shows "db_ok (d\<lparr>db_endpoints := map (\<lambda>e. if p e then set_flagged t e else e) (db_endpoints d)\<rparr>)"
proof -
  have "db_ok (d\<lparr>db_endpoints := sql_update p (set_flagged t) (db_endpoints d)\<rparr>)"
    by (rule db_ok_update_endpoints [OF assms])
      (simp_all add: set_flagged_def flag_reason_check_def FLAG_REASONS_def)
  then show ?thesis by (simp add: sql_update_def)
qed

definition scanned_db :: "time \<Rightarrow> time \<Rightarrow> db \<Rightarrow> db" where
  "scanned_db cutoff db_now d = d\<lparr>db_endpoints :=
     map (\<lambda>e. if collects_only cutoff d e then set_flagged db_now e else e) (db_endpoints d)\<rparr>"

lemma scan_eq:
  assumes "db_ok (w_db w)" and "\<not> w_aborted w"
    and "\<And>u msg v. \<exists>r v'. client_post u msg v = (r, v') \<and> w_db v' = w_db v \<and> w_aborted v' = w_aborted v"
  shows "\<exists>w'. run_abuse_scan client_post url now db_now w =
      (Inr (int (length (filter (collects_only (now - seconds 86400) (w_db w)) (db_endpoints (w_db w))))), w') \<and>
    w_db w' = scanned_db (now - seconds 86400) db_now (w_db w) \<and> \<not> w_aborted w'"
proof -
  let ?cut = "now - seconds 86400"
  let ?found = "filter is_suspicious (scan_rows ?cut (w_db w))"
  let ?w1 = "w\<lparr>w_db := scanned_db ?cut db_now (w_db w)\<rparr>"
  have keys: "key_ok ep_id (db_endpoints (w_db w))" using assms(1) by (simp add: db_ok_defs)
  have tx: "with_session (bindA (read_db (scan_rows ?cut)) (\<lambda>rows. run_db (flag_each db_now rows))) w = (Inr ?found, ?w1)"
    unfolding scan_transaction [OF assms(2)] flagged_rows [OF keys] scanned_db_def ..
  have n: "length ?found = length (filter (collects_only ?cut (w_db w)) (db_endpoints (w_db w)))"
    by (simp add: suspicious_rows)
  obtain r v where post: "post_discord_alert client_post (the url) (alert_message ?found) ?w1 = (r, v)"
    "w_db v = w_db ?w1" "w_aborted v = w_aborted ?w1"
    using assms(3) unfolding post_discord_alert_def by blast
  have alert: "\<exists>v'. (if ?found \<noteq> [] \<and> \<not> falsy url
        then catchA (post_discord_alert client_post (the url) (alert_message ?found)) (\<lambda>e. ret ()) else ret ()) ?w1 =
      (Inr (), v') \<and> w_db v' = w_db ?w1 \<and> \<not> w_aborted v'"
    using post assms(2) by (auto simp: catchA_def split: sum.split)
  then obtain v' where v': "(if ?found \<noteq> [] \<and> \<not> falsy url
        then catchA (post_discord_alert client_post (the url) (alert_message ?found)) (\<lambda>e. ret ()) else ret ()) ?w1 =
      (Inr (), v')" "w_db v' = w_db ?w1" "\<not> w_aborted v'" by blast
  show ?thesis
    using v' n by (intro exI [of _ v']) (simp add: run_abuse_scan_def Let_def bindA_def [of "with_session _"] tx bindA_def)
qed

text \<open>
  C31. The abuse scan flags exactly the endpoints that only collect: those not flagged before, with at
  least twenty POST, PUT or PATCH requests and no successful forward in the last day, each counted
  once whatever the number of rows on the other side. It gives them the reason of the heuristic and
  the time of the transaction, leaves every other endpoint and table as it is, returns their number,
  keeps the constraints, and does all this also when the alert cannot be posted; a second scan over
  the same day flags nothing.
\<close>

theorem abuse_scan_exact:
  assumes "db_ok (w_db w)" and "\<not> w_aborted w"
    and "\<And>u msg v. \<exists>r v'. client_post u msg v = (r, v') \<and> w_db v' = w_db v \<and> w_aborted v' = w_aborted v"
    and "suspect = (\<lambda>e. ep_flagged_at e = None \<and>
      20 \<le> length (filter (\<lambda>r. rq_endpoint_id r = ep_id e \<and> now - seconds 86400 < rq_received_at r \<and>
        rq_method r \<in> {''POST'', ''PUT'', ''PATCH''}) (db_requests (w_db w))) \<and>
      (\<forall>f \<in> set (db_forwards (w_db w)). fw_endpoint_id f = ep_id e \<and> fw_status f = Succeeded \<longrightarrow>
        \<not> null_gt (fw_completed_at f) (now - seconds 86400)))"
  shows "\<exists>w'. run_abuse_scan client_post url now db_now w =
      (Inr (int (length (filter suspect (db_endpoints (w_db w))))), w') \<and>
    w_db w' = (w_db w)\<lparr>db_endpoints := map (\<lambda>e. if suspect e
        then e\<lparr>ep_flagged_at := Some db_now, ep_flag_reason := Some ''phishing_no_forward''\<rparr> else e)
      (db_endpoints (w_db w))\<rparr> \<and>
    db_ok (w_db w') \<and>
    (\<exists>w''. run_abuse_scan client_post url now db_now w' = (Inr 0, w'') \<and> w_db w'' = w_db w')"
proof -
  let ?cut = "now - seconds 86400"
  have suspect: "suspect = collects_only ?cut (w_db w)"
    unfolding assms(4) collects_only_def day_posts_def day_successes_def
    by (rule ext) (auto simp: filter_empty_conv)
  obtain w' where w': "run_abuse_scan client_post url now db_now w =
      (Inr (int (length (filter suspect (db_endpoints (w_db w))))), w')"
    "w_db w' = scanned_db ?cut db_now (w_db w)" "\<not> w_aborted w'"
    using scan_eq [of w client_post url now db_now, OF assms(1,2,3)] unfolding suspect by blast
  have ok: "db_ok (w_db w')" unfolding w'(2) scanned_db_def by (rule db_ok_flagged [OF assms(1)])
  have none: "\<not> collects_only ?cut (w_db w') e" if row: "e \<in> set (db_endpoints (w_db w'))" for e
  proof -
    have "collects_only ?cut (w_db w') e = collects_only ?cut (w_db w) e"
      by (simp add: collects_only_def day_posts_def day_successes_def w'(2) scanned_db_def)
    moreover have "\<not> collects_only ?cut (w_db w) (set_flagged db_now x)" for x
      by (simp add: collects_only_def set_flagged_def)
    ultimately show ?thesis using row by (auto simp: w'(2) scanned_db_def)
  qed
  then have zero: "filter (collects_only ?cut (w_db w')) (db_endpoints (w_db w')) = []"
    by (simp add: filter_empty_conv)
  have same: "scanned_db ?cut db_now (w_db w') = w_db w'"
    unfolding scanned_db_def using none by (simp add: map_idI)
  obtain w'' where w'': "run_abuse_scan client_post url now db_now w' = (Inr 0, w'')" "w_db w'' = w_db w'"
    using scan_eq [of w' client_post url now db_now, OF ok w'(3) assms(3)] unfolding zero same by auto
  have shape: "w_db w' = (w_db w)\<lparr>db_endpoints := map (\<lambda>e. if suspect e
        then e\<lparr>ep_flagged_at := Some db_now, ep_flag_reason := Some ''phishing_no_forward''\<rparr> else e)
      (db_endpoints (w_db w))\<rparr>"
    unfolding w'(2) scanned_db_def suspect set_flagged_def FLAG_REASON_PHISHING_def ..
  show ?thesis
    by (rule exI [of _ w']) (use w'(1) shape ok w'' in blast)
qed

section \<open>A concrete scan\<close>

text \<open>An endpoint with twenty-one posts and another one with two; the alert cannot be posted.\<close>

definition scan_request :: "uuid \<Rightarrow> uuid \<Rightarrow> captured_request" where
  "scan_request eid i = \<lparr>rq_id = i, rq_endpoint_id = eid, rq_method = ''POST'', rq_path = ''/h/x'',
     rq_query_string = None, rq_headers = [], rq_body_preview = None, rq_body_size = 0, rq_blob_key = None,
     rq_source_ip = ''1.2.3.4'', rq_received_at = 1000, rq_signature_status = None,
     rq_detected_integration = None, rq_detected_event_type = None\<rparr>"

definition scan_db :: db where
  "scan_db = empty_db\<lparr>db_endpoints := [demo_endpoint, demo_endpoint\<lparr>ep_id := 2, ep_token := ''other''\<rparr>],
     db_requests := map (scan_request 1 \<circ> word_of_nat) [0..<21] @ map (scan_request 2 \<circ> word_of_nat) [21..<23]\<rparr>"

lemma scan_db_ok: "db_ok scan_db"
  unfolding scan_db_def by code_simp

definition scan_suspect :: "endpoint \<Rightarrow> bool" where
  "scan_suspect e \<longleftrightarrow> ep_flagged_at e = None \<and>
      20 \<le> length (filter (\<lambda>r. rq_endpoint_id r = ep_id e \<and> 2000 - seconds 86400 < rq_received_at r \<and>
        rq_method r \<in> {''POST'', ''PUT'', ''PATCH''}) (db_requests scan_db)) \<and>
      (\<forall>f \<in> set (db_forwards scan_db). fw_endpoint_id f = ep_id e \<and> fw_status f = Succeeded \<longrightarrow>
        \<not> null_gt (fw_completed_at f) (2000 - seconds 86400))"

lemma scan_picked:
  "map scan_suspect [demo_endpoint, demo_endpoint\<lparr>ep_id := 2, ep_token := ''other''\<rparr>] = [True, False]"
  unfolding scan_suspect_def scan_db_def by code_simp

theorem abuse_scan_exact_witness:
  "\<exists>w'. run_abuse_scan (\<lambda>u m. fail TimeoutError) (Some ''https://discord.test/x'') 2000 2001 (new_world scan_db) = (Inr 1, w') \<and>
     map ep_flag_reason (db_endpoints (w_db w')) = [Some ''phishing_no_forward'', None] \<and> db_ok (w_db w')"
proof -
  have es: "db_endpoints scan_db = [demo_endpoint, demo_endpoint\<lparr>ep_id := 2, ep_token := ''other''\<rparr>]"
    by (simp add: scan_db_def)
  have fields: "ep_flag_reason demo_endpoint = None" by (simp add: demo_endpoint_def)
  have hyps: "db_ok (w_db (new_world scan_db))" "\<not> w_aborted (new_world scan_db)"
    "\<exists>r v'. fail TimeoutError v = (r, v') \<and> w_db v' = w_db v \<and> w_aborted v' = w_aborted v"
    "scan_suspect = (\<lambda>e. ep_flagged_at e = None \<and>
      20 \<le> length (filter (\<lambda>r. rq_endpoint_id r = ep_id e \<and> 2000 - seconds 86400 < rq_received_at r \<and>
        rq_method r \<in> {''POST'', ''PUT'', ''PATCH''}) (db_requests (w_db (new_world scan_db)))) \<and>
      (\<forall>f \<in> set (db_forwards (w_db (new_world scan_db))). fw_endpoint_id f = ep_id e \<and> fw_status f = Succeeded \<longrightarrow>
        \<not> null_gt (fw_completed_at f) (2000 - seconds 86400)))" for v
    unfolding demo_world_db by (simp_all only: scan_db_ok scan_suspect_def [abs_def]) (simp_all add: new_world_def)
  have picks: "scan_suspect demo_endpoint" "\<not> scan_suspect (demo_endpoint\<lparr>ep_id := 2, ep_token := ''other''\<rparr>)"
    using scan_picked by simp_all
  show ?thesis
    using abuse_scan_exact [of _ "\<lambda>u m. fail TimeoutError", OF hyps(1,2) hyps(3) hyps(4), of "Some ''https://discord.test/x''" 2001]
    unfolding demo_world_db es by (auto simp: fields picks)
qed

end
