(* ===== verification/System_Runs.thy ===== *)
theory System_Runs
  imports Lifecycle Dlq Replaying Abuse_Scan
begin

text \<open>
  The processes together: the ingestor captures, any number of workers run attempts, the owners
  operate the dead letter page, the cleaner and the abuse scan run, in any interleaving at the
  transaction boundaries of the code. A worker holds no transaction while it sends, so an attempt
  is three steps - claim, send, record - and it may stop between them.
\<close>

section \<open>The system\<close>

datatype attempt =
    Claimed claimed_state
  | Answered_by claimed_state http_result

fun attempt_state :: "attempt \<Rightarrow> claimed_state" where
  "attempt_state (Claimed st) = st"
| "attempt_state (Answered_by st result) = st"

text \<open>
  \<open>sy_claims\<close> is a record of the rows returned by every claim so far; the program keeps none.
\<close>

record sys =
  sy_world :: world
  sy_running :: "attempt list"
  sy_claims :: "forward list"

text \<open>The client of the abuse alert touches neither the database nor a transaction.\<close>

definition quiet_client :: "json_post \<Rightarrow> bool" where
  "quiet_client post \<longleftrightarrow> (\<forall>u msg v. \<exists>r v'. post u msg v = (r, v') \<and> w_db v' = w_db v \<and> w_aborted v' = w_aborted v)"

text \<open>
  \<open>ops\<close> is what the owners may do. A capture draws a forward identifier no claim has seen
  (\<open>uuid4()\<close>); an identifier that is in the table makes the insert fail.
\<close>

inductive sys_step :: "operator_action set \<Rightarrow> sys \<Rightarrow> sys \<Rightarrow> bool" for ops where
  capture: "ce_forward_id env \<notin> fw_id ` set (sy_claims s) \<Longrightarrow>
    with_session (capture_request sv env inp) (sy_world s) = (rc, w') \<Longrightarrow>
    sys_step ops s (s\<lparr>sy_world := w'\<rparr>)"
| create: "with_session (create_endpoint gen i now ttl slug code body hs delay) (sy_world s) = (re, w') \<Longrightarrow>
    sys_step ops s (s\<lparr>sy_world := w'\<rparr>)"
| configure: "with_session (update_endpoint_config sv key nonce1 nonce2 token patch) (sy_world s) = (ru, w') \<Longrightarrow>
    sys_step ops s (s\<lparr>sy_world := w'\<rparr>)"
| replay: "replay_request sv rclk token rid url ih ib (sy_world s) = (rr, w') \<Longrightarrow>
    sys_step ops s (s\<lparr>sy_world := w'\<rparr>)"
| claim: "claim_phase sv clk i (sy_world s) = (Inr (Some st), w') \<Longrightarrow>
    sys_step ops s \<lparr>sy_world = w', sy_running = sy_running s @ [Claimed st], sy_claims = sy_claims s @ [cs_forward st]\<rparr>"
| no_claim: "claim_phase sv clk i (sy_world s) = (r, w') \<Longrightarrow> \<forall>st. r \<noteq> Inr (Some st) \<Longrightarrow>
    sys_step ops s (s\<lparr>sy_world := w'\<rparr>)"
| send: "sy_running s = xs @ Claimed st # ys \<Longrightarrow> http_phase sv key ts st (sy_world s) = (Inr result, w') \<Longrightarrow>
    sys_step ops s (s\<lparr>sy_world := w', sy_running := xs @ Answered_by st result # ys\<rparr>)"
| send_raises: "sy_running s = xs @ Claimed st # ys \<Longrightarrow> http_phase sv key ts st (sy_world s) = (Inl e, w') \<Longrightarrow>
    sys_step ops s (s\<lparr>sy_world := w', sy_running := xs @ ys\<rparr>)"
| finish: "sy_running s = xs @ Answered_by st result # ys \<Longrightarrow>
    finish_forward sv clk (fw_id (cs_forward st)) (fw_attempt_count (cs_forward st)) result (sy_world s) = (rf, w') \<Longrightarrow>
    sys_step ops s (s\<lparr>sy_world := w', sy_running := xs @ ys\<rparr>)"
| crash: "sy_running s = xs @ a # ys \<Longrightarrow> sys_step ops s (s\<lparr>sy_running := xs @ ys\<rparr>)"
| retry: "Retrying \<in> ops \<Longrightarrow> with_session (retry_forward now token i) (sy_world s) = (ro, w') \<Longrightarrow>
    sys_step ops s (s\<lparr>sy_world := w'\<rparr>)"
| abandon: "Abandoning \<in> ops \<Longrightarrow> with_session (abandon_forward now token i) (sy_world s) = (ro, w') \<Longrightarrow>
    sys_step ops s (s\<lparr>sy_world := w'\<rparr>)"
| redrive: "Redriving \<in> ops \<Longrightarrow> with_session (redrive_pending_forwards sv now token) (sy_world s) = (rn, w') \<Longrightarrow>
    sys_step ops s (s\<lparr>sy_world := w'\<rparr>)"
| clean: "run_cleanup now (w_db (sy_world s)) = (ri, d) \<Longrightarrow>
    sys_step ops s (s\<lparr>sy_world := (sy_world s)\<lparr>w_db := d\<rparr>\<rparr>)"
| scan: "quiet_client post \<Longrightarrow> run_abuse_scan post url now db_now (sy_world s) = (ri, w') \<Longrightarrow>
    sys_step ops s (s\<lparr>sy_world := w'\<rparr>)"

text \<open>The forwards start with an empty table; everything else may already be there.\<close>

inductive reachable :: "operator_action set \<Rightarrow> sys \<Rightarrow> bool" for ops where
  start: "world_ok w \<Longrightarrow> db_forwards (w_db w) = [] \<Longrightarrow>
    reachable ops \<lparr>sy_world = w, sy_running = [], sy_claims = []\<rparr>"
| step: "reachable ops s \<Longrightarrow> sys_step ops s s' \<Longrightarrow> reachable ops s'"

definition life_of :: "sys \<Rightarrow> life" where
  "life_of s = \<lparr>lf_rows = db_forwards (w_db (sy_world s)),
     lf_running = map (cs_forward \<circ> attempt_state) (sy_running s), lf_claims = sy_claims s\<rparr>"

section \<open>What each handler does to the table\<close>

lemma session_frame:
  assumes "world_ok w" and "with_session m w = (r, w')" and "P (w_db w)"
    and "\<And>a. r = Inr a \<Longrightarrow> db_ok (w_db w') \<and> P (w_db w')"
  shows "world_ok w'" "P (w_db w')"
proof -
  have "\<not> w_aborted w'" using with_session_not_aborted [of m w] assms(2) by simp
  moreover have "db_ok (w_db w') \<and> P (w_db w')"
  proof (cases r)
    case (Inl e)
    have "w_db w' = w_db w" by (rule with_session_Inl [OF assms(2) [unfolded Inl]])
    then show ?thesis using assms(1,3) by (simp add: world_ok_def)
  qed (rule assms(4))
  ultimately show "world_ok w'" "P (w_db w')" by (simp_all add: world_ok_def)
qed

text \<open>The rows may gain one forward of the given identifier, and nothing else.\<close>

definition may_gain :: "uuid \<Rightarrow> forward list \<Rightarrow> forward list \<Rightarrow> bool" where
  "may_gain i t t' \<longleftrightarrow> t' = t \<or> i \<notin> fw_id ` set t \<and> (\<exists>q e u now. t' = t @ [forward_create i q e u now])"

lemma capture_frame:
  assumes "world_ok w" and "with_session (capture_request sv env inp) w = (r, w')"
  shows "world_ok w'" "may_gain (ce_forward_id env) (db_forwards (w_db w)) (db_forwards (w_db w'))"
proof -
  have ok: "db_ok (w_db w)" using assms(1) by (simp add: world_ok_def)
  have "db_ok (w_db w') \<and> may_gain (ce_forward_id env) (db_forwards (w_db w)) (db_forwards (w_db w'))"
    if "r = Inr c" for c
  proof -
    note eff = capture_commits [OF ok assms(2) [unfolded that]]
    then have ok': "db_ok (w_db w')" by simp
    show ?thesis
    proof (cases "falsy (ep_forward_url (cr_endpoint c))")
      case True
      then show ?thesis using eff ok' by (simp add: may_gain_def)
    next
      case False
      let ?f = "forward_create (ce_forward_id env) (ce_request_id env) (ep_id (cr_endpoint c))
               (the (ep_forward_url (cr_endpoint c))) (ce_forward_now env)"
      have rows: "db_forwards (w_db w') = db_forwards (w_db w) @ [?f]" using eff False by simp
      have "key_ok fw_id (db_forwards (w_db w'))" by (rule db_ok_forward_keys [OF ok'])
      then have "ce_forward_id env \<notin> fw_id ` set (db_forwards (w_db w))"
        by (simp add: rows key_ok_def) (simp add: forward_create_def)
      then show ?thesis using rows ok' unfolding may_gain_def by blast
    qed
  qed
  then show "world_ok w'" "may_gain (ce_forward_id env) (db_forwards (w_db w)) (db_forwards (w_db w'))"
    using session_frame [OF assms, of "\<lambda>d. may_gain (ce_forward_id env) (db_forwards (w_db w)) (db_forwards d)"]
    by (simp_all add: may_gain_def)
qed

lemma create_frame:
  assumes "world_ok w" and "with_session (create_endpoint gen i now ttl slug code body hs delay) w = (r, w')"
  shows "world_ok w'" "db_forwards (w_db w') = db_forwards (w_db w)"
proof -
  have ok: "db_ok (w_db w)" using assms(1) by (simp add: world_ok_def)
  have "db_ok (w_db w') \<and> db_forwards (w_db w') = db_forwards (w_db w)" if "r = Inr e" for e
    using create_endpointD(3,4) [OF assms(2) [unfolded that]] endpoint_save_ok [OF ok] by auto
  then show "world_ok w'" "db_forwards (w_db w') = db_forwards (w_db w)"
    using session_frame [OF assms, of "\<lambda>d. db_forwards d = db_forwards (w_db w)"] by simp_all
qed

lemma configure_frame:
  assumes "world_ok w" and "with_session (update_endpoint_config sv key n1 n2 token patch) w = (r, w')"
  shows "world_ok w'" "db_forwards (w_db w') = db_forwards (w_db w)"
proof -
  have ok: "db_ok (w_db w)" using assms(1) by (simp add: world_ok_def)
  have "db_ok (w_db w') \<and> db_forwards (w_db w') = db_forwards (w_db w)" if "r = Inr u" for u
  proof -
    have "\<exists>e. endpoint_update e (w_db w) = (Inr (), w_db w')"
      using assms(2) that by (auto simp: update_endpoint_config_def get_endpoint_def bindA_Inr_iff run_db_res_Inr
          read_db_def split: option.splits)
    then obtain e where e: "endpoint_update e (w_db w) = (Inr (), w_db w')" by blast
    then have "db_forwards (w_db w') = db_forwards (w_db w)"
      by (auto simp: endpoint_update_def split: if_splits dest!: arg_cong [of _ "w_db w'" db_forwards])
    then show ?thesis using endpoint_update_ok [OF ok e] by simp
  qed
  then show "world_ok w'" "db_forwards (w_db w') = db_forwards (w_db w)"
    using session_frame [OF assms, of "\<lambda>d. db_forwards d = db_forwards (w_db w)"] by simp_all
qed

lemma replay_frame:
  assumes "world_ok w" and "replay_request sv rclk token rid url ih ib w = (r, w')"
  shows "world_ok w'" "db_forwards (w_db w') = db_forwards (w_db w)"
proof -
  have conc: "world_ok w' \<and> db_forwards (w_db w') = db_forwards (w_db v)"
    if "world_ok v" "conclude_replay x label v = (r, w')" for v x label
    using conclude_replay_frame(1,4) [OF that] by auto
  have "world_ok w' \<and> db_forwards (w_db w') = db_forwards (w_db w)"
    using assms
  proof (cases rule: replay_cases)
    case (sent e c b v x label)
    then show ?thesis using conc [OF _ sent(8)] assms(1) by (simp add: world_ok_def)
  qed (use assms(1) conc in \<open>auto simp: count_replay_def world_ok_def\<close>)
  then show "world_ok w'" "db_forwards (w_db w') = db_forwards (w_db w)" by simp_all
qed
lemma claim_none_same:
  assumes "db_ok d" and "fst (claim_for_attempt i now d) = None"
  shows "snd (claim_for_attempt i now d) = d"
proof -
  have "\<not> claimable i f" if "f \<in> set (db_forwards d)" for f
  proof
    assume c: "claimable i f"
    then have "forward_find_by_id i d = Some f"
      using lookup_row_unique [OF db_ok_forward_keys [OF assms(1)] that] by (simp add: forward_find_by_id_eq claimable_def)
    then show False using assms(2) c by (simp add: returning_statement [OF assms(1)] row_hit_def)
  qed
  then show ?thesis by (simp add: claim_for_attempt_def sql_update_none)
qed

lemma forward_parents:
  assumes "db_ok d" and "f \<in> set (db_forwards d)"
  obtains e c where "endpoint_find_by_id (fw_endpoint_id f) d = Some e" "request_find_by_id (fw_request_id f) d = Some c"
proof -
  have "fw_endpoint_id f \<in> endpoint_ids d" "fw_request_id f \<in> request_ids d"
    using assms by (auto simp: db_ok_defs)
  then have "endpoint_find_by_id (fw_endpoint_id f) d \<noteq> None" "request_find_by_id (fw_request_id f) d \<noteq> None"
    by (simp_all add: endpoint_find_by_id_eq request_find_eq lookup_row_None_image del: not_None_eq)
  with that show ?thesis by blast
qed

text \<open>
  The branch of a missing endpoint or request is never taken on a database in order: the foreign keys
  of the forward see to it. So a phase that claims nothing changes no row.
\<close>

lemma claim_phase_ended_same:
  assumes "world_ok w" and "claim_phase sv clk i w = (Inr None, w')"
  shows "w_db w' = w_db w"
proof -
  have ok: "db_ok (w_db w)" "\<not> w_aborted w" using assms(1) by (simp_all add: world_ok_def)
  show ?thesis
  proof (cases "fst (claim_for_attempt i (fc_claim clk) (w_db w))")
    case None
    then show ?thesis using assms(2) ok by (auto simp: claim_phase_None claim_none_same)
  next
    case (Some f)
    then obtain g where g: "g \<in> set (db_forwards (w_db w))" "f = set_claimed (fc_claim clk) g"
      by (auto simp: returning_statement [OF ok(1)] row_hit_Some_iff forward_find_by_id_eq dest: lookup_row_SomeD)
    then obtain e c where ec: "endpoint_find_by_id (fw_endpoint_id f) (w_db w) = Some e"
      "request_find_by_id (fw_request_id f) (w_db w) = Some c"
      using forward_parents [OF ok(1) g(1)] by auto
    obtain lr lw where load: "load_body sv c (w\<lparr>w_db := snd (claim_for_attempt i (fc_claim clk) (w_db w))\<rparr>) = (lr, lw)"
      by fastforce
    show ?thesis using claim_phase_found [OF ok(2) Some ec load] assms(2) by (auto split: sum.splits)
  qed
qed

text \<open>Recording an attempt writes the outcome of the answer, or nothing when the decision raises.\<close>

lemma finish_forward_db:
  assumes "world_ok w" and "finish_forward sv clk i n result w = (r, w')"
  shows "w_db w' = w_db w \<or> (\<exists>ns code err t now. w_db w' = record_outcome i ns code err t now (w_db w) \<and>
    (ns = NFailed \<longrightarrow> t \<noteq> None \<and> n < MAX_ATTEMPTS))"
proof -
  obtain http net ferr ssrf where res: "result = (http, net, ferr, ssrf)" by (cases result)
  have ok: "\<not> w_aborted w" using assms(1) by (simp add: world_ok_def)
  show ?thesis
  proof (cases ssrf)
    case (Some m)
    then have "w_db w' = record_outcome i NDead None (Some (''SsrfBlockedError: '' @ m)) None (fc_record clk) (w_db w)"
      using assms(2) res ok by (auto simp: finish_forward_def record_phase_eq bindA_def)
    then show ?thesis by blast
  next
    case None
    show ?thesis
    proof (cases "decide n http net")
      case (Inl e)
      then show ?thesis using assms(2) res None by (auto simp: finish_forward_def)
    next
      case (Inr d)
      let ?t = "if next_status d = NFailed then Some (whole_second (fc_next clk)) else None"
      have "w_db w' = record_outcome i (next_status d) http ferr ?t (fc_record clk) (w_db w)"
        using assms(2) res None Inr ok
        by (auto simp: finish_forward_def Let_def record_phase_eq bindA_def arq_enqueue_eq split: option.splits if_splits)
      moreover have "next_status d = NFailed \<longrightarrow> ?t \<noteq> None \<and> n < MAX_ATTEMPTS"
        using decide_failed_below_max [OF Inr] by simp
      ultimately show ?thesis by blast
    qed
  qed
qed

lemma operator_frame:
  assumes "world_ok w"
  shows "with_session (retry_forward now token i) w = (ro, w') \<Longrightarrow> world_ok w' \<and>
      (w_db w' = w_db w \<or> (\<exists>eid. w_db w' = snd (claim_for_manual_retry i eid now (w_db w))))"
    "with_session (abandon_forward now token i) w = (ro, w') \<Longrightarrow> world_ok w' \<and>
      (w_db w' = w_db w \<or> (\<exists>eid. w_db w' = snd (abandon i eid now (w_db w))))"
    "with_session (redrive_pending_forwards sv now token) w = (rn, w') \<Longrightarrow> world_ok w' \<and>
      (w_db w' = w_db w \<or> (\<exists>eid. w_db w' = reclaimed_db eid now (w_db w)))"
proof -
  have ok: "db_ok (w_db w)" "\<not> w_aborted w" using assms by (simp_all add: world_ok_def)
  have none: "with_session m w = (Inl e, w)" if "m w = (Inl e, w)" for m :: "'x act" and e
    using that ok(2) by (cases w) (simp add: with_session_def)
  show "world_ok w' \<and> (w_db w' = w_db w \<or> (\<exists>eid. w_db w' = snd (claim_for_manual_retry i eid now (w_db w))))"
    if "with_session (retry_forward now token i) w = (ro, w')"
    using that assms ok none [of "retry_forward now token i", OF use_case_missing(1)] retry_forward_eq [OF assms, of token]
    by (cases "find_by_token token (w_db w)") (auto simp: world_ok_def forward_ops_db_ok split: option.splits)
  show "world_ok w' \<and> (w_db w' = w_db w \<or> (\<exists>eid. w_db w' = snd (abandon i eid now (w_db w))))"
    if "with_session (abandon_forward now token i) w = (ro, w')"
    using that assms ok none [of "abandon_forward now token i", OF use_case_missing(2)] abandon_forward_eq [OF assms, of token]
    by (cases "find_by_token token (w_db w)") (auto simp: world_ok_def forward_ops_db_ok split: option.splits)
  show "world_ok w' \<and> (w_db w' = w_db w \<or> (\<exists>eid. w_db w' = reclaimed_db eid now (w_db w)))"
    if "with_session (redrive_pending_forwards sv now token) w = (rn, w')"
    using that assms ok none [of "redrive_pending_forwards sv now token", OF use_case_missing(3)] redrive_eq [OF ok(2), of token]
    by (cases "find_by_token token (w_db w)") (auto simp: world_ok_def reclaimed_db_def forward_ops_db_ok)
qed

lemma clean_frame:
  assumes "world_ok w" and "run_cleanup now (w_db w) = (ri, d)"
  shows "world_ok (w\<lparr>w_db := d\<rparr>)" "\<exists>gone. db_forwards d = sql_delete gone (db_forwards (w_db w))"
proof -
  have keep: "t = sql_delete (\<lambda>f. False) t" for t :: "forward list" by (simp add: sql_delete_def)
  have "(\<exists>n. delete_expired now (w_db w) = (Inr n, d)) \<or> d = w_db w"
    using assms(2) by (auto simp: run_cleanup_def in_session_def split: prod.splits sum.splits)
  then show "world_ok (w\<lparr>w_db := d\<rparr>)" "\<exists>gone. db_forwards d = sql_delete gone (db_forwards (w_db w))"
    using assms(1) delete_expired_ok [of "w_db w" now _ d] keep
    by (auto simp: world_ok_def delete_expired_def Let_def split: if_splits)
qed

lemma scan_frame:
  assumes "world_ok w" and "quiet_client post" and "run_abuse_scan post url now db_now w = (ri, w')"
  shows "world_ok w'" "db_forwards (w_db w') = db_forwards (w_db w)"
proof -
  have ok: "db_ok (w_db w)" "\<not> w_aborted w" using assms(1) by (simp_all add: world_ok_def)
  have "w_db w' = scanned_db (now - seconds 86400) db_now (w_db w) \<and> \<not> w_aborted w'"
    using scan_eq [of w post url now db_now, OF ok] assms(2,3) unfolding quiet_client_def by auto
  then show "world_ok w'" "db_forwards (w_db w') = db_forwards (w_db w)"
    using db_ok_flagged [OF ok(1)] by (simp_all add: world_ok_def scanned_db_def)
qed
section \<open>Every step is a step of the specification\<close>

lemma life_of_world: "life_of (s\<lparr>sy_world := w'\<rparr>) = (life_of s)\<lparr>lf_rows := db_forwards (w_db w')\<rparr>"
  by (simp add: life_of_def)

lemma life_same: "db_forwards (w_db w') = db_forwards (w_db (sy_world s)) \<Longrightarrow> life_of (s\<lparr>sy_world := w'\<rparr>) = life_of s"
  by (simp add: life_of_def)

lemma claim_refines:
  assumes "world_ok (sy_world s)" and "claim_phase sv clk i (sy_world s) = (Inr (Some st), w')"
  shows "world_ok w'" "life_step ops (life_of s)
    (life_of \<lparr>sy_world = w', sy_running = sy_running s @ [Claimed st], sy_claims = sy_claims s @ [cs_forward st]\<rparr>)"
proof -
  obtain g where g: "w' = (sy_world s)\<lparr>w_db := snd (claim_for_attempt i (fc_claim clk) (w_db (sy_world s)))\<rparr>"
    "world_ok w'" "forward_find_by_id i (w_db (sy_world s)) = Some g" "fw_status g \<in> {Pending, Failed}"
    "cs_forward st = set_claimed (fc_claim clk) g"
    using assms by (rule claim_phase_cases) (auto intro: that)
  show "world_ok w'" by (rule g(2))
  have "g \<in> set (lf_rows (life_of s))" "claimable i g"
    using g(3,4) by (auto simp: life_of_def claimable_def forward_find_by_id_eq dest: lookup_row_SomeD)
  from life_step.claimed [OF this g(5)] show "life_step ops (life_of s)
    (life_of \<lparr>sy_world = w', sy_running = sy_running s @ [Claimed st], sy_claims = sy_claims s @ [cs_forward st]\<rparr>)"
    by (simp add: life_of_def g(1,5) claim_for_attempt_def)
qed

lemma finish_refines:
  assumes "world_ok (sy_world s)" and "sy_running s = xs @ Answered_by st result # ys"
    and "finish_forward sv clk (fw_id (cs_forward st)) (fw_attempt_count (cs_forward st)) result (sy_world s) = (rf, w')"
  shows "life_step ops (life_of s) (life_of (s\<lparr>sy_world := w', sy_running := xs @ ys\<rparr>))"
proof -
  let ?g = "cs_forward \<circ> attempt_state" and ?c = "cs_forward st"
  have run: "lf_running (life_of s) = map ?g xs @ ?c # map ?g ys" by (simp add: life_of_def assms(2))
  from finish_forward_db [OF assms(1,3)] show ?thesis
  proof (elim disjE exE conjE)
    assume "w_db w' = w_db (sy_world s)"
    then show ?thesis using life_step.dropped [OF run, of ops] by (simp add: life_of_def)
  next
    fix ns code err t now
    assume o: "w_db w' = record_outcome (fw_id ?c) ns code err t now (w_db (sy_world s))"
      "ns = NFailed \<longrightarrow> t \<noteq> None \<and> fw_attempt_count ?c < MAX_ATTEMPTS"
    then show ?thesis
      using life_step.finished [OF run, of ns t ops] life_step.ended [OF run, of ns ops]
      by (cases "ns = NFailed") (simp_all add: life_of_def record_outcome_def)
  qed
qed

lemma sys_step_refines:
  assumes "sys_step ops s s'" and "world_ok (sy_world s)"
  shows "world_ok (sy_world s') \<and> life_step ops (life_of s) (life_of s')"
  using assms
proof (induction rule: sys_step.induct)
  case (capture env s sv inp rc w')
  note F = capture_frame [OF capture(3,2)]
  from F(2) capture(1) show ?case
    using F(1) life_step.created [OF refl, of "ce_forward_id env" "life_of s"]
    by (auto simp: may_gain_def life_of_def intro: life_step.idle)
next
  case (send s xs st ys sv key ts result w')
  then obtain obs where "w' = (sy_world s)\<lparr>w_sent := w_sent (sy_world s) @ obs\<rparr>" by (blast elim: http_phase_sent)
  then have "life_of (s\<lparr>sy_world := w', sy_running := xs @ Answered_by st result # ys\<rparr>) = life_of s" "world_ok w'"
    using send by (simp_all add: life_of_def world_ok_def)
  then show ?case by (simp add: life_step.idle)
next
  case (send_raises s xs st ys sv key ts e w')
  then obtain obs where w': "w' = (sy_world s)\<lparr>w_sent := w_sent (sy_world s) @ obs\<rparr>" by (blast elim: http_phase_sent)
  have "lf_running (life_of s) = map (cs_forward \<circ> attempt_state) xs @ cs_forward st # map (cs_forward \<circ> attempt_state) ys"
    using send_raises by (simp add: life_of_def)
  from life_step.dropped [OF this, of ops] show ?case
    using send_raises(3) by (simp add: life_of_def w' world_ok_def)
next
  case (finish s xs st result ys sv clk rf w')
  then show ?case using finish_forward_frame(2) finish_refines by auto
next
  case (crash s xs a ys)
  have "lf_running (life_of s) = map (cs_forward \<circ> attempt_state) xs @ cs_forward (attempt_state a) #
      map (cs_forward \<circ> attempt_state) ys"
    using crash by (simp add: life_of_def)
  from life_step.dropped [OF this, of ops] show ?case using crash(2) by (simp add: life_of_def)
next
  case (retry now token i s ro w')
  then show ?case
    using operator_frame(1) [OF retry(3,2)] life_step.retried [OF retry(1), of "life_of s"]
    by (auto simp: life_of_def claim_for_manual_retry_def intro: life_step.idle)
next
  case (abandon now token i s ro w')
  then show ?case
    using operator_frame(2) [OF abandon(3,2)] life_step.given_up [OF abandon(1), of "life_of s"]
    by (auto simp: life_of_def abandon_def intro: life_step.idle)
next
  case (redrive sv now token s rn w')
  then show ?case
    using operator_frame(3) [OF redrive(3,2)] life_step.reclaimed [OF redrive(1), of "life_of s"]
    by (auto simp: life_of_def reclaimed_db_def reclaim_stuck_in_flight_def Let_def intro: life_step.idle)
next
  case (clean now s ri d)
  then show ?case
    using clean_frame [OF clean(2,1)] life_step.cleaned [of ops "life_of s"] by (auto simp: life_of_def)
next
  case (no_claim sv clk i s r w')
  show ?case
    using no_claim(3,1)
  proof (cases rule: claim_phase_cases)
    case ended
    then show ?thesis
      using claim_phase_ended_same [OF no_claim(3)] no_claim(1) by (simp add: life_same life_step.idle)
  qed (use no_claim in \<open>simp_all add: life_same life_step.idle\<close>)
qed (auto simp: life_same [OF create_frame(2)] life_same [OF configure_frame(2)] life_same [OF replay_frame(2)]
    life_same [OF scan_frame(2)] intro: life_step.idle claim_refines
    dest: create_frame(1) configure_frame(1) replay_frame(1) scan_frame(1))
lemma reachable_ok:
  assumes "reachable ops s"
  shows "world_ok (sy_world s) \<and> life_ok (life_of s) \<and> (ops \<subseteq> {Retrying} \<longrightarrow> calm (life_of s))"
  using assms
proof (induction rule: reachable.induct)
  case (start w)
  then show ?case by (simp add: life_of_def life_ok_def calm_def claims_below_def)
next
  case (step s s')
  then have "world_ok (sy_world s')" "life_step ops (life_of s) (life_of s')"
    using sys_step_refines by blast+
  then show ?case using step.IH life_step_ok life_step_calm by blast
qed

text \<open>A job of the worker, run without interruption, is a run of the system.\<close>

lemma job_is_run:
  assumes "execute_forward sv key clk i (sy_world s) = (r, w')" and "world_ok (sy_world s)"
  shows "\<exists>cs. (sys_step ops)\<^sup>*\<^sup>* s (s\<lparr>sy_world := w', sy_claims := sy_claims s @ cs\<rparr>)"
proof -
  obtain x w1 where c: "claim_phase sv clk i (sy_world s) = (x, w1)" by fastforce
  have quiet: "(sys_step ops)\<^sup>*\<^sup>* s (s\<lparr>sy_world := w', sy_claims := sy_claims s @ []\<rparr>)"
    if "\<forall>st. x \<noteq> Inr (Some st)" "w' = w1"
    using r_into_rtranclp [of "sys_step ops", OF sys_step.no_claim [where ops = ops, OF c that(1)]] that(2) by simp
  show ?thesis
  proof (cases "\<exists>st. x = Inr (Some st)")
    case False
    have "w' = w1"
      using assms(1) c False by (cases x; cases "projr x") (auto simp: execute_forward_def bindA_def)
    with False quiet show ?thesis by blast
  next
    case True
    then obtain st where st: "x = Inr (Some st)" by blast
    have id: "fw_id (cs_forward st) = i"
      using assms(2) c [unfolded st] by (rule claim_phase_cases) (auto dest: forward_find_SomeD)
    let ?s1 = "\<lparr>sy_world = w1, sy_running = sy_running s @ [Claimed st], sy_claims = sy_claims s @ [cs_forward st]\<rparr>"
    let ?s3 = "\<lparr>sy_world = w', sy_running = sy_running s, sy_claims = sy_claims s @ [cs_forward st]\<rparr>"
    have s3: "s\<lparr>sy_world := w', sy_claims := sy_claims s @ [cs_forward st]\<rparr> = ?s3" by (cases s) simp
    have one: "sys_step ops s ?s1" by (rule sys_step.claim [OF c [unfolded st]])
    obtain y w2 where h: "http_phase sv key (fc_unix clk) st (sy_world ?s1) = (y, w2)" by fastforce
    have "(sys_step ops)\<^sup>*\<^sup>* ?s1 ?s3"
    proof (cases y)
      case (Inl e)
      then have "w' = w2" using assms(1) c st h by (auto simp: execute_forward_def bindA_def)
      then show ?thesis
        using sys_step.send_raises [where ops = ops and s = ?s1 and ys = "[]", OF _ h [unfolded Inl]] by (simp add: r_into_rtranclp)
    next
      case (Inr result)
      let ?s2 = "?s1\<lparr>sy_world := w2, sy_running := sy_running s @ [Answered_by st result]\<rparr>"
      have two: "sys_step ops ?s1 ?s2"
        using sys_step.send [where ops = ops and s = ?s1 and ys = "[]", OF _ h [unfolded Inr]] by simp
      have f: "finish_forward sv clk (fw_id (cs_forward st)) (fw_attempt_count (cs_forward st)) result (sy_world ?s2) = (r, w')"
        using assms(1) c st h Inr id by (auto simp: execute_forward_def bindA_def)
      have three: "sys_step ops ?s2 ?s3"
        using sys_step.finish [where ops = ops and s = ?s2 and ys = "[]", OF _ f] by simp
      show ?thesis by (rule rtranclp_trans [OF r_into_rtranclp [of "sys_step ops"] r_into_rtranclp [of "sys_step ops"]]) (rule two three)+
    qed
    with one have "(sys_step ops)\<^sup>*\<^sup>* s ?s3" by (rule converse_rtranclp_into_rtranclp)
    then show ?thesis unfolding s3 [symmetric] by blast
  qed
qed
section \<open>What holds in every run\<close>

lemma idempotency_key_inject:
  "idempotency_key f = idempotency_key g \<longleftrightarrow> claim_key f = claim_key g"
  using job_id_inject [of "fw_id f" "fw_attempt_count f" "fw_id g" "fw_attempt_count g"]
  by (simp add: idempotency_key_def claim_key_def the_job_def)

lemma distinct_idempotency_keys: "distinct (map claim_key cs) \<Longrightarrow> distinct (map idempotency_key cs)"
  by (auto simp: distinct_map inj_on_def idempotency_key_inject)

text \<open>
  C3. The processes refine the specification of the forwards: in whatever order captures, attempts, owners,
  the cleaner and the scan interleave, and wherever a worker stops, every step leaves the database within
  its constraints and moves the table of forwards, the attempts under way and the claims as one
  statement of the specification does, and every row stays in shape (a count of at least zero; in flight
  with a start and at least one attempt; failed with a next attempt; completed exactly if final).
\<close>

theorem system_refines_lifecycle:
  assumes "reachable ops s" and "sys_step ops s s'"
  shows "world_ok (sy_world s') \<and> life_step ops (life_of s) (life_of s') \<and>
    (\<forall>f \<in> set (db_forwards (w_db (sy_world s'))). 0 \<le> fw_attempt_count f \<and>
      (fw_completed_at f = None \<longleftrightarrow> fw_status f \<in> {Pending, In_flight, Failed}) \<and>
      (fw_status f = In_flight \<longrightarrow> 1 \<le> fw_attempt_count f \<and> fw_started_at f \<noteq> None) \<and>
      (fw_status f = Failed \<longrightarrow> fw_next_attempt_at f \<noteq> None))"
proof -
  have "\<forall>f \<in> set (db_forwards (w_db (sy_world s'))). row_shape f"
    using reachable_ok [OF reachable.step [OF assms]] by (simp add: life_ok_def life_of_def)
  moreover have "row_shape f \<Longrightarrow> 0 \<le> fw_attempt_count f \<and>
      (fw_completed_at f = None \<longleftrightarrow> fw_status f \<in> {Pending, In_flight, Failed}) \<and>
      (fw_status f = In_flight \<longrightarrow> 1 \<le> fw_attempt_count f \<and> fw_started_at f \<noteq> None) \<and>
      (fw_status f = Failed \<longrightarrow> fw_next_attempt_at f \<noteq> None)" for f
    by (cases "fw_status f") (auto simp: row_shape_def)
  moreover have "world_ok (sy_world s') \<and> life_step ops (life_of s) (life_of s')"
    using sys_step_refines [OF assms(2)] reachable_ok [OF assms(1)] by blast
  ultimately show ?thesis by blast
qed

text \<open>
  C4. Idempotency keys are never reused: over a whole run, with any operator action, any crash and any
  number of workers, the attempts on forwards that were not retried by hand carry pairwise different
  idempotency keys.
\<close>

theorem idempotency_keys_distinct:
  assumes "reachable ops s"
  shows "distinct (map idempotency_key (filter (\<lambda>c. fw_manual_retry_at c = None) (sy_claims s)))"
proof -
  have "distinct (map claim_key (filter untouched (sy_claims s)))"
    using reachable_ok [OF assms] by (simp add: life_ok_def life_of_def)
  then show ?thesis unfolding untouched_def by (rule distinct_idempotency_keys)
qed

text \<open>
  C25. As long as the owners only retry, the attempt count of a forward never exceeds five, at most one
  attempt is under way for it, and the row of an attempt under way is exactly the row its claim
  returned, so the outcome overwrites nothing.
\<close>

theorem retries_stay_in_budget:
  assumes "reachable ops s" and "ops \<subseteq> {Retrying}"
  shows "(\<forall>f \<in> set (db_forwards (w_db (sy_world s))). fw_attempt_count f \<le> 5) \<and>
    distinct (map (fw_id \<circ> cs_forward \<circ> attempt_state) (sy_running s)) \<and>
    (\<forall>a \<in> set (sy_running s). \<forall>f. forward_find_by_id (fw_id (cs_forward (attempt_state a))) (w_db (sy_world s)) = Some f \<longrightarrow>
       f = cs_forward (attempt_state a) \<and> fw_status f = In_flight)"
proof -
  have c: "calm (life_of s)" using reachable_ok [OF assms(1)] assms(2) by blast
  have "f = cs_forward (attempt_state a) \<and> fw_status f = In_flight"
    if "a \<in> set (sy_running s)" "forward_find_by_id (fw_id (cs_forward (attempt_state a))) (w_db (sy_world s)) = Some f" for a f
    using c that lookup_row_SomeD [of fw_id _ _ f]
    by (fastforce simp: calm_def life_of_def owns_row_def forward_find_by_id_eq)
  then show ?thesis
    using c by (auto simp: calm_def life_of_def within_budget_def comp_assoc)
qed

text \<open>
  C26. As long as the owners only retry, a step moves a forward only along the status diagram: pending and
  failed rows are claimed, a row in flight succeeds, fails or dies, a retry makes a failed, dead or
  abandoned row pending, and a forward that succeeded never changes again.
\<close>

theorem status_follows_diagram:
  assumes "reachable ops s" and "sys_step ops s s'" and "ops \<subseteq> {Retrying}"
    and "forward_find_by_id i (w_db (sy_world s)) = Some f" and "forward_find_by_id i (w_db (sy_world s')) = Some f'"
  shows "f' = f \<or> status_edge (fw_status f) (fw_status f')"
proof -
  have ok: "life_ok (life_of s)" "calm (life_of s)" "world_ok (sy_world s)" using reachable_ok [OF assms(1)] assms(3) by auto
  have "life_step ops (life_of s) (life_of s')" using sys_step_refines [OF assms(2) ok(3)] by blast
  moreover have "f \<in> set (lf_rows (life_of s))" "f' \<in> set (lf_rows (life_of s'))" "fw_id f' = fw_id f"
    using assms(4,5) by (auto simp: life_of_def forward_find_by_id_eq dest: lookup_row_SomeD)
  ultimately show ?thesis using life_step_edge ok(1,2) assms(3) by blast
qed

text \<open>
  C5. No forward is lost. Whatever happened - a crash, a job that never ran, an attempt that raised - a
  forward that is neither succeeded nor dead nor abandoned belongs to an existing endpoint, and from some
  time on a redrive by the owner of that endpoint, with a queue that works, leaves it claimable and
  schedules a job for it, unless arq still holds the identifier of that job.
\<close>

theorem no_forward_is_lost:
  assumes "reachable ops s" and "forward_find_by_id i (w_db (sy_world s)) = Some f"
    and "fw_status f \<in> {Pending, In_flight, Failed}" and "sv_queue_fault sv = None"
  shows "\<exists>e t0. endpoint_find_by_id (fw_endpoint_id f) (w_db (sy_world s)) = Some e \<and>
    (\<forall>now \<ge> t0. \<exists>n w' g. with_session (redrive_pending_forwards sv now (ep_token e)) (sy_world s) = (Inr n, w') \<and>
       (held sv i 0 \<or> the_job i 0 \<in> set (w_jobs w')) \<and> forward_find_by_id i (w_db w') = Some g \<and> fw_status g \<in> {Pending, Failed})"
proof -
  let ?d = "w_db (sy_world s)"
  have ok: "db_ok ?d" "\<not> w_aborted (sy_world s)" "life_ok (life_of s)"
    using reachable_ok [OF assms(1)] by (auto simp: world_ok_def)
  have f: "f \<in> set (db_forwards ?d)" "fw_id f = i"
    using assms(2) by (auto simp: forward_find_by_id_eq dest: lookup_row_SomeD)
  have shape: "row_shape f" using ok(3) f(1) by (simp add: life_ok_def life_of_def)
  have "fw_endpoint_id f \<in> endpoint_ids ?d" using ok(1) f(1) by (simp add: db_ok_defs)
  then obtain e where e: "e \<in> set (db_endpoints ?d)" "ep_id e = fw_endpoint_id f" by auto
  have by_id: "endpoint_find_by_id (fw_endpoint_id f) ?d = Some e"
    using lookup_row_unique [OF _ e(1), of ep_id] ok(1) e(2) by (simp add: endpoint_find_by_id_eq db_ok_defs)
  have by_token: "find_by_token (ep_token e) ?d = Some e"
    using lookup_row_unique [OF _ e(1), of ep_token] ok(1) by (simp add: find_by_token_eq db_ok_defs)
  define t0 where "t0 = max (max (fw_created_at f + seconds 301) (the (fw_next_attempt_at f)))
    (the (fw_started_at f) + seconds 301)"
  have due: "redrivable (ep_id e) now f" if "t0 \<le> now" for now
    using shape assms(3) that unfolding e(2)
    by (cases "fw_status f") (auto simp: redrivable_def row_shape_def t0_def seconds_def)
  have "\<exists>n w' g. with_session (redrive_pending_forwards sv now (ep_token e)) (sy_world s) = (Inr n, w') \<and>
       (held sv i 0 \<or> the_job i 0 \<in> set (w_jobs w')) \<and> forward_find_by_id i (w_db w') = Some g \<and> fw_status g \<in> {Pending, Failed}"
    if "t0 \<le> now" for now
  proof -
    have "i \<in> set (redrive_ids (ep_id e) now ?d)" unfolding set_redrive_ids using f due [OF that] by blast
    moreover have "forward_find_by_id i (reclaimed_db (ep_id e) now ?d) =
        Some (if stuck_now (ep_id e) now f then set_reclaimed now f else f)"
      unfolding reclaimed_db_def find_after_statement assms(2) STUCK_IN_FLIGHT_THRESHOLD_SECONDS_def by simp
    moreover have "fw_status (if stuck_now (ep_id e) now f then set_reclaimed now f else f) \<in> {Pending, Failed}"
      using due [OF that] assms(3) e(2) by (auto simp: redrivable_def stuck_in_flight_def set_reclaimed_def)
    ultimately show ?thesis
      using redrive_eq [OF ok(2) by_token, of sv now] assms(4) by (auto simp: taken_jobs_def)
  qed
  with by_id show ?thesis by blast
qed

text \<open>
  C29. An abandon does not stop an attempt that is under way: when the owner abandons a forward in flight and
  the attempt then ends, the row takes the outcome of the attempt - also failed, with the next job
  handed to arq - and is no longer abandoned.
\<close>

theorem abandon_in_flight_is_overwritten:
  assumes "world_ok w" and "find_by_token token (w_db w) = Some e"
    and "forward_find_by_id i (w_db w) = Some c" and "fw_endpoint_id c = ep_id e"
    and "fw_status c = In_flight" and "1 \<le> fw_attempt_count c"
    and "sv_queue_fault sv = None" and "attempt_verdict (fw_attempt_count c) a = (ns, delay)"
  shows "\<exists>f w1 w2 g. with_session (abandon_forward now token i) w = (Inr f, w1) \<and> fw_status f = Abandoned \<and>
    finish_forward sv clk i (fw_attempt_count c) (answer_result a) w1 = (Inr (), w2) \<and>
    forward_find_by_id i (w_db w2) = Some g \<and> fw_status g = status_of_next ns \<and> fw_status g \<noteq> Abandoned \<and>
    w_jobs w2 = w_jobs w1 @ (if ns = NFailed then accepted sv i delay else [])"
proof -
  have ok: "db_ok (w_db w)" "\<not> w_aborted w" using assms(1) by (simp_all add: world_ok_def)
  have id: "fw_id c = i" by (rule forward_find_SomeD [OF assms(3)])
  have row: "abandonable i (ep_id e) c" using assms(4,5) id by (simp add: abandonable_def)
  let ?w1 = "w\<lparr>w_db := snd (abandon i (ep_id e) now (w_db w))\<rparr>"
  have run: "with_session (abandon_forward now token i) w = (Inr (set_abandoned now c), ?w1)"
    unfolding abandon_forward_eq [OF assms(1,2)] using assms(3) row by (simp add: row_hit_def)
  have ok1: "\<not> w_aborted ?w1" "db_ok (w_db ?w1)" using ok by (simp_all add: forward_ops_db_ok)
  have f: "forward_find_by_id i (w_db ?w1) = Some (set_abandoned now c)"
    using assms(3) row by (simp add: find_after_statement)
  note fin = finish_forward_eq [OF ok1(1) assms(6,7,8), of clk i]
  note after = pg.outcome_overwrites [OF ok1(2) f]
  show ?thesis
    by (rule exI [of _ "set_abandoned now c"], rule exI [of _ ?w1])
      (use run fin after in \<open>cases ns; auto simp: set_abandoned_def set_outcome_def\<close>)
qed
section \<open>A concrete run\<close>

lemma claim_succeeds:
  assumes "world_ok w" and "forward_find_by_id i (w_db w) = Some g" and "fw_status g \<in> {Pending, Failed}"
    and "sv_blob_fault sv = None"
  obtains st w' where "claim_phase sv clk i w = (Inr (Some st), w')" "cs_forward st = set_claimed (fc_claim clk) g"
    "forward_find_by_id i (w_db w') = Some (set_claimed (fc_claim clk) g)"
proof -
  have ok: "db_ok (w_db w)" using assms(1) by (simp add: world_ok_def)
  have g: "g \<in> set (db_forwards (w_db w))" "fw_id g = i"
    using assms(2) by (auto simp: forward_find_by_id_eq dest: lookup_row_SomeD)
  obtain e c where ec: "endpoint_find_by_id (fw_endpoint_id g) (w_db w) = Some e"
    "request_find_by_id (fw_request_id g) (w_db w) = Some c" using forward_parents [OF ok g(1)] by blast
  have "\<exists>b. load_body sv c w = (Inr b, w)"
    using assms(4) by (auto simp: load_body_def blob_get_def bindA_def split: option.split)
  then obtain b where "load_body sv c w = (Inr b, w)" by blast
  note run = claim_phase_ready [OF assms(1-3) ec this, of clk]
  show ?thesis
    by (rule that [OF run]) (use assms(2,3) g(2) in \<open>simp_all add: find_after_statement claimable_def\<close>)
qed

text \<open>The demo capture, then a claim of its forward.\<close>

definition demo_start :: sys where
  "demo_start = \<lparr>sy_world = new_world demo_db, sy_running = [], sy_claims = []\<rparr>"

definition demo_forward :: forward where
  "demo_forward = forward_create 3 2 1 ''https://example.com/hook'' 11"

lemma demo_run:
  obtains s1 s2 where "reachable ops s1" "sys_step ops s1 s2"
    "forward_find_by_id 3 (w_db (sy_world s1)) = Some demo_forward" "sy_claims s1 = []" "sy_running s1 = []"
    "forward_find_by_id 3 (w_db (sy_world s2)) = Some (set_claimed 20 demo_forward)"
    "sy_claims s2 = [set_claimed 20 demo_forward]" "map (cs_forward \<circ> attempt_state) (sy_running s2) = [set_claimed 20 demo_forward]"
proof (rule demo_capture)
  fix r w1
  assume run: "with_session (capture_request demo_services demo_env demo_input) (new_world demo_db) = (Inr r, w1)"
  have ok: "world_ok (new_world demo_db)" by (simp add: world_ok_def demo_db_ok)
  have start: "reachable ops demo_start"
    unfolding demo_start_def by (rule reachable.start [OF ok]) (simp add: demo_db_def empty_db_def)
  have "sys_step ops demo_start (demo_start\<lparr>sy_world := w1\<rparr>)"
    by (rule sys_step.capture [where env = demo_env and sv = demo_services and inp = demo_input])
      (simp_all only: demo_start_def sys.select_convs run list.set image_empty empty_iff not_False_eq_True)
  with start have r1: "reachable ops (demo_start\<lparr>sy_world := w1\<rparr>)" by (rule reachable.step)
  have e: "cr_endpoint r = demo_endpoint"
    using capture_commits [OF _ run] demo_capture_facts(1) by (simp add: demo_db_ok)
  have url: "ep_forward_url demo_endpoint = Some ''https://example.com/hook''" "ep_id demo_endpoint = 1"
    by (simp_all add: demo_endpoint_def)
  have none: "db_forwards demo_db = []" by (simp add: demo_db_def empty_db_def)
  have rows: "db_forwards (w_db w1) = [demo_forward]"
    using capture_commits [OF _ run] by (simp add: demo_db_ok e url none demo_forward_def) (simp add: demo_env_def)
  have f: "forward_find_by_id 3 (w_db w1) = Some demo_forward" "fw_status demo_forward \<in> {Pending, Failed}"
    by (simp_all add: forward_find_by_id_eq rows demo_forward_def forward_create_def)
  have w1: "world_ok w1" using reachable_ok [OF r1] by simp
  obtain st w2 where c: "claim_phase demo_services delivery_clock 3 w1 = (Inr (Some st), w2)"
    "cs_forward st = set_claimed (fc_claim delivery_clock) demo_forward"
    "forward_find_by_id 3 (w_db w2) = Some (set_claimed (fc_claim delivery_clock) demo_forward)"
    by (rule claim_succeeds [OF w1 f demo_services_faults(1)])
  have step: "sys_step ops (demo_start\<lparr>sy_world := w1\<rparr>) \<lparr>sy_world = w2, sy_running = [Claimed st], sy_claims = [cs_forward st]\<rparr>"
    using sys_step.claim [where s = "demo_start\<lparr>sy_world := w1\<rparr>" and ops = ops, of demo_services delivery_clock 3 st w2] c(1)
    by (simp add: demo_start_def)
  show ?thesis
    by (rule that [OF r1 step]) (use f(1) c(2,3) in \<open>simp_all add: demo_start_def delivery_clock_def\<close>)
qed

theorem system_refines_lifecycle_witness:
  "\<exists>s1 s2. sys_step {Retrying, Redriving} s1 s2 \<and> sy_claims s2 \<noteq> [] \<and>
     life_step {Retrying, Redriving} (life_of s1) (life_of s2)"
proof (rule demo_run)
  fix s1 s2
  assume a: "reachable {Retrying, Redriving} s1" "sys_step {Retrying, Redriving} s1 s2"
    "sy_claims s2 = [set_claimed 20 demo_forward]"
  have "life_step {Retrying, Redriving} (life_of s1) (life_of s2)"
    using system_refines_lifecycle [OF a(1,2)] by (elim conjE)
  moreover have "sy_claims s2 \<noteq> []" by (simp add: a(3))
  ultimately show ?thesis using a(2) by (intro exI [of _ s1] exI [of _ s2] conjI)
qed

theorem idempotency_keys_distinct_witness:
  "\<exists>s. reachable {Retrying, Abandoning, Redriving} s \<and>
     map idempotency_key (filter (\<lambda>c. fw_manual_retry_at c = None) (sy_claims s)) = [uuid_str 3 @ '':1''] \<and>
     distinct (map idempotency_key (filter (\<lambda>c. fw_manual_retry_at c = None) (sy_claims s)))"
proof (rule demo_run)
  fix s1 s2
  assume a: "reachable {Retrying, Abandoning, Redriving} s1" "sys_step {Retrying, Abandoning, Redriving} s1 s2"
    "sy_claims s2 = [set_claimed 20 demo_forward]"
  have r: "reachable {Retrying, Abandoning, Redriving} s2" by (rule reachable.step [OF a(1,2)])
  have "str_int 1 = ''1''" by code_simp
  then have k: "map idempotency_key (filter (\<lambda>c. fw_manual_retry_at c = None) (sy_claims s2)) = [uuid_str 3 @ '':1'']"
    by (simp add: a(3) idempotency_key_def set_claimed_def demo_forward_def forward_create_def)
  show ?thesis by (rule exI [of _ s2]) (intro conjI r k idempotency_keys_distinct [OF r])
qed

theorem retries_stay_in_budget_witness:
  "\<exists>s f. reachable {Retrying} s \<and> forward_find_by_id 3 (w_db (sy_world s)) = Some f \<and>
     map (cs_forward \<circ> attempt_state) (sy_running s) = [f] \<and> fw_attempt_count f \<le> 5"
proof (rule demo_run)
  fix s1 s2
  let ?f = "set_claimed 20 demo_forward"
  assume a: "reachable {Retrying} s1" "sys_step {Retrying} s1 s2"
    "forward_find_by_id 3 (w_db (sy_world s2)) = Some ?f"
    "map (cs_forward \<circ> attempt_state) (sy_running s2) = [?f]"
  have r: "reachable {Retrying} s2" by (rule reachable.step [OF a(1,2)])
  have row: "?f \<in> set (db_forwards (w_db (sy_world s2)))"
    using lookup_row_SomeD [OF a(3) [unfolded forward_find_by_id_eq]] by (rule conjunct1)
  have "\<forall>f \<in> set (db_forwards (w_db (sy_world s2))). fw_attempt_count f \<le> 5"
    using retries_stay_in_budget [OF r subset_refl] by (elim conjE)
  then have "fw_attempt_count ?f \<le> 5" using row by (rule bspec)
  then show ?thesis by (intro exI [of _ s2] exI [of _ ?f] conjI r a(3,4))
qed

lemma demo_status: "fw_status demo_forward = Pending" "fw_status (set_claimed 20 demo_forward) = In_flight"
  by (simp_all add: demo_forward_def forward_create_def set_claimed_def)

theorem status_follows_diagram_witness:
  "\<exists>s1 s2. reachable {Retrying} s1 \<and> sys_step {Retrying} s1 s2 \<and>
     fw_status demo_forward = Pending \<and> status_edge (fw_status demo_forward) (fw_status (set_claimed 20 demo_forward))"
proof (rule demo_run)
  fix s1 s2
  assume a: "reachable {Retrying} s1" "sys_step {Retrying} s1 s2"
    "forward_find_by_id 3 (w_db (sy_world s1)) = Some demo_forward"
    "forward_find_by_id 3 (w_db (sy_world s2)) = Some (set_claimed 20 demo_forward)"
  have "set_claimed 20 demo_forward \<noteq> demo_forward" using demo_status by (metis forward_status.distinct(1))
  with status_follows_diagram [OF a(1,2) subset_refl a(3,4)]
  have "status_edge (fw_status demo_forward) (fw_status (set_claimed 20 demo_forward))" by (elim disjE) (rule notE)
  then show ?thesis by (intro exI [of _ s1] exI [of _ s2] conjI a(1,2) demo_status(1))
qed

theorem no_forward_is_lost_witness:
  "\<exists>s (e :: endpoint) now n w'. reachable {} s \<and> forward_find_by_id 3 (w_db (sy_world s)) = Some demo_forward \<and>
     with_session (redrive_pending_forwards demo_services now (ep_token e)) (sy_world s) = (Inr n, w') \<and>
     the_job 3 0 \<in> set (w_jobs w')"
proof (rule demo_run)
  fix s1 s2
  assume a: "reachable {} s1" "forward_find_by_id 3 (w_db (sy_world s1)) = Some demo_forward"
  have "fw_status demo_forward \<in> {Pending, In_flight, Failed}" by (simp add: demo_status)
  from no_forward_is_lost [OF a this demo_services_faults(2)] show ?thesis
  proof (elim exE conjE)
    fix e :: endpoint and t0 :: time
    assume "\<forall>now \<ge> t0. \<exists>n w' g. with_session (redrive_pending_forwards demo_services now (ep_token e)) (sy_world s1) = (Inr n, w') \<and>
       (held demo_services 3 0 \<or> the_job 3 0 \<in> set (w_jobs w')) \<and> forward_find_by_id 3 (w_db w') = Some g \<and> fw_status g \<in> {Pending, Failed}"
    from this [THEN spec, THEN mp, OF order_refl] show ?thesis
    proof (elim exE conjE)
      fix n w' g
      assume run: "with_session (redrive_pending_forwards demo_services t0 (ep_token e)) (sy_world s1) = (Inr n, w')"
        and "held demo_services 3 0 \<or> the_job 3 0 \<in> set (w_jobs w')"
      then have "the_job 3 0 \<in> set (w_jobs w')" using demo_services_faults(3) by blast
      with a run show ?thesis by (intro exI [of _ s1] exI [of _ e] exI [of _ t0] exI [of _ n] exI [of _ w'] conjI)
    qed
  qed
qed

theorem abandon_in_flight_is_overwritten_witness:
  "\<exists>f w1 w2 g. with_session (abandon_forward 30 ''tok'' 3)
       (delivery_world\<lparr>w_db := snd (claim_for_attempt 3 20 (w_db delivery_world))\<rparr>) = (Inr f, w1) \<and>
     fw_status f = Abandoned \<and>
     finish_forward demo_services delivery_clock 3 1 (answer_result (Answered 503)) w1 = (Inr (), w2) \<and>
     forward_find_by_id 3 (w_db w2) = Some g \<and> fw_status g = Failed \<and> w_jobs w2 = w_jobs w1 @ [the_job 3 30]"
proof -
  let ?w = "delivery_world\<lparr>w_db := snd (claim_for_attempt 3 20 (w_db delivery_world))\<rparr>"
  let ?c = "set_claimed 20 delivery_forward"
  have ok: "world_ok ?w" using delivery_world_ready(1) by (simp add: world_ok_def forward_ops_db_ok)
  have tok: "find_by_token ''tok'' (w_db ?w) = Some demo_endpoint"
    by (simp add: find_by_token_eq claim_for_attempt_def delivery_world_def new_world_def demo_db_def demo_endpoint_def)
  have c: "forward_find_by_id 3 (w_db ?w) = Some ?c"
    using delivery_world_ready(2,3) by (simp add: find_after_statement claimable_def delivery_forward_def forward_create_def)
  have fields: "fw_endpoint_id ?c = ep_id demo_endpoint" "fw_status ?c = In_flight" "1 \<le> fw_attempt_count ?c"
    "attempt_verdict (fw_attempt_count ?c) (Answered 503) = (NFailed, 30)" "fw_attempt_count ?c = 1"
    by (simp_all add: set_claimed_def delivery_forward_def forward_create_def demo_endpoint_def)
  show ?thesis
    using abandon_in_flight_is_overwritten [OF ok tok c fields(1,2,3) demo_services_faults(2) fields(4), of 30 delivery_clock]
    by (auto simp: fields(5))
qed

end
