(* ===== verification/Storage.thy ===== *)
theory Storage
  imports World
begin

text \<open>
  The three backends of the blob storage (\<open>infrastructure/storage\<close>) and the contract they share: what was
  put under a key is what get returns, whatever is put under other keys. The local backend writes files
  below a directory; the two object stores put a prefix before the key. The clients of S3 and of Google
  are parameters in one respect only, whether a call raises.
\<close>

section \<open>The contract\<close>

locale blob_store =
  fixes put :: "string \<Rightarrow> string \<Rightarrow> 's \<Rightarrow> unit res \<times> 's"
    and get :: "string \<Rightarrow> 's \<Rightarrow> string option res"
    and ok_key :: "string \<Rightarrow> bool"
    and inv :: "'s \<Rightarrow> bool"
  assumes put_ok: "inv s \<Longrightarrow> ok_key k \<Longrightarrow> \<exists>s'. put k b s = (Inr (), s') \<and> inv s'"
    and get_same: "inv s \<Longrightarrow> ok_key k \<Longrightarrow> get k (snd (put k b s)) = Inr (Some b)"
    and get_other: "inv s \<Longrightarrow> ok_key k \<Longrightarrow> ok_key k' \<Longrightarrow> k' \<noteq> k \<Longrightarrow> get k' (snd (put k b s)) = get k' s"
begin

text \<open>What a sequence of writes leaves is, under every key, the last write to it.\<close>

fun put_all :: "(string \<times> string) list \<Rightarrow> 's \<Rightarrow> 's" where
  "put_all [] s = s"
| "put_all ((k, b) # ws) s = put_all ws (snd (put k b s))"

lemma put_all_inv: "inv s \<Longrightarrow> \<forall>(k, b) \<in> set ws. ok_key k \<Longrightarrow> inv (put_all ws s)"
proof (induction ws s rule: put_all.induct)
  case (2 k b ws s)
  then show ?case using put_ok [of s k b] by auto
qed simp

lemma put_all_fold: "put_all ws s = fold (\<lambda>(k, b) s. snd (put k b s)) ws s"
  by (induction ws s rule: put_all.induct) simp_all

lemma get_put_all:
  assumes "inv s" and "\<forall>(k, b) \<in> set ws. ok_key k" and "ok_key k"
  shows "get k (put_all ws s) = (case map_of (rev ws) k of None \<Rightarrow> get k s | Some b \<Rightarrow> Inr (Some b))"
  using assms
proof (induction ws s rule: put_all.induct)
  case (2 k' b ws s)
  have inv: "inv (snd (put k' b s))" using put_ok [of s k' b] "2.prems" by auto
  have "get k (snd (put k' b s)) = (if k = k' then Inr (Some b) else get k s)"
    using get_same get_other "2.prems" by auto
  then show ?case using "2.IH" [OF inv] "2.prems" by (simp add: map_add_def split: option.split)
qed simp

end

section \<open>The port the model uses\<close>

interpretation port: blob_store "\<lambda>k b w. blob_put (sv\<lparr>sv_blob_fault := None\<rparr>) k b w"
  "\<lambda>k w. fst (blob_get (sv\<lparr>sv_blob_fault := None\<rparr>) k w)" "\<lambda>k. True" "\<lambda>w. True"
  by unfold_locales (simp_all add: blob_put_def blob_get_def update_conv')

section \<open>Object stores\<close>

text \<open>A bucket is a map from full keys to data; the fault is what the client raises.\<close>

type_synonym bucket = "(string \<times> string) list"

definition rstrip_prefix :: "string \<Rightarrow> string" where
  "rstrip_prefix s = rev (dropWhile (\<lambda>c. c = CHR ''/'') (rev s))"

definition full_key :: "string \<Rightarrow> string \<Rightarrow> string" where
  "full_key key_prefix key =
     (let p = rstrip_prefix key_prefix in if p \<noteq> [] then p @ ''/'' @ key else key)"

definition bucket_put :: "exn option \<Rightarrow> string \<Rightarrow> string \<Rightarrow> string \<Rightarrow> bucket \<Rightarrow> unit res \<times> bucket" where
  "bucket_put fault key_prefix key data b =
     (case fault of Some e \<Rightarrow> (Inl e, b) | None \<Rightarrow> (Inr (), AList.update (full_key key_prefix key) data b))"

text \<open>
  \<open>NotFound\<close> of the Google client and the codes \<open>NoSuchKey\<close> and 404 of the S3 client become None; any
  other error is raised.
\<close>

definition bucket_get :: "exn option \<Rightarrow> string \<Rightarrow> string \<Rightarrow> bucket \<Rightarrow> string option res" where
  "bucket_get fault key_prefix key b =
     (case fault of Some e \<Rightarrow> Inl e | None \<Rightarrow> Inr (map_of b (full_key key_prefix key)))"

lemma full_key_inject [simp]: "full_key p k = full_key p k' \<longleftrightarrow> k = k'"
  by (simp add: full_key_def Let_def)

interpretation object_store: blob_store "bucket_put None p" "bucket_get None p" "\<lambda>k. True" "\<lambda>b. True" for p
  by unfold_locales (simp_all add: bucket_put_def bucket_get_def update_conv')

section \<open>Files\<close>

text \<open>
  A path is the list of its segments below the root; a file system is a map from the paths of the files to
  their contents, and the directories are those the files need. There are no symbolic links.
\<close>

type_synonym path = "string list"
type_synonym files = "(path \<times> string) list"

text \<open>\<open>resolve\<close> of the base joined with a key: an absolute key replaces the base; dots are removed.\<close>

definition normalize :: "path \<Rightarrow> path" where
  "normalize p = fold (\<lambda>s acc. if s = [] \<or> s = ''.'' then acc else if s = ''..'' then butlast acc else acc @ [s]) p []"

definition resolve_path :: "path \<Rightarrow> string \<Rightarrow> path" where
  "resolve_path base key =
     (if take 1 key = ''/'' then normalize (split_on (CHR ''/'') key)
      else normalize (base @ split_on (CHR ''/'') key))"

definition path_str :: "path \<Rightarrow> string" where
  "path_str p = (if p = [] then ''/'' else concat (map (\<lambda>s. ''/'' @ s) p))"

text \<open>The check compares the texts of the paths.\<close>

definition resolve_safe :: "path \<Rightarrow> string \<Rightarrow> path res" where
  "resolve_safe base key =
     (if CHR 0x00 \<in> set key then Inl ValueError
      else let target = resolve_path base key in
        if prefix (path_str base) (path_str target) then Inr target else Inl ValueError)"

definition is_dir :: "path \<Rightarrow> path \<Rightarrow> files \<Rightarrow> bool" where
  "is_dir base p fs \<longleftrightarrow> prefix p base \<or> (\<exists>(q, b) \<in> set fs. strict_prefix p q)"

text \<open>Writing makes the directories above the file, which fails where one of them is a file.\<close>

definition local_put :: "path \<Rightarrow> string \<Rightarrow> string \<Rightarrow> files \<Rightarrow> unit res \<times> files" where
  "local_put base key data fs =
     (case resolve_safe base key of
        Inl e \<Rightarrow> (Inl e, fs)
      | Inr target \<Rightarrow>
          if (\<exists>(q, b) \<in> set fs. strict_prefix q target) \<or> is_dir base target fs then (Inl OSError, fs)
          else (Inr (), AList.update target data fs))"

definition local_get :: "path \<Rightarrow> string \<Rightarrow> files \<Rightarrow> string option res" where
  "local_get base key fs =
     (case resolve_safe base key of
        Inl e \<Rightarrow> Inl e
      | Inr target \<Rightarrow>
          (case map_of fs target of
             Some b \<Rightarrow> Inr (Some b)
           | None \<Rightarrow> if is_dir base target fs then Inl OSError else Inr None))"

section \<open>The local backend keeps the contract\<close>

text \<open>
  The program's keys are two segments, neither of them dots: the identifiers of the endpoint and of the
  request, or the probe. So no file of it stands where another needs a directory.
\<close>

definition plain_segment :: "string \<Rightarrow> bool" where
  "plain_segment s \<longleftrightarrow> s \<noteq> [] \<and> s \<noteq> ''.'' \<and> s \<noteq> ''..'' \<and> CHR ''/'' \<notin> set s \<and> CHR 0x00 \<notin> set s"

definition two_segments :: "string \<Rightarrow> bool" where
  "two_segments k \<longleftrightarrow> (\<exists>a b. plain_segment a \<and> plain_segment b \<and> k = a @ CHR ''/'' # b)"

definition files_ok :: "path \<Rightarrow> files \<Rightarrow> bool" where
  "files_ok base fs \<longleftrightarrow> (\<forall>s \<in> set base. plain_segment s) \<and> (\<forall>(q, b) \<in> set fs. length q = length base + 2)"

lemma normalize_plain: "\<forall>s \<in> set p. plain_segment s \<Longrightarrow> normalize p = p"
proof -
  have "fold (\<lambda>s acc. if s = [] \<or> s = ''.'' then acc else if s = ''..'' then butlast acc else acc @ [s]) p acc = acc @ p"
    if "\<forall>s \<in> set p. plain_segment s" for acc
    using that by (induction p arbitrary: acc) (auto simp: plain_segment_def)
  then show "\<forall>s \<in> set p. plain_segment s \<Longrightarrow> normalize p = p" by (simp add: normalize_def)
qed

lemma resolve_two_segments:
  assumes "\<forall>s \<in> set base. plain_segment s" and "plain_segment a" and "plain_segment b"
  shows "resolve_safe base (a @ CHR ''/'' # b) = Inr (base @ [a, b])"
proof -
  have "split_on (CHR ''/'') (a @ CHR ''/'' # b) = [a, b]"
    using assms(2,3) by (simp add: plain_segment_def split_on_append split_on_no_sep)
  moreover have "take 1 (a @ CHR ''/'' # b) \<noteq> ''/''" using assms(2) by (cases a) (auto simp: plain_segment_def)
  moreover have "normalize (base @ [a, b]) = base @ [a, b]" by (rule normalize_plain) (use assms in auto)
  moreover have "CHR 0x00 \<notin> set (a @ CHR ''/'' # b)" using assms(2,3) by (auto simp: plain_segment_def)
  ultimately show ?thesis by (simp add: resolve_safe_def resolve_path_def path_str_def)
qed

lemma files_ok_no_dir:
  assumes "files_ok base fs" and "length t = length base + 2"
  shows "\<not> is_dir base t fs" "\<not> (\<exists>(q, b) \<in> set fs. strict_prefix q t)"
proof -
  have same: "length q = length t" if "(q, b) \<in> set fs" for q b
    using assms that by (auto simp: files_ok_def)
  have "\<not> prefix t base" using prefix_length_le [of t base] assms(2) by auto
  moreover have "\<not> strict_prefix t q \<and> \<not> strict_prefix q t" if "(q, b) \<in> set fs" for q b
    using prefix_length_less [of t q] prefix_length_less [of q t] same [OF that] by auto
  ultimately show "\<not> is_dir base t fs" "\<not> (\<exists>(q, b) \<in> set fs. strict_prefix q t)"
    by (auto simp: is_dir_def)
qed

lemma set_update_subset: "set (AList.update k v al) \<subseteq> insert (k, v) (set al)"
  by (induction al) auto

lemma files_ok_update:
  assumes "files_ok base fs" and "length t = length base + 2"
  shows "files_ok base (AList.update t b fs)"
  using assms set_update_subset [of t b fs] unfolding files_ok_def by fastforce

lemma local_two_segments:
  assumes "files_ok base fs" and "plain_segment a" and "plain_segment b"
  shows "local_put base (a @ CHR ''/'' # b) data fs = (Inr (), AList.update (base @ [a, b]) data fs)"
    "local_get base (a @ CHR ''/'' # b) fs = Inr (map_of fs (base @ [a, b]))"
proof -
  have r: "resolve_safe base (a @ CHR ''/'' # b) = Inr (base @ [a, b])"
    using assms by (intro resolve_two_segments) (auto simp: files_ok_def)
  have n: "length (base @ [a, b]) = length base + 2" by simp
  note free = files_ok_no_dir [OF assms(1) n]
  show "local_put base (a @ CHR ''/'' # b) data fs = (Inr (), AList.update (base @ [a, b]) data fs)"
    using r free by (simp add: local_put_def)
  show "local_get base (a @ CHR ''/'' # b) fs = Inr (map_of fs (base @ [a, b]))"
    using r free by (simp add: local_get_def split: option.split)
qed

interpretation local_store: blob_store "local_put base" "local_get base" two_segments "files_ok base" for base
proof
  fix fs k b
  assume "files_ok base fs" "two_segments k"
  then obtain x y where k: "plain_segment x" "plain_segment y" "k = x @ CHR ''/'' # y" by (auto simp: two_segments_def)
  note l = local_two_segments [OF _ k(1,2)]
  have ok: "files_ok base (AList.update (base @ [x, y]) b fs)"
    using \<open>files_ok base fs\<close> by (rule files_ok_update) simp
  show "\<exists>s'. local_put base k b fs = (Inr (), s') \<and> files_ok base s'"
    using l(1) [OF \<open>files_ok base fs\<close>] ok k(3) by simp
  show "local_get base k (snd (local_put base k b fs)) = Inr (Some b)"
    using l(1) [OF \<open>files_ok base fs\<close>] l(2) [OF ok] k(3) by (simp add: update_conv')
next
  fix fs k k' b
  assume fs: "files_ok base fs" and "two_segments k" "two_segments k'" "k' \<noteq> k"
  then obtain x y x' y' where k: "plain_segment x" "plain_segment y" "k = x @ CHR ''/'' # y"
    "plain_segment x'" "plain_segment y'" "k' = x' @ CHR ''/'' # y'" by (auto simp: two_segments_def)
  have ok: "files_ok base (AList.update (base @ [x, y]) b fs)" using fs by (rule files_ok_update) simp
  have "[x', y'] \<noteq> [x, y]" using \<open>k' \<noteq> k\<close> k(3,6) by auto
  then show "local_get base k' (snd (local_put base k b fs)) = local_get base k' fs"
    using local_two_segments(1) [OF fs k(1,2)] local_two_segments(2) [OF ok k(4,5)] local_two_segments(2) [OF fs k(4,5)]
    unfolding k(3,6) by (auto simp: update_conv')
qed

section \<open>The keys of the program\<close>

definition body_key :: "uuid \<Rightarrow> uuid \<Rightarrow> string" where
  "body_key endpoint_id request_id = uuid_str endpoint_id @ ''/'' @ uuid_str request_id"

lemma plain_uuid: "plain_segment (uuid_str u)"
proof -
  have "CHR ''/'' \<notin> set (uuid_str u)" "CHR 0x00 \<notin> set (uuid_str u)" "CHR ''.'' \<notin> set (uuid_str u)"
    using uuid_str_char_bounds [of _ u] by (fastforce simp: byte_def)+
  then show ?thesis by (auto simp: plain_segment_def)
qed

lemma two_segments_body_key: "two_segments (body_key e r)"
  using plain_uuid by (auto simp: two_segments_def body_key_def)

lemma body_key_inject [simp]: "body_key e r = body_key e' r' \<longleftrightarrow> e = e' \<and> r = r'"
proof
  assume eq: "body_key e r = body_key e' r'"
  have no: "CHR ''/'' \<notin> set (uuid_str u)" for u using plain_uuid [of u] by (simp add: plain_segment_def)
  from eq have "uuid_str e @ CHR ''/'' # uuid_str r = uuid_str e' @ CHR ''/'' # uuid_str r'" by (simp add: body_key_def)
  then have "str_before (CHR ''/'') (uuid_str e @ CHR ''/'' # uuid_str r) = str_before (CHR ''/'') (uuid_str e' @ CHR ''/'' # uuid_str r')"
    "str_after (CHR ''/'') (uuid_str e @ CHR ''/'' # uuid_str r) = str_after (CHR ''/'') (uuid_str e' @ CHR ''/'' # uuid_str r')"
    by simp_all
  then show "e = e' \<and> r = r'" by (simp add: no)
qed simp

text \<open>
  C36. A body survives whatever is stored after it: in the local backend as in the object stores, after any
  sequence of writes of request bodies, the body read under the key of a request is the last one written
  for it, and what was there before if there was none.
\<close>

theorem stored_bodies_survive:
  assumes "files_ok base fs" and "\<forall>(k, b) \<in> set ws. \<exists>e r. k = body_key e r"
  shows "local_get base (body_key e r) (fold (\<lambda>(k, b) s. snd (local_put base k b s)) ws fs) =
      (case map_of (rev ws) (body_key e r) of None \<Rightarrow> local_get base (body_key e r) fs | Some b \<Rightarrow> Inr (Some b)) \<and>
    bucket_get None p (body_key e r) (fold (\<lambda>(k, b) s. snd (bucket_put None p k b s)) ws bucket) =
      (case map_of (rev ws) (body_key e r) of None \<Rightarrow> bucket_get None p (body_key e r) bucket | Some b \<Rightarrow> Inr (Some b))"
proof -
  have "\<forall>(k, b) \<in> set ws. two_segments k" using assms(2) two_segments_body_key by fastforce
  from local_store.get_put_all [OF assms(1) this two_segments_body_key]
    object_store.get_put_all [where s = bucket and ws = ws and k = "body_key e r" and p = p]
  show ?thesis by (simp add: local_store.put_all_fold object_store.put_all_fold case_prod_beta)
qed

text \<open>
  The check of the local backend compares texts: a key that climbs out of the directory is refused, unless
  it leads into a directory whose name starts with the name of the base.
\<close>

lemma sibling_directory_passes:
  "resolve_safe [''srv'', ''blobs''] ''../blobs-old/x'' = Inr [''srv'', ''blobs-old'', ''x'']"
  "resolve_safe [''srv'', ''blobs''] ''../../etc/passwd'' = Inl ValueError"
  "resolve_safe [''srv'', ''blobs''] ''/etc/passwd'' = Inl ValueError"
  by code_simp+

theorem stored_bodies_survive_witness:
  "local_get [''blobs''] (body_key 1 2) (fold (\<lambda>(k, b) s. snd (local_put [''blobs''] k b s))
     [(body_key 1 2, ''a''), (body_key 1 3, ''b''), (body_key 1 2, ''c'')] []) = Inr (Some ''c'')"
proof -
  have "files_ok [''blobs''] []" by (simp add: files_ok_def plain_segment_def)
  from stored_bodies_survive [OF this, of "[(body_key 1 2, ''a''), (body_key 1 3, ''b''), (body_key 1 2, ''c'')]" 1 2]
  show ?thesis by auto
qed

end
