(* ===== verification/Startup.thy ===== *)
theory Startup
  imports Storage Hmac_Validators
begin

text \<open>
  The settings (\<open>config.py\<close>), the check of the secrets key, the start of the three processes and the choice
  of the blob storage. \<open>Processes\<close> has what the start acquires.
\<close>

section \<open>Settings\<close>

record settings =
  st_database_url :: string
  st_blob_storage_path :: string
  st_blob_storage_backend :: string
  st_gcs_bucket_name :: "string option"
  st_s3_endpoint_url :: "string option"
  st_s3_bucket_name :: "string option"
  st_s3_access_key_id :: "string option"
  st_s3_secret_access_key :: "string option"
  st_s3_region :: string
  st_secrets_encryption_key :: "string option"
  st_endpoint_ttl_days :: int
  st_max_body_bytes :: nat
  st_body_inline_threshold_bytes :: nat
  st_export_max_requests :: nat
  st_environment :: string
  st_service_name :: string
  st_log_level :: string
  st_redis_url :: "string option"
  st_rate_limit_redis_url :: "string option"
  st_abuse_webhook_url :: "string option"

definition default_settings :: "string \<Rightarrow> settings" where
  "default_settings database_url =
     \<lparr>st_database_url = database_url, st_blob_storage_path = ''./blobs'', st_blob_storage_backend = ''local'',
      st_gcs_bucket_name = None, st_s3_endpoint_url = None, st_s3_bucket_name = None, st_s3_access_key_id = None,
      st_s3_secret_access_key = None, st_s3_region = ''auto'', st_secrets_encryption_key = None,
      st_endpoint_ttl_days = 30, st_max_body_bytes = 10 * 1024 * 1024, st_body_inline_threshold_bytes = 8 * 1024,
      st_export_max_requests = 10000, st_environment = ''local'', st_service_name = ''webhook-inspector'',
      st_log_level = ''INFO'', st_redis_url = None, st_rate_limit_redis_url = None, st_abuse_webhook_url = None\<rparr>"

section \<open>The secrets key\<close>

definition validate_secrets_key :: "string option \<Rightarrow> string option res" where
  "validate_secrets_key value =
     (case value of
        None \<Rightarrow> Inr None
      | Some v \<Rightarrow> bindR (b64decode v) (\<lambda>key.
          if length key \<noteq> 32 then Inl ValueError else Inr (Some key)))"

text \<open>What the use cases are given: an unset or empty key is the empty one.\<close>

definition key_of_settings :: "settings \<Rightarrow> string res" where
  "key_of_settings st =
     (if falsy (st_secrets_encryption_key st) then Inr [] else b64decode (the (st_secrets_encryption_key st)))"

section \<open>Starting\<close>

text \<open>The application and the ingestor start in the same way, the worker asks for less.\<close>

definition web_startup :: "settings \<Rightarrow> string option res" where
  "web_startup st =
     bindR (validate_secrets_key (st_secrets_encryption_key st)) (\<lambda>key.
     if st_environment st = ''prod'' then
       (if falsy (st_redis_url st) then Inl RuntimeError
        else if falsy (st_rate_limit_redis_url st) then Inl RuntimeError
        else Inr key)
     else Inr key)"

definition worker_startup :: "settings \<Rightarrow> string res" where
  "worker_startup st =
     (if st_environment st = ''prod'' \<and> falsy (st_redis_url st) then Inl RuntimeError else key_of_settings st)"

datatype blob_backend =
    Local_blob_storage string
  | Gcs_blob_storage string
  | S3_blob_storage string string string string string

definition make_blob_storage :: "settings \<Rightarrow> blob_backend res" where
  "make_blob_storage st =
     (let backend = str_lower (st_blob_storage_backend st) in
      if backend = ''local'' then Inr (Local_blob_storage (st_blob_storage_path st))
      else if backend = ''gcs'' then
        (if falsy (st_gcs_bucket_name st) then Inl ValueError else Inr (Gcs_blob_storage (the (st_gcs_bucket_name st))))
      else if backend = ''s3'' then
        (if list_ex falsy [st_s3_endpoint_url st, st_s3_bucket_name st, st_s3_access_key_id st, st_s3_secret_access_key st]
         then Inl ValueError
         else Inr (S3_blob_storage (the (st_s3_endpoint_url st)) (the (st_s3_bucket_name st))
                (the (st_s3_access_key_id st)) (the (st_s3_secret_access_key st)) (st_s3_region st)))
      else Inl ValueError)"

section \<open>What a start guarantees\<close>

lemma validated_key: "validate_secrets_key v = Inr (Some key) \<Longrightarrow> length key = 32 \<and> (\<exists>s. v = Some s \<and> b64decode s = Inr key)"
  by (auto simp: validate_secrets_key_def bindR_Inr_iff split: option.splits if_splits)

lemma encoded_key_is_accepted: "length key = 32 \<Longrightarrow> validate_secrets_key (Some (b64encode key)) = Inr (Some key)"
  by (simp add: validate_secrets_key_def b64decode_b64encode)

text \<open>
  In production a web process that starts has a queue and a limiter; its key, if set, has 32 bytes and is
  the one the use cases get. An empty key is refused here and taken for unset by the use cases.
\<close>

lemma web_startup_guarantees:
  assumes "web_startup st = Inr key" and "st_environment st = ''prod''"
  shows "\<not> falsy (st_redis_url st) \<and> \<not> falsy (st_rate_limit_redis_url st) \<and>
    (case key of None \<Rightarrow> key_of_settings st = Inr [] | Some k \<Rightarrow> length k = 32 \<and> key_of_settings st = Inr k)"
proof -
  have v: "validate_secrets_key (st_secrets_encryption_key st) = Inr key"
    and r: "\<not> falsy (st_redis_url st)" "\<not> falsy (st_rate_limit_redis_url st)"
    using assms by (auto simp: web_startup_def bindR_Inr_iff split: if_splits)
  show ?thesis
  proof (cases key)
    case None
    then have "st_secrets_encryption_key st = None"
      using v by (auto simp: validate_secrets_key_def bindR_Inr_iff split: option.splits if_splits)
    then show ?thesis using r None by (simp add: key_of_settings_def)
  next
    case (Some k)
    then obtain s where s: "st_secrets_encryption_key st = Some s" "b64decode s = Inr k" "length k = 32"
      using validated_key v by auto
    moreover have "s \<noteq> []"
    proof
      assume "s = []"
      moreover have "b64decode [] = Inr []" by code_simp
      ultimately show False using s by simp
    qed
    ultimately show ?thesis using r Some by (simp add: key_of_settings_def)
  qed
qed

text \<open>The worker does not look at the length of the key: the one of the other processes is refused there, not here.\<close>

lemma short_key: "b64decode ''AAAA'' = Inr [CHR 0x00, CHR 0x00, CHR 0x00]"
  by code_simp

lemma worker_accepts_short_key:
  assumes "st_environment st = ''local''" and "st_secrets_encryption_key st = Some ''AAAA''"
  shows "worker_startup st = Inr [CHR 0x00, CHR 0x00, CHR 0x00] \<and> web_startup st = Inl ValueError"
  using assms by (simp add: worker_startup_def web_startup_def key_of_settings_def validate_secrets_key_def falsy_def short_key)

text \<open>A storage that is made has what its backend needs.\<close>

lemma make_blob_storage_complete:
  assumes "make_blob_storage st = Inr (S3_blob_storage url bucket access secret region)"
  shows "url \<noteq> [] \<and> bucket \<noteq> [] \<and> access \<noteq> [] \<and> secret \<noteq> []"
  using assms by (auto simp: make_blob_storage_def Let_def falsy_def split: if_splits option.splits)

end
