(* ===== verification/Rate_Limit.thy ===== *)
theory Rate_Limit
  imports World
begin

text \<open>
  Rate limiting (\<open>web/middleware/rate_limit.py\<close>, \<open>token_rate_limit.py\<close>, \<open>client_ip.py\<close>): the Lua script
  on a Redis sorted set, the middleware keyed by client address and the helper keyed by token. The
  script is proved equal to a reference that only looks at the calls allowed so far.
\<close>

section \<open>Redis\<close>

text \<open>
  A sorted set is a list of members with their scores; a key vanishes at its expiry, in milliseconds of
  the server's clock, or with its last member.
\<close>

type_synonym zset = "(string \<times> int) list"

record redis_key =
  rk_members :: zset
  rk_expires_at :: int

type_synonym redis = "(string \<times> redis_key) list"

definition zset_of :: "int \<Rightarrow> string \<Rightarrow> redis \<Rightarrow> zset" where
  "zset_of server_now key r =
     (case map_of r key of None \<Rightarrow> [] | Some k \<Rightarrow> if rk_expires_at k \<le> server_now then [] else rk_members k)"

definition zremrangebyscore :: "int \<Rightarrow> zset \<Rightarrow> zset" where
  "zremrangebyscore cutoff z = filter (\<lambda>(m, s). cutoff < s) z"

text \<open>\<open>ZRANGE key 0 0 WITHSCORES\<close>: the lowest score; on an empty set \<open>oldest[2]\<close> is nil and the sum raises.\<close>

fun lowest_score :: "zset \<Rightarrow> int res" where
  "lowest_score [] = Inl RuntimeError"
| "lowest_score ((m, s) # z) = Inr (foldl min s (map snd z))"

definition ceil_div :: "int \<Rightarrow> int \<Rightarrow> int" where
  "ceil_div a b = - ((- a) div b)"

text \<open>
  The script. An entry that stays has the expiry it had; \<open>redis_put\<close> writes back what
  \<open>ZREMRANGEBYSCORE\<close> left.
\<close>

definition redis_put :: "string \<Rightarrow> zset \<Rightarrow> int \<Rightarrow> redis \<Rightarrow> redis" where
  "redis_put key z expires_at r = AList.update key \<lparr>rk_members = z, rk_expires_at = expires_at\<rparr> r"

definition expiry_of :: "string \<Rightarrow> redis \<Rightarrow> int" where
  "expiry_of key r = (case map_of r key of None \<Rightarrow> 0 | Some k \<Rightarrow> rk_expires_at k)"

definition LUA_SLIDING_WINDOW ::
  "int \<Rightarrow> string \<Rightarrow> int \<Rightarrow> int \<Rightarrow> int \<Rightarrow> string \<Rightarrow> redis \<Rightarrow> (bool \<times> int \<times> int) res \<times> redis" where
  "LUA_SLIDING_WINDOW server_now key now window limit member r =
     (let cutoff = now - window;
          z = zremrangebyscore cutoff (zset_of server_now key r);
          r' = redis_put key z (expiry_of key r) r;
          count = int (length z)
      in if limit \<le> count
         then (bindR (lowest_score z) (\<lambda>oldest.
                let retry_ms = (oldest + window) - now in Inr (False, count, ceil_div retry_ms 1000)), r')
         else (Inr (True, count + 1, 0), redis_put key (AList.update member now z) (server_now + window) r))"

section \<open>The middleware\<close>

datatype fail_mode = Fail_open | Fail_closed

record rule =
  ru_name :: string
  ru_limit :: int
  ru_window_seconds :: int
  ru_fail_mode :: fail_mode

definition match_rule :: "(string \<times> rule) list \<Rightarrow> string \<Rightarrow> rule option" where
  "match_rule rules path = map_option snd (List.find (\<lambda>(p, rule). prefix p path) rules)"

definition extract_client_ip :: "dict \<Rightarrow> string option \<Rightarrow> string" where
  "extract_client_ip headers client_host =
     (let fly = map_of headers ''fly-client-ip''; fwd = map_of headers ''x-forwarded-for'' in
      if \<not> falsy fly then str_strip (the fly)
      else if \<not> falsy fwd then str_strip (str_before (CHR '','') (the fwd))
      else if \<not> falsy client_host then the client_host else ''0.0.0.0'')"

text \<open>The ASGI headers, decoded and lowered; of equal names the last one stays.\<close>

definition asgi_headers :: "(string \<times> string) list \<Rightarrow> dict" where
  "asgi_headers hs = fold (\<lambda>(k, v) d. AList.update (str_lower k) v d) hs []"

definition limit_key :: "string \<Rightarrow> string \<Rightarrow> string" where
  "limit_key name who = ''rl:'' @ name @ '':'' @ who"

text \<open>
  The surroundings of one request: the configured URL, whether \<open>from_url\<close>, \<open>SCRIPT LOAD\<close> and \<open>EVALSHA\<close>
  raise, the clock of the process in milliseconds, the clock of the server and the hexadecimal digits of
  \<open>uuid4()\<close>.
\<close>

record redis_conn =
  rc_url :: "string option"
  rc_from_url_fault :: "exn option"
  rc_load_fault :: "exn option"
  rc_fault :: "exn option"
  rc_now_ms :: int
  rc_server_now :: int
  rc_hex :: string

text \<open>
  The server: its keys and whether the script is in its cache. The limiter of a process: the URL once the
  provider was called, whether there is a client, and whether the digest of the script was stored.
\<close>

record redis_server =
  rv_keys :: redis
  rv_script :: bool

record limiter =
  lm_url_cache :: "string option option"
  lm_redis :: bool
  lm_script_sha :: bool

definition limiter_init :: limiter where
  "limiter_init = \<lparr>lm_url_cache = None, lm_redis = False, lm_script_sha = False\<rparr>"

definition limit_member :: "redis_conn \<Rightarrow> string" where
  "limit_member c = str_int (rc_now_ms c) @ '':'' @ rc_hex c"

text \<open>The client is stored before the script is loaded. The result says whether there is a client.\<close>

definition connect_redis :: "redis_conn \<Rightarrow> limiter \<Rightarrow> redis_server \<Rightarrow> bool res \<times> limiter \<times> redis_server" where
  "connect_redis c l s =
     (if lm_redis l then (Inr True, l, s)
      else case rc_from_url_fault c of
        Some e \<Rightarrow> (Inl e, l, s)
      | None \<Rightarrow>
          (case rc_load_fault c of
             Some e \<Rightarrow> (Inl e, l\<lparr>lm_redis := True\<rparr>, s)
           | None \<Rightarrow> (Inr True, l\<lparr>lm_redis := True, lm_script_sha := True\<rparr>, s\<lparr>rv_script := True\<rparr>)))"

definition ensure_redis :: "redis_conn \<Rightarrow> limiter \<Rightarrow> redis_server \<Rightarrow> bool res \<times> limiter \<times> redis_server" where
  "ensure_redis c l s =
     (let url = (case lm_url_cache l of None \<Rightarrow> rc_url c | Some u \<Rightarrow> u);
          l1 = l\<lparr>lm_url_cache := Some url\<rparr>
      in if url = None then (Inr False, l1, s) else connect_redis c l1 s)"

text \<open>The helper of the routes reads the URL each time.\<close>

definition ensure_token_redis :: "redis_conn \<Rightarrow> limiter \<Rightarrow> redis_server \<Rightarrow> bool res \<times> limiter \<times> redis_server" where
  "ensure_token_redis c l s = (if rc_url c = None then (Inr False, l, s) else connect_redis c l s)"

text \<open>\<open>EVALSHA\<close>: redis-py refuses None as digest, the server a digest it does not know.\<close>

definition evalsha ::
  "redis_conn \<Rightarrow> limiter \<Rightarrow> string \<Rightarrow> int \<Rightarrow> int \<Rightarrow> redis_server \<Rightarrow> (bool \<times> int \<times> int) res \<times> redis_server" where
  "evalsha c l key window_seconds limit s =
     (case rc_fault c of
        Some e \<Rightarrow> (Inl e, s)
      | None \<Rightarrow>
          if \<not> lm_script_sha l then (Inl DataError, s)
          else if \<not> rv_script s then (Inl RuntimeError, s)
          else (case LUA_SLIDING_WINDOW (rc_server_now c) key (rc_now_ms c) (window_seconds * 1000) limit
                       (limit_member c) (rv_keys s) of
                  (x, r') \<Rightarrow> (x, s\<lparr>rv_keys := r'\<rparr>)))"

text \<open>
  What the middleware does with a request: hand it to the application, or send an answer. The
  application is given by whether its first, second \<dots> call of this request raises.
\<close>

datatype action = Call_app | Respond nat dict string

definition json_response :: "nat \<Rightarrow> string \<Rightarrow> dict \<Rightarrow> action" where
  "json_response status body extra_headers = Respond status
     ([(''content-type'', ''application/json''), (''content-length'', str_int (int (length body)))] @ extra_headers) body"

definition limiter_failed ::
  "rule \<Rightarrow> (nat \<Rightarrow> exn option) \<Rightarrow> action list \<Rightarrow> exn option \<times> action list \<times> metric list" where
  "limiter_failed rule app done =
     (if ru_fail_mode rule = Fail_closed
      then (None, done @ [json_response 503 ''{\"detail\":\"rate limiter unavailable\"}'' [(''retry-after'', ''60'')]],
            [Rate_limit_redis_error (ru_name rule), Rate_limit_block (ru_name rule) ''fail_closed''])
      else (app (length done), done @ [Call_app], [Rate_limit_redis_error (ru_name rule)]))"

text \<open>The call of the application in dev mode stands inside the \<open>try\<close>.\<close>

definition rate_limit_middleware ::
  "(string \<times> rule) list \<Rightarrow> redis_conn \<Rightarrow> (nat \<Rightarrow> exn option) \<Rightarrow> string \<Rightarrow> string \<Rightarrow> (string \<times> string) list
     \<Rightarrow> string option \<Rightarrow> limiter \<Rightarrow> redis_server
     \<Rightarrow> (exn option \<times> action list \<times> metric list) \<times> limiter \<times> redis_server" where
  "rate_limit_middleware rules c app scope_type path hs client_host l s =
     (if scope_type \<noteq> ''http'' then ((app 0, [Call_app], []), l, s)
      else case match_rule rules path of
        None \<Rightarrow> ((app 0, [Call_app], []), l, s)
      | Some rule \<Rightarrow>
          let key = limit_key (ru_name rule) (extract_client_ip (asgi_headers hs) client_host) in
          (case ensure_redis c l s of
             (Inl e, l', s') \<Rightarrow> (limiter_failed rule app [], l', s')
           | (Inr False, l', s') \<Rightarrow>
               (case app 0 of
                  None \<Rightarrow> ((None, [Call_app], []), l', s')
                | Some e \<Rightarrow> (limiter_failed rule app [Call_app], l', s'))
           | (Inr True, l', s') \<Rightarrow>
               (case evalsha c l' key (ru_window_seconds rule) (ru_limit rule) s' of
                  (Inl e, s2) \<Rightarrow> (limiter_failed rule app [], l', s2)
                | (Inr (allowed, count, retry_after), s2) \<Rightarrow>
                    if allowed then ((app 0, [Call_app], []), l', s2)
                    else ((None, [json_response 429 ''{\"detail\":\"rate limit exceeded\"}''
                              [(''retry-after'', str_int retry_after)]],
                           [Rate_limit_block (ru_name rule) ''quota'']), l', s2))))"

text \<open>The helper of the routes: a Redis failure lets the call through.\<close>

definition enforce_token_limit ::
  "redis_conn \<Rightarrow> string \<Rightarrow> string \<Rightarrow> int \<Rightarrow> int \<Rightarrow> limiter \<Rightarrow> redis_server
     \<Rightarrow> unit res \<times> metric list \<times> limiter \<times> redis_server" where
  "enforce_token_limit c token rule_name limit window_seconds l s =
     (case ensure_token_redis c l s of
        (Inl e, l', s') \<Rightarrow> (Inr (), [Rate_limit_redis_error rule_name], l', s')
      | (Inr False, l', s') \<Rightarrow> (Inr (), [], l', s')
      | (Inr True, l', s') \<Rightarrow>
          (case evalsha c l' (limit_key rule_name token) window_seconds limit s' of
             (Inl e, s2) \<Rightarrow> (Inr (), [Rate_limit_redis_error rule_name], l', s2)
           | (Inr (allowed, count, retry_after), s2) \<Rightarrow>
               if allowed then (Inr (), [], l', s2)
               else (Inl (HTTPException 429), [Rate_limit_block rule_name ''quota''], l', s2)))"

text \<open>The rules of the two applications (\<open>web/ingestor/main.py\<close>, \<open>web/app/main.py\<close>).\<close>

definition INGEST_RULES :: "(string \<times> rule) list" where
  "INGEST_RULES = [(''/h/'', \<lparr>ru_name = ''ingest'', ru_limit = 100, ru_window_seconds = 60, ru_fail_mode = Fail_closed\<rparr>)]"

definition API_RULES :: "(string \<times> rule) list" where
  "API_RULES = [(''/api/endpoints/'', \<lparr>ru_name = ''api'', ru_limit = 300, ru_window_seconds = 60, ru_fail_mode = Fail_open\<rparr>)]"

section \<open>The reference\<close>

text \<open>
  A call is allowed when fewer than \<open>limit\<close> calls were allowed in the window before it. The reference
  keeps every allowed time and knows no sorted sets, scores or expiries.
\<close>

definition recent :: "int \<Rightarrow> int \<Rightarrow> int list \<Rightarrow> nat" where
  "recent window t past = length (filter (\<lambda>s. t - window < s) past)"

fun reference_decisions :: "int \<Rightarrow> int \<Rightarrow> int list \<Rightarrow> int list \<Rightarrow> bool list" where
  "reference_decisions window limit past [] = []"
| "reference_decisions window limit past (t # ts) =
     (let ok = int (recent window t past) < limit
      in ok # reference_decisions window limit (if ok then past @ [t] else past) ts)"

text \<open>The script over a sequence of calls on one key, each a time and a member; the server has the same clock.\<close>

fun script_run :: "string \<Rightarrow> int \<Rightarrow> int \<Rightarrow> (int \<times> string) list \<Rightarrow> redis \<Rightarrow> bool list \<times> redis" where
  "script_run key window limit [] r = ([], r)"
| "script_run key window limit ((t, m) # calls) r =
     (case LUA_SLIDING_WINDOW t key t window limit m r of (res, r') \<Rightarrow>
        (case script_run key window limit calls r' of (ds, r'') \<Rightarrow>
           ((case res of Inl e \<Rightarrow> False | Inr (ok, n, w) \<Rightarrow> ok) # ds, r'')))"

definition admitted :: "int list \<Rightarrow> bool list \<Rightarrow> int list" where
  "admitted ts ds = map fst (filter snd (zip ts ds))"

lemma admitted_simps [simp]:
  "admitted [] ds = []" "admitted (t # ts) (d # ds) = (if d then t # admitted ts ds else admitted ts ds)"
  by (simp_all add: admitted_def)

text \<open>
  What the key stands for: from time \<open>t0\<close> on, what the script sees are the allowed calls \<open>L\<close> of the window.
\<close>

definition window_inv :: "string \<Rightarrow> int \<Rightarrow> int \<Rightarrow> zset \<Rightarrow> redis \<Rightarrow> bool" where
  "window_inv key window t0 L r \<longleftrightarrow> (\<forall>x \<in> set L. snd x \<le> t0) \<and>
     (\<forall>t \<ge> t0. zremrangebyscore (t - window) (zset_of t key r) = filter (\<lambda>(m, s). t - window < s) L)"

lemma zset_of_put [simp]:
  "zset_of t key (redis_put key z e r) = (if e \<le> t then [] else z)"
  "key' \<noteq> key \<Longrightarrow> zset_of t key' (redis_put key z e r) = zset_of t key' r"
  by (simp_all add: zset_of_def redis_put_def update_conv' map_of_update)

lemma AList_update_new: "k \<notin> fst ` set z \<Longrightarrow> AList.update k v z = z @ [(k, v)]"
  by (induction z) auto

lemma window_inv_fresh: "map_of r key = None \<Longrightarrow> window_inv key window t0 [] r"
  by (simp add: window_inv_def zset_of_def zremrangebyscore_def)

lemma recent_filter: "recent window t (map snd L) = length (filter (\<lambda>(m, s). t - window < s) L)"
  by (induction L) (auto simp: recent_def)

lemma script_step:
  assumes "window_inv key window t0 L r" and "t0 \<le> t" and "0 < window" and "m \<notin> fst ` set L"
  shows "recent window t (map snd L) < nat limit \<Longrightarrow>
      \<exists>r'. LUA_SLIDING_WINDOW t key t window limit m r = (Inr (True, int (recent window t (map snd L)) + 1, 0), r') \<and>
        window_inv key window t (L @ [(m, t)]) r'"
    "nat limit \<le> recent window t (map snd L) \<Longrightarrow> 0 < limit \<Longrightarrow>
      \<exists>low r'. lowest_score (filter (\<lambda>(m, s). t - window < s) L) = Inr low \<and>
        LUA_SLIDING_WINDOW t key t window limit m r =
          (Inr (False, int (recent window t (map snd L)), ceil_div (low + window - t) 1000), r') \<and>
        window_inv key window t L r'"
proof -
  let ?z = "filter (\<lambda>(m, s). t - window < s) L"
  have z: "zremrangebyscore (t - window) (zset_of t key r) = ?z" using assms(1,2) by (simp add: window_inv_def)
  have n: "recent window t (map snd L) = length ?z" by (rule recent_filter)
  have old: "\<forall>x \<in> set L. snd x \<le> t0" using assms(1) by (simp add: window_inv_def)
  have narrow: "zremrangebyscore (t' - window) ?z = filter (\<lambda>(m, s). t' - window < s) L" if "t \<le> t'" for t'
    using that unfolding zremrangebyscore_def by (auto intro!: filter_cong)
  have none: "filter (\<lambda>(m, s). t' - window < s) L = []" if "t \<le> t'" "zset_of t' key r = []" for t'
    using assms(1,2) that unfolding window_inv_def by (metis zremrangebyscore_def filter.simps(1) order_trans)
  show "\<exists>r'. LUA_SLIDING_WINDOW t key t window limit m r = (Inr (True, int (recent window t (map snd L)) + 1, 0), r') \<and>
        window_inv key window t (L @ [(m, t)]) r'" if "recent window t (map snd L) < nat limit"
  proof -
    let ?r' = "redis_put key (AList.update m t ?z) (t + window) r"
    have new: "AList.update m t ?z = ?z @ [(m, t)]" using assms(4) by (intro AList_update_new) auto
    have "zremrangebyscore (t' - window) (zset_of t' key ?r') = filter (\<lambda>(m, s). t' - window < s) (L @ [(m, t)])"
      if "t \<le> t'" for t'
    proof (cases "t + window \<le> t'")
      case True
      then have "\<forall>x \<in> set (L @ [(m, t)]). \<not> t' - window < snd x" using old assms(2) by auto
      then have "filter (\<lambda>(m, s). t' - window < s) (L @ [(m, t)]) = []" unfolding filter_empty_conv by auto
      with True show ?thesis by (simp add: zremrangebyscore_def)
    next
      case False
      then show ?thesis using narrow [OF that] by (simp add: new) (simp add: zremrangebyscore_def)
    qed
    then have "window_inv key window t (L @ [(m, t)]) ?r'" using old assms(2) by (fastforce simp: window_inv_def)
    then show ?thesis using that z n by (auto simp: LUA_SLIDING_WINDOW_def Let_def)
  qed
  show "\<exists>low r'. lowest_score ?z = Inr low \<and> LUA_SLIDING_WINDOW t key t window limit m r =
          (Inr (False, int (recent window t (map snd L)), ceil_div (low + window - t) 1000), r') \<and>
        window_inv key window t L r'" if "nat limit \<le> recent window t (map snd L)" "0 < limit"
  proof -
    let ?r' = "redis_put key ?z (expiry_of key r) r"
    have "?z \<noteq> []" using that n by auto
    then obtain low' where low': "lowest_score ?z = Inr low'" by (cases ?z) auto
    have "zremrangebyscore (t' - window) (zset_of t' key ?r') = filter (\<lambda>(m, s). t' - window < s) L"
      if later: "t \<le> t'" for t'
    proof (cases "expiry_of key r \<le> t'")
      case True
      then have "zset_of t' key r = []" by (auto simp: zset_of_def expiry_of_def split: option.splits)
      then show ?thesis using none [OF later] True by (simp add: zremrangebyscore_def)
    next
      case False
      then show ?thesis using narrow [OF later] by simp
    qed
    then have "window_inv key window t L ?r'" using old assms(2) by (fastforce simp: window_inv_def)
    then show ?thesis using that z n low' by (auto simp: LUA_SLIDING_WINDOW_def Let_def)
  qed
qed
lemma script_run_spec:
  assumes "window_inv key window t0 L r" and "sorted (map fst calls)" and "\<forall>c \<in> set calls. t0 \<le> fst c"
    and "distinct (map snd calls)" and "fst ` set L \<inter> snd ` set calls = {}" and "0 < window" and "0 < limit"
    and "script_run key window limit calls r = (ds, r')"
  shows "ds = reference_decisions window limit (map snd L) (map fst calls)"
    "\<exists>L'. window_inv key window (last (t0 # map fst calls)) L' r' \<and>
       map snd L' = map snd L @ admitted (map fst calls) ds \<and> fst ` set L' \<subseteq> fst ` set L \<union> snd ` set calls"
proof -
  have "ds = reference_decisions window limit (map snd L) (map fst calls) \<and>
    (\<exists>L'. window_inv key window (last (t0 # map fst calls)) L' r' \<and>
       map snd L' = map snd L @ admitted (map fst calls) ds \<and> fst ` set L' \<subseteq> fst ` set L \<union> snd ` set calls)"
    using assms
  proof (induction calls arbitrary: t0 L r ds)
    case Nil
    then show ?case by auto
  next
    case (Cons c calls)
    obtain t m where c: "c = (t, m)" by (cases c)
    have t0: "t0 \<le> t" and new: "m \<notin> fst ` set L" and later: "\<forall>c \<in> set calls. t \<le> fst c"
      and fresh: "m \<notin> snd ` set calls"
      using Cons.prems c by auto
    note S = script_step [OF Cons.prems(1) t0 Cons.prems(6) new, of limit]
    show ?case
    proof (cases "recent window t (map snd L) < nat limit")
      case True
      then obtain r1 where r1: "LUA_SLIDING_WINDOW t key t window limit m r = (Inr (True, int (recent window t (map snd L)) + 1, 0), r1)"
        "window_inv key window t (L @ [(m, t)]) r1" using S(1) by blast
      obtain ds1 where ds1: "script_run key window limit calls r1 = (ds1, r')" "ds = True # ds1"
        using Cons.prems(8) r1(1) c by (auto split: prod.splits)
      have I: "ds1 = reference_decisions window limit (map snd (L @ [(m, t)])) (map fst calls) \<and>
        (\<exists>L'. window_inv key window (last (t # map fst calls)) L' r' \<and>
          map snd L' = map snd (L @ [(m, t)]) @ admitted (map fst calls) ds1 \<and>
          fst ` set L' \<subseteq> fst ` set (L @ [(m, t)]) \<union> snd ` set calls)"
        by (rule Cons.IH [OF r1(2) _ later]) (use Cons.prems ds1(1) fresh c in auto)
      have ok: "int (recent window t (map snd L)) < limit" using True by simp
      show ?thesis using I ok ds1(2) c by (auto simp: Let_def)
    next
      case False
      then obtain low r1 where r1: "LUA_SLIDING_WINDOW t key t window limit m r =
          (Inr (False, int (recent window t (map snd L)), ceil_div (low + window - t) 1000), r1)"
        "window_inv key window t L r1" using S(2) Cons.prems(7) by (auto simp: not_less)
      obtain ds1 where ds1: "script_run key window limit calls r1 = (ds1, r')" "ds = False # ds1"
        using Cons.prems(8) r1(1) c by (auto split: prod.splits)
      have I: "ds1 = reference_decisions window limit (map snd L) (map fst calls) \<and>
        (\<exists>L'. window_inv key window (last (t # map fst calls)) L' r' \<and>
          map snd L' = map snd L @ admitted (map fst calls) ds1 \<and>
          fst ` set L' \<subseteq> fst ` set L \<union> snd ` set calls)"
        by (rule Cons.IH [OF r1(2) _ later]) (use Cons.prems ds1(1) c in auto)
      have ok: "\<not> int (recent window t (map snd L)) < limit" using False Cons.prems(7) by simp
      from I obtain L' where L': "window_inv key window (last (t # map fst calls)) L' r'"
        "map snd L' = map snd L @ admitted (map fst calls) ds1" "fst ` set L' \<subseteq> fst ` set L \<union> snd ` set calls"
        by blast
      show ?thesis using I ok ds1(2) c L' by (intro conjI exI [of _ L']) (auto simp: Let_def)
    qed
  qed
  then show "ds = reference_decisions window limit (map snd L) (map fst calls)"
    "\<exists>L'. window_inv key window (last (t0 # map fst calls)) L' r' \<and>
       map snd L' = map snd L @ admitted (map fst calls) ds \<and> fst ` set L' \<subseteq> fst ` set L \<union> snd ` set calls"
    by blast+
qed

section \<open>What the reference guarantees\<close>

definition in_window :: "int \<Rightarrow> int \<Rightarrow> int list \<Rightarrow> nat" where
  "in_window window t past = length (filter (\<lambda>s. t - window < s \<and> s \<le> t) past)"

lemma in_window_le_recent: "s \<le> t \<Longrightarrow> in_window window t past \<le> recent window s past"
proof -
  assume "s \<le> t"
  then have "filter (\<lambda>x. t - window < x \<and> x \<le> t) past = filter (\<lambda>x. t - window < x \<and> x \<le> t) (filter (\<lambda>x. s - window < x) past)"
    by (auto intro: filter_cong)
  then show ?thesis unfolding in_window_def recent_def by (metis length_filter_le)
qed

lemma reference_bound:
  assumes "sorted ts" and "\<forall>t \<in> set ts. \<forall>s \<in> set past. s \<le> t" and "0 < limit"
    and "\<forall>t. int (in_window window t past) \<le> limit"
  shows "int (in_window window t (past @ admitted ts (reference_decisions window limit past ts))) \<le> limit"
  using assms
proof (induction ts arbitrary: past)
  case Nil
  then show ?case by simp
next
  case (Cons u ts)
  show ?case
  proof (cases "int (recent window u past) < limit")
    case True
    have "int (in_window window t' (past @ [u])) \<le> limit" for t'
    proof (cases "u \<le> t'")
      case later: True
      have "in_window window t' (past @ [u]) \<le> in_window window t' past + 1" by (simp add: in_window_def)
      also have "\<dots> \<le> recent window u past + 1" using in_window_le_recent [OF later] by simp
      finally show ?thesis using True by simp
    next
      case False
      then have "in_window window t' (past @ [u]) = in_window window t' past" by (simp add: in_window_def)
      then show ?thesis using Cons.prems(4) by simp
    qed
    then have "int (in_window window t ((past @ [u]) @ admitted ts (reference_decisions window limit (past @ [u]) ts))) \<le> limit"
      using Cons.prems by (intro Cons.IH) auto
    then show ?thesis using True by (simp add: Let_def)
  next
    case False
    then show ?thesis using Cons.IH [of past] Cons.prems by (simp add: Let_def)
  qed
qed

text \<open>
  C20. The rate limiter is an exact sliding window: for any calls on a fresh key, in order of time and with
  distinct members, the Lua script with its scores, removals and expiries takes the same decisions as a
  reference that keeps the times of all allowed calls and allows a call when fewer than \<open>limit\<close> of them
  lie in the window that ends with it.
\<close>

theorem rate_limit_matches_reference:
  assumes "sorted (map fst calls)" and "distinct (map snd calls)" and "0 < window" and "0 < limit"
    and "map_of r key = None"
  shows "fst (script_run key window limit calls r) = reference_decisions window limit [] (map fst calls)"
proof -
  obtain ds r' where run: "script_run key window limit calls r = (ds, r')" by fastforce
  have first: "\<forall>c \<in> set calls. fst (hd (calls @ [(0, [])])) \<le> fst c"
    using assms(1) by (cases calls) auto
  show ?thesis
    using script_run_spec(1) [OF window_inv_fresh [OF assms(5)] assms(1) first assms(2) _ assms(3,4) run] run by simp
qed
lemma foldl_min: "foldl min (a :: int) xs \<in> insert a (set xs) \<and> (\<forall>x \<in> insert a (set xs). foldl min a xs \<le> x)"
proof (induction xs arbitrary: a)
  case (Cons x xs)
  from Cons.IH [of "min a x"] show ?case by (auto simp: min_def split: if_splits)
qed simp

lemma lowest_scoreD:
  "lowest_score z = Inr low \<Longrightarrow> low \<in> snd ` set z \<and> (\<forall>x \<in> set z. low \<le> snd x)"
  by (cases z) (use foldl_min in \<open>fastforce simp: image_iff\<close>)+

lemma fewer_filtered:
  assumes "x \<in> set xs" and "q x" and "\<not> p x" and "\<And>y. p y \<Longrightarrow> q y"
  shows "length (filter p xs) < length (filter q xs)"
proof -
  have "filter p xs = filter p (filter q xs)" using assms(4) by (auto intro: filter_cong)
  then show ?thesis using length_filter_less [of x "filter q xs" p] assms(1-3) by simp
qed

lemma ceil_div_pos: "0 < a \<Longrightarrow> 1 \<le> ceil_div a 1000 \<and> a \<le> ceil_div a 1000 * 1000"
  unfolding ceil_div_def by linarith

text \<open>
  C21. The limit and the promise of \<open>Retry-After\<close>: after any calls on a fresh key, in order of time and
  with distinct members, every window of the given length - wherever it starts - contains at most
  \<open>limit\<close> allowed calls. A call that is then refused at \<open>t\<close> is told to come back after a positive
  number of seconds not above the window, and the next call on the key is allowed if it waits that long.
\<close>

theorem at_most_limit_per_window:
  assumes "sorted (map fst calls @ [t])" and "distinct (map snd calls @ [m, m'])" and "0 < window" and "0 < limit"
    and "map_of r key = None" and "script_run key window limit calls r = (ds, r')"
  shows "int (in_window window u (admitted (map fst calls) ds)) \<le> limit \<and>
    (\<forall>n wait r''. LUA_SLIDING_WINDOW t key t window limit m r' = (Inr (False, n, wait), r'') \<longrightarrow>
       1 \<le> wait \<and> wait \<le> ceil_div window 1000 \<and>
       (\<forall>t' \<ge> t + wait * 1000. \<exists>k r3. LUA_SLIDING_WINDOW t' key t' window limit m' r'' = (Inr (True, k, 0), r3)))"
proof -
  let ?past = "admitted (map fst calls) ds"
  have sort: "sorted (map fst calls)" and before: "\<forall>c \<in> set calls. fst c \<le> t" using assms(1) by (auto simp: sorted_append)
  define t0 where "t0 = fst (hd (calls @ [(t, [])]))"
  have first: "\<forall>c \<in> set calls. t0 \<le> fst c" and le: "t0 \<le> t" using sort before by (cases calls; auto simp: t0_def)+
  note R = script_run_spec [OF window_inv_fresh [OF assms(5), of window t0] sort first _ _ assms(3,4,6)]
  have ds: "ds = reference_decisions window limit [] (map fst calls)" using R(1) assms(2) by simp
  obtain L where L: "window_inv key window (last (t0 # map fst calls)) L r'" "map snd L = ?past"
    "fst ` set L \<subseteq> snd ` set calls"
    using R(2) assms(2) by auto
  have bound: "int (in_window window v ?past) \<le> limit" for v
    using reference_bound [OF sort _ assms(4), of "[]" window v] assms(4) unfolding ds by (simp add: in_window_def)
  have last: "last (t0 # map fst calls) \<le> t" using before le by (cases calls rule: rev_cases) auto
  have new: "m \<notin> fst ` set L" "m' \<notin> fst ` set L" using L(3) assms(2) by auto
  note S = script_step [OF L(1) last assms(3) new(1), of limit]
  have "1 \<le> wait \<and> wait \<le> ceil_div window 1000 \<and>
       (\<forall>t' \<ge> t + wait * 1000. \<exists>k r3. LUA_SLIDING_WINDOW t' key t' window limit m' r'' = (Inr (True, k, 0), r3))"
    if refused: "LUA_SLIDING_WINDOW t key t window limit m r' = (Inr (False, n, wait), r'')" for n wait r''
  proof -
    let ?z = "filter (\<lambda>(m, s). t - window < s) L"
    have full: "nat limit \<le> recent window t (map snd L)" using S(1) refused by (force simp: not_less [symmetric])
    obtain low where low: "lowest_score ?z = Inr low" "wait = ceil_div (low + window - t) 1000"
      "window_inv key window t L r''"
      using S(2) [OF full assms(4)] refused by auto
    note lowest = lowest_scoreD [OF low(1), THEN conjunct1] lowest_scoreD [OF low(1), THEN conjunct2]
    have upto: "\<forall>s \<in> set (map snd L). s \<le> t" using low(3) by (auto simp: window_inv_def)
    have range: "t - window < low" "low \<le> t" using lowest(1) upto by auto
    have w: "1 \<le> wait" "low + window - t \<le> wait * 1000"
      using ceil_div_pos [of "low + window - t"] range(1) low(2) by simp_all
    have "low + window - t \<le> window" using range(2) by simp
    then have cap: "wait \<le> ceil_div window 1000"
      unfolding low(2) ceil_div_def using zdiv_mono1 [of "- window" "- (low + window - t)" 1000] by simp
    have all: "recent window t (map snd L) = in_window window t (map snd L)"
      unfolding recent_def in_window_def using upto by (auto intro!: arg_cong [where f = length] filter_cong)
    have next_call: "\<exists>k r3. LUA_SLIDING_WINDOW t' key t' window limit m' r'' = (Inr (True, k, 0), r3)"
      if t': "t + wait * 1000 \<le> t'" for t'
    proof -
      have later: "t \<le> t'" using t' w(1) by simp
      have "length (filter (\<lambda>s. t' - window < s) (map snd L)) < length (filter (\<lambda>s. t - window < s) (map snd L))"
      proof (rule fewer_filtered [where x = low])
        show "low \<in> set (map snd L)" "t - window < low" "\<not> t' - window < low"
          using lowest(1) range(1) w(2) t' by auto
      qed (use later in auto)
      then have "int (recent window t' (map snd L)) < limit"
        using bound [of t] unfolding L(2) [symmetric] all [symmetric] recent_def by linarith
      then have "recent window t' (map snd L) < nat limit" by simp
      from script_step(1) [OF low(3) later assms(3) new(2) this] show ?thesis by blast
    qed
    show ?thesis using w(1) cap next_call by blast
  qed
  with bound show ?thesis by blast
qed

section \<open>The gate\<close>

lemma limit_key_inject:
  assumes "CHR '':'' \<notin> set n" and "CHR '':'' \<notin> set n'"
  shows "limit_key n w = limit_key n' w' \<longleftrightarrow> n = n' \<and> w = w'"
proof
  assume "limit_key n w = limit_key n' w'"
  then have "n @ CHR '':'' # w = n' @ CHR '':'' # w'" by (simp add: limit_key_def)
  then have "str_before (CHR '':'') (n @ CHR '':'' # w) = str_before (CHR '':'') (n' @ CHR '':'' # w')"
    "str_after (CHR '':'') (n @ CHR '':'' # w) = str_after (CHR '':'') (n' @ CHR '':'' # w')" by simp_all
  then show "n = n' \<and> w = w'" using assms by simp
qed simp

lemma script_other_key:
  assumes "LUA_SLIDING_WINDOW sn key t window limit m r = (x, r')" and "key' \<noteq> key"
  shows "map_of r' key' = map_of r key'"
  using assms by (auto simp: LUA_SLIDING_WINDOW_def Let_def redis_put_def update_conv' split: if_splits)

text \<open>The live entries of a key, as the script counts them.\<close>

definition live_count :: "redis_conn \<Rightarrow> string \<Rightarrow> int \<Rightarrow> redis \<Rightarrow> int" where
  "live_count c key window_seconds r =
     int (length (zremrangebyscore (rc_now_ms c - window_seconds * 1000) (zset_of (rc_server_now c) key r)))"

lemma script_verdict:
  assumes "0 < limit"
  shows "\<exists>ok n w r'. LUA_SLIDING_WINDOW (rc_server_now c) key (rc_now_ms c) (ws * 1000) limit m r = (Inr (ok, n, w), r') \<and>
    (ok \<longleftrightarrow> live_count c key ws r < limit)"
proof -
  let ?z = "zremrangebyscore (rc_now_ms c - ws * 1000) (zset_of (rc_server_now c) key r)"
  show ?thesis
  proof (cases "limit \<le> int (length ?z)")
    case True
    then obtain low where "lowest_score ?z = Inr low" using assms by (cases ?z) auto
    then show ?thesis using True by (auto simp: LUA_SLIDING_WINDOW_def Let_def live_count_def)
  next
    case False
    then show ?thesis by (auto simp: LUA_SLIDING_WINDOW_def Let_def live_count_def)
  qed
qed

text \<open>The URL in force, and when a request that needs Redis does not get a verdict from it.\<close>

definition url_in_force :: "redis_conn \<Rightarrow> limiter \<Rightarrow> string option" where
  "url_in_force c l = (case lm_url_cache l of None \<Rightarrow> rc_url c | Some u \<Rightarrow> u)"

definition redis_fails :: "redis_conn \<Rightarrow> limiter \<Rightarrow> redis_server \<Rightarrow> bool" where
  "redis_fails c l s \<longleftrightarrow> rc_fault c \<noteq> None \<or>
     (if lm_redis l then \<not> lm_script_sha l \<or> \<not> rv_script s
      else rc_from_url_fault c \<noteq> None \<or> rc_load_fault c \<noteq> None)"

definition same_other_keys :: "string \<Rightarrow> redis_server \<Rightarrow> redis_server \<Rightarrow> bool" where
  "same_other_keys key s s' \<longleftrightarrow> (\<forall>key'. key' \<noteq> key \<longrightarrow> map_of (rv_keys s') key' = map_of (rv_keys s) key')"

lemma same_other_keys_refl [simp]: "same_other_keys key s s"
  by (simp add: same_other_keys_def)

lemma evalsha_cases:
  assumes "0 < limit" and "evalsha c l key ws limit s = (x, s')"
  obtains (failed) e where "rc_fault c \<noteq> None \<or> \<not> lm_script_sha l \<or> \<not> rv_script s" "x = Inl e" "s' = s"
    | (verdict) ok n w where "rc_fault c = None" "lm_script_sha l" "rv_script s" "x = Inr (ok, n, w)"
        "ok \<longleftrightarrow> live_count c key ws (rv_keys s) < limit" "same_other_keys key s s'"
proof (cases "rc_fault c \<noteq> None \<or> \<not> lm_script_sha l \<or> \<not> rv_script s")
  case True
  then show ?thesis using assms(2) failed by (auto simp: evalsha_def split: option.splits if_splits)
next
  case False
  obtain ok n w r1 where v: "LUA_SLIDING_WINDOW (rc_server_now c) key (rc_now_ms c) (ws * 1000) limit (limit_member c) (rv_keys s) =
      (Inr (ok, n, w), r1)" "ok \<longleftrightarrow> live_count c key ws (rv_keys s) < limit"
    using script_verdict [OF assms(1)] by blast
  have "x = Inr (ok, n, w)" "s' = s\<lparr>rv_keys := r1\<rparr>" using assms(2) False v(1) by (simp_all add: evalsha_def)
  then show ?thesis
    using False v(2) script_other_key [OF v(1)] by (intro verdict) (simp_all add: same_other_keys_def)
qed

lemma connect_redis_cases:
  assumes "connect_redis c l s = (x, l', s')"
  obtains (failed) e where "\<not> lm_redis l" "rc_from_url_fault c \<noteq> None \<or> rc_load_fault c \<noteq> None" "x = Inl e" "rv_keys s' = rv_keys s"
    | (old) "lm_redis l" "x = Inr True" "l' = l" "s' = s"
    | (new) "\<not> lm_redis l" "rc_from_url_fault c = None" "rc_load_fault c = None" "x = Inr True"
        "lm_script_sha l'" "rv_script s'" "rv_keys s' = rv_keys s"
  using assms by (auto simp: connect_redis_def split: if_splits option.splits)

lemma middleware_run:
  assumes "match_rule rules path = Some rule" and "0 < ru_limit rule" and "url_in_force c l \<noteq> None"
    and "key = limit_key (ru_name rule) (extract_client_ip (asgi_headers hs) host)"
    and "rate_limit_middleware rules c app ''http'' path hs host l s = (out, l', s')"
  shows "out = (if redis_fails c l s then limiter_failed rule app []
       else if live_count c key (ru_window_seconds rule) (rv_keys s) < ru_limit rule then (app 0, [Call_app], [])
       else out) \<and>
     (\<not> redis_fails c l s \<and> ru_limit rule \<le> live_count c key (ru_window_seconds rule) (rv_keys s) \<longrightarrow>
       (\<exists>h b. out = (None, [Respond 429 h b], [Rate_limit_block (ru_name rule) ''quota'']))) \<and>
     same_other_keys key s s'"
proof -
  let ?l = "l\<lparr>lm_url_cache := Some (url_in_force c l)\<rparr>"
  obtain x l1 s1 where c: "connect_redis c ?l s = (x, l1, s1)" by (metis prod.exhaust)
  have e: "ensure_redis c l s = (x, l1, s1)"
    using assms(3) c by (auto simp: ensure_redis_def url_in_force_def Let_def split: option.splits)
  note run = assms(5) [unfolded rate_limit_middleware_def, simplified assms(1) assms(4) [symmetric] option.case Let_def e]
  from c show ?thesis
  proof (cases rule: connect_redis_cases)
    case (failed err)
    then show ?thesis using run by (auto simp: redis_fails_def same_other_keys_def)
  next
    case old
    obtain y s2 where v: "evalsha c l1 key (ru_window_seconds rule) (ru_limit rule) s1 = (y, s2)" by fastforce
    from assms(2) v show ?thesis
      by (cases rule: evalsha_cases) (use run v old in \<open>auto simp: redis_fails_def json_response_def split: if_splits\<close>)
  next
    case new
    obtain y s2 where v: "evalsha c l1 key (ru_window_seconds rule) (ru_limit rule) s1 = (y, s2)" by fastforce
    from assms(2) v show ?thesis
      by (cases rule: evalsha_cases)
         (use run v new in \<open>auto simp: redis_fails_def json_response_def same_other_keys_def split: if_splits\<close>)
  qed
qed

text \<open>
  C22. The middleware with a Redis configured, request by request. A request to a path of a rule reaches
  the application exactly when Redis fails and the rule fails open, or Redis answers and fewer than the
  limit of calls of this rule and this client are live; otherwise it is answered without reaching the
  application, with 503 when Redis failed and with 429 when the quota is used up, and the metric says
  which. It never touches the count of another client, nor of another rule.
\<close>

theorem middleware_gate:
  assumes "match_rule rules path = Some rule" and "0 < ru_limit rule" and "CHR '':'' \<notin> set (ru_name rule)"
    and "url_in_force c l \<noteq> None" and "who = extract_client_ip (asgi_headers hs) host"
    and "rate_limit_middleware rules c app ''http'' path hs host l s = ((raised, acts, ms), l', s')"
    and "failed \<longleftrightarrow> redis_fails c l s"
    and "full \<longleftrightarrow> \<not> failed \<and>
      ru_limit rule \<le> live_count c (limit_key (ru_name rule) who) (ru_window_seconds rule) (rv_keys s)"
  shows "(Call_app \<in> set acts \<longleftrightarrow> \<not> full \<and> \<not> (failed \<and> ru_fail_mode rule = Fail_closed)) \<and> length acts = 1 \<and>
    raised = (if Call_app \<in> set acts then app 0 else None) \<and>
    (full \<longrightarrow> (\<exists>h b. acts = [Respond 429 h b]) \<and> ms = [Rate_limit_block (ru_name rule) ''quota'']) \<and>
    (failed \<and> ru_fail_mode rule = Fail_closed \<longrightarrow> (\<exists>h b. acts = [Respond 503 h b]) \<and>
       ms = [Rate_limit_redis_error (ru_name rule), Rate_limit_block (ru_name rule) ''fail_closed'']) \<and>
    (Call_app \<in> set acts \<longrightarrow> ms = (if failed then [Rate_limit_redis_error (ru_name rule)] else [])) \<and>
    (\<forall>name who'. CHR '':'' \<notin> set name \<and> (name, who') \<noteq> (ru_name rule, who) \<longrightarrow>
       map_of (rv_keys s') (limit_key name who') = map_of (rv_keys s) (limit_key name who'))"
proof -
  let ?key = "limit_key (ru_name rule) who"
  note run = middleware_run [OF assms(1,2,4) arg_cong [where f = "limit_key (ru_name rule)", OF assms(5)] assms(6)]
  have frame: "\<forall>name who'. CHR '':'' \<notin> set name \<and> (name, who') \<noteq> (ru_name rule, who) \<longrightarrow>
      map_of (rv_keys s') (limit_key name who') = map_of (rv_keys s) (limit_key name who')"
    using run limit_key_inject [OF _ assms(3)] by (auto simp: same_other_keys_def)
  consider (failed) failed "\<not> full" "(raised, acts, ms) = limiter_failed rule app []"
    | (full) "\<not> failed" full "\<exists>h b. (raised, acts, ms) = (None, [Respond 429 h b], [Rate_limit_block (ru_name rule) ''quota''])"
    | (through) "\<not> failed" "\<not> full" "(raised, acts, ms) = (app 0, [Call_app], [])"
    using run assms(7,8) by (cases "redis_fails c l s") (auto split: if_splits)
  then show ?thesis
  proof cases
    case failed
    then show ?thesis using frame by (cases "ru_fail_mode rule") (simp_all add: limiter_failed_def json_response_def)
  next
    case full
    then show ?thesis using frame by auto
  next
    case through
    then show ?thesis using frame by simp
  qed
qed

text \<open>
  Without a Redis the call of the application stands inside the \<open>try\<close>: what it raises is taken for a
  failure of Redis, and a rule that fails open runs the application a second time.
\<close>

lemma dev_mode_repeats_the_call:
  assumes "match_rule rules path = Some rule" and "url_in_force c l = None" and "app 0 = Some e"
  shows "fst (rate_limit_middleware rules c app ''http'' path hs host l s) =
    (if ru_fail_mode rule = Fail_open then (app 1, [Call_app, Call_app], [Rate_limit_redis_error (ru_name rule)])
     else limiter_failed rule app [Call_app])"
  using assms by (cases "ru_fail_mode rule")
    (auto simp: rate_limit_middleware_def ensure_redis_def url_in_force_def Let_def limiter_failed_def split: option.splits)

section \<open>The limiter of a process over its requests\<close>

record http_call =
  hc_conn :: redis_conn
  hc_app :: "nat \<Rightarrow> exn option"
  hc_path :: string
  hc_headers :: "(string \<times> string) list"
  hc_client :: "string option"

fun serve_requests ::
  "(string \<times> rule) list \<Rightarrow> http_call list \<Rightarrow> limiter \<Rightarrow> redis_server \<Rightarrow> (exn option \<times> action list \<times> metric list) list" where
  "serve_requests rules [] l s = []"
| "serve_requests rules (q # qs) l s =
     (case rate_limit_middleware rules (hc_conn q) (hc_app q) ''http'' (hc_path q) (hc_headers q) (hc_client q) l s of
        (out, l', s') \<Rightarrow> out # serve_requests rules qs l' s')"

definition unavailable :: "exn option \<times> action list \<times> metric list \<Rightarrow> bool" where
  "unavailable out \<longleftrightarrow> fst out = None \<and> (\<exists>h b. fst (snd out) = [Respond 503 h b])"

definition no_digest :: "limiter \<Rightarrow> bool" where
  "no_digest l \<longleftrightarrow> lm_redis l \<and> \<not> lm_script_sha l \<and> (\<exists>u. lm_url_cache l = Some (Some u))"

lemma closed_unavailable: "ru_fail_mode rule = Fail_closed \<Longrightarrow> unavailable (limiter_failed rule app [])"
  by (simp add: unavailable_def limiter_failed_def json_response_def)

lemma no_digest_step:
  assumes "no_digest l" and "match_rule rules path = Some rule" and "ru_fail_mode rule = Fail_closed"
    and "rate_limit_middleware rules c app ''http'' path hs host l s = (out, l', s')"
  shows "unavailable out \<and> no_digest l'"
proof -
  obtain u where u: "lm_redis l" "\<not> lm_script_sha l" "lm_url_cache l = Some (Some u)"
    using assms(1) by (auto simp: no_digest_def)
  then have "ensure_redis c l s = (Inr True, l, s)"
    by (simp add: ensure_redis_def connect_redis_def Let_def)
  then have "out = limiter_failed rule app []" "l' = l"
    using assms(2,4) u(2) by (auto simp: rate_limit_middleware_def evalsha_def Let_def split: option.splits)
  then show ?thesis using assms(1,3) closed_unavailable by simp
qed

lemma no_digest_serves_nothing:
  assumes "no_digest l" and "\<forall>q \<in> set qs. \<exists>rule. match_rule rules (hc_path q) = Some rule \<and> ru_fail_mode rule = Fail_closed"
  shows "\<forall>out \<in> set (serve_requests rules qs l s). unavailable out"
  using assms
proof (induction qs arbitrary: l s)
  case (Cons q qs)
  obtain out l' s' where step:
    "rate_limit_middleware rules (hc_conn q) (hc_app q) ''http'' (hc_path q) (hc_headers q) (hc_client q) l s = (out, l', s')"
    by (metis prod.exhaust)
  obtain rule where "match_rule rules (hc_path q) = Some rule" "ru_fail_mode rule = Fail_closed"
    using Cons.prems(2) by auto
  then have "unavailable out" "no_digest l'" using no_digest_step [OF Cons.prems(1) _ _ step] by blast+
  then show ?case using Cons.IH [of l' s'] Cons.prems(2) step by simp
qed simp

text \<open>
  One failed \<open>SCRIPT LOAD\<close> is never retried: the client is stored before the script is loaded, so
  after a first request during which Redis refuses the load, every later request of the process to a
  path that fails closed is answered 503, however healthy Redis is by then.
\<close>

lemma failed_load_is_for_good:
  assumes "rc_url (hc_conn q) = Some u" and "rc_from_url_fault (hc_conn q) = None" and "rc_load_fault (hc_conn q) = Some e"
    and "\<forall>q' \<in> set (q # qs). \<exists>rule. match_rule rules (hc_path q') = Some rule \<and> ru_fail_mode rule = Fail_closed"
  shows "\<forall>out \<in> set (serve_requests rules (q # qs) limiter_init s). unavailable out"
proof -
  let ?l = "\<lparr>lm_url_cache = Some (Some u), lm_redis = True, lm_script_sha = False\<rparr>"
  obtain rule where rule: "match_rule rules (hc_path q) = Some rule" "ru_fail_mode rule = Fail_closed"
    using assms(4) by auto
  have "ensure_redis (hc_conn q) limiter_init s = (Inl e, ?l, s)"
    using assms(1-3) by (simp add: ensure_redis_def connect_redis_def limiter_init_def)
  then have step: "rate_limit_middleware rules (hc_conn q) (hc_app q) ''http'' (hc_path q) (hc_headers q) (hc_client q) limiter_init s =
      (limiter_failed rule (hc_app q) [], ?l, s)"
    using rule(1) by (simp add: rate_limit_middleware_def Let_def)
  have "no_digest ?l" by (simp add: no_digest_def)
  moreover have "\<forall>q' \<in> set qs. \<exists>rule. match_rule rules (hc_path q') = Some rule \<and> ru_fail_mode rule = Fail_closed"
    using assms(4) by simp
  ultimately have "\<forall>out \<in> set (serve_requests rules qs ?l s). unavailable out"
    by (rule no_digest_serves_nothing)
  then show ?thesis using step closed_unavailable [OF rule(2)] by simp
qed

text \<open>The helper of the routes never raises anything but 429, and a broken limiter lets everything through.\<close>

lemma token_limit_raises_429_only:
  "fst (enforce_token_limit c token name limit ws l s) \<in> {Inr (), Inl (HTTPException 429)}"
  by (auto simp: enforce_token_limit_def split: prod.splits sum.splits bool.splits)

lemma token_limit_fails_open:
  assumes "lm_redis l" and "\<not> lm_script_sha l \<or> \<not> rv_script s"
  shows "fst (enforce_token_limit c token name limit ws l s) = Inr ()"
  using assms by (auto simp: enforce_token_limit_def ensure_token_redis_def connect_redis_def evalsha_def split: option.splits)

section \<open>Concrete calls\<close>

text \<open>Two calls a second on a limit of two per ten seconds, in milliseconds.\<close>

definition demo_calls :: "(int \<times> string) list" where
  "demo_calls = [(1000, ''a''), (1500, ''b''), (2000, ''c''), (11001, ''d'')]"

theorem rate_limit_matches_reference_witness:
  "fst (script_run ''rl:x:1'' 10000 2 demo_calls []) = [True, True, False, True]"
proof -
  have "sorted (map fst demo_calls)" "distinct (map snd demo_calls)" by (simp_all add: demo_calls_def)
  from rate_limit_matches_reference [OF this, of 10000 2 "[]" "''rl:x:1''"]
  show ?thesis by (simp add: demo_calls_def recent_def Let_def)
qed

theorem at_most_limit_per_window_witness:
  "script_run ''rl:x:1'' 10000 2 [(1000, ''a''), (1500, ''b'')] [] = ([True, True],
       [(''rl:x:1'', \<lparr>rk_members = [(''a'', 1000), (''b'', 1500)], rk_expires_at = 11500\<rparr>)]) \<and>
   in_window 10000 5000 [1000, 1500] = 2 \<and>
   fst (LUA_SLIDING_WINDOW 2000 ''rl:x:1'' 2000 10000 2 ''c''
     [(''rl:x:1'', \<lparr>rk_members = [(''a'', 1000), (''b'', 1500)], rk_expires_at = 11500\<rparr>)]) = Inr (False, 2, 9) \<and>
   (\<exists>k r3. LUA_SLIDING_WINDOW 11000 ''rl:x:1'' 11000 10000 2 ''d''
     (snd (LUA_SLIDING_WINDOW 2000 ''rl:x:1'' 2000 10000 2 ''c''
       [(''rl:x:1'', \<lparr>rk_members = [(''a'', 1000), (''b'', 1500)], rk_expires_at = 11500\<rparr>)])) = (Inr (True, k, 0), r3))"
proof -
  let ?r = "[(''rl:x:1'', \<lparr>rk_members = [(''a'', 1000), (''b'', 1500)], rk_expires_at = 11500\<rparr>)]"
  have run: "script_run ''rl:x:1'' 10000 2 [(1000, ''a''), (1500, ''b'')] [] = ([True, True], ?r)"
    by code_simp
  have refused: "fst (LUA_SLIDING_WINDOW 2000 ''rl:x:1'' 2000 10000 2 ''c'' ?r) = Inr (False, 2, 9)"
    by code_simp
  obtain r'' where r'': "LUA_SLIDING_WINDOW 2000 ''rl:x:1'' 2000 10000 2 ''c'' ?r = (Inr (False, 2, 9), r'')"
    using refused by (metis prod.collapse)
  have "in_window 10000 5000 [1000, 1500] = 2" by (simp add: in_window_def)
  moreover have "\<exists>k r3. LUA_SLIDING_WINDOW 11000 ''rl:x:1'' 11000 10000 2 ''d'' r'' = (Inr (True, k, 0), r3)"
    using at_most_limit_per_window [OF _ _ _ _ _ run, of 2000 "''c''" "''d''" 0] r'' by fastforce
  ultimately show ?thesis using run refused r'' by simp
qed

definition demo_conn :: redis_conn where
  "demo_conn = \<lparr>rc_url = Some ''redis://r'', rc_from_url_fault = None, rc_load_fault = Some OSError, rc_fault = None,
     rc_now_ms = 5, rc_server_now = 5, rc_hex = ''ab''\<rparr>"

definition demo_server :: redis_server where
  "demo_server = \<lparr>rv_keys = [], rv_script = False\<rparr>"

theorem middleware_gate_witness:
  "\<exists>h b l' s'. rate_limit_middleware INGEST_RULES demo_conn (\<lambda>k. None) ''http'' ''/h/tok'' [(''Fly-Client-IP'', ''1.2.3.4'')]
      None limiter_init demo_server =
     ((None, [Respond 503 h b], [Rate_limit_redis_error ''ingest'', Rate_limit_block ''ingest'' ''fail_closed'']), l', s')"
proof -
  let ?rule = "\<lparr>ru_name = ''ingest'', ru_limit = 100, ru_window_seconds = 60, ru_fail_mode = Fail_closed\<rparr>"
  obtain raised acts ms l' s' where run: "rate_limit_middleware INGEST_RULES demo_conn (\<lambda>k. None) ''http'' ''/h/tok''
      [(''Fly-Client-IP'', ''1.2.3.4'')] None limiter_init demo_server = ((raised, acts, ms), l', s')"
    by (metis prod.exhaust)
  have m: "match_rule INGEST_RULES ''/h/tok'' = Some ?rule" by (simp add: match_rule_def INGEST_RULES_def)
  have u: "url_in_force demo_conn limiter_init \<noteq> None" by (simp add: url_in_force_def limiter_init_def demo_conn_def)
  have f: "redis_fails demo_conn limiter_init demo_server" by (simp add: redis_fails_def limiter_init_def demo_conn_def)
  show ?thesis
    using middleware_gate [OF m _ _ u refl run refl refl] f run by auto
qed

definition demo_call :: "redis_conn \<Rightarrow> http_call" where
  "demo_call c = \<lparr>hc_conn = c, hc_app = (\<lambda>k. None), hc_path = ''/h/tok'', hc_headers = [], hc_client = Some ''1.2.3.4''\<rparr>"

lemma failed_load_is_for_good_witness:
  "list_all unavailable (serve_requests INGEST_RULES [demo_call demo_conn, demo_call (demo_conn\<lparr>rc_load_fault := None\<rparr>)]
      limiter_init demo_server)"
  unfolding list_all_iff
  by (rule failed_load_is_for_good [where u = "''redis://r''" and e = OSError])
     (simp_all add: demo_call_def demo_conn_def match_rule_def INGEST_RULES_def)

end
