(* ===== verification/Web.thy ===== *)
theory Web
  imports Rate_Limit Dlq
begin

text \<open>
  What the routes of the two applications share: the answer of a route, the transaction around a
  request with the background tasks, and the address of the ingestor.
\<close>

section \<open>The life of a request\<close>

text \<open>
  A route replies, raises an \<open>HTTPException\<close> with a status and a detail, or raises something else, which
  the server turns into a 500.
\<close>

datatype 'a http = Reply 'a | Http_error nat string | Server_error exn

text \<open>The \<open>except\<close> clauses of a route: which exceptions become which status and detail.\<close>

definition route :: "(exn \<Rightarrow> (nat \<times> string) option) \<Rightarrow> 'a act \<Rightarrow> world \<Rightarrow> 'a http \<times> world" where
  "route clauses m w =
     (case m w of
        (Inr a, w') \<Rightarrow> (Reply a, w')
      | (Inl e, w') \<Rightarrow>
          (case clauses e of Some (status, detail) \<Rightarrow> (Http_error status detail, w') | None \<Rightarrow> (Server_error e, w')))"

text \<open>
  \<open>get_session\<close> is a dependency with \<open>yield\<close>: its commit runs when FastAPI closes the request, which is
  before the response and its background tasks are sent in the versions up to 0.117 and after them since.
  The order is a parameter. An exception of the route reaches the dependency in both orders and rolls
  back. After the response a failing commit can no longer be told to the client.
\<close>

datatype exit_order = Commit_before_response | Commit_after_response

definition rolled_back :: "world \<Rightarrow> world \<Rightarrow> world" where
  "rolled_back w w' = w'\<lparr>w_db := w_db w, w_aborted := False\<rparr>"

definition close_request :: "exit_order \<Rightarrow> world \<Rightarrow> 'a \<Rightarrow> unit act \<Rightarrow> world \<Rightarrow> 'a http \<times> world" where
  "close_request ord w reply task w1 =
     (case ord of
        Commit_before_response \<Rightarrow>
          (if w_aborted w1 then (Server_error RuntimeError, rolled_back w w1) else (Reply reply, snd (task w1)))
      | Commit_after_response \<Rightarrow>
          (let w2 = snd (task w1) in (Reply reply, if w_aborted w1 then rolled_back w w2 else w2)))"

definition serve :: "exit_order \<Rightarrow> (world \<Rightarrow> ('a \<times> unit act) http \<times> world) \<Rightarrow> world \<Rightarrow> 'a http \<times> world" where
  "serve ord handler w =
     (case handler w of
        (Reply (reply, task), w1) \<Rightarrow> close_request ord w reply task w1
      | (Http_error status detail, w1) \<Rightarrow> (Http_error status detail, rolled_back w w1)
      | (Server_error e, w1) \<Rightarrow> (Server_error e, rolled_back w w1))"

text \<open>
  The task behind a response (\<open>_safe_enqueue\<close>), with the queue of \<open>get_forward_queue\<close>: without one from the
  startup the jobs go nowhere.
\<close>

definition enqueue_task :: "bool \<Rightarrow> services \<Rightarrow> uuid \<Rightarrow> unit act" where
  "enqueue_task has_queue sv forward_id =
     (if has_queue then safe_enqueue sv forward_id else null_enqueue forward_id 0)"

lemma enqueue_task_frame:
  "w_db (snd (enqueue_task has_queue sv i w)) = w_db w" "w_aborted (snd (enqueue_task has_queue sv i w)) = w_aborted w"
  "w_blobs (snd (enqueue_task has_queue sv i w)) = w_blobs w" "w_sent (snd (enqueue_task has_queue sv i w)) = w_sent w"
  by (auto simp: enqueue_task_def safe_enqueue_def null_enqueue_def catchA_def arq_enqueue_eq split: option.splits)

lemma enqueue_task_job:
  "has_queue \<Longrightarrow> sv_queue_fault sv = None \<Longrightarrow>
    enqueue_task has_queue sv i w = (Inr (), w\<lparr>w_jobs := w_jobs w @ accepted sv i 0\<rparr>)"
  by (simp add: enqueue_task_def safe_enqueue_def catchA_def arq_enqueue_eq)

lemma serve_refused:
  assumes "handler w = (r, w1)" and "\<nexists>a. r = Reply a" and "serve ord handler w = (r', w')"
  shows "(\<nexists>a. r' = Reply a) \<and> w_db w' = w_db w"
  using assms by (cases r) (auto simp: serve_def rolled_back_def)

section \<open>The address of the ingestor\<close>

text \<open>\<open>str.replace\<close> and \<open>str.rstrip("/")\<close>.\<close>

function str_replace :: "string \<Rightarrow> string \<Rightarrow> string \<Rightarrow> string" where
  "str_replace old new [] = []"
| "str_replace old new (c # s) =
     (if old \<noteq> [] \<and> prefix old (c # s) then new @ str_replace old new (drop (length old) (c # s))
      else c # str_replace old new s)"
  by pat_completeness auto
termination by (relation "measure (\<lambda>(old, new, s). length s)") auto

definition rstrip_slash :: "string \<Rightarrow> string" where
  "rstrip_slash s = rev (dropWhile (\<lambda>c. c = CHR ''/'') (rev s))"

text \<open>
  \<open>re.search\<close> for \<open>webhook-inspector-app(-[a-z0-9]+)?-([a-z0-9]+)\.a\.run\.app\<close>.
\<close>

definition cloud_run_here :: "string \<Rightarrow> bool" where
  "cloud_run_here s \<longleftrightarrow>
     (let word = \<lambda>t. takeWhile slug_alnum (drop 1 t);
          after = \<lambda>t. drop (Suc (length (word t))) t;
          group = \<lambda>t. take 1 t = ''-'' \<and> word t \<noteq> [];
          host = \<lambda>t. prefix ''.a.run.app'' t;
          t = drop (length ''webhook-inspector-app'') s
      in prefix ''webhook-inspector-app'' s \<and> group t \<and>
         (host (after t) \<or> group (after t) \<and> host (after (after t))))"

fun cloud_run_search :: "string \<Rightarrow> bool" where
  "cloud_run_search [] = False"
| "cloud_run_search (c # s) = (cloud_run_here (c # s) \<or> cloud_run_search s)"

definition hook_base_url :: "string \<Rightarrow> string" where
  "hook_base_url base_url =
     (let base = rstrip_slash base_url in
      if str_in ''://app.'' base then str_replace ''://app.'' ''://hook.'' base
      else if cloud_run_search base then str_replace ''webhook-inspector-app'' ''webhook-inspector-ingestor'' base
      else if str_in '':8000'' base then str_replace '':8000'' '':8001'' base
      else base)"

lemma hook_base_url_examples:
  "hook_base_url ''https://app.hooktrace.io/'' = ''https://hook.hooktrace.io''"
  "hook_base_url ''http://localhost:8000/'' = ''http://localhost:8001''"
  "hook_base_url ''https://webhook-inspector-app-dev-x1-ew.a.run.app'' = ''https://webhook-inspector-app-dev-x1-ew.a.run.app''"
  "hook_base_url ''https://webhook-inspector-app-x1-ew.a.run.app'' = ''https://webhook-inspector-ingestor-x1-ew.a.run.app''"
  "hook_base_url ''http://test/'' = ''http://test''"
  by code_simp+

end
