(* ===== verification/Ingestor.thy ===== *)
theory Ingestor
  imports Web
begin

text \<open>
  The capture route (\<open>web/ingestor/routes.py\<close>): the limit of the token, the caps on the body, the use
  case in the transaction of the request, the background task that enqueues the forward, and the answer
  the owner configured. Also the health check.
\<close>

section \<open>The body cap\<close>

text \<open>The chunks read, and those never asked for.\<close>

fun read_chunks :: "nat \<Rightarrow> nat \<Rightarrow> string list \<Rightarrow> string list \<Rightarrow> string list res \<times> string list" where
  "read_chunks max_bytes got chunks [] = (Inr chunks, [])"
| "read_chunks max_bytes got chunks (c # cs) =
     (let got' = got + length c in
      if max_bytes < got' then (Inl (HTTPException 413), cs)
      else read_chunks max_bytes got' (chunks @ [c]) cs)"

definition read_body_with_cap :: "nat \<Rightarrow> string list \<Rightarrow> string res" where
  "read_body_with_cap max_bytes stream = bindR (fst (read_chunks max_bytes 0 [] stream)) (\<lambda>chunks. Inr (concat chunks))"

lemma read_chunks_eq:
  "fst (read_chunks m n acc cs) =
     (if n \<le> m \<and> n + length (concat cs) \<le> m \<or> cs = [] then Inr (acc @ cs) else Inl (HTTPException 413))"
  by (induction m n acc cs rule: read_chunks.induct) (auto simp: Let_def)

lemma read_body_eq:
  "read_body_with_cap m cs = (if length (concat cs) \<le> m then Inr (concat cs) else Inl (HTTPException 413))"
  by (cases "cs = []") (auto simp: read_body_with_cap_def read_chunks_eq)

text \<open>\<open>int\<close> on the text of a header.\<close>

definition digits_group :: "string \<Rightarrow> bool" where
  "digits_group s \<longleftrightarrow> s \<noteq> [] \<and> list_all (\<lambda>c. 48 \<le> byte c \<and> byte c \<le> 57) s"

definition py_int :: "string \<Rightarrow> int res" where
  "py_int s =
     (let t = str_strip s;
          sign = (if take 1 t = ''-'' then - 1 else 1 :: int);
          u = (if take 1 t \<in> {''-'', ''+''} then drop 1 t else t);
          groups = split_on (CHR ''_'') u
      in if list_all digits_group groups \<and> length (concat groups) \<le> 4300
         then Inr (sign * int (dec_number (concat groups))) else Inl ValueError)"

definition check_declared :: "nat \<Rightarrow> string option \<Rightarrow> unit res" where
  "check_declared max_bytes content_length =
     (if falsy content_length then Inr ()
      else bindR (py_int (the content_length)) (\<lambda>n. raise_unless (n \<le> int max_bytes) (HTTPException 413)))"

section \<open>The answer\<close>

text \<open>
  Starlette encodes the names and values of the headers in Latin-1, which raises for every other
  character. \<open>rs_delay_ms\<close> is how long the route sleeps before it makes the response.
\<close>

record response =
  rs_status_code :: int
  rs_headers :: dict
  rs_content :: string
  rs_delay_ms :: int

definition latin1 :: "string \<Rightarrow> bool" where
  "latin1 s \<longleftrightarrow> list_all (\<lambda>ch. code_point ch < 256) (str_chars s)"

definition configured_response :: "endpoint \<Rightarrow> response" where
  "configured_response e =
     \<lparr>rs_status_code = ep_response_status_code e, rs_headers = ep_response_headers e, rs_content = ep_response_body e,
      rs_delay_ms = (if 0 < ep_response_delay_ms e then ep_response_delay_ms e else 0)\<rparr>"

definition make_response :: "endpoint \<Rightarrow> response res" where
  "make_response e =
     (if list_all (\<lambda>(k, v). latin1 k \<and> latin1 v) (ep_response_headers e) then Inr (configured_response e)
      else Inl ValueError)"

section \<open>The route\<close>

text \<open>The path after \<open>/h/\<close> is split into the token and the rest.\<close>

record http_request =
  hr_method :: string
  hr_token :: string
  hr_rest :: string
  hr_query :: string
  hr_headers :: "(string \<times> string) list"
  hr_chunks :: "string list"
  hr_client :: "string option"

definition header_get :: "string \<Rightarrow> (string \<times> string) list \<Rightarrow> string option" where
  "header_get name hs = map_of (map (\<lambda>(k, v). (str_lower k, v)) hs) name"

definition capture_input_of :: "http_request \<Rightarrow> string \<Rightarrow> capture_input" where
  "capture_input_of q body =
     \<lparr>ci_token = hr_token q, ci_method = hr_method q, ci_path = ''/h/'' @ hr_token q @ hr_rest q,
      ci_query_string = (if hr_query q = [] then None else Some (hr_query q)),
      ci_headers = asgi_headers (hr_headers q), ci_body = body,
      ci_source_ip = extract_client_ip (map (\<lambda>(k, v). (str_lower k, v)) (hr_headers q)) (hr_client q)\<rparr>"

definition capture_clauses :: "exn \<Rightarrow> (nat \<times> string) option" where
  "capture_clauses e =
     (case e of
        EndpointNotFoundError \<Rightarrow> Some (404, ''endpoint not found'')
      | HTTPException status \<Rightarrow> Some (status, ''payload too large'')
      | _ \<Rightarrow> None)"

definition capture_handler ::
  "services \<Rightarrow> capture_env \<Rightarrow> nat \<Rightarrow> bool \<Rightarrow> http_request \<Rightarrow> (response \<times> unit act) act" where
  "capture_handler sv env max_body_bytes has_queue q =
     bindA (lift_res (check_declared max_body_bytes (header_get ''content-length'' (hr_headers q)))) (\<lambda>_.
     bindA (lift_res (read_body_with_cap max_body_bytes (hr_chunks q))) (\<lambda>body.
     bindA (capture_request sv env (capture_input_of q body)) (\<lambda>result.
     bindA (lift_res (make_response (cr_endpoint result))) (\<lambda>resp.
     ret (resp, case cr_pending_forward_id result of
                  None \<Rightarrow> ret ()
                | Some i \<Rightarrow> enqueue_task has_queue sv i)))))"

definition CAPTURE_LIMIT_PER_HOUR :: int where
  "CAPTURE_LIMIT_PER_HOUR = 1000"

definition capture ::
  "exit_order \<Rightarrow> services \<Rightarrow> capture_env \<Rightarrow> nat \<Rightarrow> bool \<Rightarrow> redis_conn \<Rightarrow> http_request
     \<Rightarrow> limiter \<Rightarrow> redis_server \<Rightarrow> world \<Rightarrow> response http \<times> limiter \<times> redis_server \<times> world" where
  "capture ord sv env max_body_bytes has_queue c q l s w =
     (case enforce_token_limit c (hr_token q) ''capture'' CAPTURE_LIMIT_PER_HOUR 3600 l s of
        (allowed, ms, l', s') \<Rightarrow>
          let w0 = w\<lparr>w_metrics := w_metrics w @ ms\<rparr> in
          (case allowed of
             Inl e \<Rightarrow> (Http_error 429 ''rate limit exceeded'', l', s', w0)
           | Inr u \<Rightarrow>
               (case serve ord (route capture_clauses (capture_handler sv env max_body_bytes has_queue q)) w0 of
                  (r, w') \<Rightarrow> (r, l', s', w'))))"

text \<open>
  \<open>healthz\<close>: \<open>db_fault\<close> and \<open>blob_fault\<close> are the names of the exceptions the two probes raise. The probe of
  the blob storage writes a new object each time.
\<close>

definition health_check :: "string option \<Rightarrow> string" where
  "health_check fault = (case fault of None \<Rightarrow> ''ok'' | Some e \<Rightarrow> ''error: '' @ e)"

definition ingestor_health :: "string option \<Rightarrow> string option \<Rightarrow> string \<Rightarrow> world \<Rightarrow> (nat \<times> json) \<times> world" where
  "ingestor_health db_fault blob_fault hex w =
     (let overall_ok = (db_fault = None \<and> blob_fault = None);
          w' = (if blob_fault = None
                then w\<lparr>w_blobs := AList.update (''_healthz_probe/'' @ hex) ''ok'' (w_blobs w)\<rparr> else w)
      in ((if overall_ok then 200 else 503, JObj
            [(''status'', JStr (if overall_ok then ''healthy'' else ''unhealthy'')),
             (''checks'', JObj [(''database'', JStr (health_check db_fault)), (''blob_storage'', JStr (health_check blob_fault))])]), w'))"
section \<open>The handler\<close>

definition declared_size :: "http_request \<Rightarrow> int res" where
  "declared_size q =
     (let h = header_get ''content-length'' (hr_headers q) in if falsy h then Inr 0 else py_int (the h))"

definition oversized :: "nat \<Rightarrow> http_request \<Rightarrow> bool" where
  "oversized max_body_bytes q \<longleftrightarrow>
     (\<exists>n. declared_size q = Inr n \<and> int max_body_bytes < n) \<or> max_body_bytes < length (concat (hr_chunks q))"

lemma check_declared_eq:
  "check_declared m (header_get ''content-length'' (hr_headers q)) =
     bindR (declared_size q) (\<lambda>n. raise_unless (n \<le> int m) (HTTPException 413))"
  by (simp add: check_declared_def declared_size_def Let_def raise_unless_def)

lemma handler_oversized:
  assumes "declared_size q = Inr n" and "oversized m q"
  shows "route capture_clauses (capture_handler sv env m has_queue q) w = (Http_error 413 ''payload too large'', w)"
  using assms
  by (cases "int m < n") (auto simp: route_def capture_handler_def check_declared_eq raise_unless_def oversized_def
      read_body_eq capture_clauses_def bindA_def lift_res_def)

lemma handler_fits:
  assumes "declared_size q = Inr n" and "\<not> oversized m q"
  shows "capture_handler sv env m has_queue q w =
    bindA (capture_request sv env (capture_input_of q (concat (hr_chunks q)))) (\<lambda>result.
    bindA (lift_res (make_response (cr_endpoint result))) (\<lambda>resp.
    ret (resp, case cr_pending_forward_id result of None \<Rightarrow> ret () | Some i \<Rightarrow> enqueue_task has_queue sv i))) w"
  using assms by (auto simp: capture_handler_def check_declared_eq raise_unless_def oversized_def read_body_eq)

lemma capture_request_endpoint:
  "capture_request sv env inp w = (Inr r, w') \<Longrightarrow> find_by_token (ci_token inp) (w_db w) = Some (cr_endpoint r)"
  by (cases "detect_captured (ci_headers inp) (ci_body inp)")
    (auto simp: capture_request_def persist_capture_def bindA_Inr_iff split: option.splits)

lemma capture_request_unknown:
  "find_by_token (ci_token inp) (w_db w) = None \<Longrightarrow> capture_request sv env inp w = (Inl EndpointNotFoundError, w)"
  by (simp add: capture_request_def)

lemma handler_replies:
  assumes "declared_size q = Inr n" and "\<not> oversized m q"
    and "route capture_clauses (capture_handler sv env m has_queue q) w = (Reply (resp, task), w1)"
  obtains r where "capture_request sv env (capture_input_of q (concat (hr_chunks q))) w = (Inr r, w1)"
    "find_by_token (hr_token q) (w_db w) = Some (cr_endpoint r)" "resp = configured_response (cr_endpoint r)"
    "task = (case cr_pending_forward_id r of None \<Rightarrow> ret () | Some i \<Rightarrow> enqueue_task has_queue sv i)"
proof -
  obtain r where r: "capture_request sv env (capture_input_of q (concat (hr_chunks q))) w = (Inr r, w1)"
    "make_response (cr_endpoint r) = Inr resp"
    "task = (case cr_pending_forward_id r of None \<Rightarrow> ret () | Some i \<Rightarrow> enqueue_task has_queue sv i)"
    using assms(3) handler_fits [OF assms(1,2)]
    by (auto simp: route_def bindA_Inr_iff split: sum.splits option.splits prod.splits)
  moreover have "find_by_token (hr_token q) (w_db w) = Some (cr_endpoint r)"
    using capture_request_endpoint [OF r(1)] by (simp add: capture_input_of_def)
  moreover have "resp = configured_response (cr_endpoint r)"
    using r(2) by (simp add: make_response_def split: if_splits)
  ultimately show ?thesis by (intro that)
qed

lemma handler_unknown:
  assumes "declared_size q = Inr n" and "\<not> oversized m q" and "find_by_token (hr_token q) (w_db w) = None"
  shows "route capture_clauses (capture_handler sv env m has_queue q) w = (Http_error 404 ''endpoint not found'', w)"
proof -
  have "find_by_token (ci_token (capture_input_of q (concat (hr_chunks q)))) (w_db w) = None"
    using assms(3) by (simp add: capture_input_of_def)
  note unknown = capture_request_unknown [OF this]
  have "capture_handler sv env m has_queue q w = (Inl EndpointNotFoundError, w)"
    unfolding handler_fits [OF assms(1,2)] by (rule bindA_raise) (rule unknown)
  then show ?thesis by (simp add: route_def capture_clauses_def)
qed
section \<open>What the route answers\<close>

lemma serve_task_frame:
  assumes "serve ord (route capture_clauses (capture_handler sv env m has_queue q)) w = (Reply resp, w')"
    and "declared_size q = Inr n" and "\<not> oversized m q"
  obtains r w1 where "capture_request sv env (capture_input_of q (concat (hr_chunks q))) w = (Inr r, w1)"
    "find_by_token (hr_token q) (w_db w) = Some (cr_endpoint r)" "resp = configured_response (cr_endpoint r)"
    "ord = Commit_before_response \<Longrightarrow> \<not> w_aborted w1"
    "w_db w' = (if w_aborted w1 then w_db w else w_db w1)"
    "w_jobs w' = w_jobs (snd ((case cr_pending_forward_id r of None \<Rightarrow> ret () | Some i \<Rightarrow> enqueue_task has_queue sv i) w1))"
proof -
  obtain task w1 where h: "route capture_clauses (capture_handler sv env m has_queue q) w = (Reply (resp, task), w1)"
    and c: "close_request ord w resp task w1 = (Reply resp, w')"
    using assms(1) by (auto simp: serve_def close_request_def Let_def split: prod.splits http.splits exit_order.splits if_splits)
  obtain r where r: "capture_request sv env (capture_input_of q (concat (hr_chunks q))) w = (Inr r, w1)"
    "find_by_token (hr_token q) (w_db w) = Some (cr_endpoint r)" "resp = configured_response (cr_endpoint r)"
    "task = (case cr_pending_forward_id r of None \<Rightarrow> ret () | Some i \<Rightarrow> enqueue_task has_queue sv i)"
    using assms(2,3) h by (rule handler_replies)
  have "w_db (snd (task w1)) = w_db w1"
    by (simp add: r(4) enqueue_task_frame split: option.splits)
  with c show ?thesis
    by (intro that [OF r(1-3)])
       (auto simp: close_request_def rolled_back_def r(4) Let_def split: exit_order.splits if_splits)
qed

text \<open>What a request has to meet to be taken for an endpoint, beyond the limits on its rate and size.\<close>

definition acceptable :: "services \<Rightarrow> capture_env \<Rightarrow> endpoint \<Rightarrow> capture_input \<Rightarrow> db \<Rightarrow> bool" where
  "acceptable sv env e inp d \<longleftrightarrow>
     (case capture_signature_status sv (ce_secrets_key env) e (ci_headers inp) (ci_body inp) of
        Inl x \<Rightarrow> False | Inr st \<Rightarrow> True) \<and>
     ce_request_id env \<notin> request_ids d \<and> ce_forward_id env \<notin> fw_id ` set (db_forwards d) \<and>
     input_storable sv inp \<and>
     (length (ci_body inp) \<le> ce_inline_threshold env \<and> utf8_valid (ci_body inp) \<longrightarrow> text_ok (ci_body inp)) \<and>
     list_all (\<lambda>(k, v). latin1 k \<and> latin1 v) (ep_response_headers e)"

lemma accepted_capture:
  assumes "world_ok w" and "declared_size q = Inr n" and "\<not> oversized m q"
    and "find_by_token (hr_token q) (w_db w) = Some e" and "inp = capture_input_of q (concat (hr_chunks q))"
    and "acceptable sv env e inp (w_db w)"
  obtains r w1 where "with_session (capture_request sv env inp) w = (Inr r, w1)" "cr_endpoint r = e"
    "serve ord (route capture_clauses (capture_handler sv env m has_queue q)) w =
       (Reply (configured_response e),
        snd ((case cr_pending_forward_id r of None \<Rightarrow> ret () | Some i \<Rightarrow> enqueue_task has_queue sv i) w1))"
proof -
  have ok: "db_ok (w_db w)" "\<not> w_aborted w" using assms(1) by (simp_all add: world_ok_def)
  have tok: "find_by_token (ci_token inp) (w_db w) = Some e" using assms(4) by (simp add: assms(5) capture_input_of_def)
  note a = assms(6) [unfolded acceptable_def]
  obtain st where "capture_signature_status sv (ce_secrets_key env) e (ci_headers inp) (ci_body inp) = Inr st"
    using a by (auto split: sum.splits)
  then obtain r w1 where run: "with_session (capture_request sv env inp) w = (Inr r, w1)"
    using capture_completes [OF ok tok, of sv env] a by blast
  then have c: "capture_request sv env inp w = (Inr r, w1)" "\<not> w_aborted w1" by auto
  have e: "cr_endpoint r = e" using capture_request_endpoint [OF c(1)] tok by simp
  have resp: "make_response e = Inr (configured_response e)" using a by (simp add: make_response_def)
  let ?task = "case cr_pending_forward_id r of None \<Rightarrow> ret () | Some i \<Rightarrow> enqueue_task has_queue sv i"
  have h: "capture_handler sv env m has_queue q w = (Inr (configured_response e, ?task), w1)"
    unfolding handler_fits [OF assms(2,3)]
    by (rule bindA_step [THEN trans], rule c(1) [unfolded assms(5)]) (simp add: e resp)
  have "serve ord (route capture_clauses (capture_handler sv env m has_queue q)) w =
      (Reply (configured_response e), snd (?task w1))"
    using c(2) by (simp add: serve_def route_def h close_request_def Let_def split: exit_order.split)
  with run e show ?thesis by (rule that)
qed

text \<open>A route that does not reply keeps nothing, also when the reply is lost with the commit.\<close>

lemma serve_keeps_nothing:
  assumes "serve ord handler w = (r, w')" and "\<nexists>a. r = Reply a"
  shows "w_db w' = w_db w"
  using assms
  by (auto simp: serve_def close_request_def rolled_back_def Let_def split: prod.splits http.splits exit_order.splits if_splits)

lemma declared_size_error: "declared_size q = Inl x \<Longrightarrow> x = ValueError"
  by (auto simp: declared_size_def py_int_def Let_def split: if_splits)

lemma handler_bad_length:
  "declared_size q = Inl x \<Longrightarrow>
    route capture_clauses (capture_handler sv env m has_queue q) w = (Server_error ValueError, w)"
  using declared_size_error [of q x]
  by (simp add: route_def capture_handler_def check_declared_eq bindA_def lift_res_def capture_clauses_def)

text \<open>The request of \<open>q\<close> is the one row that came to the table.\<close>

definition stored :: "http_request \<Rightarrow> endpoint \<Rightarrow> db \<Rightarrow> db \<Rightarrow> bool" where
  "stored q e d d' \<longleftrightarrow> (\<exists>captured. db_requests d' = db_requests d @ [captured] \<and>
     rq_endpoint_id captured = ep_id e \<and> rq_body_size captured = length (concat (hr_chunks q)))"

lemma capture_stores:
  assumes "db_ok (w_db w)" and "with_session (capture_request sv env (capture_input_of q (concat (hr_chunks q)))) w = (Inr r, w1)"
  shows "stored q (cr_endpoint r) (w_db w) (w_db w1)"
  using capture_commits [OF assms] by (auto simp: stored_def capture_input_of_def)

lemma capture_replies:
  assumes "world_ok w" and "declared_size q = Inr n" and "\<not> oversized m q"
    and "serve ord (route capture_clauses (capture_handler sv env m has_queue q)) w = (Reply resp, w')"
    and "find_by_token (hr_token q) (w_db w) = Some e"
  shows "resp = configured_response e \<and> (stored q e (w_db w) (w_db w') \<or> ord = Commit_after_response \<and> w_db w' = w_db w)"
  using assms(4,2,3)
proof (rule serve_task_frame)
  fix r1 w1
  assume c: "capture_request sv env (capture_input_of q (concat (hr_chunks q))) w = (Inr r1, w1)"
    and e: "find_by_token (hr_token q) (w_db w) = Some (cr_endpoint r1)" "resp = configured_response (cr_endpoint r1)"
    and o': "ord = Commit_before_response \<Longrightarrow> \<not> w_aborted w1"
    and d: "w_db w' = (if w_aborted w1 then w_db w else w_db w1)"
  show ?thesis
  proof (cases "w_aborted w1")
    case True
    then have "ord = Commit_after_response" using o' by (cases ord) auto
    then show ?thesis using e assms(5) d True by simp
  next
    case False
    have "db_ok (w_db w)" using assms(1) by (simp add: world_ok_def)
    moreover from c False have "with_session (capture_request sv env (capture_input_of q (concat (hr_chunks q)))) w = (Inr r1, w1)"
      by (rule with_session_eq)
    ultimately have "stored q (cr_endpoint r1) (w_db w) (w_db w1)" by (rule capture_stores)
    then show ?thesis using e assms(5) d False by simp
  qed
qed

text \<open>
  C8. What the capture route answers, for every request. Over the limit of the token it is 429; a
  \<open>Content-Length\<close> that is no number is an error of the server; a body declared or found larger than the cap is
  413 and an unknown token 404; none of these changes a row. For a known token, a request that can be
  taken - its signature check gives a status, the fresh identifiers are new, its texts fit a row, the
  configured headers are Latin-1 - is answered with the configured status, body, headers and delay, and is stored.
  Whatever else happens there, a reply is the configured one, and anything but a reply keeps no row. A
  reply means that the request is stored, unless the session commits after the response.
\<close>

theorem capture_route_answers:
  assumes "world_ok w"
    and "enforce_token_limit c (hr_token q) ''capture'' CAPTURE_LIMIT_PER_HOUR 3600 l s = (allowed, ms, l1, s1)"
    and "capture ord sv env m has_queue c q l s w = (r, l', s', w')"
    and "w0 = w\<lparr>w_metrics := w_metrics w @ ms\<rparr>" and "inp = capture_input_of q (concat (hr_chunks q))"
  shows "(allowed \<noteq> Inr () \<longrightarrow> r = Http_error 429 ''rate limit exceeded'' \<and> w' = w0) \<and>
    (\<forall>x. allowed = Inr () \<and> declared_size q = Inl x \<longrightarrow> r = Server_error ValueError \<and> w' = w0) \<and>
    (\<forall>n. allowed = Inr () \<and> declared_size q = Inr n \<longrightarrow>
      (oversized m q \<longrightarrow> r = Http_error 413 ''payload too large'' \<and> w' = w0) \<and>
      (\<not> oversized m q \<and> find_by_token (hr_token q) (w_db w) = None \<longrightarrow>
         r = Http_error 404 ''endpoint not found'' \<and> w' = w0) \<and>
      (\<forall>e. \<not> oversized m q \<and> find_by_token (hr_token q) (w_db w) = Some e \<longrightarrow>
         (acceptable sv env e inp (w_db w) \<longrightarrow> r = Reply (configured_response e) \<and> stored q e (w_db w) (w_db w')) \<and>
         (\<forall>resp. r = Reply resp \<longrightarrow> resp = configured_response e \<and>
            (stored q e (w_db w) (w_db w') \<or> ord = Commit_after_response \<and> w_db w' = w_db w)) \<and>
         ((\<nexists>resp. r = Reply resp) \<longrightarrow> w_db w' = w_db w)))"
proof (cases "allowed = Inr ()")
  case False
  then obtain x where "allowed = Inl x" by (cases allowed) auto
  then show ?thesis using assms(3) by (simp add: capture_def assms(2,4) Let_def)
next
  case True
  let ?serve = "serve ord (route capture_clauses (capture_handler sv env m has_queue q)) w0"
  have ok: "world_ok w0" "w_db w0 = w_db w" using assms(1) by (simp_all add: world_ok_def assms(4))
  have run: "?serve = (r, w')"
    using assms(3) by (auto simp: capture_def assms(2) True Let_def assms(4)[symmetric] split: prod.splits)
  have same: "rolled_back w0 w0 = w0" using ok(1) by (simp add: rolled_back_def world_ok_def)
  have bad: "r = Server_error ValueError \<and> w' = w0" if "declared_size q = Inl x" for x
    using run handler_bad_length [OF that] same by (simp add: serve_def)
  have big: "r = Http_error 413 ''payload too large'' \<and> w' = w0" if "declared_size q = Inr n" "oversized m q" for n
    using run handler_oversized [OF that] same by (simp add: serve_def)
  have unknown: "r = Http_error 404 ''endpoint not found'' \<and> w' = w0"
    if "declared_size q = Inr n" "\<not> oversized m q" "find_by_token (hr_token q) (w_db w) = None" for n
    using run handler_unknown [OF that(1,2), of w0] that(3) same ok(2) by (simp add: serve_def)
  have taken: "r = Reply (configured_response e) \<and> stored q e (w_db w) (w_db w')"
    if known: "declared_size q = Inr n" "\<not> oversized m q" "find_by_token (hr_token q) (w_db w0) = Some e"
      and a: "acceptable sv env e inp (w_db w0)" for n e
  proof -
    obtain r1 w1 where c: "with_session (capture_request sv env inp) w0 = (Inr r1, w1)" "cr_endpoint r1 = e"
      "?serve = (Reply (configured_response e),
         snd ((case cr_pending_forward_id r1 of None \<Rightarrow> ret () | Some i \<Rightarrow> enqueue_task has_queue sv i) w1))"
      by (rule accepted_capture [OF ok(1) known assms(5) a])
    have "db_ok (w_db w0)" using ok(1) by (simp add: world_ok_def)
    from capture_stores [OF this c(1) [unfolded assms(5)]] show ?thesis
      using run c(2,3) ok(2) by (auto simp: enqueue_task_frame split: option.splits)
  qed
  have replied: "resp = configured_response e \<and> (stored q e (w_db w) (w_db w') \<or> ord = Commit_after_response \<and> w_db w' = w_db w)"
    if "declared_size q = Inr n" "\<not> oversized m q" "find_by_token (hr_token q) (w_db w) = Some e" "r = Reply resp" for n e resp
    using capture_replies [OF ok(1) that(1,2) run [unfolded that(4)]] that(3) ok(2) by simp
  have kept: "w_db w' = w_db w" if "\<nexists>resp. r = Reply resp" using serve_keeps_nothing [OF run that] ok(2) by simp
  show ?thesis using True bad big unknown taken [unfolded ok(2)] replied kept by blast
qed

text \<open>A configured header outside Latin-1 makes every capture fail, and nothing of it is kept.\<close>

lemma unencodable_header_loses_captures:
  assumes "declared_size q = Inr n" and "\<not> oversized m q" and "\<not> w_aborted w"
    and "find_by_token (hr_token q) (w_db w) = Some e"
    and "\<not> list_all (\<lambda>(k, v). latin1 k \<and> latin1 v) (ep_response_headers e)"
    and "serve ord (route capture_clauses (capture_handler sv env m has_queue q)) w = (r, w')"
  shows "(\<nexists>resp. r = Reply resp) \<and> w_db w' = w_db w"
proof -
  obtain h w1 where h: "route capture_clauses (capture_handler sv env m has_queue q) w = (h, w1)" by fastforce
  have "\<nexists>a. h = Reply a"
  proof
    assume "\<exists>a. h = Reply a"
    then obtain resp task where "h = Reply (resp, task)" by auto
    then obtain r1 where r: "capture_request sv env (capture_input_of q (concat (hr_chunks q))) w = (Inr r1, w1)"
      "find_by_token (hr_token q) (w_db w) = Some (cr_endpoint r1)"
      using handler_replies [OF assms(1,2)] h by metis
    have "make_response (cr_endpoint r1) = Inl ValueError" using r(2) assms(4,5) by (simp add: make_response_def)
    then have "fst (capture_handler sv env m has_queue q w) = Inl ValueError"
      using handler_fits [OF assms(1,2), of sv env has_queue w] r(1) by (simp add: bindA_def)
    then have "fst (route capture_clauses (capture_handler sv env m has_queue q) w) = Server_error ValueError"
      by (auto simp: route_def capture_clauses_def split: prod.splits)
    then show False using h \<open>h = Reply (resp, task)\<close> by simp
  qed
  from serve_refused [OF h this assms(6)] show ?thesis .
qed

section \<open>The job of a capture\<close>

text \<open>The use case itself leaves the queue alone.\<close>

definition keeps_jobs :: "'a act \<Rightarrow> bool" where
  "keeps_jobs m \<longleftrightarrow> (\<forall>w. w_jobs (snd (m w)) = w_jobs w)"

lemma keeps_jobs_intros [intro]:
  "keeps_jobs (ret a)" "keeps_jobs (fail e)" "keeps_jobs (lift_res r)" "keeps_jobs (read_db f)"
  "keeps_jobs (run_db g)" "keeps_jobs (run_db_res h)" "keeps_jobs (emit x)"
  "keeps_jobs m \<Longrightarrow> (\<And>a. keeps_jobs (k a)) \<Longrightarrow> keeps_jobs (bindA m k)"
  "keeps_jobs m \<Longrightarrow> (\<And>e. keeps_jobs (c e)) \<Longrightarrow> keeps_jobs (catchA m c)"
  unfolding keeps_jobs_def bindA_def catchA_def run_db_res_def read_db_def
  by (auto split: prod.splits sum.splits) (metis snd_conv)+

lemma keeps_jobs_if: "keeps_jobs m \<Longrightarrow> keeps_jobs n \<Longrightarrow> keeps_jobs (if b then m else n)"
  by simp

lemma keeps_jobs_capture: "keeps_jobs (capture_request sv env inp)"
proof -
  have blob: "keeps_jobs (blob_put sv k b)" for k b
    by (simp add: keeps_jobs_def blob_put_def split: option.splits)
  have store: "keeps_jobs (store_body sv c b)" for c b
    by (cases "rq_blob_key c") (auto simp: store_body_def intro!: blob)
  have save: "keeps_jobs (save_pending_forward f)" for f
    unfolding save_pending_forward_def by (intro keeps_jobs_intros)
  have persist: "keeps_jobs (persist_capture sv env e c)" for e c
    unfolding persist_capture_def by (intro keeps_jobs_intros keeps_jobs_if save)
  have rest: "keeps_jobs (case found of None \<Rightarrow> fail EndpointNotFoundError
     | Some endpoint \<Rightarrow>
         bindA (lift_res (capture_signature_status sv (ce_secrets_key env) endpoint
             (ci_headers inp) (ci_body inp))) (\<lambda>signature_status.
         case detect_captured (ci_headers inp) (ci_body inp) of (integration, event_type) \<Rightarrow>
         bindA (lift_res (captured_request_create (ce_request_id env) (ce_now env) (ep_id endpoint)
             (str_upper (ci_method inp)) (ci_path inp) (ci_query_string inp) (ci_headers inp)
             (ci_body inp) (ci_source_ip inp) (ce_inline_threshold env) signature_status
             integration event_type)) (\<lambda>created.
         bindA (store_body sv created (ci_body inp)) (\<lambda>captured.
         persist_capture sv env endpoint captured))))" for found
    by (cases found; cases "detect_captured (ci_headers inp) (ci_body inp)"; simp only: option.case prod.case)
      (intro keeps_jobs_intros store persist)+
  show ?thesis unfolding capture_request_def by (intro keeps_jobs_intros rest)
qed

lemma capture_pending_job:
  assumes "with_session (capture_request sv env inp) w = (Inr r, w')"
  shows "w_jobs w' = w_jobs w"
    "cr_pending_forward_id r = (if falsy (ep_forward_url (cr_endpoint r)) then None else Some (ce_forward_id env))"
proof -
  have "capture_request sv env inp w = (Inr r, w')" using assms by simp
  then show "w_jobs w' = w_jobs w" using keeps_jobs_capture [of sv env inp] by (metis keeps_jobs_def snd_conv)
  show "cr_pending_forward_id r = (if falsy (ep_forward_url (cr_endpoint r)) then None else Some (ce_forward_id env))"
    using assms by (rule capture_requestE) auto
qed

text \<open>
  C9. With a session that commits after the response, the job of a capture is handed to arq before its row
  exists, and arq takes it unless it holds one of that identifier. A worker that takes it before the background
  task ends finds no row, sends nothing and changes nothing, and when the commit comes the forward is pending
  with no attempt made and its only job spent. A redrive has to find it.
\<close>

theorem early_job_is_spent:
  assumes "world_ok w" and "declared_size q = Inr n"
    and "serve Commit_after_response (route capture_clauses (capture_handler sv env m True q)) w = (Reply resp, w')"
    and "w_db w' \<noteq> w_db w" and "sv_queue_fault sv = None"
    and "find_by_token (hr_token q) (w_db w) = Some e" and "\<not> falsy (ep_forward_url e)"
    and "forward_find_by_id (ce_forward_id env) (w_db w) = None"
    and "w_db committed = w_db w" and "\<not> w_aborted committed"
  shows "w_jobs w' = w_jobs w @ accepted sv (ce_forward_id env) 0 \<and>
    (\<exists>w2. execute_forward_job sv' key clk (uuid_str (ce_forward_id env)) committed = (Inr (), w2) \<and>
       w_db w2 = w_db committed \<and> w_sent w2 = w_sent committed \<and> w_jobs w2 = w_jobs committed) \<and>
    (\<exists>f. forward_find_by_id (ce_forward_id env) (w_db w') = Some f \<and> fw_status f = Pending \<and>
       fw_attempt_count f = 0)"
proof -
  have ok: "db_ok (w_db w)" "\<not> w_aborted w" using assms(1) by (simp_all add: world_ok_def)
  have fits: "\<not> oversized m q"
    using assms(3) handler_oversized [OF assms(2)] by (auto simp: serve_def)
  have spent: "execute_forward_job sv' key clk (uuid_str (ce_forward_id env)) committed =
      (Inr (), committed\<lparr>w_metrics := w_metrics committed @ [Forward_attempt ''skipped'']\<rparr>)"
    using ok assms(8-10) by (intro job_skips) (simp_all add: world_ok_def not_waiting_def)
  from assms(3,2) fits show ?thesis
  proof (rule serve_task_frame)
    fix r w1
    assume c: "capture_request sv env (capture_input_of q (concat (hr_chunks q))) w = (Inr r, w1)"
      and e: "find_by_token (hr_token q) (w_db w) = Some (cr_endpoint r)"
      and d: "w_db w' = (if w_aborted w1 then w_db w else w_db w1)"
      and j: "w_jobs w' = w_jobs (snd ((case cr_pending_forward_id r of None \<Rightarrow> ret () | Some i \<Rightarrow> enqueue_task True sv i) w1))"
    have clean: "\<not> w_aborted w1" using d assms(4) by auto
    with c have s: "with_session (capture_request sv env (capture_input_of q (concat (hr_chunks q)))) w = (Inr r, w1)"
      by (rule with_session_eq)
    have url: "\<not> falsy (ep_forward_url (cr_endpoint r))" using e assms(6,7) by simp
    let ?f = "forward_create (ce_forward_id env) (ce_request_id env) (ep_id (cr_endpoint r))
               (the (ep_forward_url (cr_endpoint r))) (ce_forward_now env)"
    have rows: "db_forwards (w_db w') = db_forwards (w_db w) @ [?f]"
      using capture_commits [OF ok(1) s] d clean url by simp
    have pending: "cr_pending_forward_id r = Some (ce_forward_id env)" "w_jobs w1 = w_jobs w"
      using capture_pending_job [OF s] url by simp_all
    have "forward_find_by_id (ce_forward_id env) (w_db w') = Some ?f"
      using assms(8) rows by (simp add: forward_find_by_id_eq lookup_row_append forward_create_def)
    then have "\<exists>f. forward_find_by_id (ce_forward_id env) (w_db w') = Some f \<and> fw_status f = Pending \<and>
       fw_attempt_count f = 0" by (simp add: forward_create_def)
    then show ?thesis using spent j pending enqueue_task_job [of True sv] assms(5) by auto
  qed
qed
section \<open>Concrete requests\<close>

definition demo_http :: http_request where
  "demo_http = \<lparr>hr_method = ''POST'', hr_token = ''tok'', hr_rest = [], hr_query = [],
     hr_headers = [(''Content-Length'', ''5'')], hr_chunks = [''he'', ''llo''], hr_client = Some ''1.2.3.4''\<rparr>"

lemma demo_http_size: "declared_size demo_http = Inr 5"
  by code_simp

lemma demo_http_input: "find_by_token (hr_token demo_http) (w_db (new_world demo_db)) = Some demo_endpoint"
  by (simp add: find_by_token_eq demo_db_def demo_http_def demo_endpoint_def empty_db_def)

definition demo_no_limit :: redis_conn where
  "demo_no_limit = \<lparr>rc_url = None, rc_from_url_fault = None, rc_load_fault = None, rc_fault = None,
     rc_now_ms = 0, rc_server_now = 0, rc_hex = []\<rparr>"

lemma demo_acceptable:
  "acceptable demo_services demo_env demo_endpoint (capture_input_of demo_http (concat (hr_chunks demo_http))) demo_db"
proof -
  let ?inp = "capture_input_of demo_http (concat (hr_chunks demo_http))"
  have "input_storable demo_services ?inp" by code_simp
  moreover have "ce_inline_threshold demo_env < length (ci_body ?inp)"
    by (simp add: demo_env_def capture_input_of_def demo_http_def)
  ultimately show ?thesis
    using demo_capture_facts(4,5)
    by (simp add: acceptable_def capture_signature_status_def) (simp add: demo_endpoint_def)
qed

lemma demo_fits: "\<not> oversized 10 demo_http"
  by (simp add: oversized_def demo_http_size) (simp add: demo_http_def)

lemma demo_world_ok: "world_ok (new_world demo_db)"
  by (simp add: world_ok_def demo_db_ok)

lemma demo_serve:
  "\<exists>w'. serve Commit_after_response (route capture_clauses (capture_handler demo_services demo_env 10 True demo_http))
     (new_world demo_db) = (Reply (configured_response demo_endpoint), w') \<and> w_db w' \<noteq> demo_db"
proof -
  have a: "acceptable demo_services demo_env demo_endpoint (capture_input_of demo_http (concat (hr_chunks demo_http)))
      (w_db (new_world demo_db))" by (simp add: demo_acceptable)
  obtain r w1 where r: "with_session (capture_request demo_services demo_env
      (capture_input_of demo_http (concat (hr_chunks demo_http)))) (new_world demo_db) = (Inr r, w1)"
    "serve Commit_after_response (route capture_clauses (capture_handler demo_services demo_env 10 True demo_http))
       (new_world demo_db) = (Reply (configured_response demo_endpoint), snd ((case cr_pending_forward_id r of
         None \<Rightarrow> ret () | Some i \<Rightarrow> enqueue_task True demo_services i) w1))"
    by (rule accepted_capture [OF demo_world_ok demo_http_size demo_fits demo_http_input refl a])
  have "w_db w1 \<noteq> demo_db"
    using capture_stores [OF _ r(1)] by (auto simp: demo_db_ok stored_def)
  with r(2) show ?thesis by (auto simp: enqueue_task_frame split: option.splits)
qed

text \<open>A cap of four bytes refuses the request, one of ten takes and stores it.\<close>

theorem capture_route_answers_witness:
  "(\<exists>w'. capture Commit_before_response demo_services demo_env 4 True demo_no_limit demo_http limiter_init demo_server
     (new_world demo_db) = (Http_error 413 ''payload too large'', limiter_init, demo_server, w')) \<and>
   (\<exists>w'. capture Commit_before_response demo_services demo_env 10 True demo_no_limit demo_http limiter_init demo_server
     (new_world demo_db) = (Reply (configured_response demo_endpoint), limiter_init, demo_server, w') \<and>
     stored demo_http demo_endpoint demo_db (w_db w'))"
proof -
  have free: "enforce_token_limit demo_no_limit (hr_token demo_http) ''capture'' CAPTURE_LIMIT_PER_HOUR 3600 limiter_init
      demo_server = (Inr (), [], limiter_init, demo_server)"
    by (simp add: enforce_token_limit_def ensure_token_redis_def demo_no_limit_def)
  have run: "\<exists>r w'. capture Commit_before_response demo_services demo_env m True demo_no_limit demo_http
      limiter_init demo_server (new_world demo_db) = (r, limiter_init, demo_server, w')" for m
    by (simp add: capture_def free Let_def split: prod.splits)
  obtain r w' where small: "capture Commit_before_response demo_services demo_env 4 True demo_no_limit demo_http
      limiter_init demo_server (new_world demo_db) = (r, limiter_init, demo_server, w')" using run by blast
  have big: "oversized 4 demo_http" by (simp add: oversized_def demo_http_size)
  have r: "r = Http_error 413 ''payload too large''"
    using capture_route_answers [OF demo_world_ok free small refl refl] big demo_http_size by simp
  obtain r2 w2 where large: "capture Commit_before_response demo_services demo_env 10 True demo_no_limit demo_http
      limiter_init demo_server (new_world demo_db) = (r2, limiter_init, demo_server, w2)" using run by blast
  have r2: "r2 = Reply (configured_response demo_endpoint) \<and> stored demo_http demo_endpoint demo_db (w_db w2)"
    using capture_route_answers [OF demo_world_ok free large refl refl, THEN conjunct2, THEN conjunct2, THEN spec [of _ 5],
        THEN mp, OF conjI [OF refl demo_http_size], THEN conjunct2, THEN conjunct2, THEN spec [of _ demo_endpoint],
        THEN mp, OF conjI [OF demo_fits demo_http_input], THEN conjunct1, THEN mp] demo_acceptable by simp
  show ?thesis using small large r r2 by blast
qed

theorem early_job_is_spent_witness:
  "\<exists>w'. serve Commit_after_response (route capture_clauses (capture_handler demo_services demo_env 10 True demo_http))
     (new_world demo_db) = (Reply (configured_response demo_endpoint), w') \<and>
     w_jobs w' = [the_job 3 0] \<and>
     (\<exists>w2. execute_forward_job demo_services [] delivery_clock (uuid_str 3) (new_world demo_db) = (Inr (), w2) \<and>
        w_sent w2 = []) \<and>
     (\<exists>f. forward_find_by_id 3 (w_db w') = Some f \<and> fw_status f = Pending)"
proof -
  obtain w' where run: "serve Commit_after_response
      (route capture_clauses (capture_handler demo_services demo_env 10 True demo_http))
      (new_world demo_db) = (Reply (configured_response demo_endpoint), w')" "w_db w' \<noteq> demo_db"
    using demo_serve by blast
  have ok: "world_ok (new_world demo_db)" by (simp add: world_ok_def demo_db_ok)
  have url: "\<not> falsy (ep_forward_url demo_endpoint)" by (simp add: demo_endpoint_def)
  have new: "forward_find_by_id (ce_forward_id demo_env) (w_db (new_world demo_db)) = None"
    by (simp add: forward_find_by_id_eq demo_db_def empty_db_def)
  have id: "ce_forward_id demo_env = 3" by (simp add: demo_env_def)
  have w: "w_jobs (new_world demo_db) = []" "w_sent (new_world demo_db) = []" by (simp_all add: new_world_def)
  from early_job_is_spent [OF ok demo_http_size run(1) _ _ demo_http_input url new, of "new_world demo_db" demo_services "[]" delivery_clock]
  show ?thesis using run id w by auto
qed

end
