(* ===== verification/Json_Roundtrip.thy ===== *)
theory Json_Roundtrip
  imports Json
begin

text \<open>
  What \<open>json.dumps\<close> writes, \<open>json.loads\<close> reads back: for values with valid text, whole numbers and
  distinct keys. The export streams such a value piece by piece.
\<close>

section \<open>Characters\<close>

text \<open>One character of valid text, as its bytes.\<close>

definition utf8_char :: "string \<Rightarrow> bool" where
  "utf8_char ch \<longleftrightarrow> ch \<noteq> [] \<and> utf8_head ch = (length ch, True)"

lemma utf8_cont_ranges:
  assumes "utf8_cont n = Some ps" and "p \<in> set ps" and "p k"
  shows "cont_byte k"
  using assms by (auto simp: utf8_cont_def cont_byte_def split: if_splits)

lemma cont_run_is_cont:
  assumes "cont_run ps s = (j, True)" and "\<And>p k. p \<in> set ps \<Longrightarrow> p k \<Longrightarrow> cont_byte k"
  shows "\<forall>c \<in> set (take j s). is_cont c"
  using assms by (induction ps s arbitrary: j rule: cont_run.induct) (auto simp: is_cont_def split: if_splits prod.splits)

lemma valid_lead: "utf8_valid (c # s) \<Longrightarrow> \<not> is_cont c"
  by (auto simp: utf8_valid.simps is_cont_def cont_byte_def utf8_cont_def split: if_splits)

lemma takeWhile_split:
  assumes "\<forall>c \<in> set (take j s). p c" and "drop j s = [] \<or> \<not> p (hd (drop j s))"
  shows "takeWhile p s = take j s" "dropWhile p s = drop j s"
proof -
  have "takeWhile p (take j s @ drop j s) = take j s" using assms by (cases "drop j s") auto
  moreover have "dropWhile p (take j s @ drop j s) = drop j s" using assms by (cases "drop j s") auto
  ultimately show "takeWhile p s = take j s" "dropWhile p s = drop j s" by simp_all
qed

lemma str_chars_valid: "utf8_valid s \<Longrightarrow> ch \<in> set (str_chars s) \<Longrightarrow> utf8_char ch"
proof (induction s rule: utf8_valid.induct)
  case (2 c s)
  obtain k where h: "utf8_head (c # s) = (k, True)" and v: "utf8_valid (drop k (c # s))"
    using "2.prems"(1) by (auto simp: utf8_valid.simps split: prod.splits)
  obtain ps j where ps: "utf8_cont (byte c) = Some ps" and run: "cont_run ps s = (j, True)" and k: "k = Suc j"
    using h by (rule utf8_headE)
  have conts: "\<forall>c \<in> set (take j s). is_cont c" using cont_run_is_cont [OF run] utf8_cont_ranges [OF ps] by blast
  have lead: "drop j s = [] \<or> \<not> is_cont (hd (drop j s))" using v k valid_lead by (cases "drop j s") auto
  note split = takeWhile_split [OF conts lead]
  have first: "utf8_char (c # take j s)"
    using cont_run_take [OF run] cont_run_length [OF run] ps by (simp add: utf8_char_def)
  have "ch = c # take j s \<or> ch \<in> set (str_chars (drop k (c # s)))"
    using "2.prems"(2) split k by simp
  then show ?case using first "2.IH" [OF h [symmetric] v] by blast
qed simp

text \<open>The shapes of a character.\<close>

lemma utf8_char_cases:
  assumes "utf8_char ch"
  obtains (one) a where "ch = [a]" "byte a < 128"
    | (two) a b where "ch = [a, b]" "194 \<le> byte a" "byte a < 224" "cont_byte (byte b)"
    | (three) a b c where "ch = [a, b, c]" "224 \<le> byte a" "byte a < 240" "cont_byte (byte b)" "cont_byte (byte c)"
        "byte a = 224 \<Longrightarrow> 160 \<le> byte b" "byte a = 237 \<Longrightarrow> byte b \<le> 159"
    | (four) a b c d where "ch = [a, b, c, d]" "240 \<le> byte a" "byte a \<le> 244" "cont_byte (byte b)" "cont_byte (byte c)"
        "cont_byte (byte d)" "byte a = 240 \<Longrightarrow> 144 \<le> byte b" "byte a = 244 \<Longrightarrow> byte b \<le> 143"
proof -
  obtain a s where ch: "ch = a # s" and h: "utf8_head (a # s) = (length ch, True)"
    using assms by (cases ch) (auto simp: utf8_char_def)
  obtain ps where ps: "utf8_cont (byte a) = Some ps" and run: "cont_run ps s = (length s, True)"
    using h ch by (auto split: option.splits prod.splits)
  have cont: "(128 \<le> k \<and> k \<le> 191) = cont_byte k" "160 \<le> k \<and> k \<le> 191 \<Longrightarrow> cont_byte k" "128 \<le> k \<and> k \<le> 159 \<Longrightarrow> cont_byte k"
    "144 \<le> k \<and> k \<le> 191 \<Longrightarrow> cont_byte k" "128 \<le> k \<and> k \<le> 143 \<Longrightarrow> cont_byte k" for k :: nat
    by (auto simp: cont_byte_def)
  have l0: "s = []" if "cont_run [] s = (length s, True)" for s using that by simp
  have l1: "\<exists>b. s = [b] \<and> p (byte b)" if "cont_run [p] s = (length s, True)" for p and s :: string
    using that by (cases s) (auto split: if_splits)
  have l2: "\<exists>b c. s = [b, c] \<and> p (byte b) \<and> q (byte c)" if "cont_run [p, q] s = (length s, True)" for p q and s :: string
    using that by (cases s; cases "tl s") (auto split: if_splits)
  have l3: "\<exists>b c d. s = [b, c, d] \<and> p (byte b) \<and> q (byte c) \<and> x (byte d)" if "cont_run [p, q, x] s = (length s, True)" for p q x and s :: string
    using that by (cases s; cases "tl s"; cases "tl (tl s)") (auto split: if_splits)
  show ?thesis
    using ps run ch one two three four
    by (auto simp: utf8_cont_def cont split: if_splits dest!: l0 l1 l2 l3)
qed
lemma char_of_byte_id [simp]: "char_of (byte c) = c"
  by (simp add: byte_def)

lemma cont_split: "cont_byte n \<Longrightarrow> \<exists>k < 64. n = 128 + k"
  by (auto simp: cont_byte_def intro!: exI [of _ "n - 128"])

lemma digits64:
  assumes "(z :: nat) < 64"
  shows "(q * 64 + z) div 64 = q" "(q * 64 + z) mod 64 = z"
  using assms by simp_all

text \<open>Decoding a character and encoding its code point gives it back; it is no surrogate.\<close>

lemma utf8_encode_code_point:
  assumes "utf8_char ch"
  shows "utf8_encode (code_point ch) = ch" "code_point ch < 0x110000" "\<not> (0xD800 \<le> code_point ch \<and> code_point ch \<le> 0xDFFF)"
    "code_point ch < 128 \<Longrightarrow> ch = [char_of (code_point ch)]"
proof -
  have "utf8_encode (code_point ch) = ch \<and> code_point ch < 0x110000 \<and>
    \<not> (0xD800 \<le> code_point ch \<and> code_point ch \<le> 0xDFFF) \<and> (code_point ch < 128 \<longrightarrow> ch = [char_of (code_point ch)])"
    using assms
  proof (cases rule: utf8_char_cases)
    case (one a)
    then show ?thesis by (simp add: utf8_encode_def)
  next
    case (two a b)
    define x where "x = byte a - 192"
    have a: "byte a = 192 + x" "2 \<le> x" "x < 32" using two by (simp_all add: x_def)
    obtain y where y: "byte b = 128 + y" "y < 64" using cont_split [OF two(4)] by blast
    have n: "code_point ch = x * 64 + y" using two(1) a(1) y(1) by simp
    have "utf8_encode (code_point ch) = [char_of (byte a), char_of (byte b)]"
      unfolding n utf8_encode_def using a y by simp
    moreover have "128 \<le> code_point ch" "code_point ch < 2048" unfolding n using a y by linarith+
    ultimately show ?thesis using two(1) by simp
  next
    case (three a b c)
    define x where "x = byte a - 224"
    have a: "byte a = 224 + x" "x < 16" using three by (simp_all add: x_def)
    obtain y where y: "byte b = 128 + y" "y < 64" using cont_split [OF three(4)] by blast
    obtain z where z: "byte c = 128 + z" "z < 64" using cont_split [OF three(5)] by blast
    have low: "x = 0 \<Longrightarrow> 32 \<le> y" "x = 13 \<Longrightarrow> y \<le> 31" using three(6,7) a(1) y(1) by auto
    have n: "code_point ch = x * 4096 + y * 64 + z" using three(1) a(1) y(1) z(1) by simp
    have big: "2048 \<le> code_point ch" "code_point ch < 65536" "\<not> (0xD800 \<le> code_point ch \<and> code_point ch \<le> 0xDFFF)"
      unfolding n using low a(2) y(2) z(2) by (cases "x = 0"; cases "x = 13"; simp; linarith)+
    have n': "code_point ch = (x * 64 + y) * 64 + z" using n by simp
    have low6: "code_point ch div 64 = x * 64 + y" "code_point ch mod 64 = z"
      unfolding n' using z(2) by (rule digits64)+
    then have "code_point ch div 4096 = x" "code_point ch div 64 mod 64 = y" "code_point ch mod 64 = z"
      using y(2) div_mult2_eq [of "code_point ch" 64 64] by (simp_all add: digits64)
    then have "utf8_encode (code_point ch) = [char_of (byte a), char_of (byte b), char_of (byte c)]"
      unfolding utf8_encode_def using big a y z by simp
    then show ?thesis using three(1) big by simp
  next
    case (four a b c d)
    define x where "x = byte a - 240"
    have a: "byte a = 240 + x" "x \<le> 4" using four by (simp_all add: x_def)
    obtain y where y: "byte b = 128 + y" "y < 64" using cont_split [OF four(4)] by blast
    obtain z where z: "byte c = 128 + z" "z < 64" using cont_split [OF four(5)] by blast
    obtain u where u: "byte d = 128 + u" "u < 64" using cont_split [OF four(6)] by blast
    have low: "x = 0 \<Longrightarrow> 16 \<le> y" "x = 4 \<Longrightarrow> y \<le> 15" using four(7,8) a(1) y(1) by auto
    have n: "code_point ch = x * 262144 + y * 4096 + z * 64 + u" using four(1) a(1) y(1) z(1) u(1) by simp
    have big: "65536 \<le> code_point ch" "code_point ch < 0x110000"
      unfolding n using low a(2) y(2) z(2) u(2) by (cases "x = 0"; cases "x = 4"; simp; linarith)+
    have n': "code_point ch = ((x * 64 + y) * 64 + z) * 64 + u" using n by simp
    have low6: "code_point ch div 64 = (x * 64 + y) * 64 + z" "code_point ch mod 64 = u"
      unfolding n' using u(2) by (rule digits64)+
    then have low12: "code_point ch div 4096 = x * 64 + y"
      using z(2) div_mult2_eq [of "code_point ch" 64 64] by (simp add: digits64)
    have "code_point ch div 262144 = x"
      using low12 y(2) div_mult2_eq [of "code_point ch" 4096 64] by (simp add: digits64)
    moreover have "code_point ch div 4096 mod 64 = y" "code_point ch div 64 mod 64 = z" "code_point ch mod 64 = u"
      unfolding low12 low6 by (rule digits64(2) [OF y(2)] digits64(2) [OF z(2)] refl)+
    ultimately have "code_point ch div 262144 = x" "code_point ch div 4096 mod 64 = y" "code_point ch div 64 mod 64 = z" "code_point ch mod 64 = u"
      by simp_all
    then have "utf8_encode (code_point ch) = [char_of (byte a), char_of (byte b), char_of (byte c), char_of (byte d)]"
      unfolding utf8_encode_def using big a y z u by simp
    then show ?thesis using four(1) big by simp
  qed
  then show "utf8_encode (code_point ch) = ch" "code_point ch < 0x110000" "\<not> (0xD800 \<le> code_point ch \<and> code_point ch \<le> 0xDFFF)"
    "code_point ch < 128 \<Longrightarrow> ch = [char_of (code_point ch)]" by blast+
qed
section \<open>Strings\<close>

lemma hex4_fixed: "n < 65536 \<Longrightarrow> hex4 (hex_fixed 4 n @ rest) = Some n"
  by (simp add: hex4_def hex_number_fixed)

lemma drop_hex4 [simp]: "drop 4 (hex_fixed 4 n @ rest) = rest"
  by simp

lemma json_unicode_bmp:
  "n < 65536 \<Longrightarrow> \<not> high_surrogate n \<Longrightarrow> json_unicode (hex_fixed 4 n @ rest) = Some (utf8_encode n, 4)"
  by (simp add: json_unicode_def hex4_fixed Let_def)

lemma json_unicode_pair:
  assumes "0x10000 \<le> n" and "n < 0x110000"
  shows "json_unicode (hex_fixed 4 (0xD800 + (n - 0x10000) div 1024) @ [CHR 0x5C, CHR ''u''] @
    hex_fixed 4 (0xDC00 + (n - 0x10000) mod 1024) @ rest) = Some (utf8_encode n, 10)"
proof -
  let ?h = "0xD800 + (n - 0x10000) div 1024" and ?l = "0xDC00 + (n - 0x10000) mod 1024"
  have "(n - 0x10000) div 1024 < 1024" "(n - 0x10000) mod 1024 < 1024"
    using assms by (simp_all add: div_less_iff_less_mult)
  then have h: "?h < 65536" "high_surrogate ?h" and l: "?l < 65536" "low_surrogate ?l"
    by (simp_all add: high_surrogate_def low_surrogate_def)
  have join: "join_surrogates ?h ?l = n"
    using assms by (simp add: join_surrogates_def)
  have "hex4 (hex_fixed 4 ?h @ x) = Some ?h" "hex4 (hex_fixed 4 ?l @ x) = Some ?l" for x
    using hex4_fixed h(1) l(1) by blast+
  then show ?thesis using h(2) l(2) join by (simp add: json_unicode_def Let_def)
qed

declare json_string.simps [simp del]

lemma backslash: "CHR 0x5C \<noteq> CHR 0x22" "\<not> byte CHR 0x5C < 32"
  by (simp_all add: byte_def)

lemma json_string_escape:
  "json_string (CHR 0x5C # CHR ''u'' # s) =
     (case json_unicode s of None \<Rightarrow> None | Some (t, k) \<Rightarrow> map_option (\<lambda>(r, rest). (t @ r, rest)) (json_string (drop k s)))"
  by (simp add: json_string.simps(2) [of "CHR 0x5C"] backslash)

lemma json_escape_eqs:
  "json_escape CHR 0x22 = Some CHR 0x22" "json_escape CHR 0x5C = Some CHR 0x5C"
  "json_escape CHR ''n'' = Some (char_of (10 :: nat))" "json_escape CHR ''r'' = Some (char_of (13 :: nat))"
  "json_escape CHR ''t'' = Some (char_of (9 :: nat))" "json_escape CHR ''f'' = Some (char_of (12 :: nat))"
  "json_escape CHR ''b'' = Some (char_of (8 :: nat))"
  by (simp_all add: json_escape_def)

lemma quote_chars: "char_of (34 :: nat) = CHR 0x22" "char_of (92 :: nat) = CHR 0x5C"
  by code_simp+

lemma quote_bytes: "byte CHR 0x22 = 34" "byte CHR 0x5C = 92"
  by code_simp+

lemma json_string_simple:
  assumes "json_escape e = Some x" and "e \<noteq> CHR ''u''"
  shows "json_string (CHR 0x5C # e # s) = map_option (\<lambda>(r, rest). (x # r, rest)) (json_string s)"
  using assms by (simp add: json_string.simps(2) [of "CHR 0x5C"] backslash)

lemma json_string_plain:
  assumes "32 \<le> byte c" and "c \<noteq> CHR 0x22" and "c \<noteq> CHR 0x5C"
  shows "json_string (c # s) = map_option (\<lambda>(r, rest). (c # r, rest)) (json_string s)"
  using assms by (simp add: json_string.simps(2))

lemma json_string_char:
  assumes "utf8_char ch"
  shows "json_string (json_escape_char ch @ s) = map_option (\<lambda>(r, rest). (ch @ r, rest)) (json_string s)"
proof -
  let ?n = "code_point ch"
  note E = utf8_encode_code_point [OF assms]
  have small: "ch = [char_of k]" if nk: "?n = k" "k < 128" for k
    unfolding nk(1) [symmetric] by (rule E(4)) (use nk in simp)
  show ?thesis
  proof (cases "?n \<in> {0x22, 0x5C, 10, 13, 9, 12, 8}")
    case True
    then obtain k where k: "?n = k" "k \<in> {0x22, 0x5C, 10, 13, 9, 12, 8}" by blast
    then have ch: "ch = [char_of k]" by (intro small) auto
    from k(2) have "json_string (json_escape_char [char_of k] @ s) = map_option (\<lambda>(r, rest). (char_of k # r, rest)) (json_string s)"
      using k(1) [unfolded ch] by (elim insertE emptyE)
        (simp_all add: json_escape_char_def json_string_simple json_escape_eqs quote_chars)
    then show ?thesis unfolding ch by simp
  next
    case special: False
    show ?thesis
    proof (cases "32 \<le> ?n \<and> ?n \<le> 126")
      case True
      then have ch: "ch = [char_of ?n]" using E(4) by simp
      have b: "byte (char_of ?n) = ?n" using True by simp
      have "char_of ?n \<noteq> CHR 0x22" "char_of ?n \<noteq> CHR 0x5C" using special b by (auto dest: arg_cong [where f = byte] simp: quote_bytes)
      then have plain: "json_string (char_of ?n # s) = map_option (\<lambda>(r, rest). (char_of ?n # r, rest)) (json_string s)"
        by (intro json_string_plain) (use True b in simp_all)
      have esc: "json_escape_char ch = ch" using special True by (simp add: json_escape_char_def)
      show ?thesis unfolding esc by (subst (1 2) ch) (simp add: plain)
    next
      case False
      show ?thesis
      proof (cases "?n < 0x10000")
        case True
        have "\<not> high_surrogate ?n" using E(3) by (auto simp: high_surrogate_def)
        then have "json_string (unicode_escape ?n @ s) = map_option (\<lambda>(r, rest). (ch @ r, rest)) (json_string s)"
          using True by (simp add: unicode_escape_def json_string_escape json_unicode_bmp E(1))
        then show ?thesis using special False True by (auto simp: json_escape_char_def Let_def)
      next
        case big: False
        have "json_string ((unicode_escape (0xD800 + (?n - 0x10000) div 1024) @ unicode_escape (0xDC00 + (?n - 0x10000) mod 1024)) @ s) =
            map_option (\<lambda>(r, rest). (ch @ r, rest)) (json_string s)"
          using json_unicode_pair [of ?n s] big E(2)
          by (simp add: unicode_escape_def json_string_escape E(1))
        then show ?thesis using special False big by (auto simp: json_escape_char_def Let_def)
      qed
    qed
  qed
qed

lemma json_string_chars:
  assumes "\<forall>ch \<in> set chs. utf8_char ch"
  shows "json_string (concat (map json_escape_char chs) @ CHR 0x22 # rest) = Some (concat chs, rest)"
  using assms
proof (induction chs)
  case Nil
  show ?case by (simp add: json_string.simps(2) [of "CHR 0x22"])
next
  case (Cons ch chs)
  then show ?case using json_string_char [of ch "concat (map json_escape_char chs) @ CHR 0x22 # rest"] by simp
qed

text \<open>A quoted string, after its first quote.\<close>

lemma json_string_quote:
  assumes "utf8_valid s"
  shows "json_string (tl (json_quote s) @ rest) = Some (s, rest)" "json_quote s = CHR 0x22 # tl (json_quote s)"
  using json_string_chars [of "str_chars s" rest] str_chars_valid [OF assms]
  by (simp_all add: json_quote_def concat_str_chars)
section \<open>Numbers\<close>

text \<open>What may follow a value inside a document.\<close>

definition stops :: "string \<Rightarrow> bool" where
  "stops rest \<longleftrightarrow> rest = [] \<or> hd rest \<in> {CHR '','', CHR '']'', CHR ''}''}"

lemma stops_no_digit: "stops rest \<Longrightarrow> rest = [] \<or> \<not> is_digit (hd rest) \<and> hd rest \<noteq> CHR ''.'' \<and> hd rest \<noteq> CHR ''e'' \<and> hd rest \<noteq> CHR ''E''"
  by (auto simp: stops_def is_digit_def byte_def)

lemma str_nat_is_digit: "c \<in> set (str_nat n) \<Longrightarrow> is_digit c"
  using str_nat_digits by (simp add: is_digit_def)

lemma str_nat_leading_zero: "str_nat n = CHR ''0'' # t \<Longrightarrow> t = []"
proof (induction n arbitrary: t rule: str_nat.induct)
  case (1 n)
  show ?case
  proof (cases "n < 10")
    case True
    then show ?thesis using "1.prems" by (simp add: str_nat.simps [of n])
  next
    case False
    then obtain u where u: "str_nat (n div 10) = CHR ''0'' # u"
      using "1.prems" by (cases "str_nat (n div 10)") (auto simp: str_nat.simps [of n])
    then have "str_nat (n div 10) = ''0''" using "1.IH" [OF False] by simp
    also have "\<dots> = str_nat 0" by code_simp
    finally have "n div 10 = 0" unfolding str_nat_inject .
    with False show ?thesis by simp
  qed
qed

lemma number_int_str_nat: "stops rest \<Longrightarrow> number_int (str_nat n @ rest) = str_nat n"
proof -
  assume rest: "stops rest"
  have tw: "takeWhile is_digit (str_nat n @ rest) = str_nat n"
    using stops_no_digit [OF rest] str_nat_is_digit [of _ n]
    by (cases rest) (auto simp: takeWhile_append2)
  obtain c t where ct: "str_nat n = c # t" by (cases "str_nat n") auto
  show ?thesis
  proof (cases "c = CHR ''0''")
    case True
    then show ?thesis using ct str_nat_leading_zero [of n t] by (simp add: number_int_def)
  next
    case False
    then show ?thesis using ct tw by (simp add: number_int_def)
  qed
qed

lemma number_tail: "stops rest \<Longrightarrow> number_frac rest = [] \<and> number_exp rest = []"
  using stops_no_digit [of rest] by (cases rest) (auto simp: number_frac_def number_exp_def Let_def)

lemma json_number_str_int:
  assumes "stops rest" and "length (str_int i) \<le> 4300"
  shows "json_number (str_int i @ rest) = Some (JNum (str_int i), rest)"
proof (cases "i < 0")
  case True
  then have s: "str_int i = CHR ''-'' # str_nat (nat (- i))" by (simp add: str_int_def)
  then show ?thesis
    using assms number_tail [OF assms(1)] by (simp add: json_number_def number_int_str_nat Let_def)
next
  case False
  then have s: "str_int i = str_nat (nat i)" by (simp add: str_int_def)
  obtain c t where ct: "str_nat (nat i) = c # t" by (cases "str_nat (nat i)") auto
  then have "48 \<le> byte c" using str_nat_digits [of c "nat i"] by simp
  then have "c \<noteq> CHR ''-''" by (auto simp: byte_dash)
  then have "take 1 (str_nat (nat i) @ rest) \<noteq> ''-''" using ct by simp
  then show ?thesis
    using assms number_tail [OF assms(1)] s by (simp add: json_number_def number_int_str_nat Let_def)
qed

lemma str_int_head:
  obtains c t where "str_int i = c # t" "c = CHR ''-'' \<and> (\<exists>d u. t = d # u \<and> is_digit d) \<or> is_digit c"
proof (cases "str_nat (nat (- i))"; cases "str_nat (nat i)")
  fix d u c t
  assume "str_nat (nat (- i)) = d # u" "str_nat (nat i) = c # t"
  moreover from this have "is_digit d" "is_digit c"
    using str_nat_is_digit [of d "nat (- i)"] str_nat_is_digit [of c "nat i"] by simp_all
  ultimately show ?thesis by (cases "i < 0") (auto simp: str_int_def intro: that)
qed auto

lemma letter_bytes:
  "byte CHR ''{'' = 123" "byte CHR ''['' = 91" "byte CHR ''n'' = 110" "byte CHR ''t'' = 116" "byte CHR ''f'' = 102"
  "byte CHR ''N'' = 78" "byte CHR ''I'' = 73"
  by code_simp+

lemma digit_chars:
  assumes "is_digit c"
  shows "c \<noteq> CHR 0x22" "c \<noteq> CHR ''{''" "c \<noteq> CHR ''[''" "c \<noteq> CHR ''n''" "c \<noteq> CHR ''t''" "c \<noteq> CHR ''f''"
    "c \<noteq> CHR ''N''" "c \<noteq> CHR ''I''" "c \<noteq> CHR ''-''"
  using assms by (auto simp: is_digit_def letter_bytes quote_bytes byte_dash)

lemma no_constant: "is_digit d \<Longrightarrow> json_constant json_constants (d # u) = None"
  "is_digit d \<Longrightarrow> json_constant json_constants (CHR ''-'' # d # u) = None"
  unfolding json_constants_def json_constant.simps by (simp_all add: digit_chars digit_chars [symmetric])

lemma json_value_other:
  assumes "c \<noteq> CHR 0x22" and "c \<noteq> CHR ''{''" and "c \<noteq> CHR ''[''" and "json_constant json_constants (c # s) = None"
  shows "json_value (Suc n) (c # s) = json_number (c # s)"
  using assms by simp

lemma json_value_number:
  assumes "stops rest" and "length (str_int i) \<le> 4300"
  shows "json_value (Suc n) (str_int i @ rest) = Some (JNum (str_int i), rest)"
proof -
  obtain c t where c: "str_int i = c # t" "c = CHR ''-'' \<and> (\<exists>d u. t = d # u \<and> is_digit d) \<or> is_digit c"
    by (rule str_int_head)
  have "json_value (Suc n) (c # t @ rest) = json_number (c # t @ rest)"
    using c(2)
  proof (elim disjE conjE exE)
    fix d u
    assume m: "c = CHR ''-''" "t = d # u" "is_digit d"
    show ?thesis unfolding m(1,2) append_Cons by (rule json_value_other) (use m(3) no_constant in simp_all)
  next
    assume "is_digit c"
    then show ?thesis by (intro json_value_other) (use digit_chars no_constant in simp_all)
  qed
  then show ?thesis using json_number_str_int [OF assms] c(1) by simp
qed
section \<open>Values\<close>

text \<open>The values \<open>json.dumps\<close> is used on: valid text, whole numbers, distinct keys.\<close>

fun json_ok :: "json \<Rightarrow> bool" where
  "json_ok JNull = True"
| "json_ok (JBool b) = True"
| "json_ok (JNum l) = (\<exists>i. l = str_int i \<and> length l \<le> 4300)"
| "json_ok (JStr s) = utf8_valid s"
| "json_ok (JArr vs) = (\<forall>v \<in> set vs. json_ok v)"
| "json_ok (JObj ms) = (distinct (map fst ms) \<and> (\<forall>(k, v) \<in> set ms. utf8_valid k \<and> json_ok v))"

definition plain_head :: "string \<Rightarrow> bool" where
  "plain_head s \<longleftrightarrow> (\<exists>c t. s = c # t \<and> \<not> json_space c \<and> c \<noteq> CHR '']'' \<and> c \<noteq> CHR ''}'')"

lemma mark_spaces: "\<not> json_space CHR 0x22" "\<not> json_space CHR ''{''" "\<not> json_space CHR ''[''" "\<not> json_space CHR ''n''"
  "\<not> json_space CHR ''t''" "\<not> json_space CHR ''f''" "\<not> json_space CHR ''-''" "\<not> json_space CHR '',''"
  "\<not> json_space CHR '']''" "\<not> json_space CHR ''}''" "\<not> json_space CHR '':''" "json_space CHR '' ''"
  by code_simp+

lemma digit_plain: "is_digit c \<Longrightarrow> \<not> json_space c \<and> c \<noteq> CHR '']'' \<and> c \<noteq> CHR ''}''"
  by (auto simp: is_digit_def json_space_def byte_def)

lemma json_dumps_head: "json_ok j \<Longrightarrow> plain_head (json_dumps j @ rest)"
proof (cases j)
  case (JNum l)
  assume "json_ok j"
  then obtain i where l: "l = str_int i" using JNum by auto
  obtain c t where c: "str_int i = c # t" "c = CHR ''-'' \<and> (\<exists>d u. t = d # u \<and> is_digit d) \<or> is_digit c"
    by (rule str_int_head)
  then have "\<not> json_space c \<and> c \<noteq> CHR '']'' \<and> c \<noteq> CHR ''}''" using digit_plain [of c] mark_spaces(7) by auto
  then show ?thesis using c(1) l JNum by (simp add: plain_head_def)
qed (simp_all add: plain_head_def mark_spaces json_quote_def)

lemma skip_ws_plain: "plain_head s \<Longrightarrow> skip_ws s = s" "plain_head s \<Longrightarrow> skip_ws (CHR '' '' # s) = s"
  by (auto simp: plain_head_def skip_ws_def mark_spaces)

lemma skip_ws_mark [simp]:
  "skip_ws (CHR '','' # s) = CHR '','' # s" "skip_ws (CHR '']'' # s) = CHR '']'' # s"
  "skip_ws (CHR ''}'' # s) = CHR ''}'' # s" "skip_ws (CHR '':'' # s) = CHR '':'' # s"
  "skip_ws (CHR 0x22 # s) = CHR 0x22 # s" "skip_ws (CHR '' '' # CHR 0x22 # s) = CHR 0x22 # s"
  by (simp_all add: skip_ws_def mark_spaces)

text \<open>What reading one value back needs, for the elements of a list as for a single value.\<close>

definition reads_back :: "json \<Rightarrow> bool" where
  "reads_back v \<longleftrightarrow> (\<forall>n rest. 2 * length (json_dumps v) \<le> n \<longrightarrow> stops rest \<longrightarrow>
     json_value n (json_dumps v @ rest) = Some (v, rest))"

definition members_text :: "(string \<times> json) list \<Rightarrow> string" where
  "members_text ms = sep_concat '', '' (map (\<lambda>(k, v). json_quote k @ '': '' @ json_dumps v) ms)"

lemma sep_concat_Cons: "sep_concat sep (x # xs) = (if xs = [] then x else x @ sep @ sep_concat sep xs)"
  by (cases xs) simp_all

lemma json_dumps_pos: "json_ok v \<Longrightarrow> 0 < length (json_dumps v)"
  using json_dumps_head [of v "[]"] by (auto simp: plain_head_def)

lemma stops_marks [simp]: "stops (CHR '','' # s)" "stops (CHR '']'' # s)" "stops (CHR ''}'' # s)" "stops []"
  by (simp_all add: stops_def)

text \<open>
  Elements joined with a comma, with or without the space, up to the bracket or to an end of the text
  that comes too early.
\<close>

definition comma_sep :: "string \<Rightarrow> bool" where
  "comma_sep sep \<longleftrightarrow> sep = '', '' \<or> sep = '',''"

definition joined :: "string \<Rightarrow> json list \<Rightarrow> string" where
  "joined sep vs = sep_concat sep (map json_dumps vs)"

lemma joined_simps: "joined sep [v] = json_dumps v" "vs \<noteq> [] \<Longrightarrow> joined sep (v # vs) = json_dumps v @ sep @ joined sep vs"
  by (simp_all add: joined_def sep_concat_Cons)

lemma joined_head:
  assumes "vs \<noteq> []" and "\<forall>v \<in> set vs. json_ok v"
  shows "plain_head (joined sep vs @ rest)"
  using assms json_dumps_head by (cases vs; cases "tl vs = []") (auto simp: joined_simps)

lemma skip_ws_sep:
  assumes "comma_sep sep" and "plain_head u"
  shows "\<exists>s. sep @ u = CHR '','' # s \<and> skip_ws s = u"
  using assms by (auto simp: comma_sep_def skip_ws_plain)

lemma elements_step:
  assumes "comma_sep sep" and "reads_back v" and "2 * length (json_dumps v) \<le> n" and "plain_head u"
  shows "json_elements (Suc n) (json_dumps v @ sep @ u) = map_option (\<lambda>(vs, r). (v # vs, r)) (json_elements n u)"
proof -
  obtain s where s: "sep @ u = CHR '','' # s" "skip_ws s = u" using skip_ws_sep [OF assms(1,4)] by blast
  then have "json_value n (json_dumps v @ sep @ u) = Some (v, sep @ u)"
    using assms(2,3) by (simp add: reads_back_def)
  then show ?thesis using s by simp
qed

lemma elements_read_back:
  assumes "\<forall>v \<in> set vs. json_ok v \<and> reads_back v" and "vs \<noteq> []" and "2 * length (joined sep vs) + 1 \<le> n"
    and "comma_sep sep"
  shows "json_elements n (joined sep vs @ CHR '']'' # rest) = Some (vs, rest)"
  using assms
proof (induction vs arbitrary: n)
  case (Cons v vs)
  obtain k where n: "n = Suc k" using Cons.prems(3) by (cases n) auto
  have v: "json_ok v" "reads_back v" using Cons.prems(1) by simp_all
  show ?case
  proof (cases "vs = []")
    case True
    have "json_value k (json_dumps v @ CHR '']'' # rest) = Some (v, CHR '']'' # rest)"
      using v(2) Cons.prems(3) n True by (simp add: reads_back_def joined_simps)
    then show ?thesis using True n by (simp add: joined_simps)
  next
    case False
    have "json_elements k (joined sep vs @ CHR '']'' # rest) = Some (vs, rest)"
      using Cons.prems n False by (intro Cons.IH) (auto simp: joined_simps comma_sep_def)
    moreover have "2 * length (json_dumps v) \<le> k" using Cons.prems(3) n False by (simp add: joined_simps)
    moreover have "plain_head (joined sep vs @ CHR '']'' # rest)"
      using False Cons.prems(1) by (intro joined_head) simp_all
    ultimately show ?thesis
      using n False elements_step [OF Cons.prems(4) v(2)] by (simp add: joined_simps)
  qed
qed simp

lemma json_value_Nil [simp]: "json_value n [] = None"
  by (cases n) simp_all

lemma json_elements_Nil [simp]: "json_elements n [] = None"
  by (cases n) simp_all

text \<open>Without the bracket there is no value, however many elements were written.\<close>

lemma elements_open:
  assumes "\<forall>v \<in> set vs. json_ok v \<and> reads_back v" and "vs \<noteq> []" and "2 * length (joined sep vs) + 1 \<le> n"
    and "comma_sep sep" and "tail = [] \<or> tail = '',''"
  shows "json_elements n (joined sep vs @ tail) = None"
  using assms
proof (induction vs arbitrary: n)
  case (Cons v vs)
  obtain k where n: "n = Suc k" using Cons.prems(3) by (cases n) auto
  have v: "json_ok v" "reads_back v" using Cons.prems(1) by simp_all
  show ?case
  proof (cases "vs = []")
    case True
    have "stops tail" using Cons.prems(5) by auto
    then have "json_value k (json_dumps v @ tail) = Some (v, tail)"
      using v(2) Cons.prems(3) n True unfolding reads_back_def by (simp add: joined_simps)
    then show ?thesis using True n Cons.prems(5) by (auto simp: joined_simps skip_ws_def)
  next
    case False
    have "json_elements k (joined sep vs @ tail) = None"
      using Cons.prems n False by (intro Cons.IH) (auto simp: joined_simps comma_sep_def)
    moreover have "2 * length (json_dumps v) \<le> k" using Cons.prems(3) n False by (simp add: joined_simps)
    moreover have "plain_head (joined sep vs @ tail)"
      using False Cons.prems(1) by (intro joined_head) simp_all
    ultimately show ?thesis
      using n False elements_step [OF Cons.prems(4) v(2)] by (simp add: joined_simps)
  qed
qed simp

lemma json_members_step:
  assumes "utf8_valid key" and "plain_head u"
  shows "json_members (Suc n) (json_quote key @ CHR '':'' # CHR '' '' # u) =
    (case json_value n u of
       None \<Rightarrow> None
     | Some (v, r2) \<Rightarrow>
         (case skip_ws r2 of
            [] \<Rightarrow> None
          | c # r3 \<Rightarrow>
              (if c = CHR ''}'' then Some ([(key, v)], r3)
               else if c = CHR '','' then map_option (\<lambda>(ms, r''). ((key, v) # ms, r'')) (json_members n (skip_ws r3))
               else None)))"
proof -
  obtain t where t: "json_quote key = CHR 0x22 # t" by (simp add: json_quote_def)
  have "json_string (t @ CHR '':'' # CHR '' '' # u) = Some (key, CHR '':'' # CHR '' '' # u)"
    using json_string_quote(1) [OF assms(1), of "CHR '':'' # CHR '' '' # u"] t by simp
  then show ?thesis by (simp add: t skip_ws_plain(2) [OF assms(2)])
qed

lemma members_read_back:
  assumes "\<forall>(k, v) \<in> set ms. utf8_valid k \<and> json_ok v \<and> reads_back v" and "ms \<noteq> []"
    and "2 * length (members_text ms) + 1 \<le> n"
  shows "json_members n (members_text ms @ CHR ''}'' # rest) = Some (ms, rest)"
  using assms
proof (induction ms arbitrary: n)
  case (Cons m ms)
  obtain key v where m: "m = (key, v)" by (cases m)
  obtain k where n: "n = Suc k" using Cons.prems(3) by (cases n) auto
  have v: "utf8_valid key" "json_ok v" "reads_back v" using Cons.prems(1) m by simp_all
  note step = json_members_step [OF v(1) json_dumps_head [OF v(2)]]
  show ?case
  proof (cases "ms = []")
    case True
    have shape: "members_text (m # ms) = json_quote key @ CHR '':'' # CHR '' '' # json_dumps v"
      using True m by (simp add: members_text_def)
    have "json_value k (json_dumps v @ CHR ''}'' # rest) = Some (v, CHR ''}'' # rest)"
      using v(3) Cons.prems(3) n unfolding shape by (simp add: reads_back_def)
    then show ?thesis using True n m step [of k "CHR ''}'' # rest"] unfolding shape by simp
  next
    case False
    let ?more = "members_text ms @ CHR ''}'' # rest"
    have shape: "members_text (m # ms) = json_quote key @ CHR '':'' # CHR '' '' # json_dumps v @ CHR '','' # CHR '' '' # members_text ms"
      using False m by (simp add: members_text_def sep_concat_Cons)
    have "json_value k (json_dumps v @ CHR '','' # CHR '' '' # ?more) = Some (v, CHR '','' # CHR '' '' # ?more)"
      using v(3) Cons.prems(3) n unfolding shape by (simp add: reads_back_def)
    moreover have "json_members k ?more = Some (ms, rest)"
      using Cons.prems(1,3) False n unfolding shape by (intro Cons.IH) simp_all
    moreover have "skip_ws (CHR '' '' # ?more) = ?more"
    proof -
      obtain k1 v1 us where us: "ms = (k1, v1) # us" using False by (cases ms) auto
      obtain t where "members_text ms = json_quote k1 @ t" by (cases "us = []") (auto simp: us members_text_def sep_concat_Cons)
      then show ?thesis by (simp add: json_quote_def)
    qed
    ultimately show ?thesis using n m step [of k "CHR '','' # CHR '' '' # ?more"] unfolding shape by simp
  qed
qed simp

text \<open>Members followed by more of them.\<close>

lemma members_then_more:
  assumes "\<forall>(k, v) \<in> set ms. utf8_valid k \<and> json_ok v \<and> reads_back v" and "ms \<noteq> []"
    and "2 * length (members_text ms) + 1 \<le> n"
  shows "json_members n (members_text ms @ CHR '','' # more) =
    map_option (\<lambda>(l, r). (ms @ l, r)) (json_members (n - length ms) (skip_ws more))"
  using assms
proof (induction ms arbitrary: n)
  case (Cons m ms)
  obtain key v where m: "m = (key, v)" by (cases m)
  obtain k where n: "n = Suc k" using Cons.prems(3) by (cases n) auto
  have v: "utf8_valid key" "json_ok v" "reads_back v" using Cons.prems(1) m by simp_all
  note step = json_members_step [OF v(1) json_dumps_head [OF v(2)]]
  show ?case
  proof (cases "ms = []")
    case True
    have shape: "members_text (m # ms) = json_quote key @ CHR '':'' # CHR '' '' # json_dumps v"
      using True m by (simp add: members_text_def)
    have "json_value k (json_dumps v @ CHR '','' # more) = Some (v, CHR '','' # more)"
      using v(3) Cons.prems(3) n unfolding shape by (simp add: reads_back_def)
    then show ?thesis using True n m step [of k "CHR '','' # more"] unfolding shape by simp
  next
    case False
    let ?more = "members_text ms @ CHR '','' # more"
    have shape: "members_text (m # ms) = json_quote key @ CHR '':'' # CHR '' '' # json_dumps v @ CHR '','' # CHR '' '' # members_text ms"
      using False m by (simp add: members_text_def sep_concat_Cons)
    have "json_value k (json_dumps v @ CHR '','' # CHR '' '' # ?more) = Some (v, CHR '','' # CHR '' '' # ?more)"
      using v(3) Cons.prems(3) n unfolding shape by (simp add: reads_back_def)
    moreover have "json_members k ?more = map_option (\<lambda>(l, r). (ms @ l, r)) (json_members (k - length ms) (skip_ws more))"
      using Cons.prems(1,3) False n unfolding shape by (intro Cons.IH) simp_all
    moreover have "skip_ws (CHR '' '' # ?more) = ?more"
    proof -
      obtain k1 v1 us where us: "ms = (k1, v1) # us" using False by (cases ms) auto
      obtain t where "members_text ms = json_quote k1 @ t" by (cases "us = []") (auto simp: us members_text_def sep_concat_Cons)
      then show ?thesis by (simp add: json_quote_def)
    qed
    ultimately show ?thesis
      using n m step [of k "CHR '','' # CHR '' '' # ?more"] unfolding shape
      by (simp add: option.map_comp comp_def case_prod_beta)
  qed
qed simp

text \<open>A dictionary with distinct keys comes back in its order.\<close>

lemma fold_update_distinct:
  "distinct (map fst ms) \<Longrightarrow> set (map fst ms) \<inter> set (map fst d) = {} \<Longrightarrow> fold (\<lambda>(k, v). AList.update k v) ms d = d @ ms"
proof (induction ms arbitrary: d)
  case (Cons m ms)
  obtain k v where m: "m = (k, v)" by (cases m)
  have "AList.update k v d = d @ [(k, v)]"
    using Cons.prems(2) m by (induction d) auto
  then show ?case using Cons.IH [of "d @ [m]"] Cons.prems m by auto
qed simp

lemma reads_backI:
  assumes "json_ok v" and "\<And>n rest. 2 * length (json_dumps v) \<le> Suc n \<Longrightarrow> stops rest \<Longrightarrow>
    json_value (Suc n) (json_dumps v @ rest) = Some (v, rest)"
  shows "reads_back v"
  unfolding reads_back_def
proof (intro allI impI)
  fix n rest assume "2 * length (json_dumps v) \<le> n" "stops rest"
  then show "json_value n (json_dumps v @ rest) = Some (v, rest)"
    using assms(2) json_dumps_pos [OF assms(1)] by (cases n) auto
qed

lemma json_value_array:
  assumes "plain_head s"
  shows "json_value (Suc n) (CHR ''['' # s) = map_option (\<lambda>(vs, r). (JArr vs, r)) (json_elements n s)"
proof -
  have "take 1 s \<noteq> '']''" using assms by (auto simp: plain_head_def)
  then show ?thesis by (simp add: skip_ws_plain [OF assms])
qed

lemma json_dumps_no_mark: "json_ok j \<Longrightarrow> hd (json_dumps j) \<noteq> CHR 0xEF"
proof (cases j)
  case (JNum l)
  assume "json_ok j"
  then obtain i where l: "l = str_int i" using JNum by auto
  obtain c t where c: "str_int i = c # t" "c = CHR ''-'' \<and> (\<exists>d u. t = d # u \<and> is_digit d) \<or> is_digit c"
    by (rule str_int_head)
  then have "c \<noteq> CHR 0xEF" by (auto simp: is_digit_def byte_def)
  then show ?thesis using c(1) l JNum by simp
qed (simp_all add: json_quote_def)

lemma json_value_dumps: "json_ok j \<Longrightarrow> reads_back j"
proof (induction j)
  case (JStr s)
  then have "utf8_valid s" by simp
  note q = json_string_quote [OF this]
  show ?case by (rule reads_backI [OF JStr], simp, subst q(2), simp add: q(1))
next
  case (JArr vs)
  show ?case
  proof (rule reads_backI [OF JArr.prems])
    fix n rest assume n: "2 * length (json_dumps (JArr vs)) \<le> Suc n"
    show "json_value (Suc n) (json_dumps (JArr vs) @ rest) = Some (JArr vs, rest)"
    proof (cases vs)
      case Nil
      then show ?thesis by simp
    next
      case (Cons v us)
      have ok: "\<forall>v \<in> set vs. json_ok v \<and> reads_back v" using JArr by auto
      have "json_elements n (joined '', '' vs @ CHR '']'' # rest) = Some (vs, rest)"
        using n Cons by (intro elements_read_back [OF ok]) (auto simp: joined_def comma_sep_def)
      moreover have "plain_head (joined '', '' vs @ CHR '']'' # rest)"
        using ok Cons by (intro joined_head) auto
      ultimately show ?thesis by (simp add: joined_def json_value_array del: json_value.simps)
    qed
  qed
next
  case (JObj ms)
  show ?case
  proof (rule reads_backI [OF JObj.prems])
    fix n rest assume n: "2 * length (json_dumps (JObj ms)) \<le> Suc n"
    show "json_value (Suc n) (json_dumps (JObj ms) @ rest) = Some (JObj ms, rest)"
    proof (cases ms)
      case Nil
      then show ?thesis by simp
    next
      case (Cons m us)
      have ok: "\<forall>(k, v) \<in> set ms. utf8_valid k \<and> json_ok v \<and> reads_back v" using JObj by fastforce
      have "json_members n (members_text ms @ CHR ''}'' # rest) = Some (ms, rest)"
        using n Cons by (intro members_read_back [OF ok]) (auto simp: members_text_def)
      moreover obtain t where "members_text ms = CHR 0x22 # t"
        using Cons by (cases m; cases "us = []") (auto simp: members_text_def sep_concat_Cons json_quote_def)
      moreover have "fold (\<lambda>(k, v). AList.update k v) ms [] = ms"
        using fold_update_distinct [of ms "[]"] JObj.prems by simp
      ultimately show ?thesis by (simp add: members_text_def)
    qed
  qed
qed (auto intro!: reads_backI simp: json_constants_def json_value_number)

text \<open>What is written is read back as it was.\<close>

lemma json_loads_dumps:
  assumes "json_ok j"
  shows "json_loads (json_dumps j) = Some j"
proof -
  have "skip_ws (json_dumps j) = json_dumps j"
    using skip_ws_plain(1) [OF json_dumps_head [OF assms, of "[]"]] by simp
  moreover have "json_value (2 * length (json_dumps j) + 1) (json_dumps j @ []) = Some (j, [])"
    using json_value_dumps [OF assms] unfolding reads_back_def by (meson le_add1 stops_marks(4))
  moreover have "\<not> prefix [CHR 0xEF, CHR 0xBB, CHR 0xBF] (json_dumps j)"
    using json_dumps_no_mark [OF assms] by (cases "json_dumps j") auto
  ultimately show ?thesis by (simp add: json_loads_def skip_ws_def)
qed

end
