(* ===== verification/Datetime.thy ===== *)
theory Datetime
  imports Entities
begin

text \<open>
  \<open>datetime.isoformat\<close> and the \<open>%Y%m%d\<close> of \<open>strftime\<close> for a time in UTC, a number of microseconds
  since 1970. The years are those of \<open>datetime\<close>, 1 to 9999.
\<close>

definition DAY_MICROS :: int where
  "DAY_MICROS = 86400000000"

text \<open>Year, month and day of a day number: March-based years within eras of 400 years.\<close>

definition civil_of_month :: "int \<Rightarrow> int \<Rightarrow> int \<Rightarrow> int \<times> int \<times> int" where
  "civil_of_month y doy mp =
     (if mp < 10 then y else y + 1, if mp < 10 then mp + 3 else mp - 9, doy - (153 * mp + 2) div 5 + 1)"

definition civil_of_year :: "int \<Rightarrow> int \<Rightarrow> int \<times> int \<times> int" where
  "civil_of_year y doy = civil_of_month y doy ((5 * doy + 2) div 153)"

definition year_of_era :: "int \<Rightarrow> int" where
  "year_of_era doe = (doe - doe div 1460 + doe div 36524 - doe div 146096) div 365"

definition year_start :: "int \<Rightarrow> int" where
  "year_start yoe = 365 * yoe + yoe div 4 - yoe div 100"

definition civil_of_era :: "int \<Rightarrow> int \<Rightarrow> int \<times> int \<times> int" where
  "civil_of_era era doe = civil_of_year (year_of_era doe + era * 400) (doe - year_start (year_of_era doe))"

definition civil :: "int \<Rightarrow> int \<times> int \<times> int" where
  "civil n = civil_of_era ((n + 719468) div 146097) ((n + 719468) mod 146097)"

definition zfill :: "nat \<Rightarrow> int \<Rightarrow> string" where
  "zfill w n = (let s = str_int n in replicate (w - length s) CHR ''0'' @ s)"

definition clock_text :: "int \<Rightarrow> int \<Rightarrow> string" where
  "clock_text s f =
     zfill 2 (s div 3600) @ '':'' @ zfill 2 (s div 60 mod 60) @ '':'' @ zfill 2 (s mod 60) @
     (if f = 0 then [] else ''.'' @ zfill 6 f)"

definition isoformat :: "time \<Rightarrow> string" where
  "isoformat t =
     (case civil (t div DAY_MICROS) of (y, m, d) \<Rightarrow>
        zfill 4 y @ ''-'' @ zfill 2 m @ ''-'' @ zfill 2 d @ ''T'' @
        clock_text (t mod DAY_MICROS div 1000000) (t mod 1000000) @ ''+00:00'')"

definition yyyymmdd :: "time \<Rightarrow> string" where
  "yyyymmdd t = (case civil (t div DAY_MICROS) of (y, m, d) \<Rightarrow> zfill 4 y @ zfill 2 m @ zfill 2 d)"

lemma civil_examples:
  "civil 0 = (1970, 1, 1)" "civil (- 1) = (1969, 12, 31)" "civil 11016 = (2000, 2, 29)" "civil 11017 = (2000, 3, 1)"
  "civil 19782 = (2024, 2, 29)" "civil 47540 = (2100, 2, 28)" "civil 47541 = (2100, 3, 1)"
  by (simp_all add: civil_def civil_of_era_def civil_of_year_def civil_of_month_def year_of_era_def year_start_def)

lemma isoformat_example: "isoformat 951825599000001 = ''2000-02-29T11:59:59.000001+00:00''"
  by (simp add: isoformat_def DAY_MICROS_def civil_examples clock_text_def) code_simp

lemma is_ascii_zfill [simp]: "is_ascii (zfill w n)"
  by (simp add: zfill_def Let_def is_ascii_def list_all_iff) (use is_ascii_str_int in \<open>auto simp: is_ascii_def list_all_iff byte_def\<close>)

lemma is_ascii_isoformat [simp]: "is_ascii (isoformat t)"
  by (simp add: isoformat_def clock_text_def byte_def split: prod.splits)

lemma utf8_valid_isoformat [simp]: "utf8_valid (isoformat t)"
  by (rule utf8_valid_ascii) simp

end
