(* ===== verification/Export.thy ===== *)
theory Export
  imports Json_Roundtrip Datetime Request_Repository
begin

text \<open>
  \<open>ExportRequests\<close> and its route: the JSON document of an endpoint with its requests, written in
  chunks while the rows come from the database and the offloaded bodies from the blob storage.
\<close>

section \<open>The use case\<close>

text \<open>
  \<open>get\<close> is \<open>BlobStorage.get\<close>. The text of an offloaded body is the one an inline body has.
\<close>

definition resolve_body :: "(string \<Rightarrow> string option res) \<Rightarrow> captured_request \<Rightarrow> string option res" where
  "resolve_body get r =
     (case rq_blob_key r of
        None \<Rightarrow> Inr (rq_body_preview r)
      | Some k \<Rightarrow> bindR (get k) (\<lambda>raw. Inr (case raw of None \<Rightarrow> None | Some b \<Rightarrow> Some (decode_body_safe b))))"

definition json_dict :: "dict \<Rightarrow> json" where
  "json_dict hs = JObj (map (\<lambda>(k, v). (k, JStr v)) hs)"

definition json_int :: "int \<Rightarrow> json" where
  "json_int i = JNum (str_int i)"

definition json_opt :: "string option \<Rightarrow> json" where
  "json_opt s = (case s of None \<Rightarrow> JNull | Some x \<Rightarrow> JStr x)"

definition request_to_dict :: "captured_request \<Rightarrow> string option \<Rightarrow> json" where
  "request_to_dict r body = JObj
     [(''id'', JStr (uuid_str (rq_id r))), (''method'', JStr (rq_method r)), (''path'', JStr (rq_path r)),
      (''headers'', json_dict (rq_headers r)), (''body'', json_opt body),
      (''body_size'', json_int (int (rq_body_size r))), (''received_at'', JStr (isoformat (rq_received_at r)))]"

definition export_header :: "endpoint \<Rightarrow> time \<Rightarrow> nat \<Rightarrow> (string \<times> json) list" where
  "export_header e now tally =
     [(''endpoint'', JObj
        [(''token'', JStr (ep_token e)), (''created_at'', JStr (isoformat (ep_created_at e))),
         (''expires_at'', JStr (isoformat (ep_expires_at e))),
         (''response'', JObj
            [(''status_code'', json_int (ep_response_status_code e)), (''body'', JStr (ep_response_body e)),
             (''headers'', json_dict (ep_response_headers e)), (''delay_ms'', json_int (ep_response_delay_ms e))])]),
      (''exported_at'', JStr (isoformat now)),
      (''exported_request_count'', json_int (int tally))]"

text \<open>The chunks of the rows, and the exception that cuts them off.\<close>

fun export_rows ::
  "(string \<Rightarrow> string option res) \<Rightarrow> bool \<Rightarrow> captured_request list \<Rightarrow> string list \<times> exn option" where
  "export_rows get first [] = (['']}''], None)"
| "export_rows get first (r # rs) =
     (let comma = (if first then [] else ['','']) in
      case resolve_body get r of
        Inl e \<Rightarrow> (comma, Some e)
      | Inr body \<Rightarrow>
          (case export_rows get False rs of
             (cs, err) \<Rightarrow> (comma @ json_dumps (request_to_dict r body) # cs, err)))"
text \<open>
  \<open>_stream\<close> drops the closing brace of the dumped header. The rows are those of the snapshot the
  streaming statement sees, which may be later than the one of the tally.
\<close>

definition export_stream ::
  "(string \<Rightarrow> string option res) \<Rightarrow> nat \<Rightarrow> time \<Rightarrow> endpoint \<Rightarrow> nat \<Rightarrow> db \<Rightarrow> string list \<times> exn option" where
  "export_stream get max_requests now e tally d =
     (let header_dumped = json_dumps (JObj (export_header e now tally));
          first_chunk = butlast header_dumped @ '','' @ [CHR 0x22] @ ''requests'' @ [CHR 0x22] @ '':['' in
      case export_rows get True (stream_for_export (ep_id e) max_requests d) of
        (cs, err) \<Rightarrow> (first_chunk # cs, err))"

definition export_requests ::
  "(string \<Rightarrow> string option res) \<Rightarrow> nat \<Rightarrow> time \<Rightarrow> string \<Rightarrow> db \<Rightarrow> db \<Rightarrow> string list \<times> exn option" where
  "export_requests get max_requests now token d d' =
     (case find_by_token token d of
        None \<Rightarrow> ([], Some EndpointNotFoundError)
      | Some e \<Rightarrow>
          (let tally = count_by_endpoint (ep_id e) d in
           if max_requests < tally then ([], Some ExportTooLargeError)
           else export_stream get max_requests now e tally d'))"

section \<open>The route\<close>

text \<open>
  The first chunk is asked for before the response opens, so its exceptions become status codes; one
  raised later cuts the body off.
\<close>

record streaming_response =
  sr_headers :: dict
  sr_media_type :: string
  sr_chunks :: "string list"
  sr_cut_by :: "exn option"

definition export_filename :: "string \<Rightarrow> time \<Rightarrow> string" where
  "export_filename token now = ''webhook-inspector-'' @ token @ ''-'' @ yyyymmdd now @ ''.json''"

definition export_endpoint ::
  "(string \<Rightarrow> string option res) \<Rightarrow> nat \<Rightarrow> time \<Rightarrow> string \<Rightarrow> db \<Rightarrow> db \<Rightarrow> streaming_response res" where
  "export_endpoint get max_requests now token d d' =
     (case export_requests get max_requests now token d d' of
        ([], Some EndpointNotFoundError) \<Rightarrow> Inl (HTTPException 404)
      | ([], Some ExportTooLargeError) \<Rightarrow> Inl (HTTPException 413)
      | ([], Some e) \<Rightarrow> Inl e
      | ([], None) \<Rightarrow> Inl RuntimeError
      | (first # cs, err) \<Rightarrow> Inr
          \<lparr>sr_headers = [(''Content-Disposition'',
              ''attachment; filename='' @ [CHR 0x22] @ export_filename token now @ [CHR 0x22])],
           sr_media_type = ''application/json'', sr_chunks = first # cs, sr_cut_by = err\<rparr>)"

section \<open>What the columns hold\<close>

text \<open>
  The text columns hold valid UTF-8, a JSONB object has distinct keys, and the integer columns have 32
  bits.
\<close>

definition small_int :: "int \<Rightarrow> bool" where
  "small_int i \<longleftrightarrow> - (2 ^ 31) \<le> i \<and> i < 2 ^ 31"

definition dict_ok :: "dict \<Rightarrow> bool" where
  "dict_ok hs \<longleftrightarrow> distinct (map fst hs) \<and> (\<forall>(k, v) \<in> set hs. utf8_valid k \<and> utf8_valid v)"

definition endpoint_columns_ok :: "endpoint \<Rightarrow> bool" where
  "endpoint_columns_ok e \<longleftrightarrow> utf8_valid (ep_token e) \<and> utf8_valid (ep_response_body e) \<and>
     dict_ok (ep_response_headers e) \<and> small_int (ep_response_status_code e) \<and> small_int (ep_response_delay_ms e)"

definition request_columns_ok :: "captured_request \<Rightarrow> bool" where
  "request_columns_ok r \<longleftrightarrow> utf8_valid (rq_method r) \<and> utf8_valid (rq_path r) \<and> dict_ok (rq_headers r) \<and>
     (case rq_body_preview r of None \<Rightarrow> True | Some b \<Rightarrow> utf8_valid b) \<and> small_int (int (rq_body_size r))"

lemma length_str_nat_le: "n < 10 ^ Suc k \<Longrightarrow> length (str_nat n) \<le> Suc k"
proof (induction k arbitrary: n)
  case 0
  then show ?case by (subst str_nat.simps) simp
next
  case (Suc k)
  have "n div 10 < 10 ^ Suc k" using Suc.prems by (simp add: div_less_iff_less_mult mult.commute)
  then show ?case using Suc.IH [of "n div 10"] by (subst str_nat.simps) simp
qed

lemma json_ok_int [simp]: "small_int i \<Longrightarrow> json_ok (json_int i)"
proof -
  assume "small_int i"
  then have "nat i < 10 ^ Suc 9" "nat (- i) < 10 ^ Suc 9" by (auto simp: small_int_def)
  from this [THEN length_str_nat_le] have "length (str_int i) \<le> 4300" by (simp add: str_int_def)
  then show ?thesis by (auto simp: json_int_def)
qed

lemma json_ok_dict [simp]: "dict_ok hs \<Longrightarrow> json_ok (json_dict hs)"
  by (auto simp: dict_ok_def json_dict_def case_prod_beta comp_def)

lemma json_ok_opt: "json_ok (json_opt s) \<longleftrightarrow> (case s of None \<Rightarrow> True | Some x \<Rightarrow> utf8_valid x)"
  by (simp add: json_opt_def split: option.splits)

lemma resolved_body_valid:
  "request_columns_ok r \<Longrightarrow> resolve_body get r = Inr body \<Longrightarrow> json_ok (json_opt body)"
  by (auto simp: resolve_body_def request_columns_ok_def bindR_Inr_iff json_ok_opt utf8_valid_decode_body_safe
      split: option.splits sum.splits)

lemma ascii_keys: "is_ascii s \<Longrightarrow> utf8_valid s"
  by (rule utf8_valid_ascii)

lemma request_dict_ok:
  assumes "request_columns_ok r" and "resolve_body get r = Inr body"
  shows "json_ok (request_to_dict r body)"
  using assms resolved_body_valid [OF assms]
  by (simp add: request_to_dict_def request_columns_ok_def ascii_keys byte_def)

lemma export_header_ok:
  assumes "endpoint_columns_ok e" and "small_int (int tally)"
  shows "json_ok (JObj (export_header e now tally))"
  using assms by (simp add: export_header_def endpoint_columns_ok_def ascii_keys byte_def)
section \<open>What the chunks add up to\<close>


lemma joined_Nil [simp]: "joined sep [] = []"
  by (simp add: joined_def)


lemma export_rows_cut:
  assumes "export_rows get first rs = (cs, Some err)" and "\<forall>r \<in> set rs. request_columns_ok r"
  shows "\<exists>vs. (\<forall>v \<in> set vs. json_ok v) \<and>
    concat cs = (if first then [] else '','') @ joined '','' vs @ (if vs = [] then [] else '','')"
  using assms
proof (induction rs arbitrary: first cs)
  case (Cons r rs)
  show ?case
  proof (cases "resolve_body get r")
    case (Inl e)
    then have "concat cs = (if first then [] else '','')" using Cons.prems(1) by (auto split: if_splits)
    then show ?thesis by (intro exI [of _ "[]"]) simp
  next
    case (Inr body)
    obtain cs' where cs': "export_rows get False rs = (cs', Some err)"
      "cs = (if first then [] else ['','']) @ json_dumps (request_to_dict r body) # cs'"
      using Cons.prems(1) Inr by (auto simp: Let_def split: prod.splits)
    obtain vs where vs: "\<forall>v \<in> set vs. json_ok v" "concat cs' = '','' @ joined '','' vs @ (if vs = [] then [] else '','')"
      using Cons.IH [OF cs'(1)] Cons.prems(2) by auto
    let ?v = "request_to_dict r body"
    have "json_ok ?v" using request_dict_ok [OF _ Inr] Cons.prems(2) by simp
    moreover have "concat cs = (if first then [] else '','') @ joined '','' (?v # vs) @ '',''"
      unfolding cs'(2) by (cases "vs = []") (simp_all add: vs(2) joined_simps)
    ultimately show ?thesis using vs(1) by (intro exI [of _ "?v # vs"]) simp
  qed
qed simp

section \<open>Reading the document\<close>

lemma butlast_dumps_object: "butlast (json_dumps (JObj ms)) = CHR ''{'' # members_text ms"
  by (simp add: members_text_def butlast_append)

definition requests_key :: string where
  "requests_key = [CHR 0x22] @ ''requests'' @ [CHR 0x22] @ '':[''"

lemma json_members_requests:
  "json_members (Suc n) (requests_key @ u) =
    (case json_value n (CHR ''['' # u) of
       None \<Rightarrow> None
     | Some (v, r2) \<Rightarrow>
         (case skip_ws r2 of
            [] \<Rightarrow> None
          | c # r3 \<Rightarrow>
              (if c = CHR ''}'' then Some ([(''requests'', v)], r3)
               else if c = CHR '','' then map_option (\<lambda>(ms, r''). ((''requests'', v) # ms, r'')) (json_members n (skip_ws r3))
               else None)))"
proof -
  have key: "json_quote ''requests'' = [CHR 0x22] @ ''requests'' @ [CHR 0x22]" by code_simp
  have "utf8_valid ''requests''" by code_simp
  from json_string_quote(1) [OF this, of "'':['' @ u"]
  have "json_string (''requests'' @ CHR 0x22 # '':['' @ u) = Some (''requests'', '':['' @ u)" by (simp add: key)
  moreover have "skip_ws ('':['' @ u) = '':['' @ u" "skip_ws (''['' @ u) = ''['' @ u" by (simp_all add: skip_ws_def mark_spaces)
  ultimately show ?thesis by (simp add: requests_key_def del: json_value.simps json_string.simps)
qed

text \<open>A header, then what stands in the array.\<close>

lemma json_loads_stream:
  assumes "json_ok (JObj ms)" and "ms \<noteq> []"
    and k: "k = 2 * length (CHR ''{'' # members_text ms @ CHR '','' # requests_key @ u) - length ms"
  shows "json_loads (CHR ''{'' # members_text ms @ CHR '','' # requests_key @ u) =
    (case json_members k (requests_key @ u) of
       None \<Rightarrow> None
     | Some (l, r) \<Rightarrow> if skip_ws r = [] then Some (JObj (fold (\<lambda>(k, v). AList.update k v) (ms @ l) [])) else None)"
proof -
  let ?doc = "CHR ''{'' # members_text ms @ CHR '','' # requests_key @ u"
  have ok: "\<forall>(k, v) \<in> set ms. utf8_valid k \<and> json_ok v \<and> reads_back v"
    using assms(1) json_value_dumps by fastforce
  obtain m us where m: "ms = m # us" using assms(2) by (cases ms) auto
  obtain t where t: "members_text ms = CHR 0x22 # t"
    using m by (cases m; cases "us = []") (auto simp: members_text_def sep_concat_Cons json_quote_def)
  have "json_members (2 * length ?doc) (members_text ms @ CHR '','' # requests_key @ u) =
      map_option (\<lambda>(l, r). (ms @ l, r)) (json_members k (skip_ws (requests_key @ u)))"
    unfolding k by (rule members_then_more [OF ok assms(2)]) simp
  moreover have "skip_ws (requests_key @ u) = requests_key @ u" by (simp add: requests_key_def)
  moreover have "skip_ws ?doc = ?doc" by (simp add: skip_ws_def mark_spaces)
  ultimately show ?thesis
    by (simp add: json_loads_def t Let_def option.map_comp comp_def split: option.splits)
qed

lemma requests_cut:
  assumes "\<forall>v \<in> set vs. json_ok v" and "2 * length (joined '','' vs) + 4 \<le> k"
  shows "json_members k (requests_key @ joined '','' vs @ (if vs = [] then [] else '','')) = None"
proof -
  obtain n where n: "k = Suc (Suc n)" using assms(2) by (cases k; cases "k - 1") auto
  have "json_value (Suc n) (CHR ''['' # joined '','' vs @ (if vs = [] then [] else '','')) = None"
  proof (cases "vs = []")
    case False
    have "json_elements n (joined '','' vs @ '','') = None"
      using assms False n json_value_dumps by (intro elements_open) (auto simp: comma_sep_def)
    then show ?thesis
      using json_value_array [OF joined_head [OF False assms(1), of "'',''" "'',''"], of n] False
      by (simp del: json_value.simps json_elements.simps)
  qed (simp add: skip_ws_def)
  then show ?thesis unfolding n json_members_requests append_Cons append_Nil
    by (simp del: json_value.simps json_members.simps)
qed

lemma export_first_chunk:
  "butlast (json_dumps (JObj ms)) @ '','' @ [CHR 0x22] @ ''requests'' @ [CHR 0x22] @ '':['' =
    CHR ''{'' # members_text ms @ CHR '','' # requests_key"
  unfolding butlast_dumps_object by (simp add: requests_key_def)

lemma members_text_length: "length ms \<le> length (members_text ms)"
proof (induction ms)
  case (Cons m ms)
  then show ?case by (cases m; cases "ms = []") (auto simp: members_text_def sep_concat_Cons json_quote_def)
qed simp
section \<open>A complete export and one cut off\<close>

lemma export_requests_stream:
  assumes "find_by_token token d = Some e" and "count_by_endpoint (ep_id e) d \<le> max_requests"
  shows "export_requests get max_requests now token d d' =
    (case export_rows get True (stream_for_export (ep_id e) max_requests d') of
       (cs, err) \<Rightarrow>
         ((CHR ''{'' # members_text (export_header e now (count_by_endpoint (ep_id e) d)) @ CHR '','' # requests_key) # cs, err))"
  using assms unfolding export_requests_def export_stream_def Let_def export_first_chunk
  by simp

lemma export_fuel:
  "2 * length (joined '','' vs) + 4 \<le>
    2 * length (CHR ''{'' # members_text ms @ CHR '','' # requests_key @ lead @ joined '','' vs @ rest) - length ms"
  using members_text_length [of ms] by (simp add: requests_key_def)



lemma json_loads_cut:
  assumes "json_ok (JObj ms)" and "ms \<noteq> []" and "\<forall>v \<in> set vs. json_ok v"
  shows "json_loads (CHR ''{'' # members_text ms @ CHR '','' # requests_key @ joined '','' vs @
    (if vs = [] then [] else '','')) = None"
  unfolding json_loads_stream [OF assms(1,2) refl]
    requests_cut [OF assms(3) export_fuel [of vs ms "[]" "if vs = [] then [] else '',''", unfolded append_Nil]]
  by simp

lemma export_header_keys: "''requests'' \<notin> fst ` set (export_header e now n)" "export_header e now n \<noteq> []"
  by (simp_all add: export_header_def)


text \<open>
  A client can tell an export that was cut off: when the blob storage raises in the middle of the
  stream, the chunks sent until then, whatever their number, are no JSON document.
\<close>

lemma cut_export_is_no_json:
  assumes "find_by_token token d = Some e" and "count_by_endpoint (ep_id e) d \<le> max_requests"
    and "max_requests < 2 ^ 31" and "endpoint_columns_ok e"
    and "\<forall>r \<in> set (stream_for_export (ep_id e) max_requests d'). request_columns_ok r"
    and "export_requests get max_requests now token d d' = (cs, Some err)"
  shows "cs \<noteq> [] \<and> json_loads (concat cs) = None"
proof -
  let ?n = "count_by_endpoint (ep_id e) d"
  let ?ms = "export_header e now ?n"
  let ?rows = "stream_for_export (ep_id e) max_requests d'"
  obtain cs' err' where rows: "export_rows get True ?rows = (cs', err')" by fastforce
  have run: "cs = (CHR ''{'' # members_text ?ms @ CHR '','' # requests_key) # cs'" "err' = Some err"
    using assms(6) rows unfolding export_requests_stream [OF assms(1,2)] by simp_all
  obtain vs where vs: "\<forall>v \<in> set vs. json_ok v" "concat cs' = joined '','' vs @ (if vs = [] then [] else '','')"
    using export_rows_cut [OF rows [unfolded run(2)] assms(5)] by auto
  have "small_int (int ?n)" using assms(2,3) by (simp add: small_int_def)
  then have "json_ok (JObj ?ms)" by (rule export_header_ok [OF assms(4)])
  from json_loads_cut [OF this export_header_keys(2) vs(1)] show ?thesis
    using run(1) vs(2) by simp
qed

text \<open>The route answers before the first byte exactly for an unknown token or too many requests.\<close>

lemma export_endpoint_status:
  "export_endpoint get max_requests now token d d' =
     (case find_by_token token d of
        None \<Rightarrow> Inl (HTTPException 404)
      | Some e \<Rightarrow>
          if max_requests < count_by_endpoint (ep_id e) d then Inl (HTTPException 413)
          else (case export_requests get max_requests now token d d' of
            (cs, err) \<Rightarrow> Inr
              \<lparr>sr_headers = [(''Content-Disposition'',
                  ''attachment; filename='' @ [CHR 0x22] @ export_filename token now @ [CHR 0x22])],
               sr_media_type = ''application/json'', sr_chunks = cs, sr_cut_by = err\<rparr>))"
  using export_requests_stream [of token d _ max_requests get now d']
  by (auto simp: export_endpoint_def export_requests_def export_stream_def Let_def split: option.splits prod.splits)

section \<open>A concrete export\<close>

definition demo_captured :: captured_request where
  "demo_captured = \<lparr>rq_id = 7, rq_endpoint_id = 1, rq_method = ''POST'', rq_path = ''/h/tok'', rq_query_string = None,
     rq_headers = [(''content-type'', ''text/plain'')], rq_body_preview = None, rq_body_size = 4, rq_blob_key = Some ''1/7'',
     rq_source_ip = ''10.0.0.1'', rq_received_at = 0, rq_signature_status = None, rq_detected_integration = None,
     rq_detected_event_type = None\<rparr>"

definition demo_export_db :: db where
  "demo_export_db = demo_db\<lparr>db_requests := [demo_captured]\<rparr>"

lemma demo_export:
  "find_by_token ''tok'' demo_export_db = Some demo_endpoint" "count_by_endpoint (ep_id demo_endpoint) demo_export_db = 1"
  "stream_for_export (ep_id demo_endpoint) 10 demo_export_db = [demo_captured]"
  "endpoint_columns_ok demo_endpoint" "request_columns_ok demo_captured"
proof -
  show "find_by_token ''tok'' demo_export_db = Some demo_endpoint"
    by (simp add: find_by_token_def demo_export_db_def demo_db_def demo_endpoint_def lookup_row_def endpoint_to_entity_def)
  show "count_by_endpoint (ep_id demo_endpoint) demo_export_db = 1"
    by (simp add: count_by_endpoint_def demo_export_db_def demo_db_def demo_endpoint_def demo_captured_def)
  show "stream_for_export (ep_id demo_endpoint) 10 demo_export_db = [demo_captured]"
    by (simp add: stream_for_export_def demo_export_db_def demo_endpoint_def demo_captured_def newest_first_def)
  show "endpoint_columns_ok demo_endpoint"
    by (simp add: endpoint_columns_ok_def demo_endpoint_def dict_ok_def small_int_def ascii_keys byte_def)
  show "request_columns_ok demo_captured"
    by (simp add: request_columns_ok_def demo_captured_def dict_ok_def small_int_def ascii_keys byte_def)
qed


lemma cut_export_is_no_json_witness:
  "\<exists>cs. export_requests (\<lambda>k. Inl OSError) 10 0 ''tok'' demo_export_db demo_export_db = (cs, Some OSError) \<and>
     json_loads (concat cs) = None"
proof -
  obtain cs err where run: "export_requests (\<lambda>k. Inl OSError) 10 0 ''tok'' demo_export_db demo_export_db = (cs, err)"
    by fastforce
  have "err = Some OSError"
    using run export_requests_stream [OF demo_export(1), of 10 "\<lambda>k. Inl OSError" 0 demo_export_db]
    unfolding demo_export by (simp add: resolve_body_def demo_captured_def)
  with run show ?thesis
    using cut_export_is_no_json [OF demo_export(1) _ _ demo_export(4), of 10 demo_export_db "\<lambda>k. Inl OSError" 0 cs OSError]
    by (simp add: demo_export)
qed

end
