(* ===== verification/Live_Stream.thy ===== *)
theory Live_Stream
  imports Json_Roundtrip Datetime Request_Repository
begin

text \<open>
  The live view: \<open>PostgresNotifier\<close> hands the notifications of committed captures to the queues of the
  subscribed streams, and \<open>stream_for_token\<close> (\<open>web/app/sse.py\<close>) turns them into server-sent events. The
  template is a parameter of the stream.
\<close>

section \<open>The notifier\<close>

text \<open>
  A queue is known by a number, the identity of the object. The reader task is absent, running, or done.
  The queues of one endpoint are a set in the code; the order of the list below has no effect.
\<close>

datatype reader_task = Reader_none | Reader_running | Reader_done

type_synonym queue = "nat \<times> uuid list"

record notifier =
  nt_listen_conn :: bool
  nt_reader_task :: reader_task
  nt_queues :: "(uuid \<times> queue list) list"

definition notifier_init :: notifier where
  "notifier_init = \<lparr>nt_listen_conn = False, nt_reader_task = Reader_none, nt_queues = []\<rparr>"

definition queues_of :: "uuid \<Rightarrow> notifier \<Rightarrow> queue list" where
  "queues_of i n = (case map_of (nt_queues n) i of None \<Rightarrow> [] | Some qs \<Rightarrow> qs)"

definition set_queues :: "uuid \<Rightarrow> queue list \<Rightarrow> notifier \<Rightarrow> notifier" where
  "set_queues i qs n = n\<lparr>nt_queues := (if qs = [] then AList.delete i (nt_queues n) else AList.update i qs (nt_queues n))\<rparr>"

definition listening :: "notifier \<Rightarrow> bool" where
  "listening n \<longleftrightarrow> nt_listen_conn n \<and> nt_reader_task n = Reader_running"

text \<open>\<open>fault\<close> is what connecting raises. A stale connection is closed first and forgotten only by a new one.\<close>

definition notifier_start :: "exn option \<Rightarrow> notifier \<Rightarrow> unit res \<times> notifier" where
  "notifier_start fault n =
     (if listening n then (Inr (), n)
      else case fault of
        Some e \<Rightarrow> (Inl e, n)
      | None \<Rightarrow> (Inr (), n\<lparr>nt_listen_conn := True, nt_reader_task := Reader_running\<rparr>))"

definition notifier_stop :: "notifier \<Rightarrow> notifier" where
  "notifier_stop n = n\<lparr>nt_listen_conn := False, nt_reader_task := Reader_none\<rparr>"

text \<open>\<open>_subscribe_gen\<close> up to its first wait, and its \<open>finally\<close>.\<close>

definition subscribe_gen :: "exn option \<Rightarrow> uuid \<Rightarrow> nat \<Rightarrow> notifier \<Rightarrow> unit res \<times> notifier" where
  "subscribe_gen fault i q n =
     (case (if listening n then (Inr (), n) else notifier_start fault n) of
        (Inl e, n') \<Rightarrow> (Inl e, n')
      | (Inr u, n') \<Rightarrow> (Inr (), set_queues i (queues_of i n' @ [(q, [])]) n'))"

definition unsubscribe :: "uuid \<Rightarrow> nat \<Rightarrow> notifier \<Rightarrow> notifier" where
  "unsubscribe i q n = set_queues i (filter (\<lambda>(p, ids). p \<noteq> q) (queues_of i n)) n"

text \<open>One turn of \<open>_read_loop\<close>: a payload that does not parse is skipped.\<close>

definition parse_payload :: "string \<Rightarrow> (uuid \<times> uuid) res" where
  "parse_payload payload =
     (if CHR '':'' \<notin> set payload then Inl ValueError
      else bindR (uuid_parse (str_before (CHR '':'') payload)) (\<lambda>endpoint_id.
           bindR (uuid_parse (str_after (CHR '':'') payload)) (\<lambda>request_id. Inr (endpoint_id, request_id))))"

definition read_notify :: "string \<Rightarrow> notifier \<Rightarrow> notifier" where
  "read_notify payload n =
     (case parse_payload payload of
        Inl e \<Rightarrow> n
      | Inr (endpoint_id, request_id) \<Rightarrow>
          set_queues endpoint_id (map (\<lambda>(q, ids). (q, ids @ [request_id])) (queues_of endpoint_id n)) n)"

text \<open>The reader when the connection breaks: the queues stay as they are.\<close>

definition reader_crashed :: "notifier \<Rightarrow> notifier" where
  "reader_crashed n = n\<lparr>nt_listen_conn := False, nt_reader_task := Reader_none\<rparr>"

text \<open>A stream takes the next identifier from its queue; it waits while there is none.\<close>

fun take_from :: "nat \<Rightarrow> queue list \<Rightarrow> uuid list \<times> queue list" where
  "take_from q [] = ([], [])"
| "take_from q ((p, ids) # qs) =
     (if p = q then (take 1 ids, (p, drop 1 ids) # qs)
      else case take_from q qs of (got, qs') \<Rightarrow> (got, (p, ids) # qs'))"

definition take_next :: "uuid \<Rightarrow> nat \<Rightarrow> notifier \<Rightarrow> uuid list \<times> notifier" where
  "take_next i q n = (case take_from q (queues_of i n) of (got, qs) \<Rightarrow> (got, set_queues i qs n))"

section \<open>Runs of the notifier\<close>

datatype notifier_event =
    Notified string
  | Subscribed uuid nat "exn option"
  | Taken uuid nat
  | Closed uuid nat
  | Crashed
  | Ended
  | Stopped

text \<open>A notification that comes while nobody listens is lost; the log holds what each queue handed out.\<close>

fun notifier_step :: "notifier_event \<Rightarrow> notifier \<Rightarrow> (uuid \<times> nat \<times> uuid) list \<times> notifier" where
  "notifier_step (Notified payload) n = ([], if listening n then read_notify payload n else n)"
| "notifier_step (Subscribed i q fault) n = ([], snd (subscribe_gen fault i q n))"
| "notifier_step (Taken i q) n = (case take_next i q n of (got, n') \<Rightarrow> (map (\<lambda>r. (i, q, r)) got, n'))"
| "notifier_step (Closed i q) n = ([], unsubscribe i q n)"
| "notifier_step Crashed n = ([], reader_crashed n)"
| "notifier_step Ended n = ([], n\<lparr>nt_reader_task := Reader_done\<rparr>)"
| "notifier_step Stopped n = ([], notifier_stop n)"

fun notifier_run :: "notifier_event list \<Rightarrow> notifier \<Rightarrow> (uuid \<times> nat \<times> uuid) list \<times> notifier" where
  "notifier_run [] n = ([], n)"
| "notifier_run (e # es) n =
     (case notifier_step e n of (l, n1) \<Rightarrow> (case notifier_run es n1 of (l', n2) \<Rightarrow> (l @ l', n2)))"

section \<open>The broadcast it implements\<close>

text \<open>
  What a listener of an endpoint hears of the events to come, when \<open>alive\<close> says whether the reader runs:
  the requests of the endpoint, in the order of the notifications, as long as the reader runs.
\<close>

fun alive_after :: "notifier_event \<Rightarrow> bool \<Rightarrow> bool" where
  "alive_after (Subscribed i q fault) alive = (alive \<or> fault = None)"
| "alive_after Crashed alive = False"
| "alive_after Ended alive = False"
| "alive_after Stopped alive = False"
| "alive_after _ alive = alive"

fun hears :: "uuid \<Rightarrow> notifier_event \<Rightarrow> bool \<Rightarrow> uuid list" where
  "hears i (Notified payload) alive =
     (case parse_payload payload of Inl e \<Rightarrow> [] | Inr (j, r) \<Rightarrow> if alive \<and> j = i then [r] else [])"
| "hears i _ alive = []"

fun heard :: "uuid \<Rightarrow> notifier_event list \<Rightarrow> bool \<Rightarrow> uuid list" where
  "heard i [] alive = []"
| "heard i (e # es) alive = hears i e alive @ heard i es (alive_after e alive)"

text \<open>What the stream of one queue was handed out, and what waits in the queue.\<close>

definition handed_out :: "uuid \<Rightarrow> nat \<Rightarrow> (uuid \<times> nat \<times> uuid) list \<Rightarrow> uuid list" where
  "handed_out i q log = map (\<lambda>(j, p, r). r) (filter (\<lambda>(j, p, r). j = i \<and> p = q) log)"

definition pending :: "uuid \<Rightarrow> nat \<Rightarrow> notifier \<Rightarrow> uuid list option" where
  "pending i q n = map_of (queues_of i n) q"

lemma queues_of_set [simp]: "queues_of j (set_queues i qs n) = (if j = i then qs else queues_of j n)"
  by (auto simp: queues_of_def set_queues_def update_conv' delete_conv')

lemma listening_set [simp]: "listening (set_queues i qs n) = listening n"
  by (simp add: listening_def set_queues_def)

lemma listening_update [simp]:
  "queues_of i (n\<lparr>nt_listen_conn := a, nt_reader_task := r\<rparr>) = queues_of i n"
  "listening (n\<lparr>nt_listen_conn := a, nt_reader_task := r\<rparr>) \<longleftrightarrow> a \<and> r = Reader_running"
  by (simp_all add: listening_def queues_of_def)

lemma map_of_take_from:
  "map_of (snd (take_from q qs)) p =
     (case map_of qs p of None \<Rightarrow> None | Some ids \<Rightarrow> Some (if p = q then drop 1 ids else ids))"
  "fst (take_from q qs) = (case map_of qs q of None \<Rightarrow> [] | Some ids \<Rightarrow> take 1 ids)"
  by (induction q qs rule: take_from.induct) (auto split: prod.splits option.splits)

lemma map_of_filter_other: "p \<noteq> q \<Longrightarrow> map_of (filter (\<lambda>(p, ids). p \<noteq> q) qs) p = map_of qs p"
  by (induction qs) auto

lemma map_of_push: "map_of (map (\<lambda>(q, ids). (q, ids @ [r])) qs) q = map_option (\<lambda>ids. ids @ [r]) (map_of qs q)"
  by (induction qs) auto

lemma handed_out_simps [simp]:
  "handed_out i q [] = []" "handed_out i q (l @ l') = handed_out i q l @ handed_out i q l'"
  by (simp_all add: handed_out_def)

lemma notifier_step_refines:
  assumes "pending i q n = Some ids" and "e \<noteq> Closed i q" and "notifier_step e n = (l, n')"
  shows "\<exists>ids'. pending i q n' = Some ids' \<and> handed_out i q l @ ids' = ids @ hears i e (listening n) \<and>
    listening n' = alive_after e (listening n)"
proof (cases e)
  case (Notified payload)
  show ?thesis
  proof (cases "parse_payload payload")
    case (Inr jr)
    then show ?thesis using assms Notified
      by (cases jr; cases "listening n") (auto simp: read_notify_def pending_def map_of_push)
  qed (use assms Notified in \<open>cases "listening n"; auto simp: read_notify_def\<close>)
next
  case (Subscribed j p fault)
  then show ?thesis using assms
    by (cases "listening n"; cases fault) (auto simp: subscribe_gen_def notifier_start_def pending_def map_add_Some_iff)
next
  case (Taken j p)
  then show ?thesis using assms
    using map_of_take_from [of p "queues_of j n"] append_take_drop_id [of 1 ids]
    by (cases "take_from p (queues_of j n)"; cases "p = q")
       (auto simp: take_next_def pending_def handed_out_def filter_map comp_def)
next
  case (Closed j p)
  then show ?thesis using assms by (auto simp: unsubscribe_def pending_def map_of_filter_other)
qed (use assms in \<open>auto simp: reader_crashed_def notifier_stop_def pending_def queues_of_def listening_def\<close>)

lemma notifier_run_refines:
  assumes "pending i q n = Some ids" and "Closed i q \<notin> set es" and "notifier_run es n = (log, n')"
  shows "\<exists>ids'. pending i q n' = Some ids' \<and> handed_out i q log @ ids' = ids @ heard i es (listening n)"
  using assms
proof (induction es arbitrary: n ids log)
  case (Cons e es)
  obtain l n1 l' where s: "notifier_step e n = (l, n1)" "notifier_run es n1 = (l', n')" "log = l @ l'"
    using Cons.prems(3) by (auto split: prod.splits)
  obtain ids1 where 1: "pending i q n1 = Some ids1" "handed_out i q l @ ids1 = ids @ hears i e (listening n)"
    "listening n1 = alive_after e (listening n)"
    using notifier_step_refines [OF Cons.prems(1) _ s(1)] Cons.prems(2) by auto
  obtain ids2 where 2: "pending i q n' = Some ids2" "handed_out i q l' @ ids2 = ids1 @ heard i es (listening n1)"
    using Cons.IH [OF 1(1) _ s(2)] Cons.prems(2) by auto
  have "handed_out i q log @ ids2 = handed_out i q l @ (handed_out i q l' @ ids2)" by (simp add: s(3))
  also have "\<dots> = ids @ heard i (e # es) (listening n)" using 1(2,3) 2(2) by simp
  finally show ?case using 2(1) by blast
qed simp

text \<open>What a capture notifies is read back as its endpoint and its identifier.\<close>

lemma parse_notify_payload: "parse_payload (notify_payload r) = Inr (rq_endpoint_id r, rq_id r)"
proof -
  have "CHR '':'' \<notin> set (uuid_str (rq_endpoint_id r))"
    using uuid_str_char_bounds [of "CHR '':''" "rq_endpoint_id r"] by (auto simp: byte_def)
  then show ?thesis by (simp add: parse_payload_def notify_payload_def uuid_parse_str)
qed

lemma heard_captures:
  "heard i (map (\<lambda>r. Notified (notify_payload r)) rs) True = map rq_id (filter (\<lambda>r. rq_endpoint_id r = i) rs)"
  by (induction rs) (simp_all add: parse_notify_payload)

section \<open>Server-sent events\<close>

text \<open>\<open>str.splitlines\<close> on UTF-8: the length of the line boundary at the head of a text, or 0.\<close>

definition line_break :: "string \<Rightarrow> nat" where
  "line_break s =
     (if take 2 (map byte s) = [0x0D, 0x0A] then 2
      else if \<exists>b \<in> {0x0A, 0x0B, 0x0C, 0x0D, 0x1C, 0x1D, 0x1E}. take 1 (map byte s) = [b] then 1
      else if take 2 (map byte s) = [0xC2, 0x85] then 2
      else if take 3 (map byte s) \<in> {[0xE2, 0x80, 0xA8], [0xE2, 0x80, 0xA9]} then 3
      else 0)"

function splitlines_from :: "string \<Rightarrow> string \<Rightarrow> string list" where
  "splitlines_from cur [] = (if cur = [] then [] else [cur])"
| "splitlines_from cur (c # s) =
     (let k = line_break (c # s) in
      if k = 0 then splitlines_from (cur @ [c]) s else cur # splitlines_from [] (drop k (c # s)))"
  by pat_completeness auto
termination by (relation "measure (\<lambda>(cur, s). length s)") auto

definition splitlines :: "string \<Rightarrow> string list" where
  "splitlines s = splitlines_from [] s"

definition LF :: string where
  "LF = [CHR 0x0A]"

definition sse_chunk :: "string \<Rightarrow> string" where
  "sse_chunk html =
     (let encoded = sep_concat LF (map (\<lambda>line. ''data: '' @ line) (splitlines html))
      in ''event: message'' @ LF @ encoded @ LF @ LF)"

text \<open>
  \<open>render\<close> is the template on a request and the hook URL. The identifiers come with the database at
  the time each is looked up; a request that is gone is skipped.
\<close>

fun sse_messages ::
  "(captured_request \<Rightarrow> string \<Rightarrow> string) \<Rightarrow> string \<Rightarrow> (uuid \<times> db) list \<Rightarrow> string list" where
  "sse_messages render hook_url [] = []"
| "sse_messages render hook_url ((i, d) # ids) =
     (case request_find_by_id i d of
        None \<Rightarrow> sse_messages render hook_url ids
      | Some r \<Rightarrow> sse_chunk (render r hook_url) # sse_messages render hook_url ids)"

definition stream_for_token ::
  "(captured_request \<Rightarrow> string \<Rightarrow> string) \<Rightarrow> string \<Rightarrow> string \<Rightarrow> db \<Rightarrow> (uuid \<times> db) list \<Rightarrow> string list res" where
  "stream_for_token render hook_url token d ids =
     (case find_by_token token d of
        None \<Rightarrow> Inl EndpointNotFoundError
      | Some e \<Rightarrow> Inr ((CHR '':'' # '' connected'' @ LF @ LF) # sse_messages render hook_url ids))"

section \<open>An EventSource\<close>

text \<open>
  How a browser reads the stream (the HTML standard): lines end with LF, CR or both; a field is added to
  the event under construction, and an empty line dispatches it when it has data. What is not yet
  terminated waits.
\<close>

fun es_lines :: "string \<Rightarrow> string \<Rightarrow> string list" where
  "es_lines cur [] = []"
| "es_lines cur (c # s) =
     (if c = CHR 0x0A then cur # es_lines [] s
      else if c = CHR 0x0D then
        cur # (case s of [] \<Rightarrow> [] | d # s' \<Rightarrow> if d = CHR 0x0A then es_lines [] s' else es_lines [] s)
      else es_lines (cur @ [c]) s)"

record es_event =
  es_type :: string
  es_data :: "string list"

definition es_blank :: es_event where
  "es_blank = \<lparr>es_type = [], es_data = []\<rparr>"

definition es_field :: "string \<Rightarrow> string \<times> string" where
  "es_field line =
     (let name = str_before (CHR '':'') line; v = str_after (CHR '':'') line
      in (name, if take 1 v = '' '' then drop 1 v else v))"

definition es_take :: "string \<Rightarrow> es_event \<Rightarrow> es_event" where
  "es_take line ev =
     (case es_field line of (name, v) \<Rightarrow>
        if name = ''event'' then ev\<lparr>es_type := v\<rparr>
        else if name = ''data'' then ev\<lparr>es_data := es_data ev @ [v]\<rparr>
        else ev)"

text \<open>The events dispatched: their type and their data, whose lines are joined with LF.\<close>

fun es_dispatch :: "string list \<Rightarrow> es_event \<Rightarrow> (string \<times> string) list" where
  "es_dispatch [] ev = []"
| "es_dispatch (line # ls) ev =
     (if line = [] then
        (if es_data ev = [] then es_dispatch ls es_blank
         else (if es_type ev = [] then ''message'' else es_type ev, sep_concat LF (es_data ev)) # es_dispatch ls es_blank)
      else es_dispatch ls (es_take line ev))"

definition event_source :: "string \<Rightarrow> (string \<times> string) list" where
  "event_source s = es_dispatch (es_lines [] s) es_blank"

section \<open>What the browser sees\<close>

definition one_line :: "string \<Rightarrow> bool" where
  "one_line s \<longleftrightarrow> CHR 0x0A \<notin> set s \<and> CHR 0x0D \<notin> set s"

lemma one_line_simps [simp]: "one_line []" "one_line (c # s) \<longleftrightarrow> c \<noteq> CHR 0x0A \<and> c \<noteq> CHR 0x0D \<and> one_line s"
  "one_line (s @ t) \<longleftrightarrow> one_line s \<and> one_line t"
  by (auto simp: one_line_def)

lemma no_break_no_newline: "line_break (c # s) = 0 \<Longrightarrow> c \<noteq> CHR 0x0A \<and> c \<noteq> CHR 0x0D"
  by (auto simp: line_break_def byte_def split: if_splits)

lemma splitlines_from_one_line:
  "one_line cur \<Longrightarrow> line \<in> set (splitlines_from cur s) \<Longrightarrow> one_line line"
proof (induction cur s rule: splitlines_from.induct)
  case (2 cur c s)
  then show ?case using no_break_no_newline [of c s] by (auto simp: Let_def split: if_splits)
qed (auto split: if_splits)

lemma splitlines_from_Nil: "splitlines_from cur s = [] \<longleftrightarrow> cur = [] \<and> s = []"
  by (induction cur s rule: splitlines_from.induct) (auto simp: Let_def)

lemma splitlines_Nil [simp]: "splitlines s = [] \<longleftrightarrow> s = []"
  by (simp add: splitlines_def splitlines_from_Nil)

lemma es_lines_line: "one_line line \<Longrightarrow> es_lines cur (line @ CHR 0x0A # s) = (cur @ line) # es_lines [] s"
  by (induction line arbitrary: cur) auto

lemma es_lines_lines:
  "\<forall>l \<in> set ls. one_line l \<Longrightarrow> es_lines [] (concat (map (\<lambda>l. l @ LF) ls) @ s) = ls @ es_lines [] s"
  by (induction ls) (auto simp: LF_def es_lines_line)

definition chunk_lines :: "string \<Rightarrow> string list" where
  "chunk_lines html = ''event: message'' # map (\<lambda>line. ''data: '' @ line) (splitlines html) @
     (if html = [] then [[], []] else [[]])"

lemma sep_concat_lines: "ls \<noteq> [] \<Longrightarrow> sep_concat LF ls @ LF = concat (map (\<lambda>l. l @ LF) ls)"
proof (induction ls)
  case (Cons l ls)
  then show ?case by (cases "ls = []") (simp_all add: sep_concat_Cons)
qed simp

lemma sse_chunk_lines: "sse_chunk html = concat (map (\<lambda>l. l @ LF) (chunk_lines html))"
proof (cases "html = []")
  case False
  then show ?thesis
    using sep_concat_lines [of "map (\<lambda>line. ''data: '' @ line) (splitlines html)"]
    by (simp add: sse_chunk_def chunk_lines_def Let_def)
qed (simp add: sse_chunk_def chunk_lines_def splitlines_def)

lemma es_dispatch_data:
  "es_dispatch (map (\<lambda>line. ''data: '' @ line) ls @ rest) ev = es_dispatch rest (ev\<lparr>es_data := es_data ev @ ls\<rparr>)"
proof (induction ls arbitrary: ev)
  case (Cons l ls)
  have "es_field (''data: '' @ l) = (''data'', l)" by (simp add: es_field_def str_before_def str_after_def)
  then show ?case using Cons by (simp add: es_take_def)
qed simp

lemma es_dispatch_chunk:
  "es_dispatch (chunk_lines html @ rest) es_blank =
    (if html = [] then [] else [(''message'', sep_concat LF (splitlines html))]) @ es_dispatch rest es_blank"
proof -
  have "es_field ''event: message'' = (''event'', ''message'')" by code_simp
  then have "es_take ''event: message'' es_blank = es_blank\<lparr>es_type := ''message''\<rparr>" by (simp add: es_take_def)
  moreover note es_dispatch_data [of "splitlines html" "[] # rest" "es_blank\<lparr>es_type := ''message''\<rparr>"]
  ultimately show ?thesis by (cases "html = []") (auto simp: chunk_lines_def es_blank_def splitlines_def splitlines_from_Nil)
qed

lemma es_lines_chunks:
  "es_lines [] (concat (map sse_chunk htmls)) = concat (map chunk_lines htmls)"
proof (induction htmls)
  case (Cons h htmls)
  have "\<forall>l \<in> set (chunk_lines h). one_line l"
    using splitlines_from_one_line [of "[]"] by (auto simp: chunk_lines_def splitlines_def)
  then show ?case using Cons by (simp add: sse_chunk_lines es_lines_lines)
qed simp

lemma es_dispatch_chunks:
  "es_dispatch (concat (map chunk_lines htmls)) es_blank =
    map (\<lambda>h. (''message'', sep_concat LF (splitlines h))) (filter (\<lambda>h. h \<noteq> []) htmls)"
  by (induction htmls) (simp_all add: es_dispatch_chunk)

lemma sse_messages_eq:
  "sse_messages render hook_url ids =
    map (\<lambda>r. sse_chunk (render r hook_url)) (List.map_filter (\<lambda>(i, d). request_find_by_id i d) ids)"
  by (induction render hook_url ids rule: sse_messages.induct) (auto simp: List.map_filter_simps split: option.splits)

text \<open>
  C33. Whatever a captured request contains, it cannot break out of its event: the text of the stream,
  read the way a browser reads it, is exactly one event of type message per request found, in order, whose
  data are the lines of the rendered template, and nothing else.
\<close>

theorem live_stream_framing:
  assumes "stream_for_token render hook_url token d ids = Inr chunks"
  shows "event_source (concat chunks) =
    map (\<lambda>html. (''message'', sep_concat LF (splitlines html)))
      (filter (\<lambda>html. html \<noteq> [])
        (map (\<lambda>r. render r hook_url) (List.map_filter (\<lambda>(i, d'). request_find_by_id i d') ids)))"
proof -
  let ?htmls = "map (\<lambda>r. render r hook_url) (List.map_filter (\<lambda>(i, d'). request_find_by_id i d') ids)"
  have "concat chunks = CHR '':'' # '' connected'' @ CHR 0x0A # CHR 0x0A # concat (map sse_chunk ?htmls)"
    using assms by (auto simp: stream_for_token_def sse_messages_eq LF_def comp_def split: option.splits)
  then have "es_lines [] (concat chunks) =
      es_lines [] (CHR '':'' # '' connected'' @ CHR 0x0A # CHR 0x0A # concat (map sse_chunk ?htmls))" by simp
  also have "\<dots> = (CHR '':'' # '' connected'') # [] # es_lines [] (concat (map sse_chunk ?htmls))"
    using es_lines_line [of "CHR '':'' # '' connected''" "[]"] by simp
  also note es_lines_chunks
  finally have "event_source (concat chunks) =
      es_dispatch ((CHR '':'' # '' connected'') # [] # concat (map chunk_lines ?htmls)) es_blank"
    by (simp only: event_source_def)
  moreover have "es_take (CHR '':'' # '' connected'') es_blank = es_blank" by code_simp
  moreover have "es_data es_blank = []" by (simp add: es_blank_def)
  ultimately show ?thesis unfolding es_dispatch.simps if_True if_False list.distinct es_dispatch_chunks by simp
qed

text \<open>
  C32. The notifier implements a broadcast: from its subscription on, what a stream was handed out and what
  waits in its queue are together the requests of its endpoint notified while the reader ran, each once
  and in the order of the commits, whatever other streams come, go and take in between, and across
  crashes of the reader.
\<close>

theorem stream_hears_its_endpoint:
  assumes "subscribe_gen fault i q n = (Inr (), n1)" and "pending i q n = None" and "Closed i q \<notin> set es"
    and "notifier_run es n1 = (log, n')"
  shows "\<exists>waiting. pending i q n' = Some waiting \<and> handed_out i q log @ waiting = heard i es True"
proof -
  have "pending i q n1 = Some []" "listening n1"
    using assms(1,2) by (auto simp: subscribe_gen_def notifier_start_def pending_def map_add_Some_iff
        split: if_splits option.splits)
  from notifier_run_refines [OF this(1) assms(3,4)] this(2) show ?thesis by simp
qed

text \<open>After a crash of the reader a stream that is already open hears nothing until some other stream subscribes.\<close>

lemma silent_until_next_subscriber:
  "\<forall>j q fault. Subscribed j q fault \<in> set es \<longrightarrow> fault \<noteq> None \<Longrightarrow> heard i es False = []"
proof (induction es)
  case (Cons e es)
  have "heard i es False = []" using Cons by simp
  moreover have "\<not> alive_after e False" using Cons.prems by (cases e) auto
  ultimately show ?case by (cases e) (auto split: sum.splits)
qed simp

section \<open>A concrete stream\<close>

definition demo_request :: "uuid \<Rightarrow> string \<Rightarrow> captured_request" where
  "demo_request i path = \<lparr>rq_id = i, rq_endpoint_id = 1, rq_method = ''GET'', rq_path = path, rq_query_string = None,
     rq_headers = [], rq_body_preview = None, rq_body_size = 0, rq_blob_key = None, rq_source_ip = ''10.0.0.1'',
     rq_received_at = 0, rq_signature_status = None, rq_detected_integration = None, rq_detected_event_type = None\<rparr>"

theorem live_stream_framing_witness:
  "\<exists>chunks. stream_for_token (\<lambda>r hook_url. rq_path r @ LF @ ''event: evil'') [] ''tok''
      (demo_db\<lparr>db_requests := [demo_request 7 ''/a'']\<rparr>) [(7, demo_db\<lparr>db_requests := [demo_request 7 ''/a'']\<rparr>), (8, demo_db)] = Inr chunks \<and>
     event_source (concat chunks) = [(''message'', ''/a'' @ LF @ ''event: evil'')]"
proof -
  let ?d = "demo_db\<lparr>db_requests := [demo_request 7 ''/a'']\<rparr>"
  let ?render = "\<lambda>r hook_url. rq_path r @ LF @ ''event: evil''"
  have e: "find_by_token ''tok'' ?d = Some demo_endpoint"
    by (simp add: find_by_token_def demo_db_def demo_endpoint_def lookup_row_def endpoint_to_entity_def)
  then obtain chunks where c: "stream_for_token ?render [] ''tok'' ?d [(7, ?d), (8, demo_db)] = Inr chunks"
    by (simp add: stream_for_token_def)
  have found: "List.map_filter (\<lambda>(i, d'). request_find_by_id i d') [(7, ?d), (8, demo_db)] = [demo_request 7 ''/a'']"
    by (simp add: List.map_filter_simps request_find_eq lookup_row_def demo_request_def demo_db_def empty_db_def)
  have "sep_concat LF (splitlines (''/a'' @ LF @ ''event: evil'')) = ''/a'' @ LF @ ''event: evil''" by code_simp
  with live_stream_framing [OF c] have "event_source (concat chunks) = [(''message'', ''/a'' @ LF @ ''event: evil'')]"
    unfolding found by (simp add: demo_request_def LF_def)
  with c show ?thesis by blast
qed

theorem stream_hears_its_endpoint_witness:
  "\<exists>log n'. notifier_run [Notified (notify_payload (demo_request 7 ''/a'')), Notified ''junk'', Taken 1 0, Crashed,
       Notified (notify_payload (demo_request 8 ''/b'')), Subscribed 2 1 None,
       Notified (notify_payload (demo_request 9 ''/c''))] (snd (subscribe_gen None 1 0 notifier_init)) = (log, n') \<and>
     (\<exists>waiting. pending 1 0 n' = Some waiting \<and> handed_out 1 0 log @ waiting = [7, 9])"
proof -
  let ?es = "[Notified (notify_payload (demo_request 7 ''/a'')), Notified ''junk'', Taken 1 0, Crashed,
       Notified (notify_payload (demo_request 8 ''/b'')), Subscribed 2 1 None,
       Notified (notify_payload (demo_request 9 ''/c''))]"
  let ?n = "snd (subscribe_gen None 1 0 notifier_init)"
  obtain log n' where run: "notifier_run ?es ?n = (log, n')" by fastforce
  have s: "subscribe_gen None 1 0 notifier_init = (Inr (), ?n)"
    by (simp add: subscribe_gen_def notifier_start_def listening_def notifier_init_def)
  have p: "pending 1 0 notifier_init = None" by (simp add: pending_def queues_of_def notifier_init_def)
  have "heard 1 ?es True = [7, 9]"
    by (simp add: parse_notify_payload) (simp add: demo_request_def parse_payload_def)
  then show ?thesis using stream_hears_its_endpoint [OF s p _ run] run by auto
qed

end
