(* ===== verification/App_Routes.thy ===== *)
theory App_Routes
  imports Ingestor Replaying Export Live_Stream
begin

text \<open>
  The routes of the owner's application (\<open>web/app/routes.py\<close>): their limits and defaults, the use case
  each calls, the status and detail each exception becomes, and what each returns. Also the order in which
  the paths are matched. The templates are not modelled: a page is the context it is rendered with.
\<close>

section \<open>Clauses\<close>

definition not_found :: "exn \<Rightarrow> (nat \<times> string) option" where
  "not_found e = (if e = EndpointNotFoundError then Some (404, ''endpoint not found'') else None)"

definition validation_errors :: "exn list" where
  "validation_errors =
     [InvalidResponseStatusError, InvalidResponseDelayError, ResponseBodyTooLargeError, ForbiddenResponseHeaderError,
      InvalidSlugError, ReservedSlugError, SlugDenylistedError]"

definition create_clauses :: "exn \<Rightarrow> (nat \<times> string) option" where
  "create_clauses e =
     (if e = SlugAlreadyTakenError then Some (409, ''slug already taken'')
      else if e \<in> set validation_errors then Some (400, ''invalid slug or response configuration'')
      else None)"

definition retry_clauses :: "exn \<Rightarrow> (nat \<times> string) option" where
  "retry_clauses e = (if e = ForwardNotRetryableError then Some (404, ''forward not retryable'') else not_found e)"

definition abandon_clauses :: "exn \<Rightarrow> (nat \<times> string) option" where
  "abandon_clauses e = (if e = ForwardNotFoundError then Some (404, ''forward not found'') else not_found e)"

definition replay_clauses :: "exn \<Rightarrow> (nat \<times> string) option" where
  "replay_clauses e =
     (if e = RequestNotFoundError then Some (404, ''request not found'')
      else if e = ReplayPayloadTooLargeError then Some (413, ''payload too large'')
      else not_found e)"

section \<open>Endpoints\<close>

text \<open>The body of the request, with the defaults of \<open>CustomResponseSpec\<close>.\<close>

record response_spec =
  sp_status_code :: int
  sp_body :: string
  sp_headers :: dict
  sp_delay_ms :: int

definition default_spec :: response_spec where
  "default_spec = \<lparr>sp_status_code = DEFAULT_RESPONSE_STATUS_CODE, sp_body = DEFAULT_RESPONSE_BODY,
     sp_headers = [], sp_delay_ms = DEFAULT_RESPONSE_DELAY_MS\<rparr>"

record create_payload =
  pl_response :: "response_spec option"
  pl_slug :: "string option"

record create_response =
  ce_url :: string
  ce_expires_at :: string
  ce_token :: string
  ce_response :: response_spec

definition create_endpoint_route ::
  "string \<Rightarrow> string \<Rightarrow> uuid \<Rightarrow> time \<Rightarrow> int \<Rightarrow> create_payload option \<Rightarrow> world \<Rightarrow> create_response http \<times> world" where
  "create_endpoint_route base_url generated new_id now ttl_days payload =
     (let spec = (case payload of None \<Rightarrow> default_spec
                  | Some p \<Rightarrow> (case pl_response p of None \<Rightarrow> default_spec | Some s \<Rightarrow> s));
          slug = (case payload of None \<Rightarrow> None | Some p \<Rightarrow> pl_slug p)
      in route create_clauses
        (bindA (create_endpoint generated new_id now ttl_days slug (sp_status_code spec) (sp_body spec)
            (Some (sp_headers spec)) (sp_delay_ms spec)) (\<lambda>e.
         ret \<lparr>ce_url = hook_base_url base_url @ ''/h/'' @ ep_token e, ce_expires_at = isoformat (ep_expires_at e),
              ce_token = ep_token e,
              ce_response = \<lparr>sp_status_code = ep_response_status_code e, sp_body = ep_response_body e,
                sp_headers = ep_response_headers e, sp_delay_ms = ep_response_delay_ms e\<rparr>\<rparr>)))"

text \<open>The sections of the patch the schema admits become the arguments of the use case.\<close>

record signature_patch =
  sg_provider :: string
  sg_secret :: string

record forward_patch =
  fp_url :: string
  fp_headers :: "dict option"
  fp_secret :: "string option"

definition config_patch_of :: "signature_patch option \<Rightarrow> forward_patch option \<Rightarrow> config_patch" where
  "config_patch_of sg fp =
     \<lparr>cp_signature_provider = map_option sg_provider sg, cp_signature_secret = map_option sg_secret sg,
      cp_forward_url = map_option fp_url fp,
      cp_forward_headers = (case fp of None \<Rightarrow> None | Some f \<Rightarrow> fp_headers f),
      cp_forward_secret = (case fp of None \<Rightarrow> None | Some f \<Rightarrow> fp_secret f)\<rparr>"

definition update_config ::
  "services \<Rightarrow> string \<Rightarrow> string \<Rightarrow> string \<Rightarrow> string \<Rightarrow> signature_patch option \<Rightarrow> forward_patch option
     \<Rightarrow> world \<Rightarrow> unit http \<times> world" where
  "update_config sv key nonce1 nonce2 token sg fp =
     route not_found (update_endpoint_config sv key nonce1 nonce2 token (config_patch_of sg fp))"

section \<open>Requests\<close>

definition SEARCH_QUERY_MAX_CHARS :: nat where
  "SEARCH_QUERY_MAX_CHARS = 200"

definition LIST_LIMIT_MIN :: nat where
  "LIST_LIMIT_MIN = 1"

definition LIST_LIMIT_MAX :: nat where
  "LIST_LIMIT_MAX = 200"

text \<open>\<open>Query(default=50, ge=LIST_LIMIT_MIN, le=LIST_LIMIT_MAX)\<close>: FastAPI answers 422 out of range.\<close>

definition with_limit :: "nat option \<Rightarrow> (nat \<Rightarrow> world \<Rightarrow> 'a http \<times> world) \<Rightarrow> world \<Rightarrow> 'a http \<times> world" where
  "with_limit limit k w =
     (let n = (case limit of None \<Rightarrow> 50 | Some n \<Rightarrow> n) in
      if LIST_LIMIT_MIN \<le> n \<and> n \<le> LIST_LIMIT_MAX then k n w else (Http_error 422 ''limit'', w))"

definition query_clauses :: "exn \<Rightarrow> (nat \<times> string) option" where
  "query_clauses e = (if e = HTTPException 400 then Some (400, ''q must be <= 200 characters'') else not_found e)"

definition fetch_requests_or_raise ::
  "services \<Rightarrow> string \<Rightarrow> nat \<Rightarrow> uuid option \<Rightarrow> string option \<Rightarrow> captured_request list act" where
  "fetch_requests_or_raise sv token limit before_id q =
     (if q \<noteq> None \<and> SEARCH_QUERY_MAX_CHARS < str_len (the q) then fail (HTTPException 400)
      else list_requests sv token limit before_id q)"

definition next_before_id :: "('r \<Rightarrow> uuid) \<Rightarrow> nat \<Rightarrow> 'r list \<Rightarrow> uuid option" where
  "next_before_id rid limit items = (if length items = limit then Some (rid (last items)) else None)"

text \<open>
  The response models. A \<open>Literal\<close> type takes None or one of its values; any other makes the constructor
  raise pydantic's \<open>ValidationError\<close>, a \<open>ValueError\<close>, which no clause of a route expects.
\<close>

definition literal_ok :: "string list \<Rightarrow> string option \<Rightarrow> bool" where
  "literal_ok values x \<longleftrightarrow> (case x of None \<Rightarrow> True | Some s \<Rightarrow> s \<in> set values)"

record request_item =
  ri_id :: uuid
  ri_method :: string
  ri_path :: string
  ri_headers :: dict
  ri_body_preview :: "string option"
  ri_body_size :: nat
  ri_received_at :: string
  ri_signature_status :: "string option"
  ri_detected_integration :: "string option"
  ri_detected_event_type :: "string option"

definition request_item_of :: "captured_request \<Rightarrow> request_item" where
  "request_item_of r =
     \<lparr>ri_id = rq_id r, ri_method = rq_method r, ri_path = rq_path r, ri_headers = rq_headers r,
      ri_body_preview = rq_body_preview r, ri_body_size = rq_body_size r,
      ri_received_at = isoformat (rq_received_at r), ri_signature_status = rq_signature_status r,
      ri_detected_integration = rq_detected_integration r, ri_detected_event_type = rq_detected_event_type r\<rparr>"

definition make_request_item :: "captured_request \<Rightarrow> request_item res" where
  "make_request_item r =
     (if literal_ok SIGNATURE_STATUS_VALUES (rq_signature_status r) \<and>
         literal_ok INTEGRATION_NAMES (rq_detected_integration r)
      then Inr (request_item_of r) else Inl ValueError)"

record 'i item_list =
  il_items :: "'i list"
  il_next_before_id :: "uuid option"

definition list_requests_route ::
  "services \<Rightarrow> string \<Rightarrow> nat option \<Rightarrow> uuid option \<Rightarrow> string option \<Rightarrow> world
     \<Rightarrow> request_item item_list http \<times> world" where
  "list_requests_route sv token limit before_id q =
     with_limit limit (\<lambda>n. route query_clauses
       (bindA (fetch_requests_or_raise sv token n before_id q) (\<lambda>items.
        bindA (lift_res (mapM_res make_request_item items)) (\<lambda>models.
        ret \<lparr>il_items = models, il_next_before_id = next_before_id rq_id n items\<rparr>))))"

text \<open>The same rows through the template of one row; its context holds the same fields, not validated.\<close>

definition list_requests_fragment ::
  "services \<Rightarrow> (request_item \<Rightarrow> string \<Rightarrow> string) \<Rightarrow> string \<Rightarrow> string \<Rightarrow> nat option \<Rightarrow> uuid option \<Rightarrow> string option
     \<Rightarrow> world \<Rightarrow> string http \<times> world" where
  "list_requests_fragment sv render base_url token limit before_id q =
     with_limit limit (\<lambda>n. route query_clauses
       (bindA (fetch_requests_or_raise sv token n before_id q) (\<lambda>items.
        let hook_url = hook_base_url base_url @ ''/h/'' @ token in
        ret (concat (map (\<lambda>r. render (request_item_of r) hook_url) items)))))"

text \<open>\<open>IntegrationAggregateResponse\<close> has the fields of the aggregate; its integration is a \<open>Literal\<close> too.\<close>

definition integration_response :: "integration_aggregate \<Rightarrow> integration_aggregate res" where
  "integration_response a =
     (if literal_ok INTEGRATION_NAMES (Some (ia_integration a))
      then Inr \<lparr>ia_integration = ia_integration a, ia_total = ia_total a, ia_event_types = ia_event_types a,
                ia_signature_status_counts = ia_signature_status_counts a\<rparr>
      else Inl ValueError)"

definition list_integrations_route :: "string \<Rightarrow> world \<Rightarrow> integration_aggregate list http \<times> world" where
  "list_integrations_route token =
     route not_found (bindA (list_integrations token) (\<lambda>aggregates.
       lift_res (mapM_res integration_response aggregates)))"

section \<open>Replays and forwards\<close>

definition REPLAY_LIMIT_PER_HOUR :: int where
  "REPLAY_LIMIT_PER_HOUR = 10"

record replay_response =
  rr_id :: uuid
  rr_status_code :: "int option"
  rr_error :: "string option"
  rr_duration_ms :: int
  rr_attempted_at :: string

definition replay_response_of :: "replay \<Rightarrow> replay_response" where
  "replay_response_of r = \<lparr>rr_id = rp_id r, rr_status_code = rp_status_code r, rr_error = rp_error r,
     rr_duration_ms = rp_duration_ms r, rr_attempted_at = isoformat (rp_attempted_at r)\<rparr>"

definition replay_request_route ::
  "services \<Rightarrow> replay_clock \<Rightarrow> redis_conn \<Rightarrow> string \<Rightarrow> uuid \<Rightarrow> string \<Rightarrow> bool \<Rightarrow> bool \<Rightarrow> limiter \<Rightarrow> redis_server \<Rightarrow> world
     \<Rightarrow> replay_response http \<times> limiter \<times> redis_server \<times> world" where
  "replay_request_route sv clk c token request_id target_url include_headers include_body l s w =
     (case enforce_token_limit c token ''replay'' REPLAY_LIMIT_PER_HOUR 3600 l s of
        (allowed, ms, l', s') \<Rightarrow>
          let w0 = w\<lparr>w_metrics := w_metrics w @ ms\<rparr> in
          (case allowed of
             Inl e \<Rightarrow> (Http_error 429 ''rate limit exceeded'', l', s', w0)
           | Inr u \<Rightarrow>
               (case route replay_clauses
                   (bindA (replay_request sv clk token request_id target_url include_headers include_body)
                     (\<lambda>r. ret (replay_response_of r))) w0 of
                  (r, w') \<Rightarrow> (r, l', s', w'))))"

record forward_item =
  fi_id :: uuid
  fi_request_id :: uuid
  fi_target_url :: string
  fi_status :: string
  fi_attempt_count :: int
  fi_last_attempt_at :: "string option"
  fi_next_attempt_at :: "string option"
  fi_final_status_code :: "int option"
  fi_final_error :: "string option"
  fi_manual_retry_at :: "string option"
  fi_created_at :: string

definition to_forward_item :: "forward \<Rightarrow> forward_item" where
  "to_forward_item f =
     \<lparr>fi_id = fw_id f, fi_request_id = fw_request_id f, fi_target_url = fw_target_url f,
      fi_status = status_str (fw_status f), fi_attempt_count = fw_attempt_count f,
      fi_last_attempt_at = map_option isoformat (fw_last_attempt_at f),
      fi_next_attempt_at = map_option isoformat (fw_next_attempt_at f),
      fi_final_status_code = fw_final_status_code f, fi_final_error = fw_final_error f,
      fi_manual_retry_at = map_option isoformat (fw_manual_retry_at f),
      fi_created_at = isoformat (fw_created_at f)\<rparr>"

definition list_forwards_route ::
  "string \<Rightarrow> string list option \<Rightarrow> nat option \<Rightarrow> uuid option \<Rightarrow> world \<Rightarrow> forward_item item_list http \<times> world" where
  "list_forwards_route token status limit before_id =
     with_limit limit (\<lambda>n. route not_found
       (bindA (list_forwards token status n before_id) (\<lambda>forwards.
        let items = map to_forward_item forwards
        in ret \<lparr>il_items = items, il_next_before_id = next_before_id fi_id n items\<rparr>)))"

text \<open>\<open>ForwardStatsResponse(**counts)\<close>: a field the dictionary leaves out is 0.\<close>

record forward_stats =
  fs_pending :: int
  fs_in_flight :: int
  fs_succeeded :: int
  fs_failed :: int
  fs_dead :: int
  fs_abandoned :: int

definition forward_stats_of :: "(forward_status \<times> int) list \<Rightarrow> forward_stats" where
  "forward_stats_of counts =
     (let field = \<lambda>s. (case map_of counts s of None \<Rightarrow> 0 | Some n \<Rightarrow> n)
      in \<lparr>fs_pending = field Pending, fs_in_flight = field In_flight, fs_succeeded = field Succeeded,
          fs_failed = field Failed, fs_dead = field Dead, fs_abandoned = field Abandoned\<rparr>)"

definition get_forward_stats_route :: "string \<Rightarrow> world \<Rightarrow> forward_stats http \<times> world" where
  "get_forward_stats_route token =
     route not_found (bindA (get_forward_stats token) (\<lambda>counts. ret (forward_stats_of counts)))"

text \<open>The retry leaves the job to a background task; the redrive enqueues inside its transaction.\<close>

definition retry_forward_route ::
  "services \<Rightarrow> bool \<Rightarrow> time \<Rightarrow> string \<Rightarrow> uuid \<Rightarrow> world \<Rightarrow> (forward_item \<times> unit act) http \<times> world" where
  "retry_forward_route sv has_queue now token forward_id =
     route retry_clauses
       (bindA (retry_forward now token forward_id) (\<lambda>forward.
        ret (to_forward_item forward, enqueue_task has_queue sv (fw_id forward))))"

definition without_task :: "(world \<Rightarrow> 'a http \<times> world) \<Rightarrow> world \<Rightarrow> ('a \<times> unit act) http \<times> world" where
  "without_task r w =
     (case r w of
        (Reply a, w') \<Rightarrow> (Reply (a, ret ()), w')
      | (Http_error status detail, w') \<Rightarrow> (Http_error status detail, w')
      | (Server_error e, w') \<Rightarrow> (Server_error e, w'))"

definition redrive_forwards_route :: "services \<Rightarrow> time \<Rightarrow> string \<Rightarrow> world \<Rightarrow> nat http \<times> world" where
  "redrive_forwards_route sv now token = route not_found (redrive_pending_forwards sv now token)"

definition abandon_forward_route :: "time \<Rightarrow> string \<Rightarrow> uuid \<Rightarrow> world \<Rightarrow> forward_item http \<times> world" where
  "abandon_forward_route now token forward_id =
     route abandon_clauses (bindA (abandon_forward now token forward_id) (\<lambda>f. ret (to_forward_item f)))"

section \<open>Streams and pages\<close>

definition app_health :: "string option \<Rightarrow> nat \<times> json" where
  "app_health db_fault =
     (if db_fault = None then 200 else 503, JObj
        [(''status'', JStr (if db_fault = None then ''healthy'' else ''unhealthy'')),
         (''checks'', JObj [(''database'', JStr (health_check db_fault))])])"

definition sse_stream ::
  "(captured_request \<Rightarrow> string \<Rightarrow> string) \<Rightarrow> string \<Rightarrow> string \<Rightarrow> db \<Rightarrow> (uuid \<times> db) list \<Rightarrow> string list http" where
  "sse_stream render base_url token d ids =
     (case stream_for_token render (hook_base_url base_url @ ''/h/'' @ token) token d ids of
        Inl e \<Rightarrow> (case not_found e of Some (status, detail) \<Rightarrow> Http_error status detail | None \<Rightarrow> Server_error e)
      | Inr chunks \<Rightarrow> Reply chunks)"

definition ALLOWED_DOCS :: "string list" where
  "ALLOWED_DOCS =
     [''stripe'', ''github'', ''shopify'', ''twilio'', ''mailgun'', ''discord'', ''slack'', ''zapier'', ''n8n'',
      ''verifying-forwards'']"

definition DOC_TITLES :: dict where
  "DOC_TITLES =
     [(''stripe'', ''Stripe webhooks''), (''github'', ''GitHub webhooks''), (''shopify'', ''Shopify webhooks''),
      (''twilio'', ''Twilio webhooks''), (''mailgun'', ''Mailgun webhooks''), (''discord'', ''Discord webhooks''),
      (''slack'', ''Slack webhooks''), (''zapier'', ''Zapier webhooks''), (''n8n'', ''n8n webhooks''),
      (''verifying-forwards'', ''Verifying hooktrace forwards'')]"

text \<open>
  \<open>files\<close> reads a file below the directory of the documents as text, \<open>markdown\<close> is the package's
  renderer.
\<close>

record docs_page =
  dp_title :: string
  dp_description :: string
  dp_slug :: "string option"
  dp_content :: string

definition render_doc_markdown :: "(string \<Rightarrow> string res) \<Rightarrow> (string \<Rightarrow> string) \<Rightarrow> string \<Rightarrow> string res" where
  "render_doc_markdown files markdown path = bindR (files path) (\<lambda>text_md. Inr (markdown text_md))"

definition docs_answer :: "string \<Rightarrow> string \<Rightarrow> string option \<Rightarrow> string res \<Rightarrow> docs_page http" where
  "docs_answer title description slug rendered =
     (case rendered of
        Inl e \<Rightarrow> Server_error e
      | Inr content \<Rightarrow> Reply \<lparr>dp_title = title, dp_description = description, dp_slug = slug, dp_content = content\<rparr>)"

definition docs_integrations_index :: "(string \<Rightarrow> string res) \<Rightarrow> (string \<Rightarrow> string) \<Rightarrow> docs_page http" where
  "docs_integrations_index files markdown =
     docs_answer ''Integration guides''
       (''HMAC signature schemes hooktrace validates for Stripe, GitHub, '' @
        ''Shopify, Twilio, Mailgun, Discord, Slack, Zapier, n8n, plus the '' @
        ''verifying-forwards public contract.'')
       None (render_doc_markdown files markdown ''README.md'')"

text \<open>The dash of the description is the three bytes of U+2014.\<close>

definition docs_integration_page ::
  "(string \<Rightarrow> string res) \<Rightarrow> (string \<Rightarrow> string) \<Rightarrow> string \<Rightarrow> docs_page http" where
  "docs_integration_page files markdown slug =
     (if slug \<notin> set ALLOWED_DOCS then Http_error 404 ''doc not found''
      else
        let title = (case map_of DOC_TITLES slug of None \<Rightarrow> slug | Some t \<Rightarrow> t)
        in docs_answer title
             (title @ '' '' @ [CHR 0xE2, CHR 0x80, CHR 0x94] @
              '' what hooktrace validates and where to find the secret.'')
             (Some slug) (render_doc_markdown files markdown (slug @ ''.md'')))"

record forwards_page =
  pg_token :: string
  pg_forwards :: "forward_item list"
  pg_stats :: "(forward_status \<times> int) list"
  pg_active_filters :: "string list"

definition forwards_view :: "string \<Rightarrow> string list option \<Rightarrow> world \<Rightarrow> forwards_page http \<times> world" where
  "forwards_view token status =
     (let effective_statuses = (case status of
            None \<Rightarrow> [''pending'', ''in_flight'', ''failed'', ''dead'']
          | Some ss \<Rightarrow> if ss = [] then [''pending'', ''in_flight'', ''failed'', ''dead''] else ss)
      in route not_found
        (bindA (list_forwards token (Some effective_statuses) 50 None) (\<lambda>forwards.
         bindA (get_forward_stats token) (\<lambda>stats.
         ret \<lparr>pg_token = token, pg_forwards = map to_forward_item forwards, pg_stats = stats,
              pg_active_filters = effective_statuses\<rparr>))))"

text \<open>The ceiling of the days left, never negative.\<close>

definition days_until_expiry :: "time \<Rightarrow> time \<Rightarrow> int" where
  "days_until_expiry expires_at now = max 0 (ceil_div (expires_at - now) DAY_MICROS)"

record viewer_page =
  vp_token :: string
  vp_hook_url :: string
  vp_days_until_expiry :: int
  vp_initial_requests :: "request_item list"

definition viewer :: "services \<Rightarrow> string \<Rightarrow> time \<Rightarrow> string \<Rightarrow> world \<Rightarrow> viewer_page http \<times> world" where
  "viewer sv base_url now token =
     route not_found
       (bindA (get_endpoint token) (\<lambda>endpoint.
        bindA (list_requests sv token 50 None None) (\<lambda>initial.
        ret \<lparr>vp_token = token, vp_hook_url = hook_base_url base_url @ ''/h/'' @ token,
             vp_days_until_expiry = days_until_expiry (ep_expires_at endpoint) now,
             vp_initial_requests = map request_item_of initial\<rparr>)))"

definition integrations_view :: "string \<Rightarrow> world \<Rightarrow> (string \<times> integration_aggregate list) http \<times> world" where
  "integrations_view token =
     route not_found (bindA (list_integrations token) (\<lambda>aggregates. ret (token, aggregates)))"

section \<open>Which route a path reaches\<close>




section \<open>Slugs and paths\<close>








section \<open>What a token gives access to\<close>

lemma rolled_back_same: "\<not> w_aborted w \<Longrightarrow> rolled_back w (w\<lparr>w_db := d\<rparr>) = w"
  by (cases w) (simp add: rolled_back_def)

text \<open>
  C16. Nobody learns about the rows of another endpoint: with a valid token, the retry, the abandonment and
  the replay of an identifier answer in the same way whether there is no such row or it belongs to
  another endpoint, with the same 404 and detail each, and change nothing but the count of the replays.
\<close>

theorem foreign_rows_are_invisible:
  assumes "world_ok w" and "find_by_token token (w_db w) = Some e"
    and "\<forall>f. forward_find_by_id i (w_db w) = Some f \<longrightarrow> fw_endpoint_id f \<noteq> ep_id e"
    and "\<forall>c. request_find_by_id rid (w_db w) = Some c \<longrightarrow> rq_endpoint_id c \<noteq> ep_id e"
  shows "serve ord (retry_forward_route sv has_queue now token i) w = (Http_error 404 ''forward not retryable'', w) \<and>
    serve ord (without_task (abandon_forward_route now token i)) w = (Http_error 404 ''forward not found'', w) \<and>
    route replay_clauses (bindA (replay_request sv clk token rid url ih ib) (\<lambda>r. ret (replay_response_of r))) w =
      (Http_error 404 ''request not found'', w\<lparr>w_metrics := w_metrics w @ [Replay_attempt ''request_not_found'']\<rparr>)"
proof -
  have ok: "db_ok (w_db w)" "\<not> w_aborted w" using assms(1) by (simp_all add: world_ok_def)
  have hits: "row_hit (retryable_row i (ep_id e)) (set_manual_retry now) (forward_find_by_id i (w_db w)) = None"
    "row_hit (abandonable i (ep_id e)) (set_abandoned now) (forward_find_by_id i (w_db w)) = None"
    using assms(3) by (auto simp: row_hit_None_iff retryable_row_def abandonable_def)
  have retry: "retry_forward now token i w =
      (Inl ForwardNotRetryableError, w\<lparr>w_db := snd (claim_for_manual_retry i (ep_id e) now (w_db w))\<rparr>)"
    using assms(2) hits(1) by (simp add: retry_forward_def pg.retry_result [OF ok(1)])
  have abandon: "abandon_forward now token i w =
      (Inl ForwardNotFoundError, w\<lparr>w_db := snd (abandon i (ep_id e) now (w_db w))\<rparr>)"
    using assms(2) hits(2) by (simp add: abandon_forward_def pg.give_up_result [OF ok(1)])
  have replay: "replay_request sv clk token rid url ih ib w =
      (Inl RequestNotFoundError, w\<lparr>w_metrics := w_metrics w @ [Replay_attempt ''request_not_found'']\<rparr>)"
    by (rule replay_refused [OF assms(1,2)]) (use assms(4) in blast)
  note raised = bindA_raise [where m = "retry_forward now token i" and w = w, OF retry]
    bindA_raise [where m = "abandon_forward now token i" and w = w, OF abandon]
    bindA_raise [where m = "replay_request sv clk token rid url ih ib" and w = w, OF replay]
  have "serve ord (retry_forward_route sv has_queue now token i) w = (Http_error 404 ''forward not retryable'', w)"
    by (simp add: serve_def retry_forward_route_def route_def raised retry_clauses_def rolled_back_same ok)
  moreover have "serve ord (without_task (abandon_forward_route now token i)) w = (Http_error 404 ''forward not found'', w)"
    by (simp add: serve_def without_task_def abandon_forward_route_def route_def raised abandon_clauses_def rolled_back_same ok)
  moreover have "route replay_clauses (bindA (replay_request sv clk token rid url ih ib) (\<lambda>r. ret (replay_response_of r))) w =
      (Http_error 404 ''request not found'', w\<lparr>w_metrics := w_metrics w @ [Replay_attempt ''request_not_found'']\<rparr>)"
    by (simp add: route_def raised replay_clauses_def)
  ultimately show ?thesis by blast
qed

text \<open>
  A document is one of the ten files of the directory, each of which has its title: the page depends on
  no other file, whatever the slug.
\<close>

lemma docs_stay_in_directory:
  assumes "\<And>s. s \<in> set ALLOWED_DOCS \<Longrightarrow> files (s @ ''.md'') = files' (s @ ''.md'')"
  shows "docs_integration_page files markdown slug = docs_integration_page files' markdown slug"
  using assms by (simp add: docs_integration_page_def render_doc_markdown_def)

lemma docs_titles: "set (map fst DOC_TITLES) = set ALLOWED_DOCS" "list_all (\<lambda>s. CHR ''/'' \<notin> set s) ALLOWED_DOCS"
  by code_simp+

lemma ceil_div_bounds:
  assumes "0 < a" and "0 < b"
  shows "1 \<le> ceil_div a b \<and> a \<le> ceil_div a b * b"
proof -
  have neg: "(- a) div b \<le> - 1" using div_neg_pos_less0 [of "- a" b] assms by linarith
  have "(- a) div b * b + (- a) mod b = - a" by (rule div_mult_mod_eq)
  moreover have "0 \<le> (- a) mod b" using assms(2) by simp
  ultimately have "a \<le> - ((- a) div b * b)" by linarith
  with neg have "1 \<le> - ((- a) div b) \<and> a \<le> - ((- a) div b) * b" by simp
  then show ?thesis by (simp add: ceil_div_def)
qed

text \<open>The badge never shows a negative number, and shows at least one day as long as the endpoint lives.\<close>

lemma days_until_expiry_bounds:
  "0 \<le> days_until_expiry t now"
  "now < t \<Longrightarrow> 1 \<le> days_until_expiry t now \<and> t - now \<le> days_until_expiry t now * DAY_MICROS"
proof -
  show "0 \<le> days_until_expiry t now" by (simp add: days_until_expiry_def)
  assume "now < t"
  then show "1 \<le> days_until_expiry t now \<and> t - now \<le> days_until_expiry t now * DAY_MICROS"
    using ceil_div_bounds [of "t - now" DAY_MICROS] by (simp add: days_until_expiry_def DAY_MICROS_def)
qed

section \<open>Concrete tokens\<close>


theorem foreign_rows_are_invisible_witness:
  "serve Commit_after_response (retry_forward_route demo_services True 50 ''tok'' 9) replay_world =
     (Http_error 404 ''forward not retryable'', replay_world)"
proof -
  have "forward_find_by_id 9 (w_db replay_world) = None" "request_find_by_id 9 (w_db replay_world) = None"
    by (simp_all add: forward_find_by_id_eq request_find_eq replay_world_def new_world_def demo_db_def empty_db_def
        replay_demo_request_def)
  then show ?thesis
    using foreign_rows_are_invisible [OF replay_world_facts(1,2), of 9 9] by simp
qed

end
