(* ===== verification/Telemetry.thy ===== *)
theory Telemetry
  imports App_Routes
begin

text \<open>
  What the processes report: the adapter of the metrics port to OpenTelemetry
  (\<open>infrastructure/observability/otel_metrics_collector.py\<close>), the cleaner that counts what it deletes, the
  gauge of active endpoints, the counter of open streams, the OTLP headers (\<open>observability/metrics.py\<close>, \<open>tracing.py\<close>) and the fields
  of a log line (\<open>logging.py\<close>). The SDK and its exporters are third-party code.
\<close>

section \<open>The collector\<close>

datatype label = L_str string | L_bool bool

record measurement =
  ms_instrument :: string
  ms_amount :: int
  ms_labels :: "(string \<times> label) list"

abbreviation measured :: "string \<Rightarrow> int \<Rightarrow> (string \<times> label) list \<Rightarrow> measurement" where
  "measured i n ls \<equiv> \<lparr>ms_instrument = i, ms_amount = n, ms_labels = ls\<rparr>"

text \<open>One method call; \<open>duration\<close> is the latency that comes with a capture.\<close>

fun OtelMetricsCollector :: "int \<Rightarrow> metric \<Rightarrow> measurement list" where
  "OtelMetricsCollector duration Endpoint_created = [measured ''webhook_inspector.endpoints.created'' 1 []]"
| "OtelMetricsCollector duration (Request_captured http_method body_offloaded body_size) =
     [measured ''webhook_inspector.requests.captured'' 1
        [(''method'', L_str (str_upper http_method)), (''body_offloaded'', L_bool body_offloaded)],
      measured ''webhook_inspector.requests.body_size_bytes'' (int body_size) [(''body_offloaded'', L_bool body_offloaded)],
      measured ''webhook_inspector.requests.capture_duration_seconds'' duration []]"
| "OtelMetricsCollector duration (Cleaner_run deleted) =
     measured ''webhook_inspector.cleaner.runs.completed'' 1 [] #
       (if 0 < deleted then [measured ''webhook_inspector.cleaner.deletions'' deleted []] else [])"
| "OtelMetricsCollector duration (Replay_attempt status) =
     [measured ''webhook_inspector.replay.attempt_total'' 1 [(''status'', L_str status)]]"
| "OtelMetricsCollector duration (Forward_attempt status) =
     [measured ''webhook_inspector.forward.attempt_total'' 1 [(''status'', L_str status)]]"
| "OtelMetricsCollector duration Forward_enqueue_failed = [measured ''webhook_inspector.forward.enqueue_failed_total'' 1 []]"
| "OtelMetricsCollector duration (Rate_limit_block rule reason) =
     [measured ''webhook_inspector.rate_limit.block_total'' 1 [(''rule'', L_str rule), (''reason'', L_str reason)]]"
| "OtelMetricsCollector duration (Rate_limit_redis_error rule) =
     [measured ''webhook_inspector.rate_limit.redis_error_total'' 1 [(''rule'', L_str rule)]]"

text \<open>An exported time series is an instrument with a set of labels; the value of a counter is the sum.\<close>

definition series :: "measurement \<Rightarrow> string \<times> (string \<times> label) list" where
  "series m = (ms_instrument m, ms_labels m)"

definition counter_value :: "string \<Rightarrow> measurement list \<Rightarrow> int" where
  "counter_value i ms = sum_list (map ms_amount (filter (\<lambda>m. ms_instrument m = i) ms))"

section \<open>The labels the port documents\<close>

definition HTTP_METHODS :: "string list" where
  "HTTP_METHODS = [''GET'', ''POST'', ''PUT'', ''PATCH'', ''DELETE'', ''OPTIONS'', ''HEAD'']"

definition REPLAY_STATUSES :: "string list" where
  "REPLAY_STATUSES = [''success'', ''target_error'', ''network_error'', ''ssrf_blocked'', ''endpoint_not_found'',
     ''request_not_found'', ''payload_too_large'']"

definition FORWARD_STATUSES :: "string list" where
  "FORWARD_STATUSES = [''succeeded'', ''failed'', ''dead'', ''skipped'', ''ssrf_blocked'']"

definition RATE_LIMIT_NAMES :: "string list" where
  "RATE_LIMIT_NAMES = [''ingest'', ''api'', ''replay'', ''capture'']"

definition RATE_LIMIT_REASONS :: "string list" where
  "RATE_LIMIT_REASONS = [''quota'', ''fail_closed'']"

fun documented :: "metric \<Rightarrow> bool" where
  "documented (Request_captured http_method off n) = (http_method \<in> set HTTP_METHODS)"
| "documented (Replay_attempt s) = (s \<in> set REPLAY_STATUSES)"
| "documented (Forward_attempt s) = (s \<in> set FORWARD_STATUSES)"
| "documented (Rate_limit_block r reason) = (r \<in> set RATE_LIMIT_NAMES \<and> reason \<in> set RATE_LIMIT_REASONS)"
| "documented (Rate_limit_redis_error r) = (r \<in> set RATE_LIMIT_NAMES)"
| "documented _ = True"

text \<open>Every series that a documented call can report, and those of the gauge and of the open streams.\<close>

definition all_series :: "(string \<times> (string \<times> label) list) list" where
  "all_series =
     map (\<lambda>i. (i, [])) [''webhook_inspector.endpoints.created'', ''webhook_inspector.requests.capture_duration_seconds'',
       ''webhook_inspector.cleaner.runs.completed'', ''webhook_inspector.cleaner.deletions'',
       ''webhook_inspector.forward.enqueue_failed_total'', ''webhook_inspector.endpoints.active'',
       ''webhook_inspector.sse.active_connections''] @
     map (\<lambda>(m, b). (''webhook_inspector.requests.captured'', [(''method'', L_str m), (''body_offloaded'', L_bool b)]))
       (List.product HTTP_METHODS [False, True]) @
     map (\<lambda>b. (''webhook_inspector.requests.body_size_bytes'', [(''body_offloaded'', L_bool b)])) [False, True] @
     map (\<lambda>s. (''webhook_inspector.replay.attempt_total'', [(''status'', L_str s)])) REPLAY_STATUSES @
     map (\<lambda>s. (''webhook_inspector.forward.attempt_total'', [(''status'', L_str s)])) FORWARD_STATUSES @
     map (\<lambda>(r, x). (''webhook_inspector.rate_limit.block_total'', [(''rule'', L_str r), (''reason'', L_str x)]))
       (List.product RATE_LIMIT_NAMES RATE_LIMIT_REASONS) @
     map (\<lambda>r. (''webhook_inspector.rate_limit.redis_error_total'', [(''rule'', L_str r)])) RATE_LIMIT_NAMES"

lemma length_all_series: "length all_series = 47"
  by (simp add: all_series_def HTTP_METHODS_def REPLAY_STATUSES_def FORWARD_STATUSES_def RATE_LIMIT_NAMES_def RATE_LIMIT_REASONS_def)

lemma upper_methods: "list_all (\<lambda>m. str_upper m = m) HTTP_METHODS"
  by code_simp

lemma documented_series: "documented m \<Longrightarrow> series ` set (OtelMetricsCollector n m) \<subseteq> set all_series"
proof (induction m)
  case (Request_captured http_method off size)
  then have "str_upper http_method = http_method" using upper_methods by (simp add: list_all_iff)
  then show ?case using Request_captured by (cases off) (auto simp: all_series_def series_def)
qed (auto simp: all_series_def series_def)

section \<open>What the operations report\<close>

definition reports :: "'a act \<Rightarrow> bool" where
  "reports m \<longleftrightarrow> (\<forall>w. \<exists>ms. w_metrics (snd (m w)) = w_metrics w @ ms \<and> list_all documented ms)"

lemma reports_same: "(\<And>w. w_metrics (snd (m w)) = w_metrics w) \<Longrightarrow> reports m"
  by (simp add: reports_def)

lemma reports_basic [intro]:
  "reports (ret a)" "reports (fail e)" "reports (lift_res r)" "reports (read_db f)" "reports (run_db g)" "reports (run_db_res h)"
  by (auto intro!: reports_same simp: read_db_def run_db_res_def split: prod.splits sum.splits)

lemma reports_emit [intro]: "documented x \<Longrightarrow> reports (emit x)"
  by (auto simp: reports_def intro!: exI [of _ "[x]"])

lemma reports_then:
  assumes "reports m" and "\<And>w a w'. m w = (Inr a, w') \<Longrightarrow> reports (f a)"
  shows "reports (bindA m f)"
  unfolding reports_def
proof
  fix w
  obtain r w1 ms where m: "m w = (r, w1)" "w_metrics w1 = w_metrics w @ ms" "list_all documented ms"
    using assms(1) unfolding reports_def by (metis prod.collapse)
  show "\<exists>ms. w_metrics (snd (bindA m f w)) = w_metrics w @ ms \<and> list_all documented ms"
  proof (cases r)
    case (Inl e)
    then show ?thesis using m by (auto simp: bindA_def)
  next
    case (Inr a)
    then obtain ms' where "w_metrics (snd (f a w1)) = w_metrics w1 @ ms'" "list_all documented ms'"
      using assms(2) m(1) unfolding reports_def by blast
    then show ?thesis using m Inr by (intro exI [of _ "ms @ ms'"]) (simp add: bindA_def)
  qed
qed

lemma reports_bind [intro]: "reports m \<Longrightarrow> (\<And>a. reports (f a)) \<Longrightarrow> reports (bindA m f)"
  by (rule reports_then)

lemma reports_catch [intro]: "reports m \<Longrightarrow> (\<And>e. reports (h e)) \<Longrightarrow> reports (catchA m h)"
  unfolding reports_def catchA_def
  by (clarsimp split: prod.splits sum.splits) (metis append.assoc list_all_append snd_conv)

lemma reports_session [intro]: "reports m \<Longrightarrow> reports (with_session m)"
  unfolding reports_def with_session_def
  by (auto split: prod.splits sum.splits if_splits) (metis snd_conv)+

lemma reports_blobs [intro]: "reports (blob_put sv k b)" "reports (blob_get sv k)" "reports (arq_enqueue sv i n)"
  by (rule reports_same, simp add: blob_put_def blob_get_def arq_enqueue_eq split: option.splits)+

lemma reports_send [intro]: "reports (make_send sv m v h b)"
  by (rule reports_same) (simp add: make_send_def send_target_def Let_def split: sum.splits prod.splits)
lemma reports_load_body [intro]: "reports (load_body sv c)"
  by (cases "rq_blob_key c") (auto simp: load_body_def)

text \<open>Deliveries.\<close>

lemma forward_statuses: "list_all (\<lambda>s. documented (Forward_attempt s)) FORWARD_STATUSES" "documented (Forward_attempt (status_str (status_of_next ns)))"
  by (simp_all add: FORWARD_STATUSES_def) (cases ns; simp)

lemma reports_claim [intro]: "reports (claim_phase sv clk i)"
proof -
  have "reports (bindA (run_db (\<lambda>d. ((), record_outcome j NDead None msg None t d))) (\<lambda>_.
      bindA (emit (Forward_attempt ''dead'')) (\<lambda>_. ret (None :: claimed_state option))))" for j msg t
    by (intro reports_bind reports_basic reports_emit) (simp add: FORWARD_STATUSES_def)
  moreover have "reports (bindA (emit (Forward_attempt ''skipped'')) (\<lambda>_. ret (None :: claimed_state option)))"
    by (intro reports_bind reports_basic reports_emit) (simp add: FORWARD_STATUSES_def)
  ultimately show ?thesis
    unfolding claim_phase_def
    by (intro reports_session reports_bind reports_basic) (auto split: option.split intro!: reports_bind reports_load_body)
qed

lemma reports_http [intro]: "reports (http_phase sv key ts state)"
proof -
  have "reports (http_handler e)" for e by (cases e) auto
  then show ?thesis
    unfolding http_phase_def by (intro reports_bind reports_basic reports_catch reports_send) (auto split: prod.split)
qed

lemma reports_finish [intro]: "reports (finish_forward sv clk i n result)"
proof -
  have rec: "reports (record_phase j ns code err nx t)" for j ns code err nx t
    unfolding record_phase_def by (intro reports_session reports_basic)
  obtain status failed err ssrf where r: "result = (status, failed, err, ssrf)" by (cases result)
  show ?thesis
  proof (cases ssrf)
    case None
    then show ?thesis unfolding finish_forward_def r
      by (auto simp: Let_def intro!: reports_bind reports_emit rec reports_basic reports_blobs forward_statuses(2) simp del: documented.simps)
  next
    case (Some m)
    then show ?thesis unfolding finish_forward_def r
      by (auto simp: FORWARD_STATUSES_def intro!: reports_bind reports_emit rec)
  qed
qed

lemma reports_forward_job: "reports (execute_forward_job sv key clk s)"
  unfolding execute_forward_job_def execute_forward_def
  by (intro reports_catch reports_bind reports_basic reports_claim) (auto split: option.split intro!: reports_bind)

text \<open>Replays.\<close>

lemma reports_authorize [intro]: "reports (authorize_phase sv token i)"
proof -
  have "reports (bindA (emit (Replay_attempt l)) (\<lambda>_. fail e :: authorized_state act))"
    if "l \<in> set REPLAY_STATUSES" for l e
    using that by (intro reports_bind reports_basic reports_emit) simp
  from this [of "''endpoint_not_found''"] this [of "''request_not_found''"] show ?thesis
    unfolding authorize_phase_def
    by (intro reports_session reports_bind reports_basic)
      (auto simp: REPLAY_STATUSES_def split: option.split intro!: reports_bind reports_load_body)
qed

lemma reports_conclude: "l \<in> set REPLAY_STATUSES \<Longrightarrow> reports (conclude_replay r l)"
  unfolding conclude_replay_def replay_record_phase_def by (intro reports_bind reports_session reports_basic reports_emit) simp

lemma reports_replay: "reports (replay_request sv clk token i url hs body)"
proof -
  have attempt: "reports (replay_attempt sv clk i url v m h b)" for v m h b
    unfolding replay_attempt_def by (intro reports_catch reports_bind reports_send) (auto split: prod.split exn.split)
  have label: "snd a \<in> set REPLAY_STATUSES" if "replay_attempt sv clk i url v m h b w = (Inr a, w')" for v m h b w a w'
    using that by (auto simp: replay_attempt_def catchA_def bindA_def REPLAY_STATUSES_def split: prod.splits sum.splits exn.splits if_splits)
  have sent: "reports (bindA (replay_attempt sv clk i url v m h b) (\<lambda>(replay, label). conclude_replay replay label))" for v m h b
    by (rule reports_then [OF attempt]) (auto dest!: label intro!: reports_conclude split: prod.split)
  have large: "reports (bindA (emit (Replay_attempt ''payload_too_large'')) (\<lambda>_. fail e :: replay act))" for e
    by (intro reports_bind reports_basic reports_emit) (simp add: REPLAY_STATUSES_def)
  have "''ssrf_blocked'' \<in> set REPLAY_STATUSES" by (simp add: REPLAY_STATUSES_def)
  then show ?thesis
    unfolding replay_request_def Let_def
    by (intro reports_bind reports_authorize)
      (auto split: sum.split exn.split intro: sent large reports_conclude)
qed

text \<open>Captures, of the methods the route takes.\<close>

lemma reports_capture:
  assumes "str_upper (ci_method inp) \<in> set HTTP_METHODS"
  shows "reports (capture_request sv env inp)"
proof -
  have forward: "reports (save_pending_forward f)" for f
    unfolding save_pending_forward_def by (intro reports_catch reports_bind reports_basic reports_emit) simp
  have persist: "reports (persist_capture sv env e c)" if "rq_method c \<in> set HTTP_METHODS" for e c
  proof -
    have "reports (if falsy (ep_forward_url e) then ret None else save_pending_forward f)" for f
      using forward by (simp add: reports_basic(1) del: ret_simps)
    then show ?thesis
      unfolding persist_capture_def by (intro reports_bind reports_basic reports_emit) (use that in simp_all)
  qed
  have store: "reports (store_body sv c b)" for c b
    by (cases "rq_blob_key c") (auto simp: store_body_def)
  have kept: "rq_method c' = rq_method c" if "store_body sv c b w = (Inr c', w')" for c c' b w w'
    using that by (auto simp: store_body_def catchA_def bindA_def split: option.splits prod.splits sum.splits)
  have created: "reports (bindA (lift_res (captured_request_create rid now eid (str_upper (ci_method inp)) p q hs b ip th st i ev))
      (\<lambda>c. bindA (store_body sv c b') (\<lambda>c'. persist_capture sv env e c')))"
    for rid now eid p q hs b ip th st i ev b' e
  proof (rule reports_then [OF reports_basic(3)])
    fix w c w'
    assume "lift_res (captured_request_create rid now eid (str_upper (ci_method inp)) p q hs b ip th st i ev) w = (Inr c, w')"
    then have "rq_method c \<in> set HTTP_METHODS" using captured_request_createD(3) assms by fastforce
    then show "reports (bindA (store_body sv c b') (\<lambda>c'. persist_capture sv env e c'))"
      by (intro reports_then [OF store] persist) (simp add: kept)
  qed
  show ?thesis
    unfolding capture_request_def
    by (intro reports_bind reports_basic) (auto split: option.split prod.split intro!: reports_bind created)
qed

lemma reports_create_endpoint: "reports (create_endpoint gen i now ttl slug status body hs delay)"
  unfolding create_endpoint_def by (intro reports_bind reports_basic reports_emit) simp

lemma reports_enqueue: "reports (enqueue_task has_queue sv i)"
proof -
  have "reports (safe_enqueue sv i)" unfolding safe_enqueue_def by (intro reports_catch reports_blobs reports_emit) simp
  moreover have "reports (null_enqueue i 0)" by (rule reports_same) (simp add: null_enqueue_def)
  ultimately show ?thesis by (simp add: enqueue_task_def)
qed
section \<open>The limiters\<close>

lemma middleware_reports:
  assumes "rate_limit_middleware rules c app scope path hs client l s = ((raised, acts, ms), l', s')"
    and "rules = INGEST_RULES \<or> rules = API_RULES"
  shows "list_all documented ms"
proof -
  have rule: "ru_name rule \<in> set RATE_LIMIT_NAMES" if "match_rule rules path = Some rule" for rule
    using that assms(2) by (auto simp: match_rule_def INGEST_RULES_def API_RULES_def RATE_LIMIT_NAMES_def split: if_splits)
  show ?thesis
    using assms(1) rule unfolding rate_limit_middleware_def limiter_failed_def Let_def
    by (auto simp: RATE_LIMIT_REASONS_def split: if_splits option.splits prod.splits sum.splits bool.splits)
qed

lemma token_limit_reports:
  assumes "enforce_token_limit c token name n window l s = (r, ms, l', s')" and "name \<in> set RATE_LIMIT_NAMES"
  shows "list_all documented ms"
  using assms unfolding enforce_token_limit_def
  by (auto simp: RATE_LIMIT_REASONS_def split: prod.splits sum.splits bool.splits if_splits)

section \<open>The routes\<close>

definition extends :: "world \<Rightarrow> world \<Rightarrow> bool" where
  "extends w w' \<longleftrightarrow> (\<exists>ms. w_metrics w' = w_metrics w @ ms \<and> list_all documented ms)"

lemma reports_extends: "reports m \<longleftrightarrow> (\<forall>w. extends w (snd (m w)))"
  by (simp add: reports_def extends_def)

lemma extends_refl [simp]: "extends w w"
  by (simp add: extends_def)

lemma extends_trans: "extends w w' \<Longrightarrow> extends w' w'' \<Longrightarrow> extends w w''"
  unfolding extends_def by (metis append.assoc list_all_append)

lemma extends_append: "list_all documented ms \<Longrightarrow> extends w (w\<lparr>w_metrics := w_metrics w @ ms\<rparr>)"
  by (simp add: extends_def)

lemma extends_rolled_back: "extends w w1 \<Longrightarrow> extends w (rolled_back w0 w1)"
  by (simp add: extends_def rolled_back_def)

lemma route_world: "snd (route clauses m w) = snd (m w)"
  by (simp add: route_def split: prod.splits sum.splits option.splits)

lemma serve_extends:
  assumes "handler w = (r, w1)" and "extends w w1" and "\<And>a task. r = Reply (a, task) \<Longrightarrow> reports task"
  shows "extends w (snd (serve ord handler w))"
proof (cases r)
  case (Reply p)
  then obtain a task where p: "r = Reply (a, task)" by (cases p) auto
  then have "extends w1 (snd (task w1))" using assms(3) reports_extends by blast
  then have "extends w (snd (task w1))" using assms(2) extends_trans by blast
  then show ?thesis
    using assms(1,2) p by (cases ord) (auto simp: serve_def close_request_def Let_def intro: extends_rolled_back)
qed (use assms(1,2) in \<open>simp_all add: serve_def extends_rolled_back\<close>)

lemma capture_task:
  assumes "capture_handler sv env m has_queue q w = (Inr (resp, task), w1)"
  shows "reports task"
proof -
  obtain p where "task = (case p of None \<Rightarrow> ret () | Some i \<Rightarrow> enqueue_task has_queue sv i)"
    using assms by (auto simp: capture_handler_def bindA_Inr_iff simp del: ret_simps) (auto simp: ret_def)
  then show ?thesis using reports_enqueue by (auto split: option.split)
qed

lemma capture_extends:
  assumes "capture ord sv env m has_queue c q l s w = (r, l', s', w')" and "hr_method q \<in> set HTTP_METHODS"
  shows "extends w w'"
proof -
  obtain allowed ms l1 s1 where limit: "enforce_token_limit c (hr_token q) ''capture'' CAPTURE_LIMIT_PER_HOUR 3600 l s = (allowed, ms, l1, s1)"
    by (metis prod_cases4)
  let ?w0 = "w\<lparr>w_metrics := w_metrics w @ ms\<rparr>"
  let ?h = "route capture_clauses (capture_handler sv env m has_queue q)"
  have w0: "extends w ?w0" by (rule extends_append [OF token_limit_reports [OF limit]]) (simp add: RATE_LIMIT_NAMES_def)
  have "str_upper (hr_method q) \<in> set HTTP_METHODS" using assms(2) upper_methods by (simp add: list_all_iff)
  then have "reports (capture_request sv env (capture_input_of q body))" for body
    by (intro reports_capture) (simp add: capture_input_of_def)
  then have "reports (capture_handler sv env m has_queue q)"
    unfolding capture_handler_def by (intro reports_bind reports_basic)
  then have "extends ?w0 (snd (?h ?w0))" by (simp add: route_world reports_extends)
  moreover have "reports task" if "?h ?w0 = (Reply (a, task), w1)" for a task w1
    using that capture_task by (fastforce simp: route_def split: prod.splits sum.splits option.splits)
  ultimately have "extends ?w0 (snd (serve ord ?h ?w0))"
    using serve_extends [of ?h ?w0] by (metis prod.collapse)
  then have "extends w (snd (serve ord ?h ?w0))" using w0 extends_trans by blast
  then show ?thesis using assms(1) w0 limit by (auto simp: capture_def Let_def split: sum.splits prod.splits)
qed

lemma replay_extends:
  assumes "replay_request_route sv clk c token i url hs body l s w = (r, l', s', w')"
  shows "extends w w'"
proof -
  obtain allowed ms l1 s1 where limit: "enforce_token_limit c token ''replay'' REPLAY_LIMIT_PER_HOUR 3600 l s = (allowed, ms, l1, s1)"
    by (metis prod_cases4)
  let ?w0 = "w\<lparr>w_metrics := w_metrics w @ ms\<rparr>"
  let ?m = "bindA (replay_request sv clk token i url hs body) (\<lambda>r. ret (replay_response_of r))"
  have w0: "extends w ?w0" by (rule extends_append [OF token_limit_reports [OF limit]]) (simp add: RATE_LIMIT_NAMES_def)
  have "reports ?m" by (intro reports_bind reports_replay reports_basic)
  then have "extends ?w0 (snd (route replay_clauses ?m ?w0))" by (simp add: route_world reports_extends)
  then have "extends w (snd (route replay_clauses ?m ?w0))" using w0 extends_trans by blast
  then show ?thesis
    using assms w0 limit by (auto simp: replay_request_route_def Let_def split: sum.splits prod.splits)
qed
section \<open>The cleaner\<close>

text \<open>\<open>run_cleanup\<close> with its metrics: counted after the commit, so a failed run leaves no heartbeat.\<close>

definition cleaner_job :: "time \<Rightarrow> int act" where
  "cleaner_job now =
     bindA (with_session (run_db_res (delete_expired now))) (\<lambda>deleted.
     bindA (emit (Cleaner_run deleted)) (\<lambda>_. ret deleted))"

text \<open>\<open>main\<close>: what is printed, or the exception that ends the process; the metrics are flushed in both cases.\<close>

definition cleaner_main :: "time \<Rightarrow> string act" where
  "cleaner_main now = bindA (cleaner_job now) (\<lambda>deleted. ret (''deleted '' @ str_int deleted @ '' expired endpoints''))"

definition cleaner_url :: "string \<Rightarrow> string" where
  "cleaner_url database_url =
     (if str_in ''+psycopg://'' database_url
      then str_replace ''postgresql+psycopg://'' ''postgresql+psycopg_async://'' database_url else database_url)"

lemma reports_cleaner: "reports (cleaner_job now)"
  unfolding cleaner_job_def by (intro reports_bind reports_session reports_basic reports_emit) simp

lemma counter_value_append [simp]: "counter_value i (xs @ ys) = counter_value i xs + counter_value i ys"
  by (simp add: counter_value_def)

text \<open>The counters move by exactly what the run deleted.\<close>

lemma cleaner_counts:
  assumes "cleaner_job now w = (Inr deleted, w')" and "\<not> w_aborted w"
  shows "w_metrics w' = w_metrics w @ [Cleaner_run deleted]"
    "deleted = int (length (db_endpoints (w_db w))) - int (length (db_endpoints (w_db w')))"
    "counter_value ''webhook_inspector.cleaner.deletions'' (OtelMetricsCollector dur (Cleaner_run deleted)) = deleted"
    "counter_value ''webhook_inspector.cleaner.runs.completed'' (OtelMetricsCollector dur (Cleaner_run deleted)) = 1"
proof -
  obtain d where d: "delete_expired now (w_db w) = (Inr deleted, d)"
    and w': "w' = w\<lparr>w_db := d, w_metrics := w_metrics w @ [Cleaner_run deleted]\<rparr>"
    using assms by (auto simp: cleaner_job_def bindA_Inr_iff run_db_res_Inr)
  show "w_metrics w' = w_metrics w @ [Cleaner_run deleted]" by (simp add: w')
  have n: "deleted = int (length (filter (\<lambda>e. ep_expires_at e < now) (db_endpoints (w_db w))))"
    and es: "db_endpoints d = filter (\<lambda>e. \<not> ep_expires_at e < now) (db_endpoints (w_db w))"
    using d by (auto simp: delete_expired_def Let_def sql_delete_def split: if_splits)
  have "length (filter p xs) + length (filter (\<lambda>x. \<not> p x) xs) = length xs" for p :: "endpoint \<Rightarrow> bool" and xs
    by (rule sum_length_filter_compl)
  from this [of "\<lambda>e. ep_expires_at e < now" "db_endpoints (w_db w)"]
  show "deleted = int (length (db_endpoints (w_db w))) - int (length (db_endpoints (w_db w')))" by (simp add: n es w')
  show "counter_value ''webhook_inspector.cleaner.deletions'' (OtelMetricsCollector dur (Cleaner_run deleted)) = deleted"
    "counter_value ''webhook_inspector.cleaner.runs.completed'' (OtelMetricsCollector dur (Cleaner_run deleted)) = 1"
    using n by (auto simp: counter_value_def)
qed

text \<open>A run that fails rolls back and counts nothing.\<close>

lemma failed_cleaner_is_silent:
  assumes "cleaner_job now w = (Inl e, w')"
  shows "w_db w' = w_db w \<and> w_metrics w' = w_metrics w"
  using assms by (auto simp: cleaner_job_def bindA_def with_session_def run_db_res_def split: prod.splits sum.splits if_splits)

section \<open>Runs of all operations\<close>

text \<open>One operation of any process, with whatever clock, limiter and input it meets.\<close>

inductive operation :: "world \<Rightarrow> world \<Rightarrow> bool" where
  deliver: "operation w (snd (execute_forward_job sv key clk s w))"
| capture: "hr_method q \<in> set HTTP_METHODS \<Longrightarrow> capture ord sv env cap has_queue c q l s w = (r, l', s', w') \<Longrightarrow> operation w w'"
| replay: "replay_request_route sv clk c token i url hs body l s w = (r, l', s', w') \<Longrightarrow> operation w w'"
| create: "operation w (snd (with_session (create_endpoint gen i now ttl slug status body hs delay) w))"
| enqueue: "operation w (snd (enqueue_task has_queue sv i w))"
| clean: "operation w (snd (cleaner_job now w))"
| limit: "rules = INGEST_RULES \<or> rules = API_RULES \<Longrightarrow>
    rate_limit_middleware rules c app scope path hs client l s = ((raised, acts, ms), l', s') \<Longrightarrow>
    operation w (w\<lparr>w_metrics := w_metrics w @ ms\<rparr>)"

lemma operation_extends: "operation w w' \<Longrightarrow> extends w w'"
proof (induction rule: operation.induct)
  case deliver
  show ?case using reports_forward_job reports_extends by blast
next
  case create
  show ?case using reports_session [OF reports_create_endpoint] reports_extends by blast
next
  case enqueue
  show ?case using reports_enqueue reports_extends by blast
next
  case clean
  show ?case using reports_cleaner reports_extends by blast
next
  case limit
  then show ?case by (intro extends_append middleware_reports)
qed (blast intro: capture_extends replay_extends)+

definition exported :: "(metric \<Rightarrow> int) \<Rightarrow> world \<Rightarrow> measurement list" where
  "exported duration w = concat (map (\<lambda>m. OtelMetricsCollector (duration m) m) (w_metrics w))"

lemma exported_series:
  assumes "list_all documented (w_metrics w)"
  shows "series ` set (exported duration w) \<subseteq> set all_series"
  using assms documented_series by (fastforce simp: exported_def list_all_iff)

section \<open>The instruments of the application\<close>

text \<open>
  \<open>_active_endpoints_gauge_loop\<close> (\<open>web/app/main.py\<close>): each round counts, or, when the database fails, keeps the
  last value. A round is given by its time and the database, if that answers. The callback reports the value.
\<close>

fun gauge_loop :: "int \<Rightarrow> (time \<times> db option) list \<Rightarrow> int" where
  "gauge_loop v [] = v"
| "gauge_loop v ((now, Some d) # rounds) = gauge_loop (count_active now d) rounds"
| "gauge_loop v ((now, None) # rounds) = gauge_loop v rounds"

definition gauge_callback :: "int \<Rightarrow> measurement list" where
  "gauge_callback last_value = [measured ''webhook_inspector.endpoints.active'' last_value []]"

text \<open>
  \<open>stream_for_token\<close> (\<open>web/app/sse.py\<close>) adds 1 to \<open>_active_sse\<close> once the endpoint is found, before its first chunk,
  and takes it back in its \<open>finally\<close>, however the stream ends.
\<close>

definition active_sse_opened :: "string list res \<Rightarrow> measurement list" where
  "active_sse_opened probe =
     (case probe of Inl e \<Rightarrow> [] | Inr chunks \<Rightarrow> [measured ''webhook_inspector.sse.active_connections'' 1 []])"

definition active_sse_closed :: "measurement list" where
  "active_sse_closed = [measured ''webhook_inspector.sse.active_connections'' (- 1) []]"

lemma gauge_last_answer:
  "list_all (\<lambda>(t, d). d = None) later \<Longrightarrow> gauge_loop v (before @ (now, Some d) # later) = count_active now d"
proof (induction v before rule: gauge_loop.induct)
  case (1 v)
  have "list_all (\<lambda>(t, d). d = None) later \<Longrightarrow> gauge_loop x later = x" for x
    by (induction x later rule: gauge_loop.induct) auto
  with 1 show ?case by simp
qed auto

text \<open>
  All that reports: the operations above, the streams that open, are refused or end, and the gauge with its
  rounds and its readings. The state counts the open streams and keeps what was measured directly.
\<close>

record telemetry =
  te_world :: world
  te_streams :: nat
  te_last_value :: int
  te_measured :: "measurement list"

definition telemetry_start :: "db \<Rightarrow> telemetry" where
  "telemetry_start d = \<lparr>te_world = new_world d, te_streams = 0, te_last_value = 0, te_measured = []\<rparr>"

inductive telemetry_step :: "telemetry \<Rightarrow> telemetry \<Rightarrow> bool" where
  operates: "operation (te_world t) w' \<Longrightarrow> telemetry_step t (t\<lparr>te_world := w'\<rparr>)"
| stream_opens: "stream_for_token render hook_url token d [] = Inr chunks \<Longrightarrow>
    telemetry_step t (t\<lparr>te_streams := te_streams t + 1,
      te_measured := te_measured t @ active_sse_opened (stream_for_token render hook_url token d [])\<rparr>)"
| stream_refused: "stream_for_token render hook_url token d [] = Inl e \<Longrightarrow>
    telemetry_step t (t\<lparr>te_measured := te_measured t @ active_sse_opened (stream_for_token render hook_url token d [])\<rparr>)"
| stream_ends: "0 < te_streams t \<Longrightarrow>
    telemetry_step t (t\<lparr>te_streams := te_streams t - 1, te_measured := te_measured t @ active_sse_closed\<rparr>)"
| gauge_round: "telemetry_step t (t\<lparr>te_last_value := gauge_loop (te_last_value t) [(now, answer)]\<rparr>)"
| gauge_read: "telemetry_step t (t\<lparr>te_measured := te_measured t @ gauge_callback (te_last_value t)\<rparr>)"

definition telemetry_ok :: "telemetry \<Rightarrow> bool" where
  "telemetry_ok t \<longleftrightarrow> list_all documented (w_metrics (te_world t)) \<and> series ` set (te_measured t) \<subseteq> set all_series \<and>
     counter_value ''webhook_inspector.sse.active_connections'' (te_measured t) = int (te_streams t) \<and> 0 \<le> te_last_value t"

lemma active_sse_measurements:
  "series ` set (active_sse_opened r) \<subseteq> set all_series" "series ` set active_sse_closed \<subseteq> set all_series"
  "series ` set (gauge_callback n) \<subseteq> set all_series"
  "counter_value ''webhook_inspector.sse.active_connections'' (active_sse_opened r) = (case r of Inl e \<Rightarrow> 0 | Inr c \<Rightarrow> 1)"
  "counter_value ''webhook_inspector.sse.active_connections'' active_sse_closed = - 1"
  "counter_value ''webhook_inspector.sse.active_connections'' (gauge_callback n) = 0"
  by (auto simp: active_sse_opened_def active_sse_closed_def gauge_callback_def series_def all_series_def counter_value_def
      split: sum.splits)

lemma telemetry_step_ok: "telemetry_step t t' \<Longrightarrow> telemetry_ok t \<Longrightarrow> telemetry_ok t'"
proof (induction rule: telemetry_step.induct)
  case (operates t w')
  then show ?case using operation_extends by (fastforce simp: telemetry_ok_def extends_def)
next
  case (gauge_round t now answer)
  then show ?case by (cases answer) (auto simp: telemetry_ok_def count_active_def)
qed (auto simp: telemetry_ok_def image_Un active_sse_measurements simp del: image_subset_iff)

text \<open>
  C30. The instruments the code creates report a bounded number of time series (an instrument with a set of
  labels): the collector of the metrics port, the gauge of active endpoints and the counter of open streams.
  However many captures, replays, deliveries, creations, limited requests and cleanings run, streams open
  and end and the gauge is read, whatever the clients send, the measurements belong to at most 47 series,
  because no label carries a token, an address, a path or any other text a client chooses. The counter of
  streams is always the number of streams open, and the gauge is never negative. What the OpenTelemetry
  instrumentation of FastAPI measures by itself is third-party code and not counted.
\<close>

theorem telemetry_is_bounded:
  assumes "telemetry_step\<^sup>*\<^sup>* (telemetry_start d) t"
  shows "card (series ` set (exported duration (te_world t) @ te_measured t)) \<le> 47 \<and>
    counter_value ''webhook_inspector.sse.active_connections'' (te_measured t) = int (te_streams t) \<and> 0 \<le> te_last_value t"
proof -
  have "telemetry_ok (telemetry_start d)"
    by (simp add: telemetry_ok_def telemetry_start_def new_world_def counter_value_def)
  with assms have ok: "telemetry_ok t" by (induction rule: rtranclp_induct) (auto intro: telemetry_step_ok)
  then have "series ` set (exported duration (te_world t) @ te_measured t) \<subseteq> set all_series"
    using exported_series by (simp add: telemetry_ok_def image_Un)
  then have "card (series ` set (exported duration (te_world t) @ te_measured t)) \<le> card (set all_series)"
    by (intro card_mono) simp_all
  then show ?thesis using card_length [of all_series] length_all_series ok by (simp add: telemetry_ok_def)
qed

text \<open>A run of the cleaner, then a stream that opens.\<close>

theorem telemetry_is_bounded_witness:
  "\<exists>t :: telemetry. te_world t = snd (cleaner_job 5 (new_world demo_db)) \<and> te_streams t = 1 \<and>
     te_measured t = [measured ''webhook_inspector.sse.active_connections'' 1 []] \<and>
     card (series ` set (exported (\<lambda>m. 0) (te_world t) @ te_measured t)) \<le> 47"
proof -
  let ?stream = "stream_for_token (\<lambda>r u. []) [] ''tok'' demo_db []"
  define t1 where "t1 = (telemetry_start demo_db)\<lparr>te_world := snd (cleaner_job 5 (new_world demo_db))\<rparr>"
  define t2 where "t2 = t1\<lparr>te_streams := te_streams t1 + 1, te_measured := te_measured t1 @ active_sse_opened ?stream\<rparr>"
  have "telemetry_step (telemetry_start demo_db) t1"
    unfolding t1_def by (intro telemetry_step.operates) (simp add: telemetry_start_def operation.clean)
  moreover obtain chunks where stream: "?stream = Inr chunks"
    by (simp add: stream_for_token_def find_by_token_eq demo_db_def demo_endpoint_def)
  then have "telemetry_step t1 t2" unfolding t2_def by (rule telemetry_step.stream_opens)
  ultimately have "telemetry_step\<^sup>*\<^sup>* (telemetry_start demo_db) t2" by (rule converse_rtranclp_into_rtranclp [OF _ r_into_rtranclp])
  from telemetry_is_bounded [OF this] have "card (series ` set (exported (\<lambda>m. 0) (te_world t2) @ te_measured t2)) \<le> 47"
    by (rule conjunct1)
  moreover have "te_world t2 = snd (cleaner_job 5 (new_world demo_db))" by (simp add: t2_def t1_def)
  moreover have "te_streams t2 = 1" "te_measured t2 = [measured ''webhook_inspector.sse.active_connections'' 1 []]"
    by (simp_all add: t2_def t1_def telemetry_start_def active_sse_opened_def stream)
  ultimately show ?thesis by blast
qed

section \<open>The OTLP headers\<close>

definition otlp_pair :: "string \<Rightarrow> dict \<Rightarrow> dict" where
  "otlp_pair pair out =
     (let p = str_strip pair in
      if p = [] \<or> CHR ''='' \<notin> set p then out
      else AList.update (str_strip (str_before (CHR ''='') p)) (str_strip (str_after (CHR ''='') p)) out)"

definition parse_otlp_headers :: "string option \<Rightarrow> dict" where
  "parse_otlp_headers raw = (if falsy raw then [] else fold otlp_pair (split_on (CHR '','') (the raw)) [])"

text \<open>Where the metrics go, and where the traces: the endpoint if one is set, else the console.\<close>

datatype exporter = Otlp string dict | Console

definition otlp_exporter :: "string \<Rightarrow> string option \<Rightarrow> string option \<Rightarrow> exporter" where
  "otlp_exporter signal otlp_endpoint otlp_headers =
     (if falsy otlp_endpoint then Console
      else Otlp (rstrip_slash (the otlp_endpoint) @ ''/v1/'' @ signal) (parse_otlp_headers otlp_headers))"

definition metrics_exporter :: "string option \<Rightarrow> string option \<Rightarrow> exporter" where
  "metrics_exporter = otlp_exporter ''metrics''"

definition traces_exporter :: "string option \<Rightarrow> string option \<Rightarrow> exporter" where
  "traces_exporter = otlp_exporter ''traces''"

text \<open>A text that neither begins nor ends with white space is its own strip.\<close>

definition trimmed :: "string \<Rightarrow> bool" where
  "trimmed s \<longleftrightarrow> is_ascii s \<and> (s = [] \<or> [hd s] \<notin> set white_space \<and> [last s] \<notin> set white_space)"

lemma str_strip_trimmed: "trimmed s \<Longrightarrow> str_strip s = s"
proof (cases "s = []")
  case True
  then show ?thesis by (simp add: str_strip_def)
next
  case False
  assume t: "trimmed s"
  let ?ws = "\<lambda>c. c \<in> set white_space" and ?cs = "map (\<lambda>c. [c]) s"
  have chars: "str_chars s = ?cs" using t by (simp add: trimmed_def str_chars_ascii)
  have "dropWhile ?ws ?cs = ?cs" using t False by (cases s) (auto simp: trimmed_def)
  moreover have "hd (rev ?cs) = [last s]" using False by (simp add: hd_rev last_map)
  then have "dropWhile ?ws (rev ?cs) = rev ?cs" using t False by (cases "rev ?cs") (auto simp: trimmed_def)
  ultimately show ?thesis unfolding str_strip_def Let_def chars by (simp add: comp_def)
qed

lemma trimmed_pair: "trimmed k \<Longrightarrow> trimmed v \<Longrightarrow> trimmed (k @ CHR ''='' # v)"
proof -
  have eq: "[CHR ''=''] \<notin> set white_space" "is_ascii ''=''" by code_simp+
  assume "trimmed k" "trimmed v"
  then show ?thesis using eq by (cases k) (auto simp: trimmed_def is_ascii_def hd_append)
qed

text \<open>What is written as a list of pairs is read back, if no comma or white space is in the way.\<close>

definition otlp_clean :: "string \<times> string \<Rightarrow> bool" where
  "otlp_clean kv \<longleftrightarrow> (case kv of (k, v) \<Rightarrow> trimmed k \<and> trimmed v \<and> CHR '','' \<notin> set (k @ v) \<and> CHR ''='' \<notin> set k)"

definition otlp_text :: "dict \<Rightarrow> string" where
  "otlp_text hs = (case map (\<lambda>(k, v). k @ CHR ''='' # v) hs of [] \<Rightarrow> [] | p # ps \<Rightarrow> p @ concat (map (\<lambda>q. CHR '','' # q) ps))"

lemma otlp_pair_clean: "otlp_clean (k, v) \<Longrightarrow> otlp_pair (k @ CHR ''='' # v) out = AList.update k v out"
  by (simp add: otlp_pair_def otlp_clean_def Let_def str_strip_trimmed trimmed_pair)

lemma split_pairs:
  "\<forall>p \<in> set (p # ps). CHR '','' \<notin> set p \<Longrightarrow> split_on (CHR '','') (p @ concat (map (\<lambda>q. CHR '','' # q) ps)) = p # ps"
  by (induction ps arbitrary: p) (simp_all add: split_on_no_sep split_on_append)

lemma otlp_fold:
  "list_all otlp_clean hs \<Longrightarrow> distinct (map fst (out @ hs)) \<Longrightarrow>
    fold otlp_pair (map (\<lambda>(k, v). k @ CHR ''='' # v) hs) out = out @ hs"
proof (induction hs arbitrary: out)
  case (Cons h hs)
  obtain k v where h: "h = (k, v)" by (cases h)
  have "AList.update k v out = out @ [(k, v)]" if "k \<notin> fst ` set out" using that by (induction out) auto
  then show ?case using Cons h by (simp add: otlp_pair_clean)
qed simp

lemma otlp_roundtrip:
  assumes "list_all otlp_clean hs" and "distinct (map fst hs)"
  shows "parse_otlp_headers (Some (otlp_text hs)) = hs"
proof (cases hs)
  case Nil
  then show ?thesis by (simp add: parse_otlp_headers_def otlp_text_def falsy_def)
next
  case (Cons h rest)
  let ?ps = "map (\<lambda>(k, v). k @ CHR ''='' # v) hs"
  have "\<forall>p \<in> set ?ps. CHR '','' \<notin> set p" using assms(1) by (auto simp: list_all_iff otlp_clean_def)
  then have "split_on (CHR '','') (otlp_text hs) = ?ps"
    using Cons split_pairs [of "hd ?ps" "tl ?ps"] by (simp add: otlp_text_def)
  moreover have "otlp_text hs \<noteq> []" using Cons by (cases h) (simp add: otlp_text_def)
  ultimately show ?thesis using otlp_fold [OF assms(1), of "[]"] assms(2) by (simp add: parse_otlp_headers_def falsy_def)
qed

section \<open>Log lines\<close>

definition STDLIB_RESERVED :: "string list" where
  "STDLIB_RESERVED =
     [''name'', ''msg'', ''args'', ''levelname'', ''levelno'', ''pathname'', ''filename'', ''module'', ''exc_info'', ''exc_text'',
      ''stack_info'', ''lineno'', ''funcName'', ''created'', ''msecs'', ''relativeCreated'', ''thread'', ''threadName'',
      ''processName'', ''process'', ''taskName'', ''message'', ''asctime'', ''_logger'', ''_name'', ''_from_structlog'', ''_record'']"

definition forwarded_key :: "string \<Rightarrow> bool" where
  "forwarded_key key \<longleftrightarrow> key \<notin> set STDLIB_RESERVED \<and> \<not> prefix ''__'' key"

text \<open>The attributes of the record are given as a dictionary, None when the event carries no record.\<close>

definition extract_from_record :: "(string \<times> 'v) list option \<Rightarrow> (string \<times> 'v) list \<Rightarrow> (string \<times> 'v) list" where
  "extract_from_record rec event_dict =
     (case rec of
        None \<Rightarrow> event_dict
      | Some attrs \<Rightarrow> fold (\<lambda>(k, v) d. if forwarded_key k then AList.update k v d else d) attrs event_dict)"

definition service_name_filter :: "'v \<Rightarrow> (string \<times> 'v) list \<Rightarrow> (string \<times> 'v) list" where
  "service_name_filter service_name attrs = AList.update ''service.name'' service_name attrs"

lemma extract_eq_update: "extract_from_record (Some attrs) d = dict_update d (dict_filter forwarded_key attrs)"
  unfolding extract_from_record_def dict_update_def dict_filter_def option.case
  by (induction attrs arbitrary: d) auto

text \<open>Every line names its service and shows the extra fields; the bookkeeping of the record stays out.\<close>

lemma log_line_fields:
  assumes "dict_wf attrs"
  shows "map_of (extract_from_record (Some (service_name_filter s attrs)) d) k =
    (if k = ''service.name'' then Some s
     else if forwarded_key k \<and> k \<in> fst ` set attrs then map_of attrs k else map_of d k)"
proof -
  have "forwarded_key ''service.name''" by code_simp
  moreover have "dict_wf (dict_filter forwarded_key (service_name_filter s attrs))"
    using assms by (simp add: service_name_filter_def)
  moreover have "map_of attrs k = None \<longleftrightarrow> k \<notin> fst ` set attrs" by (rule map_of_eq_None_iff)
  ultimately show ?thesis
    by (auto simp: extract_eq_update map_of_dict_update map_of_dict_filter service_name_filter_def split: option.splits)
qed

end
