(* ===== verification/Processes.thy ===== *)
theory Processes
  imports Startup Telemetry
begin

text \<open>
  The life of the processes: what the lifespans of the two applications (\<open>web/app/main.py\<close>,
  \<open>web/ingestor/main.py\<close>) and the hooks of the worker (\<open>jobs/worker.py\<close>) acquire and release, and what
  the dependencies (\<open>deps.py\<close>) hand from the settings to the use cases.
\<close>

section \<open>The forward queue of a process\<close>

text \<open>\<open>_forward_queue_singleton\<close> is known by the Redis URL of its pool.\<close>

datatype forward_queue = ArqForwardQueue string | NullForwardQueue

fun enqueue :: "services \<Rightarrow> forward_queue \<Rightarrow> uuid \<Rightarrow> int \<Rightarrow> unit act" where
  "enqueue sv (ArqForwardQueue url) forward_id delay = arq_enqueue sv forward_id delay"
| "enqueue sv NullForwardQueue forward_id delay = null_enqueue forward_id delay"

record process =
  pr_queue :: "string option"
  pr_notifier :: "(string \<times> notifier) option"
  pr_gauge_task :: bool
  pr_open_pools :: "string list"

definition new_process :: process where
  "new_process = \<lparr>pr_queue = None, pr_notifier = None, pr_gauge_task = False, pr_open_pools = []\<rparr>"

definition get_forward_queue :: "process \<Rightarrow> forward_queue" where
  "get_forward_queue p = (case pr_queue p of Some url \<Rightarrow> ArqForwardQueue url | None \<Rightarrow> NullForwardQueue)"

section \<open>The lifespans\<close>

definition sync_dsn :: "string \<Rightarrow> string" where
  "sync_dsn database_url = str_replace ''+psycopg'' '''' (str_replace ''+psycopg_async'' '''' database_url)"

text \<open>\<open>create_pool\<close>: the pool may not come up.\<close>

definition wire_queue :: "exn option \<Rightarrow> settings \<Rightarrow> process \<Rightarrow> unit res \<times> process" where
  "wire_queue pool_fault st p =
     (if falsy (st_redis_url st) then (Inr (), p)
      else case pool_fault of
        Some e \<Rightarrow> (Inl e, p)
      | None \<Rightarrow> (Inr (), p\<lparr>pr_queue := st_redis_url st, pr_open_pools := the (st_redis_url st) # pr_open_pools p\<rparr>))"

text \<open>\<open>aclose\<close> of the queue that is there.\<close>

definition release_queue :: "process \<Rightarrow> process" where
  "release_queue p =
     (case pr_queue p of
        None \<Rightarrow> p
      | Some url \<Rightarrow> p\<lparr>pr_queue := None, pr_open_pools := remove1 url (pr_open_pools p)\<rparr>)"

definition ingestor_start :: "exn option \<Rightarrow> settings \<Rightarrow> process \<Rightarrow> unit res \<times> process" where
  "ingestor_start pool_fault st p =
     (case web_startup st of Inl e \<Rightarrow> (Inl e, p) | Inr key \<Rightarrow> wire_queue pool_fault st p)"

definition ingestor_stop :: "process \<Rightarrow> process" where
  "ingestor_stop p = release_queue p"

text \<open>The application also starts the notifier, before the queue, and the task of the gauge, after it.\<close>

definition app_start :: "exn option \<Rightarrow> exn option \<Rightarrow> settings \<Rightarrow> process \<Rightarrow> unit res \<times> process" where
  "app_start listen_fault pool_fault st p =
     (case web_startup st of
        Inl e \<Rightarrow> (Inl e, p)
      | Inr key \<Rightarrow>
          (case notifier_start listen_fault notifier_init of
             (Inl e, n) \<Rightarrow> (Inl e, p)
           | (Inr u, n) \<Rightarrow>
               (case wire_queue pool_fault st (p\<lparr>pr_notifier := Some (sync_dsn (st_database_url st), n)\<rparr>) of
                  (Inl e, p') \<Rightarrow> (Inl e, p')
                | (Inr v, p') \<Rightarrow> (Inr (), p'\<lparr>pr_gauge_task := True\<rparr>))))"

definition app_stop :: "process \<Rightarrow> process" where
  "app_stop p = release_queue (p\<lparr>pr_gauge_task := False, pr_notifier := map_option (\<lambda>(dsn, n). (dsn, notifier_stop n)) (pr_notifier p)\<rparr>)"

section \<open>What the use cases are given\<close>

text \<open>The providers of \<open>deps.py\<close> that read the settings; the key was checked at the start.\<close>

definition get_create_endpoint ::
  "settings \<Rightarrow> string \<Rightarrow> uuid \<Rightarrow> time \<Rightarrow> string option \<Rightarrow> int \<Rightarrow> string \<Rightarrow> dict option \<Rightarrow> int \<Rightarrow> endpoint act" where
  "get_create_endpoint st generated new_id now = create_endpoint generated new_id now (st_endpoint_ttl_days st)"

definition get_export_requests ::
  "settings \<Rightarrow> (string \<Rightarrow> string option res) \<Rightarrow> time \<Rightarrow> string \<Rightarrow> db \<Rightarrow> db \<Rightarrow> string list \<times> exn option" where
  "get_export_requests st get = export_requests get (st_export_max_requests st)"

definition get_update_endpoint_config ::
  "settings \<Rightarrow> services \<Rightarrow> string \<Rightarrow> string \<Rightarrow> string \<Rightarrow> config_patch \<Rightarrow> unit act" where
  "get_update_endpoint_config st sv nonce1 nonce2 token p =
     bindA (lift_res (key_of_settings st)) (\<lambda>key. update_endpoint_config sv key nonce1 nonce2 token p)"

definition get_capture_request :: "settings \<Rightarrow> services \<Rightarrow> capture_env \<Rightarrow> capture_input \<Rightarrow> capture_result act" where
  "get_capture_request st sv env inp =
     bindA (lift_res (key_of_settings st)) (\<lambda>key.
       capture_request sv (env\<lparr>ce_inline_threshold := st_body_inline_threshold_bytes st, ce_secrets_key := key\<rparr>) inp)"

section \<open>The worker\<close>

record worker_context =
  wc_secrets_key :: string
  wc_blob_storage :: blob_backend
  wc_settings :: settings

definition startup :: "settings \<Rightarrow> worker_context res" where
  "startup st =
     bindR (if st_environment st = ''prod'' \<and> falsy (st_redis_url st) then Inl RuntimeError else Inr ()) (\<lambda>_.
     bindR (make_blob_storage st) (\<lambda>storage.
     bindR (key_of_settings st) (\<lambda>key.
     Inr \<lparr>wc_secrets_key = key, wc_blob_storage = storage, wc_settings = st\<rparr>)))"

definition execute_forward_wrapper :: "services \<Rightarrow> forward_clock \<Rightarrow> worker_context \<Rightarrow> string \<Rightarrow> unit act" where
  "execute_forward_wrapper sv clk ctx = execute_forward_job sv (wc_secrets_key ctx) clk"

text \<open>\<open>shutdown\<close>: a failing dispose is logged, and the flushes follow in any case.\<close>

datatype shutdown_step = Dispose_engine | Flush_metrics | Flush_traces

definition shutdown :: "bool \<Rightarrow> exn option \<Rightarrow> shutdown_step list" where
  "shutdown has_engine dispose_fault =
     (if has_engine \<and> dispose_fault = None then [Dispose_engine] else []) @ [Flush_metrics, Flush_traces]"

text \<open>
  arq reads the Redis URL from the environment when the module is imported; \<open>Settings\<close> takes a value from
  the environment or else from the file \<open>.env\<close>.
\<close>

definition read_setting :: "dict \<Rightarrow> dict \<Rightarrow> string \<Rightarrow> string option" where
  "read_setting environ env_file name = (case map_of environ name of Some v \<Rightarrow> Some v | None \<Rightarrow> map_of env_file name)"

definition worker_redis_dsn :: "dict \<Rightarrow> string" where
  "worker_redis_dsn environ = dict_get environ ''REDIS_URL'' ''redis://localhost:6379''"

definition rate_limit_url :: "dict \<Rightarrow> string option" where
  "rate_limit_url environ = map_of environ ''RATE_LIMIT_REDIS_URL''"

section \<open>Started and stopped processes\<close>

text \<open>\<open>has_queue\<close> of the routes is the queue of the process.\<close>

lemma enqueue_task_queue:
  "enqueue_task (pr_queue p \<noteq> None) sv i =
     (case get_forward_queue p of
        ArqForwardQueue url \<Rightarrow> catchA (enqueue sv (ArqForwardQueue url) i 0) (\<lambda>e. emit Forward_enqueue_failed)
      | NullForwardQueue \<Rightarrow> enqueue sv NullForwardQueue i 0)"
  by (auto simp: enqueue_task_def get_forward_queue_def safe_enqueue_def split: option.split)

lemma null_queue_drops: "get_forward_queue p = NullForwardQueue \<Longrightarrow> enqueue sv (get_forward_queue p) i n w = (Inr (), w)"
  by (simp add: null_enqueue_def)

lemma wire_queue_Inr:
  "wire_queue f st p = (Inr u, p') \<Longrightarrow> pr_queue p = None \<Longrightarrow>
    (if falsy (st_redis_url st) then p' = p
     else p' = p\<lparr>pr_queue := st_redis_url st, pr_open_pools := the (st_redis_url st) # pr_open_pools p\<rparr>)"
  by (auto simp: wire_queue_def split: option.splits if_splits)

text \<open>In production a started web process has the queue of its settings, and stopping it leaves no pool open.\<close>

lemma ingestor_life:
  assumes "ingestor_start f st new_process = (Inr u, p)"
  shows "st_environment st = ''prod'' \<Longrightarrow> get_forward_queue p = ArqForwardQueue (the (st_redis_url st))"
    "ingestor_stop p = new_process"
proof -
  obtain key where key: "web_startup st = Inr key" and wire: "wire_queue f st new_process = (Inr u, p)"
    using assms by (auto simp: ingestor_start_def split: sum.splits)
  have p: "if falsy (st_redis_url st) then p = new_process
     else p = new_process\<lparr>pr_queue := st_redis_url st, pr_open_pools := [the (st_redis_url st)]\<rparr>"
    using wire_queue_Inr [OF wire] by (simp add: new_process_def)
  show "get_forward_queue p = ArqForwardQueue (the (st_redis_url st))" if "st_environment st = ''prod''"
    using web_startup_guarantees [OF key that] p by (auto simp: get_forward_queue_def falsy_def split: option.splits)
  show "ingestor_stop p = new_process"
    using p by (auto simp: ingestor_stop_def release_queue_def new_process_def falsy_def split: if_splits option.splits)
qed

lemma app_life:
  assumes "app_start lf f st new_process = (Inr u, p)"
  shows "st_environment st = ''prod'' \<Longrightarrow> get_forward_queue p = ArqForwardQueue (the (st_redis_url st))"
    "pr_gauge_task p" "\<exists>n. pr_notifier p = Some (sync_dsn (st_database_url st), n) \<and> listening n"
    "pr_open_pools (app_stop p) = []" "\<exists>n. pr_notifier (app_stop p) = Some (sync_dsn (st_database_url st), n) \<and> \<not> listening n"
proof -
  obtain key n p1 where key: "web_startup st = Inr key" and n: "notifier_start lf notifier_init = (Inr (), n)"
    and wire: "wire_queue f st (new_process\<lparr>pr_notifier := Some (sync_dsn (st_database_url st), n)\<rparr>) = (Inr (), p1)"
    and p: "p = p1\<lparr>pr_gauge_task := True\<rparr>"
    using assms by (auto simp: app_start_def split: sum.splits prod.splits)
  have p1: "if falsy (st_redis_url st) then p1 = new_process\<lparr>pr_notifier := Some (sync_dsn (st_database_url st), n)\<rparr>
     else p1 = new_process\<lparr>pr_notifier := Some (sync_dsn (st_database_url st), n), pr_queue := st_redis_url st,
       pr_open_pools := [the (st_redis_url st)]\<rparr>"
    using wire_queue_Inr [OF wire] by (simp add: new_process_def)
  have l: "listening n" "\<not> listening (notifier_stop n)"
    using n by (auto simp: notifier_start_def notifier_init_def listening_def notifier_stop_def split: option.splits if_splits)
  show "get_forward_queue p = ArqForwardQueue (the (st_redis_url st))" if "st_environment st = ''prod''"
    using web_startup_guarantees [OF key that] p p1 by (auto simp: get_forward_queue_def falsy_def split: option.splits)
  show "pr_gauge_task p" by (simp add: p)
  show "\<exists>n. pr_notifier p = Some (sync_dsn (st_database_url st), n) \<and> listening n"
    using p p1 l by (auto split: if_splits)
  show "pr_open_pools (app_stop p) = []"
    using p p1 by (auto simp: app_stop_def release_queue_def new_process_def falsy_def split: if_splits option.splits)
  show "\<exists>n. pr_notifier (app_stop p) = Some (sync_dsn (st_database_url st), n) \<and> \<not> listening n"
    using p p1 l by (auto simp: app_stop_def release_queue_def new_process_def falsy_def split: if_splits option.splits)
qed

text \<open>When the pool does not come up after the notifier did, nothing stops the notifier: the \<open>try\<close> begins later.\<close>

lemma failed_start_leaves_notifier:
  assumes "app_start None (Some e) st new_process = (Inl e, p)" and "web_startup st = Inr key" and "\<not> falsy (st_redis_url st)"
  shows "\<exists>n. pr_notifier p = Some (sync_dsn (st_database_url st), n) \<and> listening n"
  using assms by (auto simp: app_start_def wire_queue_def notifier_start_def notifier_init_def listening_def)

text \<open>The start checks of production also read \<open>.env\<close>, the clients they stand for do not.\<close>

lemma start_check_reads_more:
  assumes "map_of environ ''REDIS_URL'' = None" and "map_of environ ''RATE_LIMIT_REDIS_URL'' = None"
    and "map_of env_file ''REDIS_URL'' = Some a" and "map_of env_file ''RATE_LIMIT_REDIS_URL'' = Some b"
    and "a \<noteq> []" and "b \<noteq> []" and "web_startup (st\<lparr>st_environment := ''local''\<rparr>) = Inr key"
    and "st_redis_url st = read_setting environ env_file ''REDIS_URL''"
    and "st_rate_limit_redis_url st = read_setting environ env_file ''RATE_LIMIT_REDIS_URL''"
  shows "web_startup (st\<lparr>st_environment := ''prod''\<rparr>) = Inr key \<and> rate_limit_url environ = None \<and>
    worker_redis_dsn environ = ''redis://localhost:6379''"
  using assms by (auto simp: web_startup_def read_setting_def rate_limit_url_def worker_redis_dsn_def dict_get_def falsy_def bindR_Inr_iff)

section \<open>The addresses of the database\<close>

lemma str_replace_absent: "\<not> str_in old s \<Longrightarrow> str_replace old new s = s"
  by (induction s) auto

lemma sync_dsn_driver:
  assumes "\<not> str_in ''+psycopg'' rest"
  shows "sync_dsn (''postgresql+psycopg://'' @ rest) = ''postgresql://'' @ rest"
    "sync_dsn (''postgresql+psycopg_async://'' @ rest) = ''postgresql://'' @ rest"
proof -
  have async: "\<not> str_in ''+psycopg_async'' rest"
    using assms unfolding str_in_iff by (metis append.assoc append_Cons append_Nil)
  show "sync_dsn (''postgresql+psycopg://'' @ rest) = ''postgresql://'' @ rest"
    "sync_dsn (''postgresql+psycopg_async://'' @ rest) = ''postgresql://'' @ rest"
    unfolding sync_dsn_def by (simp_all add: str_replace_absent [OF assms] str_replace_absent [OF async])
qed

end
