(* ===== verification/Ddl.thy ===== *)
theory Ddl
  imports Json Entities
begin

text \<open>
  The statements of the migrations on a database of PostgreSQL: a schema of tables, constraints and indexes,
  and the rows below it. A statement first changes the schema, which fails by what is declared, then the
  rows, which fails by what they hold. \<open>conforms\<close> is what the schema promises of the rows; every
  statement that succeeds keeps it.
\<close>

section \<open>Values and rows\<close>

datatype sql_type = T_uuid | T_varchar | T_text | T_integer | T_smallint | T_timestamp | T_timestamptz
  | T_jsonb | T_bytea | T_inet | T_tsvector

datatype sql_value = V_null | V_uuid uuid | V_text string | V_int int | V_time time | V_jsonb json
  | V_bytes string | V_inet string | V_tsvector string

text \<open>A row has a value in every column; it is null in those its table lacks.\<close>

type_synonym row = "string \<Rightarrow> sql_value"

fun has_type :: "sql_type \<Rightarrow> sql_value \<Rightarrow> bool" where
  "has_type ty V_null = True"
| "has_type ty (V_uuid u) = (ty = T_uuid)"
| "has_type ty (V_text s) = (ty = T_varchar \<or> ty = T_text)"
| "has_type ty (V_int i) = (ty = T_integer \<or> ty = T_smallint)"
| "has_type ty (V_time t) = (ty = T_timestamp \<or> ty = T_timestamptz)"
| "has_type ty (V_jsonb j) = (ty = T_jsonb)"
| "has_type ty (V_bytes b) = (ty = T_bytea)"
| "has_type ty (V_inet s) = (ty = T_inet)"
| "has_type ty (V_tsvector s) = (ty = T_tsvector)"

text \<open>Conditions have three values, None being SQL's unknown.\<close>

datatype cond =
    Is_null string
  | Is_not_null string
  | In_values string "string list"
  | Cond_or cond cond
  | Null_differs string string

fun or3 :: "bool option \<Rightarrow> bool option \<Rightarrow> bool option" where
  "or3 (Some True) b = Some True"
| "or3 a (Some True) = Some True"
| "or3 (Some False) (Some False) = Some False"
| "or3 a b = None"

fun eval_cond :: "cond \<Rightarrow> row \<Rightarrow> bool option" where
  "eval_cond (Is_null c) r = Some (r c = V_null)"
| "eval_cond (Is_not_null c) r = Some (r c \<noteq> V_null)"
| "eval_cond (In_values c vs) r =
     (if r c = V_null then None else Some (list_ex (\<lambda>s. r c = V_text s) vs))"
| "eval_cond (Cond_or a b) r = or3 (eval_cond a r) (eval_cond b r)"
| "eval_cond (Null_differs a b) r = Some ((r a \<noteq> V_null) \<noteq> (r b \<noteq> V_null))"

fun cond_columns :: "cond \<Rightarrow> string list" where
  "cond_columns (Is_null c) = [c]"
| "cond_columns (Is_not_null c) = [c]"
| "cond_columns (In_values c vs) = [c]"
| "cond_columns (Cond_or a b) = cond_columns a @ cond_columns b"
| "cond_columns (Null_differs a b) = [a, b]"

lemma eval_cond_cong: "\<forall>c \<in> set (cond_columns p). r' c = r c \<Longrightarrow> eval_cond p r' = eval_cond p r"
  by (induction p) auto

section \<open>Schemas\<close>

text \<open>A generated column holds the text search vector of the columns listed, in their order.\<close>

datatype col_default = No_default | Const_default sql_value | Now_default | Generated "string list"

record column =
  cl_name :: string
  cl_type :: sql_type
  cl_nullable :: bool
  cl_default :: col_default

record foreign_key =
  fk_column :: string
  fk_table :: string
  fk_ref :: string
  fk_cascade :: bool

record sql_table =
  tb_columns :: "column list"
  tb_pk :: "string list"
  tb_fks :: "foreign_key list"
  tb_checks :: "(string \<times> cond) list"

datatype index_key = Key string | Key_desc string | Key_or_empty string

record sql_index =
  ix_table :: string
  ix_keys :: "index_key list"
  ix_unique :: bool
  ix_where :: "cond option"

record schema =
  sc_tables :: "(string \<times> sql_table) list"
  sc_indexes :: "(string \<times> sql_index) list"

fun key_column :: "index_key \<Rightarrow> string" where
  "key_column (Key c) = c"
| "key_column (Key_desc c) = c"
| "key_column (Key_or_empty c) = c"

abbreviation column_names :: "sql_table \<Rightarrow> string list" where
  "column_names t \<equiv> map cl_name (tb_columns t)"

definition index_columns :: "sql_index \<Rightarrow> string list" where
  "index_columns ix = map key_column (ix_keys ix) @ (case ix_where ix of None \<Rightarrow> [] | Some p \<Rightarrow> cond_columns p)"

definition is_generated :: "column \<Rightarrow> bool" where
  "is_generated c \<longleftrightarrow> (case cl_default c of Generated deps \<Rightarrow> True | _ \<Rightarrow> False)"

definition generated_from :: "column \<Rightarrow> string list" where
  "generated_from c = (case cl_default c of Generated deps \<Rightarrow> deps | _ \<Rightarrow> [])"

definition default_ok :: "column \<Rightarrow> bool" where
  "default_ok c \<longleftrightarrow>
     (case cl_default c of
        No_default \<Rightarrow> True
      | Const_default v \<Rightarrow> has_type (cl_type c) v
      | Now_default \<Rightarrow> cl_type c = T_timestamp \<or> cl_type c = T_timestamptz
      | Generated deps \<Rightarrow> cl_type c = T_tsvector)"

definition table_wf :: "sql_table \<Rightarrow> bool" where
  "table_wf t \<longleftrightarrow>
     distinct (column_names t) \<and> list_all default_ok (tb_columns t) \<and>
     set (tb_pk t) \<subseteq> set (column_names t) \<and>
     list_all (\<lambda>fk. fk_column fk \<in> set (column_names t)) (tb_fks t) \<and>
     list_all (\<lambda>(k, p). set (cond_columns p) \<subseteq> set (column_names t)) (tb_checks t) \<and>
     list_all (\<lambda>c. set (generated_from c) \<subseteq> set (map cl_name (filter (\<lambda>c. \<not> is_generated c) (tb_columns t)))) (tb_columns t)"

definition fk_wf :: "(string \<times> sql_table) list \<Rightarrow> foreign_key \<Rightarrow> bool" where
  "fk_wf ts fk \<longleftrightarrow> (case map_of ts (fk_table fk) of None \<Rightarrow> False | Some t \<Rightarrow> fk_ref fk \<in> set (column_names t))"

definition index_wf :: "(string \<times> sql_table) list \<Rightarrow> sql_index \<Rightarrow> bool" where
  "index_wf ts ix \<longleftrightarrow> (case map_of ts (ix_table ix) of None \<Rightarrow> False | Some t \<Rightarrow> set (index_columns ix) \<subseteq> set (column_names t))"

definition schema_wf :: "schema \<Rightarrow> bool" where
  "schema_wf s \<longleftrightarrow>
     distinct (map fst (sc_tables s)) \<and> distinct (map fst (sc_indexes s)) \<and>
     list_all (\<lambda>(n, t). table_wf t \<and> list_all (fk_wf (sc_tables s)) (tb_fks t)) (sc_tables s) \<and>
     list_all (\<lambda>(k, ix). index_wf (sc_tables s) ix) (sc_indexes s)"

section \<open>Statements\<close>

datatype ddl =
    Create_table string sql_table
  | Drop_table string
  | Add_column string column
  | Drop_column string string bool
  | Add_check string string cond
  | Drop_constraint string string
  | Create_index string sql_index bool
  | Drop_index string bool
  | Update_column string string sql_value cond

datatype db_error = DuplicateTable | UndefinedTable | DuplicateColumn | UndefinedColumn | DuplicateObject
  | UndefinedObject | DatatypeMismatch | DependentObjectsStillExist | NotNullViolation | CheckViolation
  | UniqueViolation

definition change_table :: "string \<Rightarrow> (sql_table \<Rightarrow> sql_table) \<Rightarrow> schema \<Rightarrow> schema" where
  "change_table n f s = s\<lparr>sc_tables := map (\<lambda>(m, t). (m, if m = n then f t else t)) (sc_tables s)\<rparr>"

definition on_table :: "string \<Rightarrow> (sql_table \<Rightarrow> db_error + schema) \<Rightarrow> schema \<Rightarrow> db_error + schema" where
  "on_table n f s = (case map_of (sc_tables s) n of None \<Rightarrow> Inl UndefinedTable | Some t \<Rightarrow> f t)"

text \<open>Dropping a column drops the constraints and indexes that use it.\<close>

definition without_column :: "string \<Rightarrow> sql_table \<Rightarrow> sql_table" where
  "without_column c t =
     t\<lparr>tb_columns := filter (\<lambda>cl. cl_name cl \<noteq> c) (tb_columns t),
       tb_pk := (if c \<in> set (tb_pk t) then [] else tb_pk t),
       tb_fks := filter (\<lambda>fk. fk_column fk \<noteq> c) (tb_fks t),
       tb_checks := filter (\<lambda>(k, p). c \<notin> set (cond_columns p)) (tb_checks t)\<rparr>"

definition column_in_use :: "string \<Rightarrow> string \<Rightarrow> schema \<Rightarrow> bool" where
  "column_in_use n c s \<longleftrightarrow>
     list_ex (\<lambda>(m, t). list_ex (\<lambda>fk. fk_table fk = n \<and> fk_ref fk = c) (tb_fks t) \<or>
       m = n \<and> list_ex (\<lambda>cl. c \<in> set (generated_from cl)) (tb_columns t)) (sc_tables s)"

fun schema_exec :: "ddl \<Rightarrow> schema \<Rightarrow> db_error + schema" where
  "schema_exec (Create_table n t) s =
     (if n \<in> fst ` set (sc_tables s) then Inl DuplicateTable
      else if \<not> table_wf t then Inl UndefinedColumn
      else if \<not> list_all (fk_wf (sc_tables s @ [(n, t)])) (tb_fks t) then Inl UndefinedTable
      else Inr (s\<lparr>sc_tables := sc_tables s @ [(n, t)]\<rparr>))"
| "schema_exec (Drop_table n) s =
     on_table n (\<lambda>_.
       if list_ex (\<lambda>(m, t). m \<noteq> n \<and> list_ex (\<lambda>fk. fk_table fk = n) (tb_fks t)) (sc_tables s)
       then Inl DependentObjectsStillExist
       else Inr \<lparr>sc_tables = filter (\<lambda>(m, t). m \<noteq> n) (sc_tables s),
                 sc_indexes = filter (\<lambda>(k, ix). ix_table ix \<noteq> n) (sc_indexes s)\<rparr>) s"
| "schema_exec (Add_column n cl) s =
     on_table n (\<lambda>t.
       if cl_name cl \<in> set (column_names t) then Inl DuplicateColumn
       else if \<not> default_ok cl then Inl DatatypeMismatch
       else if \<not> set (generated_from cl) \<subseteq> set (map cl_name (filter (\<lambda>c. \<not> is_generated c) (tb_columns t)))
       then Inl UndefinedColumn
       else Inr (change_table n (\<lambda>t. t\<lparr>tb_columns := tb_columns t @ [cl]\<rparr>) s)) s"
| "schema_exec (Drop_column n c if_exists) s =
     on_table n (\<lambda>t.
       if c \<notin> set (column_names t) then (if if_exists then Inr s else Inl UndefinedColumn)
       else if column_in_use n c s then Inl DependentObjectsStillExist
       else Inr ((change_table n (without_column c) s)\<lparr>sc_indexes :=
              filter (\<lambda>(k, ix). \<not> (ix_table ix = n \<and> c \<in> set (index_columns ix))) (sc_indexes s)\<rparr>)) s"
| "schema_exec (Add_check n k p) s =
     on_table n (\<lambda>t.
       if k \<in> fst ` set (tb_checks t) then Inl DuplicateObject
       else if \<not> set (cond_columns p) \<subseteq> set (column_names t) then Inl UndefinedColumn
       else Inr (change_table n (\<lambda>t. t\<lparr>tb_checks := tb_checks t @ [(k, p)]\<rparr>) s)) s"
| "schema_exec (Drop_constraint n k) s =
     on_table n (\<lambda>t.
       if k \<notin> fst ` set (tb_checks t) then Inl UndefinedObject
       else Inr (change_table n (\<lambda>t. t\<lparr>tb_checks := filter (\<lambda>(j, p). j \<noteq> k) (tb_checks t)\<rparr>) s)) s"
| "schema_exec (Create_index k ix if_not_exists) s =
     (if k \<in> fst ` set (sc_indexes s) then (if if_not_exists then Inr s else Inl DuplicateTable)
      else on_table (ix_table ix) (\<lambda>t.
        if \<not> set (index_columns ix) \<subseteq> set (column_names t) then Inl UndefinedColumn
        else Inr (s\<lparr>sc_indexes := sc_indexes s @ [(k, ix)]\<rparr>)) s)"
| "schema_exec (Drop_index k if_exists) s =
     (if k \<notin> fst ` set (sc_indexes s) then (if if_exists then Inr s else Inl UndefinedObject)
      else Inr (s\<lparr>sc_indexes := filter (\<lambda>(j, ix). j \<noteq> k) (sc_indexes s)\<rparr>))"
| "schema_exec (Update_column n c v p) s =
     on_table n (\<lambda>t.
       if \<not> set (c # cond_columns p) \<subseteq> set (map cl_name (filter (\<lambda>c. \<not> is_generated c) (tb_columns t))) then Inl UndefinedColumn
       else Inr s) s"

section \<open>What a schema promises of the rows\<close>

type_synonym data = "string \<Rightarrow> row list"

text \<open>The server: its clock and \<open>to_tsvector\<close> on the concatenated text of some values.\<close>

record pg_env =
  pe_now :: time
  pe_tsvector :: "sql_value list \<Rightarrow> string"

definition cell_ok :: "pg_env \<Rightarrow> column \<Rightarrow> row \<Rightarrow> bool" where
  "cell_ok env c r \<longleftrightarrow>
     has_type (cl_type c) (r (cl_name c)) \<and> (cl_nullable c \<or> r (cl_name c) \<noteq> V_null) \<and>
     (is_generated c \<longrightarrow> r (cl_name c) = V_tsvector (pe_tsvector env (map r (generated_from c))))"

definition row_ok :: "pg_env \<Rightarrow> sql_table \<Rightarrow> row \<Rightarrow> bool" where
  "row_ok env t r \<longleftrightarrow>
     list_all (\<lambda>c. cell_ok env c r) (tb_columns t) \<and>
     list_all (\<lambda>(k, p). eval_cond p r \<noteq> Some False) (tb_checks t)"

definition fk_ok :: "data \<Rightarrow> foreign_key \<Rightarrow> row \<Rightarrow> bool" where
  "fk_ok d fk r \<longleftrightarrow>
     r (fk_column fk) = V_null \<or> list_ex (\<lambda>p. p (fk_ref fk) = r (fk_column fk)) (d (fk_table fk))"

definition rows_ok :: "pg_env \<Rightarrow> data \<Rightarrow> string \<Rightarrow> sql_table \<Rightarrow> bool" where
  "rows_ok env d n t \<longleftrightarrow>
     list_all (row_ok env t) (d n) \<and>
     (tb_pk t = [] \<or> distinct (map (\<lambda>r. map r (tb_pk t)) (d n))) \<and>
     list_all (\<lambda>r. list_all (\<lambda>fk. fk_ok d fk r) (tb_fks t)) (d n)"

fun key_value :: "index_key \<Rightarrow> row \<Rightarrow> sql_value" where
  "key_value (Key c) r = r c"
| "key_value (Key_desc c) r = r c"
| "key_value (Key_or_empty c) r = (if r c = V_null then V_text [] else r c)"

definition index_matches :: "sql_index \<Rightarrow> row \<Rightarrow> bool" where
  "index_matches ix r \<longleftrightarrow> (case ix_where ix of None \<Rightarrow> True | Some p \<Rightarrow> eval_cond p r = Some True)"

text \<open>Null keys never clash.\<close>

definition index_ok :: "sql_index \<Rightarrow> row list \<Rightarrow> bool" where
  "index_ok ix rows \<longleftrightarrow>
     (ix_unique ix \<longrightarrow> distinct (filter (\<lambda>vs. V_null \<notin> set vs)
        (map (\<lambda>r. map (\<lambda>k. key_value k r) (ix_keys ix)) (filter (index_matches ix) rows))))"

definition data_ok :: "pg_env \<Rightarrow> schema \<Rightarrow> data \<Rightarrow> bool" where
  "data_ok env s d \<longleftrightarrow>
     list_all (\<lambda>(n, t). rows_ok env d n t) (sc_tables s) \<and>
     list_all (\<lambda>(k, ix). index_ok ix (d (ix_table ix))) (sc_indexes s)"

definition padded :: "schema \<Rightarrow> data \<Rightarrow> bool" where
  "padded s d \<longleftrightarrow>
     (\<forall>n. n \<notin> fst ` set (sc_tables s) \<longrightarrow> d n = []) \<and>
     (\<forall>(n, t) \<in> set (sc_tables s). \<forall>r \<in> set (d n). \<forall>c. c \<notin> set (column_names t) \<longrightarrow> r c = V_null)"

definition conforms :: "pg_env \<Rightarrow> schema \<Rightarrow> data \<Rightarrow> bool" where
  "conforms env s d \<longleftrightarrow> data_ok env s d \<and> padded s d"

section \<open>Statements on the rows\<close>

definition default_value :: "pg_env \<Rightarrow> column \<Rightarrow> row \<Rightarrow> sql_value" where
  "default_value env c r =
     (case cl_default c of
        No_default \<Rightarrow> V_null
      | Const_default v \<Rightarrow> v
      | Now_default \<Rightarrow> V_time (pe_now env)
      | Generated deps \<Rightarrow> V_tsvector (pe_tsvector env (map r deps)))"

text \<open>An update computes the generated columns of its rows anew.\<close>

definition regenerate :: "pg_env \<Rightarrow> sql_table \<Rightarrow> row \<Rightarrow> row" where
  "regenerate env t r =
     (\<lambda>n. case filter (\<lambda>c. is_generated c \<and> cl_name c = n) (tb_columns t) of
        [] \<Rightarrow> r n | c # cs \<Rightarrow> default_value env c r)"

definition updated_rows :: "pg_env \<Rightarrow> schema \<Rightarrow> string \<Rightarrow> string \<Rightarrow> sql_value \<Rightarrow> cond \<Rightarrow> data \<Rightarrow> row list" where
  "updated_rows env s n c v p d =
     (case map_of (sc_tables s) n of
        None \<Rightarrow> d n
      | Some t \<Rightarrow> map (\<lambda>r. if eval_cond p r = Some True then regenerate env t (r(c := v)) else r) (d n))"

fun data_exec :: "pg_env \<Rightarrow> ddl \<Rightarrow> schema \<Rightarrow> data \<Rightarrow> db_error + data" where
  "data_exec env (Create_table n t) s d = Inr (d(n := []))"
| "data_exec env (Drop_table n) s d = Inr (d(n := []))"
| "data_exec env (Add_column n cl) s d =
     (if \<not> cl_nullable cl \<and> list_ex (\<lambda>r. default_value env cl r = V_null) (d n) then Inl NotNullViolation
      else Inr (d(n := map (\<lambda>r. r(cl_name cl := default_value env cl r)) (d n))))"
| "data_exec env (Drop_column n c if_exists) s d = Inr (d(n := map (\<lambda>r. r(c := V_null)) (d n)))"
| "data_exec env (Add_check n k p) s d =
     (if list_ex (\<lambda>r. eval_cond p r = Some False) (d n) then Inl CheckViolation else Inr d)"
| "data_exec env (Drop_constraint n k) s d = Inr d"
| "data_exec env (Create_index k ix if_not_exists) s d =
     (if k \<notin> fst ` set (sc_indexes s) \<and> \<not> index_ok ix (d (ix_table ix)) then Inl UniqueViolation else Inr d)"
| "data_exec env (Drop_index k if_exists) s d = Inr d"
| "data_exec env (Update_column n c v p) s d =
     (let d' = d(n := updated_rows env s n c v p d)
      in if data_ok env s d' then Inr d' else Inl CheckViolation)"

section \<open>A well formed schema stays well formed\<close>

lemma on_table_Inr: "on_table n f s = Inr s' \<longleftrightarrow> (\<exists>t. map_of (sc_tables s) n = Some t \<and> f t = Inr s')"
  by (auto simp: on_table_def split: option.splits)

lemma map_of_change [simp]:
  "map_of (sc_tables (change_table n f s)) m = map_option (\<lambda>t. if m = n then f t else t) (map_of (sc_tables s) m)"
proof -
  have "map_of (map (\<lambda>(m, t). (m, if m = n then f t else t)) ts) m = map_option (\<lambda>t. if m = n then f t else t) (map_of ts m)" for ts
    by (induction ts) auto
  then show ?thesis by (simp add: change_table_def)
qed

lemma change_simps [simp]:
  "map fst (sc_tables (change_table n f s)) = map fst (sc_tables s)"
  "fst ` set (sc_tables (change_table n f s)) = fst ` set (sc_tables s)"
  "sc_indexes (change_table n f s) = sc_indexes s"
  by (simp_all add: change_table_def case_prod_beta image_image comp_def)

lemma in_change [simp]:
  "(m, u) \<in> set (sc_tables (change_table n f s)) \<longleftrightarrow> (\<exists>v. (m, v) \<in> set (sc_tables s) \<and> u = (if m = n then f v else v))"
  by (force simp: change_table_def)

lemma schema_wf_iff:
  "schema_wf s \<longleftrightarrow>
     distinct (map fst (sc_tables s)) \<and> distinct (map fst (sc_indexes s)) \<and>
     (\<forall>n t. (n, t) \<in> set (sc_tables s) \<longrightarrow> table_wf t \<and> (\<forall>fk \<in> set (tb_fks t). fk_wf (sc_tables s) fk)) \<and>
     (\<forall>k ix. (k, ix) \<in> set (sc_indexes s) \<longrightarrow> index_wf (sc_tables s) ix)"
  by (auto simp: schema_wf_def list_all_iff)

lemma table_in: "distinct (map fst ts) \<Longrightarrow> (n, t) \<in> set ts \<longleftrightarrow> map_of ts n = Some t"
  by (metis map_of_SomeD map_of_is_SomeI)

lemma schema_wfD:
  assumes "schema_wf s" and "map_of (sc_tables s) n = Some t"
  shows "table_wf t" "list_all (fk_wf (sc_tables s)) (tb_fks t)"
  using assms by (auto simp: schema_wf_def list_all_iff dest: map_of_SomeD)

text \<open>To change one table it is enough to keep the columns that others refer to.\<close>

lemma schema_wf_change:
  assumes wf: "schema_wf s" and t: "map_of (sc_tables s) n = Some t"
    and new: "table_wf (f t)" "set (tb_fks (f t)) \<subseteq> set (tb_fks t)"
    and fks: "\<And>m u fk. map_of (sc_tables s) m = Some u \<Longrightarrow> fk \<in> set (tb_fks (if m = n then f u else u)) \<Longrightarrow>
      fk_table fk = n \<Longrightarrow> fk_ref fk \<in> set (column_names t) \<Longrightarrow> fk_ref fk \<in> set (column_names (f t))"
    and ixs: "set ixs \<subseteq> set (sc_indexes s)" "distinct (map fst ixs)"
      "\<And>k ix. (k, ix) \<in> set ixs \<Longrightarrow> ix_table ix = n \<Longrightarrow> set (index_columns ix) \<subseteq> set (column_names t) \<Longrightarrow>
        set (index_columns ix) \<subseteq> set (column_names (f t))"
  shows "schema_wf ((change_table n f s)\<lparr>sc_indexes := ixs\<rparr>)"
proof -
  let ?ts = "sc_tables (change_table n f s)"
  have d: "distinct (map fst (sc_tables s))" using wf by (simp add: schema_wf_def)
  have "table_wf (if m = n then f u else u) \<and> (\<forall>fk \<in> set (tb_fks (if m = n then f u else u)). fk_wf ?ts fk)"
    if "(m, u) \<in> set (sc_tables s)" for m u
  proof -
    have u: "map_of (sc_tables s) m = Some u" using that table_in [OF d] by simp
    have "fk_wf ?ts fk" if fk: "fk \<in> set (tb_fks (if m = n then f u else u))" for fk
    proof -
      have "fk \<in> set (tb_fks u)" using fk new(2) u t by (auto split: if_splits)
      then have "fk_wf (sc_tables s) fk" using schema_wfD(2) [OF wf u] by (simp add: list_all_iff)
      with fks [OF u fk] t show ?thesis by (auto simp: fk_wf_def split: option.splits)
    qed
    then show ?thesis using new(1) schema_wfD(1) [OF wf u] u t by auto
  qed
  moreover have "index_wf ?ts ix" if k: "(k, ix) \<in> set ixs" for k ix
  proof -
    have "index_wf (sc_tables s) ix" using k ixs(1) wf by (auto simp: schema_wf_iff)
    with ixs(3) [OF k] t show ?thesis by (auto simp: index_wf_def split: option.splits)
  qed
  ultimately show ?thesis using wf ixs(2) unfolding schema_wf_iff by (auto split del: if_split)
qed

lemma schema_wf_grow:
  assumes "schema_wf s" and "map_of (sc_tables s) n = Some t" and "table_wf (f t)"
    and "set (tb_fks (f t)) \<subseteq> set (tb_fks t)" and "set (column_names t) \<subseteq> set (column_names (f t))"
  shows "schema_wf (change_table n f s)"
proof -
  have "schema_wf ((change_table n f s)\<lparr>sc_indexes := sc_indexes s\<rparr>)"
    by (intro schema_wf_change [where f = f, OF assms(1-4)]) (use assms(1,5) in \<open>auto simp: schema_wf_iff\<close>)
  then show ?thesis by (simp add: change_table_def)
qed

lemma map_of_filter_fst: "m \<noteq> n \<Longrightarrow> map_of (filter (\<lambda>(m, t). m \<noteq> n) ts) m = map_of ts m"
  by (induction ts) auto

lemma table_wf_iff:
  "table_wf t \<longleftrightarrow>
     distinct (column_names t) \<and> (\<forall>cl \<in> set (tb_columns t). default_ok cl) \<and>
     set (tb_pk t) \<subseteq> set (column_names t) \<and>
     (\<forall>fk \<in> set (tb_fks t). fk_column fk \<in> set (column_names t)) \<and>
     (\<forall>k p. (k, p) \<in> set (tb_checks t) \<longrightarrow> set (cond_columns p) \<subseteq> set (column_names t)) \<and>
     (\<forall>cl \<in> set (tb_columns t). set (generated_from cl) \<subseteq> set (map cl_name (filter (\<lambda>c. \<not> is_generated c) (tb_columns t))))"
  unfolding table_wf_def list_all_iff Ball_def split_paired_All prod.case by simp

lemma without_column_wf:
  assumes "table_wf t" and "\<And>cl. cl \<in> set (tb_columns t) \<Longrightarrow> c \<notin> set (generated_from cl)"
  shows "table_wf (without_column c t)"
proof -
  have "set (generated_from cl) \<subseteq> set (map cl_name (filter (\<lambda>c. \<not> is_generated c) (tb_columns (without_column c t))))"
    if cl: "cl \<in> set (tb_columns t)" for cl
  proof
    fix x
    assume x: "x \<in> set (generated_from cl)"
    then have "x \<in> set (map cl_name (filter (\<lambda>c. \<not> is_generated c) (tb_columns t)))"
      using assms(1) cl by (auto simp: table_wf_def list_all_iff)
    then show "x \<in> set (map cl_name (filter (\<lambda>c. \<not> is_generated c) (tb_columns (without_column c t))))"
      using x assms(2) [OF cl] by (auto simp: without_column_def)
  qed
  moreover have "set (cond_columns p) \<subseteq> set (column_names (without_column c t))"
    if "(k, p) \<in> set (tb_checks (without_column c t))" for k p
  proof -
    have "(k, p) \<in> set (tb_checks t)" and c: "c \<notin> set (cond_columns p)" using that by (auto simp: without_column_def)
    then have "set (cond_columns p) \<subseteq> set (column_names t)" using assms(1) unfolding table_wf_iff by blast
    with c show ?thesis by (auto simp: without_column_def subset_iff)
  qed
  moreover have "distinct (column_names (without_column c t)) \<and> (\<forall>cl \<in> set (tb_columns (without_column c t)). default_ok cl) \<and>
      set (tb_pk (without_column c t)) \<subseteq> set (column_names (without_column c t)) \<and>
      (\<forall>fk \<in> set (tb_fks (without_column c t)). fk_column fk \<in> set (column_names (without_column c t)))"
    using assms(1) by (auto simp: table_wf_iff without_column_def distinct_map_filter)
  moreover have "set (tb_columns (without_column c t)) \<subseteq> set (tb_columns t)" by (auto simp: without_column_def)
  ultimately show ?thesis
    unfolding table_wf_iff by blast
qed

lemma schema_exec_wf:
  assumes wf: "schema_wf s" and ex: "schema_exec op s = Inr s'"
  shows "schema_wf s'"
proof (cases op)
  case (Create_table n t)
  have "fk_wf (sc_tables s @ [(n, t)]) fk" if "fk_wf (sc_tables s) fk" for fk
    using that by (auto simp: fk_wf_def map_add_def split: option.splits)
  moreover have "index_wf (sc_tables s @ [(n, t)]) ix" if "index_wf (sc_tables s) ix" for ix
    using that by (auto simp: index_wf_def map_add_def split: option.splits)
  ultimately show ?thesis using wf ex Create_table
    by (auto simp: schema_wf_iff list_all_iff split: if_splits)
next
  case (Drop_table n)
  let ?ts = "filter (\<lambda>(m, t). m \<noteq> n) (sc_tables s)"
  have s': "s' = \<lparr>sc_tables = ?ts, sc_indexes = filter (\<lambda>(k, ix). ix_table ix \<noteq> n) (sc_indexes s)\<rparr>"
    and free: "\<And>m t fk. (m, t) \<in> set (sc_tables s) \<Longrightarrow> m \<noteq> n \<Longrightarrow> fk \<in> set (tb_fks t) \<Longrightarrow> fk_table fk \<noteq> n"
    using ex Drop_table by (auto simp: on_table_Inr list_ex_iff split: if_splits)
  have look: "map_of ?ts m = map_of (sc_tables s) m" if "m \<noteq> n" for m
    using that by (rule map_of_filter_fst)
  show ?thesis using wf free unfolding s'
    by (auto simp: schema_wf_iff fk_wf_def index_wf_def look distinct_map_filter)
next
  case (Add_column n cl)
  then obtain t where t: "map_of (sc_tables s) n = Some t" and new: "cl_name cl \<notin> set (column_names t)" "default_ok cl"
    "set (generated_from cl) \<subseteq> set (map cl_name (filter (\<lambda>c. \<not> is_generated c) (tb_columns t)))"
    and s': "s' = change_table n (\<lambda>t. t\<lparr>tb_columns := tb_columns t @ [cl]\<rparr>) s"
    using ex by (auto simp: on_table_Inr split: if_splits)
  have "table_wf (t\<lparr>tb_columns := tb_columns t @ [cl]\<rparr>)"
    using schema_wfD(1) [OF wf t] new by (auto simp: table_wf_def list_all_iff) (blast+)?
  then show ?thesis unfolding s' by (intro schema_wf_grow [OF wf t]) auto
next
  case (Drop_column n c if_exists)
  then obtain t where t: "map_of (sc_tables s) n = Some t" using ex by (auto simp: on_table_Inr)
  show ?thesis
  proof (cases "c \<in> set (column_names t)")
    case False
    then show ?thesis using ex Drop_column t wf by (auto simp: on_table_Inr split: if_splits)
  next
    case True
    then have s': "s' = (change_table n (without_column c) s)\<lparr>sc_indexes :=
        filter (\<lambda>(k, ix). \<not> (ix_table ix = n \<and> c \<in> set (index_columns ix))) (sc_indexes s)\<rparr>"
      and free: "\<not> column_in_use n c s"
      using ex Drop_column t by (auto simp: on_table_Inr split: if_splits)
    have gen: "c \<notin> set (generated_from cl)" if "cl \<in> set (tb_columns t)" for cl
      using free that map_of_SomeD [OF t] by (fastforce simp: column_in_use_def list_ex_iff)
    have ref: "fk_ref fk \<noteq> c" if "(m, u) \<in> set (sc_tables s)" "fk \<in> set (tb_fks u)" "fk_table fk = n" for m u fk
      using free that by (fastforce simp: column_in_use_def list_ex_iff)
    have "table_wf (without_column c t)"
      using schema_wfD(1) [OF wf t] gen by (rule without_column_wf)
    then show ?thesis unfolding s'
      by (intro schema_wf_change [OF wf t])
         (use wf ref in \<open>auto simp: without_column_def schema_wf_iff distinct_map_filter dest: map_of_SomeD split: if_splits\<close>)
  qed
next
  case (Add_check n k p)
  then obtain t where t: "map_of (sc_tables s) n = Some t" and p: "set (cond_columns p) \<subseteq> set (column_names t)"
    and s': "s' = change_table n (\<lambda>t. t\<lparr>tb_checks := tb_checks t @ [(k, p)]\<rparr>) s"
    using ex by (auto simp: on_table_Inr split: if_splits)
  show ?thesis unfolding s'
    by (intro schema_wf_grow [OF wf t]) (use schema_wfD(1) [OF wf t] p in \<open>auto simp: table_wf_def\<close>)
next
  case (Drop_constraint n k)
  then obtain t where t: "map_of (sc_tables s) n = Some t"
    and s': "s' = change_table n (\<lambda>t. t\<lparr>tb_checks := filter (\<lambda>(j, p). j \<noteq> k) (tb_checks t)\<rparr>) s"
    using ex by (auto simp: on_table_Inr split: if_splits)
  show ?thesis unfolding s'
    by (intro schema_wf_grow [OF wf t]) (use schema_wfD(1) [OF wf t] in \<open>auto simp: table_wf_def list_all_iff\<close>)
next
  case (Create_index k ix if_not_exists)
  then show ?thesis using wf ex by (auto simp: on_table_Inr schema_wf_iff index_wf_def split: if_splits)
next
  case (Drop_index k if_exists)
  then show ?thesis using wf ex by (auto simp: schema_wf_iff distinct_map_filter split: if_splits)
next
  case (Update_column n c v p)
  then show ?thesis using wf ex by (auto simp: on_table_Inr split: if_splits)
qed

section \<open>Rows that conform still conform\<close>

lemma data_ok_iff:
  "data_ok env s d \<longleftrightarrow>
     (\<forall>n t. (n, t) \<in> set (sc_tables s) \<longrightarrow> rows_ok env d n t) \<and>
     (\<forall>k ix. (k, ix) \<in> set (sc_indexes s) \<longrightarrow> index_ok ix (d (ix_table ix)))"
  by (auto simp: data_ok_def list_all_iff)

lemma padded_iff:
  "padded s d \<longleftrightarrow>
     (\<forall>n. n \<notin> fst ` set (sc_tables s) \<longrightarrow> d n = []) \<and>
     (\<forall>n t r c. (n, t) \<in> set (sc_tables s) \<longrightarrow> r \<in> set (d n) \<longrightarrow> c \<notin> set (column_names t) \<longrightarrow> r c = V_null)"
  by (auto simp: padded_def)

lemma cell_ok_cong:
  "r' (cl_name c) = r (cl_name c) \<Longrightarrow> \<forall>x \<in> set (generated_from c). r' x = r x \<Longrightarrow> cell_ok env c r' = cell_ok env c r"
  by (simp add: cell_ok_def cong: map_cong)

lemma row_ok_cong:
  assumes "table_wf t" and "\<forall>c \<in> set (column_names t). r' c = r c"
  shows "row_ok env t r' = row_ok env t r"
proof -
  have "cell_ok env c r' = cell_ok env c r" if "c \<in> set (tb_columns t)" for c
  proof (rule cell_ok_cong)
    show "r' (cl_name c) = r (cl_name c)" using assms(2) that by simp
    have "set (generated_from c) \<subseteq> set (map cl_name (filter (\<lambda>c. \<not> is_generated c) (tb_columns t)))"
      using assms(1) that by (simp add: table_wf_def list_all_iff)
    then have "set (generated_from c) \<subseteq> set (column_names t)" by (rule subset_trans) auto
    then show "\<forall>x \<in> set (generated_from c). r' x = r x" using assms(2) by blast
  qed
  then have "list_all (\<lambda>c. cell_ok env c r') (tb_columns t) = list_all (\<lambda>c. cell_ok env c r) (tb_columns t)"
    by (simp cong: list.pred_cong)
  moreover have "eval_cond p r' = eval_cond p r" if "(k, p) \<in> set (tb_checks t)" for k p
  proof (rule eval_cond_cong)
    have "set (cond_columns p) \<subseteq> set (column_names t)"
      using assms(1) that by (auto simp: table_wf_def list_all_iff)
    then show "\<forall>c \<in> set (cond_columns p). r' c = r c" using assms(2) by blast
  qed
  then have "list_all (\<lambda>(k, p). eval_cond p r' \<noteq> Some False) (tb_checks t) = list_all (\<lambda>(k, p). eval_cond p r \<noteq> Some False) (tb_checks t)"
    by (auto simp: list_all_iff)
  ultimately show ?thesis by (simp only: row_ok_def)
qed

lemma index_ok_cong:
  assumes "\<forall>r \<in> set rows. \<forall>c \<in> set (index_columns ix). g r c = r c"
  shows "index_ok ix (map g rows) = index_ok ix rows"
proof -
  have keys: "map (\<lambda>k. key_value k (g r)) (ix_keys ix) = map (\<lambda>k. key_value k r) (ix_keys ix)" if r: "r \<in> set rows" for r
  proof (rule map_cong [OF refl])
    fix k
    assume "k \<in> set (ix_keys ix)"
    then have "g r (key_column k) = r (key_column k)" using assms r by (simp add: index_columns_def)
    then show "key_value k (g r) = key_value k r" by (cases k) simp_all
  qed
  moreover have "index_matches ix (g r) = index_matches ix r" if r: "r \<in> set rows" for r
    using assms r by (auto simp: index_matches_def index_columns_def eval_cond_cong [of _ "g r" r] split: option.splits)
  ultimately have "map (\<lambda>r. map (\<lambda>k. key_value k r) (ix_keys ix)) (filter (index_matches ix) (map g rows)) =
      map (\<lambda>r. map (\<lambda>k. key_value k r) (ix_keys ix)) (filter (index_matches ix) rows)"
    by (simp add: filter_map comp_def cong: filter_cong map_cong)
  then show ?thesis by (simp add: index_ok_def)
qed

text \<open>What a schema promises depends on its columns only.\<close>

lemma data_ok_frame:
  assumes wf: "schema_wf s" and ok: "data_ok env s d" and d': "\<And>n. d' n = map (g n) (d n)"
    and same: "\<And>n t r c. (n, t) \<in> set (sc_tables s) \<Longrightarrow> r \<in> set (d n) \<Longrightarrow> c \<in> set (column_names t) \<Longrightarrow> g n r c = r c"
  shows "data_ok env s d'"
  unfolding data_ok_iff
proof (intro conjI allI impI)
  fix n t
  assume t: "(n, t) \<in> set (sc_tables s)"
  have twf: "table_wf t" and fks: "\<forall>fk \<in> set (tb_fks t). fk_wf (sc_tables s) fk" and rows: "rows_ok env d n t"
    using wf ok t by (auto simp: schema_wf_iff data_ok_iff)
  have "row_ok env t (g n r) = row_ok env t r" if "r \<in> set (d n)" for r
    by (rule row_ok_cong [OF twf]) (use same [OF t that] in blast)
  then have "list_all (row_ok env t) (d' n)"
    using rows by (simp add: d' rows_ok_def list_all_iff)
  moreover have "map (\<lambda>r. map r (tb_pk t)) (d' n) = map (\<lambda>r. map r (tb_pk t)) (d n)"
    using same [OF t] twf unfolding d' table_wf_def by (auto simp: comp_def intro!: map_cong)
  moreover have "fk_ok d' fk (g n r)" if r: "r \<in> set (d n)" and fk: "fk \<in> set (tb_fks t)" for r fk
  proof -
    obtain u where u: "(fk_table fk, u) \<in> set (sc_tables s)" "fk_ref fk \<in> set (column_names u)"
      using fks [THEN bspec, OF fk] by (auto simp: fk_wf_def split: option.splits dest: map_of_SomeD)
    have "g n r (fk_column fk) = r (fk_column fk)" using same [OF t r] twf fk by (auto simp: table_wf_def list_all_iff)
    moreover have "fk_ok d fk r" using rows r fk by (auto simp: rows_ok_def list_all_iff)
    ultimately show ?thesis using same [OF u(1) _ u(2)] by (auto simp: fk_ok_def d' list_ex_iff)
  qed
  then have "list_all (\<lambda>r. list_all (\<lambda>fk. fk_ok d' fk r) (tb_fks t)) (d' n)" by (simp add: d' list_all_iff)
  ultimately show "rows_ok env d' n t" using rows unfolding rows_ok_def by (simp only: simp_thms)
next
  fix k ix
  assume ix: "(k, ix) \<in> set (sc_indexes s)"
  then have "index_wf (sc_tables s) ix" "index_ok ix (d (ix_table ix))" using wf ok by (auto simp: schema_wf_iff data_ok_iff)
  then obtain u where "(ix_table ix, u) \<in> set (sc_tables s)" "set (index_columns ix) \<subseteq> set (column_names u)"
    by (auto simp: index_wf_def split: option.splits dest: map_of_SomeD)
  then show "index_ok ix (d' (ix_table ix))"
    using index_ok_cong [of "d (ix_table ix)" ix "g (ix_table ix)"] same \<open>index_ok ix _\<close> unfolding d' by blast
qed

lemma data_ok_frame_one:
  assumes "schema_wf s" and "data_ok env s d"
    and "\<And>t r c. map_of (sc_tables s) n = Some t \<Longrightarrow> r \<in> set (d n) \<Longrightarrow> c \<in> set (column_names t) \<Longrightarrow> g r c = r c"
  shows "data_ok env s (d(n := map g (d n)))"
proof (rule data_ok_frame [OF assms(1,2)])
  have d: "distinct (map fst (sc_tables s))" using assms(1) by (simp add: schema_wf_def)
  show "(d(n := map g (d n))) m = map (if m = n then g else (\<lambda>r. r)) (d m)" for m by simp
  show "(if m = n then g else (\<lambda>r. r)) r c = r c"
    if "(m, t) \<in> set (sc_tables s)" "r \<in> set (d m)" "c \<in> set (column_names t)" for m t r c
    using that assms(3) [of t r c] table_in [OF d] by auto
qed

lemma rows_ok_weaken:
  assumes "rows_ok env d n t" and "set (tb_columns t') \<subseteq> set (tb_columns t)" and "tb_pk t' = [] \<or> tb_pk t' = tb_pk t"
    and "set (tb_fks t') \<subseteq> set (tb_fks t)" and "set (tb_checks t') \<subseteq> set (tb_checks t)"
  shows "rows_ok env d n t'"
proof -
  have "row_ok env t' r" if "row_ok env t r" for r
    using that assms(2,5) unfolding row_ok_def list_all_iff by blast
  then show ?thesis using assms(1,3,4) unfolding rows_ok_def list_all_iff by (auto 4 3)
qed

text \<open>Changing one table and keeping some indexes: only the promises of that table have to be shown.\<close>

lemma data_ok_change:
  assumes "schema_wf s" and "data_ok env s d" and "map_of (sc_tables s) n = Some t" and "rows_ok env d n (f t)"
    and "set ixs \<subseteq> set (sc_indexes s)"
  shows "data_ok env ((change_table n f s)\<lparr>sc_indexes := ixs\<rparr>) d"
proof -
  have "distinct (map fst (sc_tables s))" using assms(1) by (simp add: schema_wf_def)
  note table_in [OF this]
  with assms show ?thesis unfolding data_ok_iff by auto
qed

lemma data_ok_change_same:
  assumes "schema_wf s" and "data_ok env s d" and "map_of (sc_tables s) n = Some t" and "rows_ok env d n (f t)"
  shows "data_ok env (change_table n f s) d"
  using data_ok_change [where f = f, OF assms subset_refl] by (simp add: change_table_def)

lemma padded_change:
  assumes "padded s d" and "schema_wf s" and "map_of (sc_tables s) n = Some t"
    and "\<And>r c. r \<in> set rows \<Longrightarrow> c \<notin> set (column_names (f t)) \<Longrightarrow> r c = V_null"
  shows "padded ((change_table n f s)\<lparr>sc_indexes := ixs\<rparr>) (d(n := rows))"
proof -
  have "distinct (map fst (sc_tables s))" using assms(2) by (simp add: schema_wf_def)
  note table_in [OF this]
  moreover have "n \<in> fst ` set (sc_tables s)" using assms(3) by (force dest: map_of_SomeD)
  ultimately show ?thesis using assms unfolding padded_iff by (auto split: if_splits)
qed

lemma padded_change_same:
  assumes "padded s d" and "schema_wf s" and "map_of (sc_tables s) n = Some t"
    and "\<And>r c. r \<in> set rows \<Longrightarrow> c \<notin> set (column_names (f t)) \<Longrightarrow> r c = V_null"
  shows "padded (change_table n f s) (d(n := rows))"
  using padded_change [where f = f and ixs = "sc_indexes s" and rows = rows, OF assms(1-3)] assms(4)
  by (simp add: change_table_def)

lemma padded_row:
  assumes "padded s d" and "map_of (sc_tables s) n = Some t" and "r \<in> set (d n)" and "c \<notin> set (column_names t)"
  shows "r c = V_null"
  using assms by (auto simp: padded_iff dest: map_of_SomeD)

text \<open>Each kind of statement keeps the promises.\<close>

lemma without_column_names: "set (column_names (without_column c t)) = set (column_names t) - {c}"
  by (auto simp: without_column_def)

lemma updated_rowsD:
  assumes "r' \<in> set (updated_rows env s n c v p d)" and "map_of (sc_tables s) n = Some t"
  shows "\<exists>r \<in> set (d n). r' = r \<or> r' = regenerate env t (r(c := v))"
  using assms by (auto simp: updated_rows_def split: if_splits)

lemma add_column_conforms:
  assumes wf: "schema_wf s" and ok: "conforms env s d"
    and ex: "schema_exec (Add_column n cl) s = Inr s'" "data_exec env (Add_column n cl) s d = Inr d'"
  shows "conforms env s' d'"
proof -
  let ?c = "cl_name cl" and ?g = "\<lambda>r. r(cl_name cl := default_value env cl r)"
  let ?f = "\<lambda>t. t\<lparr>tb_columns := tb_columns t @ [cl]\<rparr>"
  obtain t where t: "map_of (sc_tables s) n = Some t" and new: "?c \<notin> set (column_names t)" "default_ok cl"
    and gen: "set (generated_from cl) \<subseteq> set (column_names t)" and s': "s' = change_table n ?f s"
    using ex(1) by (auto simp: on_table_Inr split: if_splits)
  have nn: "\<forall>r \<in> set (d n). cl_nullable cl \<or> default_value env cl r \<noteq> V_null" and d': "d' = d(n := map ?g (d n))"
    using ex(2) by (auto simp: list_ex_iff split: if_splits)
  have ok': "data_ok env s d'" unfolding d'
    by (rule data_ok_frame_one [OF wf]) (use ok new(1) t in \<open>auto simp: conforms_def image_iff\<close>)
  have "cell_ok env cl (?g r)" if "r \<in> set (d n)" for r
  proof -
    have same: "map (?g r) (generated_from cl) = map r (generated_from cl)" using gen new(1) by (auto intro!: map_cong)
    have "has_type (cl_type cl) (default_value env cl r)"
      using new(2) by (auto simp: default_ok_def default_value_def split: col_default.splits)
    moreover have "is_generated cl \<Longrightarrow> default_value env cl r = V_tsvector (pe_tsvector env (map r (generated_from cl)))"
      by (auto simp: default_value_def is_generated_def generated_from_def split: col_default.splits)
    ultimately show ?thesis using nn that unfolding cell_ok_def same by auto
  qed
  moreover have "rows_ok env d' n t" using ok' map_of_SomeD [OF t] by (auto simp: data_ok_iff)
  ultimately have "rows_ok env d' n (?f t)" by (auto simp: rows_ok_def row_ok_def list_all_iff d')
  then have "data_ok env s' d'" unfolding s' by (intro data_ok_change_same [OF wf ok' t])
  moreover have "padded s' d'" unfolding s' d'
    by (rule padded_change_same [where t = t]) (use ok wf t padded_row [of s d n t] in \<open>auto simp: conforms_def\<close>)
  ultimately show ?thesis by (simp add: conforms_def)
qed

lemma drop_column_conforms:
  assumes wf: "schema_wf s" and ok: "conforms env s d"
    and ex: "schema_exec (Drop_column n c ie) s = Inr s'" "data_exec env (Drop_column n c ie) s d = Inr d'"
  shows "conforms env s' d'"
proof -
  let ?g = "\<lambda>r. r(c := V_null)"
  obtain t where t: "map_of (sc_tables s) n = Some t" using ex(1) by (auto simp: on_table_Inr)
  have d': "d' = d(n := map ?g (d n))" using ex(2) by auto
  have pad: "padded s d" using ok by (simp add: conforms_def)
  show ?thesis
  proof (cases "c \<in> set (column_names t)")
    case False
    then have "map ?g (d n) = d n" using padded_row [OF pad t] by (intro map_idI) (simp add: fun_upd_idem)
    then show ?thesis using False ex(1) t ok by (auto simp: on_table_Inr d' split: if_splits)
  next
    case True
    define ixs where "ixs = filter (\<lambda>(k, ix). \<not> (ix_table ix = n \<and> c \<in> set (index_columns ix))) (sc_indexes s)"
    have s': "s' = (change_table n (without_column c) s)\<lparr>sc_indexes := ixs\<rparr>"
      using True ex(1) t by (auto simp: on_table_Inr ixs_def split: if_splits)
    have "rows_ok env d n t" using ok map_of_SomeD [OF t] by (auto simp: conforms_def data_ok_iff)
    then have "rows_ok env d n (without_column c t)" by (rule rows_ok_weaken) (auto simp: without_column_def)
    then have "data_ok env s' d" unfolding s'
      by (intro data_ok_change [OF wf _ t]) (use ok in \<open>auto simp: conforms_def ixs_def\<close>)
    moreover have "schema_wf s'" by (rule schema_exec_wf [OF wf ex(1)])
    ultimately have "data_ok env s' d'" unfolding d'
      by (intro data_ok_frame_one) (auto simp: s' t without_column_def)
    moreover have "padded s' d'" unfolding s' d'
      by (rule padded_change [where t = t]) (use pad wf t padded_row [OF pad t] without_column_names [of c t] in \<open>auto\<close>)
    ultimately show ?thesis by (simp add: conforms_def)
  qed
qed

lemma regenerate_outside: "x \<notin> set (column_names t) \<Longrightarrow> regenerate env t r x = r x"
proof -
  assume "x \<notin> set (column_names t)"
  then have "filter (\<lambda>cl. is_generated cl \<and> cl_name cl = x) (tb_columns t) = []" by (auto simp: filter_empty_conv)
  then show ?thesis unfolding regenerate_def by simp
qed

lemma updated_rows_padded:
  assumes "padded s d" and t: "map_of (sc_tables s) n = Some t" and "c \<in> set (column_names t)"
    and r': "r' \<in> set (updated_rows env s n c v p d)" and x: "x \<notin> set (column_names t)"
  shows "r' x = V_null"
proof -
  obtain r where r: "r \<in> set (d n)" "r' = r \<or> r' = regenerate env t (r(c := v))"
    using updated_rowsD [OF r' t] by blast
  have "r x = V_null" by (rule padded_row [OF assms(1) t r(1) x])
  moreover have "x \<noteq> c" using assms(3) x by blast
  ultimately show ?thesis using r(2) regenerate_outside [OF x] by auto
qed

lemma update_schemaD:
  assumes "schema_exec (Update_column n c v p) s = Inr s'"
  shows "\<exists>t. map_of (sc_tables s) n = Some t \<and> c \<in> set (column_names t) \<and> s' = s"
  using assms by (auto simp: on_table_Inr split: if_splits)

lemma update_dataD:
  assumes "data_exec env (Update_column n c v p) s d = Inr d'"
  shows "d' = d(n := updated_rows env s n c v p d) \<and> data_ok env s d'"
  using assms by (simp add: Let_def split: if_split_asm)

lemma update_conforms:
  assumes wf: "schema_wf s" and ok: "conforms env s d"
    and ex: "schema_exec (Update_column n c v p) s = Inr s'" "data_exec env (Update_column n c v p) s d = Inr d'"
  shows "conforms env s' d'"
proof -
  obtain t where t: "map_of (sc_tables s) n = Some t" and c: "c \<in> set (column_names t)" and s': "s' = s"
    using update_schemaD [OF ex(1)] by blast
  have d': "d' = d(n := updated_rows env s n c v p d)" and data: "data_ok env s d'"
    using update_dataD [OF ex(2)] by blast+
  have pad: "padded s d" using ok by (simp add: conforms_def)
  have "padded (change_table n (\<lambda>t. t) s) d'" unfolding d'
    by (rule padded_change_same [OF pad wf t]) (rule updated_rows_padded [OF pad t c])
  moreover have "change_table n (\<lambda>t. t) s = s" by (simp add: change_table_def)
  ultimately show ?thesis using data s' by (simp add: conforms_def)
qed

lemma create_table_conforms:
  assumes wf: "schema_wf s" and ok: "conforms env s d"
    and ex: "schema_exec (Create_table n t) s = Inr s'" "data_exec env (Create_table n t) s d = Inr d'"
  shows "conforms env s' d'"
proof -
  have s': "s' = s\<lparr>sc_tables := sc_tables s @ [(n, t)]\<rparr>" and new: "n \<notin> fst ` set (sc_tables s)"
    using ex(1) by (auto split: if_splits)
  have "d n = []" using ok new by (auto simp: conforms_def padded_iff)
  then have d': "d' = d" using ex(2) by auto
  show ?thesis using ok \<open>d n = []\<close> unfolding s' d' conforms_def data_ok_iff padded_iff
    by (auto simp: rows_ok_def)
qed

lemma drop_table_conforms:
  assumes wf: "schema_wf s" and ok: "conforms env s d"
    and ex: "schema_exec (Drop_table n) s = Inr s'" "data_exec env (Drop_table n) s d = Inr d'"
  shows "conforms env s' d'"
proof -
  have s': "sc_tables s' = filter (\<lambda>(m, t). m \<noteq> n) (sc_tables s)" "sc_indexes s' = filter (\<lambda>(k, ix). ix_table ix \<noteq> n) (sc_indexes s)"
    and free: "\<And>m t fk. (m, t) \<in> set (sc_tables s) \<Longrightarrow> m \<noteq> n \<Longrightarrow> fk \<in> set (tb_fks t) \<Longrightarrow> fk_table fk \<noteq> n"
    using ex(1) by (auto simp: on_table_Inr list_ex_iff split: if_splits)
  have d': "d' = d(n := [])" using ex(2) by simp
  have "rows_ok env d' m t" if "(m, t) \<in> set (sc_tables s)" "m \<noteq> n" for m t
  proof -
    have "rows_ok env d m t" using ok that(1) by (auto simp: conforms_def data_ok_iff)
    moreover have "fk_ok d' fk r = fk_ok d fk r" if "fk \<in> set (tb_fks t)" for fk r
      using free [OF \<open>(m, t) \<in> _\<close> \<open>m \<noteq> n\<close> that] by (simp add: fk_ok_def d')
    ultimately show ?thesis using that(2) by (simp add: rows_ok_def d' list_all_iff)
  qed
  then have "data_ok env s' d'" using ok unfolding data_ok_iff s' by (auto simp: conforms_def data_ok_iff d')
  moreover have "fst ` set (sc_tables s') = fst ` set (sc_tables s) - {n}" unfolding s' by force
  then have "padded s' d'" using ok unfolding padded_iff d' conforms_def by (auto simp: s')
  ultimately show ?thesis by (simp add: conforms_def)
qed

lemma check_conforms:
  assumes wf: "schema_wf s" and ok: "conforms env s d"
    and ex: "schema_exec (Add_check n k p) s = Inr s'" "data_exec env (Add_check n k p) s d = Inr d'"
  shows "conforms env s' d'"
proof -
  let ?f = "\<lambda>t. t\<lparr>tb_checks := tb_checks t @ [(k, p)]\<rparr>"
  obtain t where t: "map_of (sc_tables s) n = Some t" and s': "s' = change_table n ?f s"
    using ex(1) by (auto simp: on_table_Inr split: if_splits)
  have d': "d' = d" and p: "\<forall>r \<in> set (d n). eval_cond p r \<noteq> Some False" using ex(2) by (auto simp: list_ex_iff split: if_splits)
  have "rows_ok env d n t" using ok map_of_SomeD [OF t] by (auto simp: conforms_def data_ok_iff)
  then have "rows_ok env d n (?f t)" using p by (auto simp: rows_ok_def row_ok_def list_all_iff)
  then have "data_ok env s' d" unfolding s' by (intro data_ok_change_same [OF wf _ t]) (use ok in \<open>auto simp: conforms_def\<close>)
  moreover have "padded s' (d(n := d n))" unfolding s'
    by (rule padded_change_same [OF _ wf t]) (use ok t padded_row [of s d n t] in \<open>auto simp: conforms_def\<close>)
  ultimately show ?thesis by (simp add: conforms_def d')
qed

lemma drop_constraint_conforms:
  assumes wf: "schema_wf s" and ok: "conforms env s d" and ex: "schema_exec (Drop_constraint n k) s = Inr s'"
  shows "conforms env s' d"
proof -
  let ?f = "\<lambda>t. t\<lparr>tb_checks := filter (\<lambda>(j, p). j \<noteq> k) (tb_checks t)\<rparr>"
  obtain t where t: "map_of (sc_tables s) n = Some t" and s': "s' = change_table n ?f s"
    using ex by (auto simp: on_table_Inr split: if_splits)
  have "rows_ok env d n t" using ok map_of_SomeD [OF t] by (auto simp: conforms_def data_ok_iff)
  then have "rows_ok env d n (?f t)" by (rule rows_ok_weaken) auto
  then have "data_ok env s' d" unfolding s' by (intro data_ok_change_same [OF wf _ t]) (use ok in \<open>auto simp: conforms_def\<close>)
  moreover have "padded s' (d(n := d n))" unfolding s'
    by (rule padded_change_same [OF _ wf t]) (use ok t padded_row [of s d n t] in \<open>auto simp: conforms_def\<close>)
  ultimately show ?thesis by (simp add: conforms_def)
qed

lemma statement_conforms:
  assumes "schema_wf s" and "conforms env s d" and "schema_exec op s = Inr s'" and "data_exec env op s d = Inr d'"
  shows "conforms env s' d'"
proof (cases op)
  case (Create_table n t)
  then show ?thesis using create_table_conforms [OF assms(1,2)] assms(3,4) by blast
next
  case (Drop_table n)
  then show ?thesis using drop_table_conforms [OF assms(1,2)] assms(3,4) by blast
next
  case (Add_column n cl)
  then show ?thesis using add_column_conforms [OF assms(1,2)] assms(3,4) by blast
next
  case (Drop_column n c ie)
  then show ?thesis using drop_column_conforms [OF assms(1,2)] assms(3,4) by blast
next
  case (Add_check n k p)
  then show ?thesis using check_conforms [OF assms(1,2)] assms(3,4) by blast
next
  case (Drop_constraint n k)
  then show ?thesis using drop_constraint_conforms [OF assms(1,2)] assms(3,4) by simp
next
  case (Create_index k ix ie)
  have "s' = s \<and> k \<in> fst ` set (sc_indexes s) \<or> s' = s\<lparr>sc_indexes := sc_indexes s @ [(k, ix)]\<rparr> \<and> k \<notin> fst ` set (sc_indexes s)"
    using assms(3) Create_index by (auto simp: on_table_Inr split: if_splits)
  moreover have "d' = d" "k \<in> fst ` set (sc_indexes s) \<or> index_ok ix (d (ix_table ix))"
    using assms(4) Create_index by (auto split: if_splits)
  ultimately show ?thesis using assms(2) by (auto simp: conforms_def data_ok_iff padded_iff)
next
  case (Drop_index k ie)
  then have "sc_tables s' = sc_tables s" "set (sc_indexes s') \<subseteq> set (sc_indexes s)" "d' = d"
    using assms(3,4) by (auto split: if_splits)
  then show ?thesis using assms(2) by (auto simp: conforms_def data_ok_iff padded_iff)
next
  case (Update_column n c v p)
  then show ?thesis using update_conforms [OF assms(1,2)] assms(3,4) by blast
qed

end
