(* ===== verification/Ddl_Safety.thy ===== *)
theory Ddl_Safety
  imports Ddl
begin

text \<open>
  A check of statements that does not look at rows: it goes through them with facts that hold of any rows
  that conform at the start - a table is empty, a column is null, a condition is not false - and says
  which statements cannot fail, and which columns they may change. It is sound for every content.
\<close>

section \<open>Facts\<close>

datatype fact = Empty string | Null string string | Holds string cond

fun fact_true :: "data \<Rightarrow> fact \<Rightarrow> bool" where
  "fact_true d (Empty n) = (d n = [])"
| "fact_true d (Null n c) = (\<forall>r \<in> set (d n). r c = V_null)"
| "fact_true d (Holds n p) = (\<forall>r \<in> set (d n). eval_cond p r \<noteq> Some False)"

fun about_column :: "string \<Rightarrow> string \<Rightarrow> fact \<Rightarrow> bool" where
  "about_column n c (Empty m) = False"
| "about_column n c (Null m x) = (m = n \<and> x = c)"
| "about_column n c (Holds m p) = (m = n \<and> c \<in> set (cond_columns p))"

text \<open>A condition on nulls alone is decided by the nulls.\<close>

definition true_of_nulls :: "string \<Rightarrow> cond \<Rightarrow> fact list \<Rightarrow> bool" where
  "true_of_nulls n p fs \<longleftrightarrow>
     list_all (\<lambda>c. Null n c \<in> set fs) (cond_columns p) \<and> eval_cond p (\<lambda>c. V_null) \<noteq> Some False"

fun cond_implies :: "cond \<Rightarrow> cond \<Rightarrow> bool" where
  "cond_implies (In_values c vs) (In_values c' vs') = (c = c' \<and> set vs \<subseteq> set vs')"
| "cond_implies p p' = (p = p')"

fun implied_by :: "string \<Rightarrow> cond \<Rightarrow> fact \<Rightarrow> bool" where
  "implied_by n p (Empty m) = (m = n)"
| "implied_by n p (Null m c) = False"
| "implied_by n p (Holds m p') = (m = n \<and> cond_implies p' p)"

text \<open>An update of rows with one value, where every row is known to have another.\<close>

fun excluded_by :: "string \<Rightarrow> cond \<Rightarrow> fact \<Rightarrow> bool" where
  "excluded_by n (In_values c [x]) (Holds m (In_values c' vs)) = (m = n \<and> c' = c \<and> x \<notin> set vs)"
| "excluded_by n p f = False"

text \<open>An update that no constraint can refuse: of a column in no key, with a value its conditions accept.\<close>

fun accepts :: "string \<Rightarrow> sql_value \<Rightarrow> cond \<Rightarrow> bool" where
  "accepts c (V_text s) (In_values c' vs) = (c' \<noteq> c \<or> s \<in> set vs)"
| "accepts c v p = (c \<notin> set (cond_columns p))"

definition harmless_update :: "schema \<Rightarrow> string \<Rightarrow> string \<Rightarrow> sql_value \<Rightarrow> bool" where
  "harmless_update s n c v \<longleftrightarrow>
     (case map_of (sc_tables s) n of
        None \<Rightarrow> False
      | Some t \<Rightarrow>
          v \<noteq> V_null \<and> c \<notin> set (tb_pk t) \<and> list_all (\<lambda>fk. fk_column fk \<noteq> c) (tb_fks t) \<and>
          list_all (\<lambda>(k, p). accepts c v p) (tb_checks t) \<and>
          list_all (\<lambda>cl. cl_name cl = c \<longrightarrow> has_type (cl_type cl) v \<and> \<not> is_generated cl) (tb_columns t) \<and>
          list_all (\<lambda>cl. c \<notin> set (generated_from cl)) (tb_columns t)) \<and>
     \<not> list_ex (\<lambda>(m, t). list_ex (\<lambda>fk. fk_table fk = n \<and> fk_ref fk = c) (tb_fks t)) (sc_tables s) \<and>
     list_all (\<lambda>(k, ix). ix_table ix = n \<and> c \<in> set (index_columns ix) \<longrightarrow> \<not> ix_unique ix) (sc_indexes s)"

fun new_values :: "string \<Rightarrow> string \<Rightarrow> sql_value \<Rightarrow> cond \<Rightarrow> cond \<Rightarrow> fact list" where
  "new_values n c (V_text s) (In_values c1 [x]) (In_values c2 vs) =
     (if c1 = c \<and> c2 = c then [Holds n (In_values c (s # filter (\<lambda>v. v \<noteq> x) vs))] else [])"
| "new_values n c v p q = []"

section \<open>The check\<close>

text \<open>
  The result is the facts after a statement and what it may have written: a column of a table, or all of it.
\<close>

definition never_null :: "column \<Rightarrow> bool" where
  "never_null cl \<longleftrightarrow> (case cl_default cl of No_default \<Rightarrow> False | Const_default v \<Rightarrow> v \<noteq> V_null | _ \<Rightarrow> True)"

type_synonym written = "(string \<times> string option) list"

fun safe_ddl :: "schema \<Rightarrow> fact list \<Rightarrow> ddl \<Rightarrow> (fact list \<times> written) option" where
  "safe_ddl s fs (Create_table n t) = Some (Empty n # fs, [])"
| "safe_ddl s fs (Drop_table n) = Some (Empty n # fs, [(n, None)])"
| "safe_ddl s fs (Add_column n cl) =
     (if cl_nullable cl \<or> never_null cl \<or> Empty n \<in> set fs
      then Some ((if cl_default cl = No_default then [Null n (cl_name cl)] else []) @
        filter (\<lambda>f. \<not> about_column n (cl_name cl) f) fs, [(n, Some (cl_name cl))])
      else None)"
| "safe_ddl s fs (Drop_column n c ie) = Some (Null n c # filter (\<lambda>f. \<not> about_column n c f) fs, [(n, Some c)])"
| "safe_ddl s fs (Add_check n k p) =
     (if true_of_nulls n p fs \<or> list_ex (implied_by n p) fs then Some (fs, []) else None)"
| "safe_ddl s fs (Drop_constraint n k) =
     (case map_of (sc_tables s) n of
        None \<Rightarrow> None
      | Some t \<Rightarrow> Some (map (\<lambda>(j, p). Holds n p) (tb_checks t) @ fs, []))"
| "safe_ddl s fs (Create_index k ix ie) =
     (if \<not> ix_unique ix \<or> Empty (ix_table ix) \<in> set fs then Some (fs, []) else None)"
| "safe_ddl s fs (Drop_index k ie) = Some (fs, [])"
| "safe_ddl s fs (Update_column n c v p) =
     (if list_ex (excluded_by n p) fs then Some (fs, [])
      else if harmless_update s n c v then
        Some ((case map_of (sc_tables s) n of
                 None \<Rightarrow> []
               | Some t \<Rightarrow> concat (map (\<lambda>(k, q). new_values n c v p q) (tb_checks t))) @
          filter (\<lambda>f. \<not> about_column n c f) fs, [(n, Some c)])
      else None)"

definition may_write :: "written \<Rightarrow> string \<Rightarrow> string \<Rightarrow> bool" where
  "may_write ws n c \<longleftrightarrow> (n, Some c) \<in> set ws \<or> (n, None) \<in> set ws"

text \<open>At the start the checks of the tables hold.\<close>

definition start_facts :: "schema \<Rightarrow> fact list" where
  "start_facts s = concat (map (\<lambda>(n, t). map (\<lambda>(k, p). Holds n p) (tb_checks t)) (sc_tables s))"

fun safe_run :: "ddl list \<Rightarrow> schema \<Rightarrow> fact list \<Rightarrow> (schema \<times> fact list \<times> written) option" where
  "safe_run [] s fs = Some (s, fs, [])"
| "safe_run (op # ops) s fs =
     (case (schema_exec op s, safe_ddl s fs op) of
        (Inr s', Some (fs', ws)) \<Rightarrow>
          (case safe_run ops s' fs' of None \<Rightarrow> None | Some (s2, fs2, ws2) \<Rightarrow> Some (s2, fs2, ws @ ws2))
      | _ \<Rightarrow> None)"

text \<open>The statements one after the other, on schema and rows.\<close>

fun run_ddl :: "pg_env \<Rightarrow> ddl list \<Rightarrow> schema \<Rightarrow> data \<Rightarrow> db_error + (schema \<times> data)" where
  "run_ddl env [] s d = Inr (s, d)"
| "run_ddl env (op # ops) s d =
     (case schema_exec op s of
        Inl e \<Rightarrow> Inl e
      | Inr s' \<Rightarrow> (case data_exec env op s d of Inl e \<Rightarrow> Inl e | Inr d' \<Rightarrow> run_ddl env ops s' d'))"

section \<open>Soundness\<close>

lemma fact_true_frame:
  assumes "fact_true d f" and "\<not> about_column n c f" and "\<And>r x. x \<noteq> c \<Longrightarrow> g r x = r x"
  shows "fact_true (d(n := map g (d n))) f"
proof (cases f)
  case (Holds m p)
  have "eval_cond p (g r) = eval_cond p r" if "m = n" for r
    by (rule eval_cond_cong) (use assms(2,3) Holds that in \<open>simp; metis\<close>)
  then show ?thesis using assms(1) Holds by auto
qed (use assms in auto)

lemma eval_true_of_nulls:
  assumes "true_of_nulls n p fs" and "\<forall>f \<in> set fs. fact_true d f" and "r \<in> set (d n)"
  shows "eval_cond p r \<noteq> Some False"
proof -
  have "eval_cond p r = eval_cond p (\<lambda>c. V_null)"
    by (rule eval_cond_cong) (use assms in \<open>fastforce simp: true_of_nulls_def list_all_iff\<close>)
  then show ?thesis using assms(1) by (simp add: true_of_nulls_def)
qed

lemma eval_cond_implies: "cond_implies p' p \<Longrightarrow> eval_cond p' r \<noteq> Some False \<Longrightarrow> eval_cond p r \<noteq> Some False"
  by (cases p'; cases p) (auto simp: list_ex_iff split: if_splits)

lemma excluded_rows:
  assumes "list_ex (excluded_by n p) fs" and "\<forall>f \<in> set fs. fact_true d f" and "r \<in> set (d n)"
  shows "eval_cond p r \<noteq> Some True"
proof -
  obtain f where "f \<in> set fs" "excluded_by n p f" using assms(1) by (auto simp: list_ex_iff)
  moreover from this(2) obtain c x vs where "p = In_values c [x]" "f = Holds n (In_values c vs)" "x \<notin> set vs"
    by (cases "(n, p, f)" rule: excluded_by.cases) auto
  ultimately show ?thesis using assms(2,3) by (fastforce simp: list_ex_iff split: if_splits)
qed

lemma accepts_eval:
  assumes "accepts c v p" and "eval_cond p r \<noteq> Some False" and "v \<noteq> V_null"
  shows "eval_cond p (r(c := v)) \<noteq> Some False"
proof (cases "c \<in> set (cond_columns p)")
  case False
  then have "eval_cond p (r(c := v)) = eval_cond p r" by (intro eval_cond_cong) auto
  with assms(2) show ?thesis by simp
next
  case True
  with assms(1) obtain s c' vs where "v = V_text s" "p = In_values c' vs" "c' \<noteq> c \<or> s \<in> set vs"
    by (cases "(c, v, p)" rule: accepts.cases) auto
  with True show ?thesis by (auto simp: list_ex_iff)
qed

lemma harmless_table:
  assumes "harmless_update s n c v" and "map_of (sc_tables s) n = Some t"
  shows "v \<noteq> V_null" "c \<notin> set (tb_pk t)" "\<forall>fk \<in> set (tb_fks t). fk_column fk \<noteq> c"
    "\<forall>k p. (k, p) \<in> set (tb_checks t) \<longrightarrow> accepts c v p"
    "\<forall>cl \<in> set (tb_columns t). cl_name cl = c \<longrightarrow> has_type (cl_type cl) v \<and> \<not> is_generated cl"
    "\<forall>cl \<in> set (tb_columns t). c \<notin> set (generated_from cl)"
  using assms by (auto simp: harmless_update_def list_all_iff)

text \<open>Without an effect on the generated columns nothing is recomputed.\<close>

lemma regenerate_harmless:
  assumes "harmless_update s n c v" and "map_of (sc_tables s) n = Some t" and "row_ok env t r" and "table_wf t"
  shows "regenerate env t (r(c := v)) = r(c := v)"
proof
  fix x
  show "regenerate env t (r(c := v)) x = (r(c := v)) x"
  proof (cases "filter (\<lambda>cl. is_generated cl \<and> cl_name cl = x) (tb_columns t)")
    case (Cons cl cls)
    then have cl: "cl \<in> set (tb_columns t)" "is_generated cl" "cl_name cl = x" by (auto simp: filter_eq_Cons_iff)
    note h = harmless_table [OF assms(1,2)]
    have "map (r(c := v)) (generated_from cl) = map r (generated_from cl)" using h(6) cl(1) by (auto intro!: map_cong)
    moreover have "r x = V_tsvector (pe_tsvector env (map r (generated_from cl)))"
      using assms(3) cl by (auto simp: row_ok_def cell_ok_def list_all_iff)
    moreover have "x \<noteq> c" using h(5) cl by auto
    moreover have "default_value env cl (r(c := v)) = V_tsvector (pe_tsvector env (map (r(c := v)) (generated_from cl)))"
      using cl(2) by (auto simp: default_value_def is_generated_def generated_from_def split: col_default.splits)
    ultimately show ?thesis using Cons by (simp add: regenerate_def del: map_eq_conv)
  qed (simp add: regenerate_def)
qed

lemma harmless_row_ok:
  assumes "harmless_update s n c v" and "map_of (sc_tables s) n = Some t" and "row_ok env t r"
  shows "row_ok env t (r(c := v))"
proof -
  note h = harmless_table [OF assms(1,2)]
  have "cell_ok env cl (r(c := v))" if cl: "cl \<in> set (tb_columns t)" for cl
  proof (cases "cl_name cl = c")
    case True
    then show ?thesis using h(1,5) cl by (simp add: cell_ok_def)
  next
    case False
    have "cell_ok env cl r" using assms(3) cl by (simp add: row_ok_def list_all_iff)
    moreover have "cell_ok env cl (r(c := v)) = cell_ok env cl r"
      by (rule cell_ok_cong) (use False h(6) cl in auto)
    ultimately show ?thesis by simp
  qed
  moreover have "eval_cond p (r(c := v)) \<noteq> Some False" if "(k, p) \<in> set (tb_checks t)" for k p
    using accepts_eval [of c v p r] h(1,4) that assms(3) by (auto simp: row_ok_def list_all_iff)
  ultimately show ?thesis by (auto simp: row_ok_def list_all_iff)
qed

lemma harmless_data_ok:
  assumes wf: "schema_wf s" and ok: "data_ok env s d" and h: "harmless_update s n c v"
    and t: "map_of (sc_tables s) n = Some t" and g: "\<And>r. g r = r \<or> g r = r(c := v)"
  shows "data_ok env s (d(n := map g (d n)))"
  unfolding data_ok_iff
proof (intro conjI allI impI)
  let ?d = "d(n := map g (d n))"
  have other: "g r x = r x" if "x \<noteq> c" for r x using g [of r] that by auto
  fix m u
  assume u: "(m, u) \<in> set (sc_tables s)"
  have d: "distinct (map fst (sc_tables s))" using wf by (simp add: schema_wf_def)
  have rows: "rows_ok env d m u" using ok u by (auto simp: data_ok_iff)
  have ref: "fk_table fk = n \<Longrightarrow> fk_ref fk \<noteq> c" if "fk \<in> set (tb_fks u)" for fk
    using h u that by (force simp: harmless_update_def list_ex_iff)
  have fk: "fk_ok ?d fk r' = fk_ok d fk r" if "fk \<in> set (tb_fks u)" "r' (fk_column fk) = r (fk_column fk)" for fk r r'
    using ref [OF that(1)] that(2) other by (auto simp: fk_ok_def list_ex_iff)
  show "rows_ok env ?d m u"
  proof (cases "m = n")
    case False
    then show ?thesis using rows fk by (auto simp: rows_ok_def list_all_iff)
  next
    case True
    then have ut: "u = t" using u t table_in [OF d] by auto
    note ht = harmless_table [OF h t]
    have "row_ok env t (g r)" if "row_ok env t r" for r
      using g [of r] harmless_row_ok [OF h t that] that by auto
    then have "list_all (row_ok env t) (?d m)" using rows True ut by (simp add: rows_ok_def list_all_iff)
    moreover have "map (\<lambda>r. map r (tb_pk t)) (?d m) = map (\<lambda>r. map r (tb_pk t)) (d m)"
    proof -
      have "g r x = r x" if "x \<in> set (tb_pk t)" for r x using other [of x r] ht(2) that by blast
      then show ?thesis using True by (auto simp: comp_def)
    qed
    moreover have "fk_ok ?d fk (g r)" if "r \<in> set (d m)" "fk \<in> set (tb_fks t)" for r fk
      using fk [of fk "g r" r] ht(3) other rows that ut by (auto simp: rows_ok_def list_all_iff)
    then have "list_all (\<lambda>r. list_all (\<lambda>fk. fk_ok ?d fk r) (tb_fks t)) (?d m)" using True by (simp add: list_all_iff)
    ultimately show ?thesis using rows unfolding rows_ok_def ut by (simp only: simp_thms)
  qed
next
  let ?d = "d(n := map g (d n))"
  fix k ix
  assume ix: "(k, ix) \<in> set (sc_indexes s)"
  have ok': "index_ok ix (d (ix_table ix))" using ok ix by (auto simp: data_ok_iff)
  show "index_ok ix (?d (ix_table ix))"
  proof (cases "ix_unique ix \<and> ix_table ix = n")
    case True
    then have "c \<notin> set (index_columns ix)" using h ix by (auto simp: harmless_update_def list_all_iff)
    then have "index_ok ix (map g (d n)) = index_ok ix (d n)"
      using g by (intro index_ok_cong) (metis fun_upd_other)
    then show ?thesis using True ok' by simp
  qed (use ok' in \<open>auto simp: index_ok_def\<close>)
qed

lemma checks_hold: "rows_ok env d n t \<Longrightarrow> (k, p) \<in> set (tb_checks t) \<Longrightarrow> r \<in> set (d n) \<Longrightarrow> eval_cond p r \<noteq> Some False"
  unfolding rows_ok_def row_ok_def list_all_iff by blast

text \<open>One statement: what passes the check cannot fail, and the facts claimed are true afterwards.\<close>

definition unchanged :: "written \<Rightarrow> data \<Rightarrow> data \<Rightarrow> bool" where
  "unchanged ws d d' \<longleftrightarrow>
     (\<forall>n. (n, None) \<notin> set ws \<longrightarrow> length (d' n) = length (d n)) \<and>
     (\<forall>n c. \<not> may_write ws n c \<longrightarrow> map (\<lambda>r. r c) (d' n) = map (\<lambda>r. r c) (d n))"

lemma unchanged_refl [simp]: "unchanged ws d d"
  by (simp add: unchanged_def)

lemma unchanged_append: "unchanged ws d d1 \<Longrightarrow> unchanged ws2 d1 d2 \<Longrightarrow> unchanged (ws @ ws2) d d2"
  by (auto simp: unchanged_def may_write_def)

lemma unchanged_column:
  assumes "\<And>r x. x \<noteq> c \<Longrightarrow> g r x = r x"
  shows "unchanged [(n, Some c)] d (d(n := map g (d n)))"
  using assms by (auto simp: unchanged_def may_write_def)

lemma facts_frame:
  assumes "\<forall>f \<in> set fs. fact_true d f" and "\<And>r x. x \<noteq> c \<Longrightarrow> g r x = r x"
  shows "\<forall>f \<in> set (filter (\<lambda>f. \<not> about_column n c f) fs). fact_true (d(n := map g (d n))) f"
  using assms fact_true_frame [where g = g and c = c and n = n and d = d] by auto

lemma new_values_true:
  assumes "f \<in> set (new_values n c v p q)" and "\<forall>r \<in> set (d n). eval_cond q r \<noteq> Some False"
    and "\<And>r. r \<in> set (d n) \<Longrightarrow> g r = (if eval_cond p r = Some True then r(c := v) else r)"
  shows "fact_true (d(n := map g (d n))) f"
proof -
  obtain s x vs where f: "v = V_text s" "p = In_values c [x]" "q = In_values c vs"
    "f = Holds n (In_values c (s # filter (\<lambda>v. v \<noteq> x) vs))"
    using assms(1) by (cases "(n, c, v, p, q)" rule: new_values.cases) (auto split: if_splits)
  have "eval_cond (In_values c (s # filter (\<lambda>v. v \<noteq> x) vs)) (g r) \<noteq> Some False" if r: "r \<in> set (d n)" for r
    using bspec [OF assms(2) r] assms(3) [OF r] f by (auto simp: list_ex_iff split: if_splits)
  then show ?thesis by (auto simp: f(4))
qed

lemma safe_ddl_sound:
  assumes wf: "schema_wf s" and ok: "conforms env s d" and safe: "safe_ddl s fs op = Some (fs', ws)"
    and fs: "\<forall>f \<in> set fs. fact_true d f" and ex: "schema_exec op s = Inr s'"
  shows "\<exists>d'. data_exec env op s d = Inr d' \<and> (\<forall>f \<in> set fs'. fact_true d' f) \<and> unchanged ws d d'"
proof (cases op)
  case (Create_table n t)
  have "d n = []" using ok ex Create_table by (auto simp: conforms_def padded_iff split: if_splits)
  then have "d(n := []) = d" by (simp add: fun_upd_idem)
  then show ?thesis using safe fs Create_table \<open>d n = []\<close> by auto
next
  case (Drop_table n)
  have "fact_true (d(n := [])) f" if "fact_true d f" for f using that by (cases f) auto
  moreover have "unchanged [(n, None)] d (d(n := []))" by (auto simp: unchanged_def may_write_def)
  ultimately show ?thesis using safe fs Drop_table by auto
next
  case (Add_column n cl)
  let ?g = "\<lambda>r. r(cl_name cl := default_value env cl r)"
  have case1: "cl_nullable cl \<or> never_null cl \<or> d n = []"
    and fs': "fs' = (if cl_default cl = No_default then [Null n (cl_name cl)] else []) @
      filter (\<lambda>f. \<not> about_column n (cl_name cl) f) fs" and ws: "ws = [(n, Some (cl_name cl))]"
    using safe Add_column fs by (auto split: if_splits)
  have "never_null cl \<Longrightarrow> default_value env cl r \<noteq> V_null" for r
    by (auto simp: never_null_def default_value_def split: col_default.splits)
  then have "data_exec env op s d = Inr (d(n := map ?g (d n)))"
    using case1 Add_column by (auto simp: list_ex_iff)
  moreover have "unchanged ws d (d(n := map ?g (d n)))" unfolding ws by (rule unchanged_column) simp
  moreover have "\<forall>f \<in> set fs'. fact_true (d(n := map ?g (d n))) f"
    using facts_frame [OF fs, of "cl_name cl" ?g n] unfolding fs' by (auto simp: default_value_def)
  ultimately show ?thesis by blast
next
  case (Drop_column n c ie)
  let ?g = "\<lambda>r. r(c := V_null)"
  have "unchanged [(n, Some c)] d (d(n := map ?g (d n)))" by (rule unchanged_column) simp
  moreover have "\<forall>f \<in> set fs'. fact_true (d(n := map ?g (d n))) f"
    using facts_frame [OF fs, of c ?g n] safe Drop_column by auto
  ultimately show ?thesis using safe Drop_column by auto
next
  case (Add_check n k p)
  have "eval_cond p r \<noteq> Some False" if r: "r \<in> set (d n)" for r
  proof (cases "true_of_nulls n p fs")
    case True
    then show ?thesis by (rule eval_true_of_nulls [OF _ fs r])
  next
    case False
    then obtain f where f: "fact_true d f" "implied_by n p f"
      using safe fs Add_check by (auto simp: list_ex_iff split: if_splits)
    show ?thesis
    proof (cases f)
      case (Holds m p')
      then have "cond_implies p' p" "eval_cond p' r \<noteq> Some False" using f r by auto
      then show ?thesis by (rule eval_cond_implies)
    qed (use f r in auto)
  qed
  then show ?thesis using safe fs Add_check by (auto simp: list_ex_iff split: if_splits)
next
  case (Drop_constraint n k)
  then obtain t where t: "map_of (sc_tables s) n = Some t" and fs': "fs' = map (\<lambda>(j, p). Holds n p) (tb_checks t) @ fs"
    and ws: "ws = []" using safe by (auto split: option.splits)
  have "rows_ok env d n t" using ok map_of_SomeD [OF t] by (auto simp: conforms_def data_ok_iff)
  then have "\<forall>f \<in> set fs'. fact_true d f" using fs unfolding fs' by (auto dest: checks_hold)
  then show ?thesis using Drop_constraint ws by auto
next
  case (Create_index k ix ie)
  have "\<not> ix_unique ix \<or> d (ix_table ix) = []" using safe fs Create_index by (auto split: if_splits)
  then have "index_ok ix (d (ix_table ix))" by (auto simp: index_ok_def)
  then show ?thesis using safe fs Create_index by (auto split: if_splits)
next
  case (Drop_index k ie)
  then show ?thesis using safe fs by auto
next
  case (Update_column n c v p)
  then obtain t where t: "map_of (sc_tables s) n = Some t" using ex update_schemaD by blast
  have rows: "rows_ok env d n t" using ok map_of_SomeD [OF t] by (auto simp: conforms_def data_ok_iff)
  have data: "data_ok env s d" using ok by (simp add: conforms_def)
  show ?thesis
  proof (cases "list_ex (excluded_by n p) fs")
    case True
    then have "updated_rows env s n c v p d = d n"
      using excluded_rows [OF True fs] by (auto simp: updated_rows_def t intro: map_idI)
    then have "data_exec env op s d = Inr d" using data Update_column by (simp add: Let_def)
    then show ?thesis using safe fs Update_column True by simp
  next
    case False
    let ?g = "\<lambda>r. if eval_cond p r = Some True then r(c := v) else r"
    have h: "harmless_update s n c v" and fs': "fs' = concat (map (\<lambda>(k, q). new_values n c v p q) (tb_checks t)) @
        filter (\<lambda>f. \<not> about_column n c f) fs" and ws: "ws = [(n, Some c)]"
      using safe Update_column False t by (auto split: if_splits)
    have "updated_rows env s n c v p d = map ?g (d n)"
      using regenerate_harmless [OF h t _ schema_wfD(1) [OF wf t]] rows
      by (auto simp: updated_rows_def t rows_ok_def list_all_iff)
    moreover have "data_ok env s (d(n := map ?g (d n)))" by (rule harmless_data_ok [OF wf data h t]) simp
    ultimately have "data_exec env op s d = Inr (d(n := map ?g (d n)))" using Update_column by (simp add: Let_def)
    moreover have "unchanged ws d (d(n := map ?g (d n)))" unfolding ws by (rule unchanged_column) simp
    moreover have "fact_true (d(n := map ?g (d n))) f" if "f \<in> set (new_values n c v p q)" "(k, q) \<in> set (tb_checks t)" for f k q
      by (rule new_values_true [OF that(1)]) (use checks_hold [OF rows that(2)] in auto)
    then have "\<forall>f \<in> set fs'. fact_true (d(n := map ?g (d n))) f"
      using facts_frame [OF fs, of c ?g n] unfolding fs' by auto
    ultimately show ?thesis by blast
  qed
qed

lemma safe_run_sound:
  assumes "safe_run ops s fs = Some (s', fs', ws)" and "schema_wf s" and "conforms env s d" and "\<forall>f \<in> set fs. fact_true d f"
  shows "\<exists>d'. run_ddl env ops s d = Inr (s', d') \<and> schema_wf s' \<and> conforms env s' d' \<and>
    (\<forall>f \<in> set fs'. fact_true d' f) \<and> unchanged ws d d'"
  using assms
proof (induction ops arbitrary: s fs d ws)
  case (Cons op ops)
  obtain s1 fs1 ws1 ws2 where s1: "schema_exec op s = Inr s1" and safe: "safe_ddl s fs op = Some (fs1, ws1)"
    and rest: "safe_run ops s1 fs1 = Some (s', fs', ws2)" and ws: "ws = ws1 @ ws2"
    using Cons.prems(1) by (auto split: sum.splits option.splits)
  obtain d1 where d1: "data_exec env op s d = Inr d1" "\<forall>f \<in> set fs1. fact_true d1 f" "unchanged ws1 d d1"
    using safe_ddl_sound [OF Cons.prems(2,3) safe Cons.prems(4) s1] by blast
  have "schema_wf s1" by (rule schema_exec_wf [OF Cons.prems(2) s1])
  moreover have "conforms env s1 d1" by (rule statement_conforms [OF Cons.prems(2,3) s1 d1(1)])
  ultimately obtain d' where "run_ddl env ops s1 d1 = Inr (s', d')" "schema_wf s'" "conforms env s' d'"
    "\<forall>f \<in> set fs'. fact_true d' f" "unchanged ws2 d1 d'"
    using Cons.IH [OF rest _ _ d1(2)] by blast
  then show ?case using s1 d1 unchanged_append [OF d1(3)] ws by auto
qed simp

lemma start_facts_true: "data_ok env s d \<Longrightarrow> \<forall>f \<in> set (start_facts s). fact_true d f"
  by (fastforce simp: start_facts_def data_ok_iff dest: checks_hold)

section \<open>Columns that stay\<close>

definition has_column :: "schema \<Rightarrow> string \<Rightarrow> string \<Rightarrow> bool" where
  "has_column s n c \<longleftrightarrow> (case map_of (sc_tables s) n of None \<Rightarrow> False | Some t \<Rightarrow> c \<in> set (column_names t))"

lemma safe_ddl_keeps_column:
  assumes "schema_exec op s = Inr s'" and "safe_ddl s fs op = Some (fs', ws)" and "has_column s n c" and "\<not> may_write ws n c"
  shows "has_column s' n c"
proof -
  obtain t where t: "map_of (sc_tables s) n = Some t" "c \<in> set (column_names t)"
    using assms(3) by (auto simp: has_column_def split: option.splits)
  show ?thesis
  proof (cases op)
    case (Create_table m u)
    then show ?thesis using assms(1) t by (auto simp: has_column_def map_add_def split: if_splits option.splits)
  next
    case (Drop_table m)
    then have "n \<noteq> m" using assms(2,4) by (auto simp: may_write_def)
    then show ?thesis using Drop_table assms(1) t by (auto simp: has_column_def on_table_Inr map_of_filter_fst split: if_splits)
  next
    case (Add_column m cl)
    then show ?thesis using assms(1) t by (auto simp: has_column_def on_table_Inr split: if_splits)
  next
    case (Drop_column m x ie)
    then have "n \<noteq> m \<or> c \<noteq> x" using assms(2,4) by (auto simp: may_write_def)
    then show ?thesis using Drop_column assms(1) t
      by (auto simp: has_column_def on_table_Inr without_column_names simp del: set_map split: if_splits)
  qed (use assms(1) t in \<open>auto simp: has_column_def on_table_Inr split: if_splits\<close>)
qed

lemma safe_run_keeps_column:
  assumes "safe_run ops s fs = Some (s', fs', ws)" and "has_column s n c" and "\<not> may_write ws n c"
  shows "has_column s' n c"
  using assms
proof (induction ops arbitrary: s fs ws)
  case (Cons op ops)
  then show ?case
    by (auto simp: may_write_def split: sum.splits option.splits dest!: safe_ddl_keeps_column)
qed simp

text \<open>Rows are equal when they are in every column.\<close>

lemma rows_eqI:
  assumes "length xs = length ys" and "\<And>c. map (\<lambda>r. r c) xs = map (\<lambda>r. r c) ys"
  shows "xs = (ys :: row list)"
proof (rule nth_equalityI [OF assms(1)])
  fix i
  assume i: "i < length xs"
  show "xs ! i = ys ! i"
  proof
    fix c
    have "map (\<lambda>r. r c) xs ! i = map (\<lambda>r. r c) ys ! i" by (simp only: assms(2))
    then show "(xs ! i) c = (ys ! i) c" using i assms(1) by simp
  qed
qed

section \<open>There and back\<close>

text \<open>What is left of the rows when some columns, or whole tables, are emptied.\<close>

definition forget :: "written \<Rightarrow> data \<Rightarrow> data" where
  "forget ws d =
     (\<lambda>n. if (n, None) \<in> set ws then [] else map (\<lambda>r c. if (n, Some c) \<in> set ws then V_null else r c) (d n))"

lemma forget_nothing [simp]: "forget [] d = d"
  by (simp add: forget_def)

definition same_table :: "sql_table \<Rightarrow> sql_table \<Rightarrow> bool" where
  "same_table t u \<longleftrightarrow>
     set (tb_columns t) = set (tb_columns u) \<and> tb_pk t = tb_pk u \<and>
     set (tb_fks t) = set (tb_fks u) \<and> set (tb_checks t) = set (tb_checks u)"

definition tables_in :: "schema \<Rightarrow> schema \<Rightarrow> bool" where
  "tables_in s s' \<longleftrightarrow>
     list_all (\<lambda>(n, t). case map_of (sc_tables s') n of None \<Rightarrow> False | Some u \<Rightarrow> same_table t u) (sc_tables s)"

text \<open>Equal up to the order of tables, columns, constraints and indexes.\<close>

definition same_schema :: "schema \<Rightarrow> schema \<Rightarrow> bool" where
  "same_schema s s' \<longleftrightarrow> tables_in s s' \<and> tables_in s' s \<and> set (sc_indexes s) = set (sc_indexes s')"

lemma tables_inD:
  assumes "tables_in s s'" and "map_of (sc_tables s) n = Some t"
  obtains u where "map_of (sc_tables s') n = Some u" "same_table t u"
proof -
  have "case map_of (sc_tables s') n of None \<Rightarrow> False | Some u \<Rightarrow> same_table t u"
    using assms(1) bspec [of "set (sc_tables s)" _ "(n, t)"] map_of_SomeD [OF assms(2)]
    by (fastforce simp: tables_in_def list_all_iff)
  then show thesis using that by (auto split: option.splits)
qed

lemma same_schema_column:
  assumes "same_schema s s'"
  shows "has_column s n c = has_column s' n c" "map_of (sc_tables s) n = None \<longleftrightarrow> map_of (sc_tables s') n = None"
proof -
  have le: "has_column s n c \<Longrightarrow> has_column s' n c" if "tables_in s s'" for s s'
    using that by (auto simp: has_column_def same_table_def elim!: tables_inD split: option.splits)
  have none: "map_of (sc_tables s') n = None \<Longrightarrow> map_of (sc_tables s) n = None" if "tables_in s s'" for s s'
    using that by (cases "map_of (sc_tables s) n") (auto elim!: tables_inD)
  from assms show "has_column s n c = has_column s' n c" "map_of (sc_tables s) n = None \<longleftrightarrow> map_of (sc_tables s') n = None"
    using le none unfolding same_schema_def by blast+
qed

lemma padded_has_column: "padded s d \<Longrightarrow> \<not> has_column s n c \<Longrightarrow> r \<in> set (d n) \<Longrightarrow> r c = V_null"
  by (cases "map_of (sc_tables s) n") (auto simp: has_column_def padded_iff map_of_eq_None_iff dest: map_of_SomeD)

definition fresh :: "schema \<Rightarrow> string \<times> string option \<Rightarrow> bool" where
  "fresh s w \<longleftrightarrow> (case w of (n, None) \<Rightarrow> map_of (sc_tables s) n = None | (n, Some c) \<Rightarrow> \<not> has_column s n c)"

fun null_fact :: "string \<times> string option \<Rightarrow> fact" where
  "null_fact (n, None) = Empty n"
| "null_fact (n, Some c) = Null n c"

lemma restored:
  assumes d: "padded s d" and d2: "padded s2 d2" and same: "same_schema s2 s" and u: "unchanged ws d d2"
    and ws: "list_all (\<lambda>w. fresh s w \<or> w \<in> set lost) ws" and lost: "\<forall>w \<in> set lost. fact_true d2 (null_fact w)"
  shows "d2 = forget lost d"
proof
  fix n
  show "d2 n = forget lost d n"
  proof (cases "(n, None) \<in> set lost \<or> map_of (sc_tables s) n = None")
    case True
    then have "d2 n = []" using lost d2 same_schema_column(2) [OF same, of n]
      by (auto simp: padded_iff map_of_eq_None_iff)
    moreover have "d n = []" if "map_of (sc_tables s) n = None" using d that by (auto simp: padded_iff map_of_eq_None_iff)
    ultimately show ?thesis using True by (auto simp: forget_def)
  next
    case False
    then have keep: "(n, None) \<notin> set ws" using ws by (auto simp: list_all_iff fresh_def)
    have "map (\<lambda>r. r c) (d2 n) = map (\<lambda>r. r c) (forget lost d n)" for c
    proof (cases "(n, Some c) \<in> set lost")
      case True
      then have "map (\<lambda>r. r c) (d2 n) = map (\<lambda>r. V_null) (d2 n)" using lost by auto
      also have "\<dots> = map (\<lambda>r. V_null) (d n)" using u keep by (simp add: unchanged_def map_replicate_const)
      finally show ?thesis using True False by (simp add: forget_def comp_def)
    next
      case nl: False
      show ?thesis
      proof (cases "has_column s n c")
        case True
        then have "\<not> may_write ws n c" using ws keep nl by (auto simp: list_all_iff fresh_def may_write_def)
        then show ?thesis using u nl False by (simp add: unchanged_def forget_def comp_def)
      next
        case no: False
        have "map (\<lambda>r. r c) (d2 n) = map (\<lambda>r. V_null) (d2 n)"
          using padded_has_column [OF d2] no same_schema_column(1) [OF same] by auto
        also have "\<dots> = map (\<lambda>r. V_null) (d n)" using u keep by (simp add: unchanged_def map_replicate_const)
        also have "\<dots> = map (\<lambda>r. r c) (d n)" using padded_has_column [OF d no] by (simp add: eq_commute)
        finally show ?thesis using nl False by (simp add: forget_def comp_def)
      qed
    qed
    moreover have "length (d2 n) = length (forget lost d n)" using u keep False by (simp add: unchanged_def forget_def)
    ultimately show ?thesis by (intro rows_eqI)
  qed
qed

end
