(* ===== verification/Migrations.thy ===== *)
theory Migrations
  imports Ddl_Safety
begin

text \<open>
  The twelve revisions of \<open>migrations/versions\<close> and their run by \<open>migrations/env.py\<close> and
  \<open>jobs/migrator.py\<close>. Alembic, called there, executes the pending revisions in one transaction and stamps
  the version after each; an \<open>autocommit_block\<close> commits what came before it.
\<close>

section \<open>Runs\<close>

datatype step = Statement ddl | Autocommit ddl | Stamp "string option"

record migration =
  mg_revision :: string
  mg_down_revision :: "string option"
  mg_upgrade :: "step list"
  mg_downgrade :: "step list"

record pg =
  pg_version :: "string option"
  pg_schema :: schema
  pg_rows :: data

definition exec :: "pg_env \<Rightarrow> ddl \<Rightarrow> pg \<Rightarrow> db_error + pg" where
  "exec env op p =
     (case schema_exec op (pg_schema p) of
        Inl e \<Rightarrow> Inl e
      | Inr s \<Rightarrow>
          (case data_exec env op (pg_schema p) (pg_rows p) of
             Inl e \<Rightarrow> Inl e
           | Inr d \<Rightarrow> Inr (p\<lparr>pg_schema := s, pg_rows := d\<rparr>)))"

text \<open>
  A run of steps from a working state and the last committed one. It ends with what is committed: all of it,
  or after an error the state before the transaction.
\<close>

fun run_steps :: "pg_env \<Rightarrow> step list \<Rightarrow> pg \<Rightarrow> pg \<Rightarrow> db_error option \<times> pg" where
  "run_steps env [] p committed = (None, p)"
| "run_steps env (Statement op # steps) p committed =
     (case exec env op p of Inl e \<Rightarrow> (Some e, committed) | Inr p' \<Rightarrow> run_steps env steps p' committed)"
| "run_steps env (Autocommit op # steps) p committed =
     (case exec env op p of Inl e \<Rightarrow> (Some e, p) | Inr p' \<Rightarrow> run_steps env steps p' p')"
| "run_steps env (Stamp v # steps) p committed = run_steps env steps (p\<lparr>pg_version := v\<rparr>) committed"

text \<open>What a run leaves behind that stops at some point, because its process or its connection dies.\<close>

fun left_by :: "pg_env \<Rightarrow> step list \<Rightarrow> pg \<Rightarrow> pg \<Rightarrow> pg list" where
  "left_by env [] p committed = [committed, p]"
| "left_by env (Statement op # steps) p committed =
     committed # (case exec env op p of Inl e \<Rightarrow> [] | Inr p' \<Rightarrow> left_by env steps p' committed)"
| "left_by env (Autocommit op # steps) p committed =
     committed # p # (case exec env op p of Inl e \<Rightarrow> [] | Inr p' \<Rightarrow> left_by env steps p' p')"
| "left_by env (Stamp v # steps) p committed = committed # left_by env steps (p\<lparr>pg_version := v\<rparr>) committed"

section \<open>Columns\<close>

definition column :: "string \<Rightarrow> sql_type \<Rightarrow> bool \<Rightarrow> col_default \<Rightarrow> column" where
  "column n ty nullable dflt = \<lparr>cl_name = n, cl_type = ty, cl_nullable = nullable, cl_default = dflt\<rparr>"

abbreviation not_null :: "string \<Rightarrow> sql_type \<Rightarrow> column" where
  "not_null n ty \<equiv> column n ty False No_default"

abbreviation nullable :: "string \<Rightarrow> sql_type \<Rightarrow> column" where
  "nullable n ty \<equiv> column n ty True No_default"

abbreviation references :: "string \<Rightarrow> string \<Rightarrow> string \<Rightarrow> bool \<Rightarrow> foreign_key" where
  "references c t ref cascade \<equiv> \<lparr>fk_column = c, fk_table = t, fk_ref = ref, fk_cascade = cascade\<rparr>"

abbreviation plain_index :: "string \<Rightarrow> string list \<Rightarrow> bool \<Rightarrow> sql_index" where
  "plain_index t cs unique \<equiv> \<lparr>ix_table = t, ix_keys = map Key cs, ix_unique = unique, ix_where = None\<rparr>"

definition INTEGRATION_VALUES :: "string list" where
  "INTEGRATION_VALUES = [''stripe'', ''github'', ''shopify'', ''twilio'', ''mailgun'', ''discord'', ''slack'', ''zapier'', ''n8n'']"

section \<open>The revisions\<close>

definition initial_upgrade :: "step list" where
  "initial_upgrade =
     [Statement (Create_table ''endpoints''
        \<lparr>tb_columns = [not_null ''id'' T_uuid, not_null ''token'' T_varchar, not_null ''created_at'' T_timestamp,
           not_null ''expires_at'' T_timestamp, not_null ''request_count'' T_integer],
         tb_pk = [''id''], tb_fks = [], tb_checks = []\<rparr>),
      Statement (Create_index ''ix_endpoints_expires_at'' (plain_index ''endpoints'' [''expires_at''] False) False),
      Statement (Create_index ''ix_endpoints_token'' (plain_index ''endpoints'' [''token''] True) False),
      Statement (Create_table ''requests''
        \<lparr>tb_columns = [not_null ''id'' T_uuid, not_null ''endpoint_id'' T_uuid, not_null ''method'' T_varchar,
           not_null ''path'' T_varchar, nullable ''query_string'' T_varchar, not_null ''headers'' T_jsonb,
           nullable ''body_preview'' T_varchar, not_null ''body_size'' T_integer, nullable ''blob_key'' T_varchar,
           not_null ''source_ip'' T_inet, not_null ''received_at'' T_timestamp],
         tb_pk = [''id''], tb_fks = [references ''endpoint_id'' ''endpoints'' ''id'' False], tb_checks = []\<rparr>),
      Statement (Create_index ''ix_requests_endpoint_id'' (plain_index ''requests'' [''endpoint_id''] False) False)]"

definition initial_downgrade :: "step list" where
  "initial_downgrade =
     [Statement (Drop_index ''ix_requests_endpoint_id'' False),
      Statement (Drop_table ''requests''),
      Statement (Drop_index ''ix_endpoints_token'' False),
      Statement (Drop_index ''ix_endpoints_expires_at'' False),
      Statement (Drop_table ''endpoints'')]"

definition custom_response_upgrade :: "step list" where
  "custom_response_upgrade =
     [Statement (Add_column ''endpoints'' (column ''response_status_code'' T_integer False (Const_default (V_int 200)))),
      Statement (Add_column ''endpoints'' (column ''response_body'' T_text False (Const_default (V_text DEFAULT_RESPONSE_BODY)))),
      Statement (Add_column ''endpoints'' (column ''response_headers'' T_jsonb False (Const_default (V_jsonb (JObj []))))),
      Statement (Add_column ''endpoints'' (column ''response_delay_ms'' T_integer False (Const_default (V_int 0))))]"

definition custom_response_downgrade :: "step list" where
  "custom_response_downgrade =
     [Statement (Drop_column ''endpoints'' ''response_delay_ms'' False),
      Statement (Drop_column ''endpoints'' ''response_headers'' False),
      Statement (Drop_column ''endpoints'' ''response_body'' False),
      Statement (Drop_column ''endpoints'' ''response_status_code'' False)]"

definition search_vector_upgrade :: "step list" where
  "search_vector_upgrade =
     [Statement (Add_column ''requests'' (column ''search_vector'' T_tsvector True
        (Generated [''method'', ''path'', ''body_preview'', ''headers'']))),
      Autocommit (Create_index ''requests_search_idx'' (plain_index ''requests'' [''search_vector''] False) True)]"

definition search_vector_downgrade :: "step list" where
  "search_vector_downgrade =
     [Autocommit (Drop_index ''requests_search_idx'' True),
      Statement (Drop_column ''requests'' ''search_vector'' True)]"

definition hmac_validation_upgrade :: "step list" where
  "hmac_validation_upgrade =
     [Statement (Add_column ''endpoints'' (nullable ''signature_provider'' T_text)),
      Statement (Add_column ''endpoints'' (nullable ''signature_secret_encrypted'' T_bytea)),
      Statement (Add_column ''requests'' (nullable ''signature_status'' T_text)),
      Statement (Update_column ''requests'' ''signature_status'' (V_text ''no_provider'') (Is_null ''signature_status''))]"

definition hmac_validation_downgrade :: "step list" where
  "hmac_validation_downgrade =
     [Statement (Drop_column ''requests'' ''signature_status'' False),
      Statement (Drop_column ''endpoints'' ''signature_secret_encrypted'' False),
      Statement (Drop_column ''endpoints'' ''signature_provider'' False)]"

definition integration_detection_upgrade :: "step list" where
  "integration_detection_upgrade =
     [Statement (Add_column ''requests'' (nullable ''detected_integration'' T_text)),
      Statement (Add_column ''requests'' (nullable ''detected_event_type'' T_text)),
      Statement (Add_check ''requests'' ''requests_detected_integration_check''
        (Cond_or (Is_null ''detected_integration'') (In_values ''detected_integration'' INTEGRATION_VALUES))),
      Statement (Create_index ''requests_integration_recent_idx''
        \<lparr>ix_table = ''requests'', ix_keys = [Key ''endpoint_id'', Key ''detected_integration'', Key_desc ''received_at''],
         ix_unique = False, ix_where = Some (Is_not_null ''detected_integration'')\<rparr> False)]"

definition integration_detection_downgrade :: "step list" where
  "integration_detection_downgrade =
     [Statement (Drop_index ''requests_integration_recent_idx'' False),
      Statement (Drop_constraint ''requests'' ''requests_detected_integration_check''),
      Statement (Drop_column ''requests'' ''detected_event_type'' False),
      Statement (Drop_column ''requests'' ''detected_integration'' False)]"

definition schema_inference_upgrade :: "step list" where
  "schema_inference_upgrade =
     [Statement (Create_table ''inferred_schemas''
        \<lparr>tb_columns = [not_null ''id'' T_uuid, not_null ''endpoint_id'' T_uuid, not_null ''integration'' T_text,
           nullable ''event_type'' T_text, not_null ''schema_json'' T_jsonb,
           column ''sample_count'' T_integer False (Const_default (V_int 0)),
           column ''version'' T_integer False (Const_default (V_int 0)),
           nullable ''last_field_added_at'' T_timestamptz,
           column ''created_at'' T_timestamptz False Now_default, column ''updated_at'' T_timestamptz False Now_default],
         tb_pk = [''id''], tb_fks = [references ''endpoint_id'' ''endpoints'' ''id'' True], tb_checks = []\<rparr>),
      Statement (Create_index ''inferred_schemas_key_idx''
        \<lparr>ix_table = ''inferred_schemas'', ix_keys = [Key ''endpoint_id'', Key ''integration'', Key_or_empty ''event_type''],
         ix_unique = True, ix_where = None\<rparr> False),
      Statement (Add_check ''inferred_schemas'' ''inferred_schemas_integration_check''
        (In_values ''integration'' INTEGRATION_VALUES)),
      Statement (Add_column ''requests'' (nullable ''schema_drift'' T_jsonb))]"

definition schema_inference_downgrade :: "step list" where
  "schema_inference_downgrade =
     [Statement (Drop_column ''requests'' ''schema_drift'' False),
      Statement (Drop_constraint ''inferred_schemas'' ''inferred_schemas_integration_check''),
      Statement (Drop_index ''inferred_schemas_key_idx'' False),
      Statement (Drop_table ''inferred_schemas'')]"

definition replay_upgrade :: "step list" where
  "replay_upgrade =
     [Statement (Create_table ''replays''
        \<lparr>tb_columns = [not_null ''id'' T_uuid, not_null ''request_id'' T_uuid, not_null ''target_url'' T_text,
           nullable ''status_code'' T_smallint, nullable ''response_body_preview'' T_text,
           nullable ''response_headers'' T_jsonb, nullable ''error'' T_text, not_null ''duration_ms'' T_integer,
           not_null ''attempted_at'' T_timestamptz],
         tb_pk = [''id''], tb_fks = [references ''request_id'' ''requests'' ''id'' True], tb_checks = []\<rparr>),
      Statement (Create_index ''ix_replays_request_id'' (plain_index ''replays'' [''request_id''] False) False),
      Statement (Add_check ''replays'' ''replays_outcome_xor'' (Null_differs ''status_code'' ''error''))]"

definition replay_downgrade :: "step list" where
  "replay_downgrade = [Statement (Drop_table ''replays'')]"

definition trace_summary_upgrade :: "step list" where
  "trace_summary_upgrade = [Statement (Add_column ''requests'' (nullable ''trace_summary'' T_jsonb))]"

definition trace_summary_downgrade :: "step list" where
  "trace_summary_downgrade = [Statement (Drop_column ''requests'' ''trace_summary'' False)]"

definition drop_drift_upgrade :: "step list" where
  "drop_drift_upgrade =
     [Statement (Drop_column ''requests'' ''schema_drift'' False),
      Statement (Drop_column ''requests'' ''trace_summary'' False),
      Statement (Drop_constraint ''inferred_schemas'' ''inferred_schemas_integration_check''),
      Statement (Drop_index ''inferred_schemas_key_idx'' False),
      Statement (Drop_table ''inferred_schemas'')]"

definition drop_drift_downgrade :: "step list" where
  "drop_drift_downgrade =
     [Statement (Create_table ''inferred_schemas''
        \<lparr>tb_columns = [not_null ''id'' T_uuid, not_null ''endpoint_id'' T_uuid, not_null ''integration'' T_text,
           nullable ''event_type'' T_text, not_null ''schema_json'' T_jsonb,
           column ''sample_count'' T_integer False (Const_default (V_int 0)),
           column ''version'' T_integer False (Const_default (V_int 0)),
           nullable ''last_field_added_at'' T_timestamptz,
           column ''created_at'' T_timestamptz False Now_default, column ''updated_at'' T_timestamptz False Now_default],
         tb_pk = [''id''], tb_fks = [references ''endpoint_id'' ''endpoints'' ''id'' True], tb_checks = []\<rparr>),
      Statement (Create_index ''inferred_schemas_key_idx''
        \<lparr>ix_table = ''inferred_schemas'', ix_keys = [Key ''endpoint_id'', Key ''integration'', Key_or_empty ''event_type''],
         ix_unique = True, ix_where = None\<rparr> False),
      Statement (Add_check ''inferred_schemas'' ''inferred_schemas_integration_check''
        (In_values ''integration'' INTEGRATION_VALUES)),
      Statement (Add_column ''requests'' (nullable ''trace_summary'' T_jsonb)),
      Statement (Add_column ''requests'' (nullable ''schema_drift'' T_jsonb))]"

definition forwards_upgrade :: "step list" where
  "forwards_upgrade =
     [Statement (Add_column ''endpoints'' (nullable ''forward_url'' T_text)),
      Statement (Add_column ''endpoints'' (nullable ''forward_headers'' T_jsonb)),
      Statement (Add_column ''endpoints'' (nullable ''forward_secret_encrypted'' T_bytea)),
      Statement (Create_table ''forwards''
        \<lparr>tb_columns = [not_null ''id'' T_uuid, not_null ''request_id'' T_uuid, not_null ''endpoint_id'' T_uuid,
           not_null ''target_url'' T_text, not_null ''status'' T_text,
           column ''attempt_count'' T_integer False (Const_default (V_int 0)), nullable ''last_attempt_at'' T_timestamptz,
           nullable ''next_attempt_at'' T_timestamptz, nullable ''final_status_code'' T_integer,
           nullable ''final_error'' T_text, nullable ''forward_started_at'' T_timestamptz,
           nullable ''forward_completed_at'' T_timestamptz, column ''created_at'' T_timestamptz False Now_default],
         tb_pk = [''id''],
         tb_fks = [references ''request_id'' ''requests'' ''id'' True, references ''endpoint_id'' ''endpoints'' ''id'' True],
         tb_checks = [(''forwards_status_check'',
           In_values ''status'' [''pending'', ''in_flight'', ''succeeded'', ''failed'', ''dead''])]\<rparr>),
      Statement (Create_index ''forwards_dead_idx''
        \<lparr>ix_table = ''forwards'', ix_keys = [Key ''forward_completed_at''], ix_unique = False,
         ix_where = Some (In_values ''status'' [''dead''])\<rparr> False),
      Statement (Create_index ''forwards_endpoint_idx'' (plain_index ''forwards'' [''endpoint_id'', ''created_at''] False) False)]"

definition forwards_downgrade :: "step list" where
  "forwards_downgrade =
     [Statement (Drop_index ''forwards_endpoint_idx'' False),
      Statement (Drop_index ''forwards_dead_idx'' False),
      Statement (Drop_table ''forwards''),
      Statement (Drop_column ''endpoints'' ''forward_secret_encrypted'' False),
      Statement (Drop_column ''endpoints'' ''forward_headers'' False),
      Statement (Drop_column ''endpoints'' ''forward_url'' False)]"

definition forward_dlq_ops_upgrade :: "step list" where
  "forward_dlq_ops_upgrade =
     [Statement (Drop_constraint ''forwards'' ''forwards_status_check''),
      Statement (Add_check ''forwards'' ''forwards_status_check''
        (In_values ''status'' [''pending'', ''in_flight'', ''succeeded'', ''failed'', ''dead'', ''abandoned''])),
      Statement (Add_column ''forwards'' (nullable ''manual_retry_at'' T_timestamptz))]"

definition forward_dlq_ops_downgrade :: "step list" where
  "forward_dlq_ops_downgrade =
     [Statement (Drop_column ''forwards'' ''manual_retry_at'' False),
      Statement (Update_column ''forwards'' ''status'' (V_text ''dead'') (In_values ''status'' [''abandoned''])),
      Statement (Drop_constraint ''forwards'' ''forwards_status_check''),
      Statement (Add_check ''forwards'' ''forwards_status_check''
        (In_values ''status'' [''pending'', ''in_flight'', ''succeeded'', ''failed'', ''dead'']))]"

definition anti_abuse_upgrade :: "step list" where
  "anti_abuse_upgrade =
     [Statement (Add_column ''endpoints'' (nullable ''flagged_at'' T_timestamptz)),
      Statement (Add_column ''endpoints'' (nullable ''flag_reason'' T_text)),
      Statement (Add_check ''endpoints'' ''endpoints_flag_reason_check''
        (Cond_or (Is_null ''flag_reason'')
          (In_values ''flag_reason'' [''phishing_no_forward'', ''slug_denylist_postcreation'', ''manual_review'']))),
      Statement (Create_index ''endpoints_unflagged_idx''
        \<lparr>ix_table = ''endpoints'', ix_keys = [Key ''id''], ix_unique = False, ix_where = Some (Is_null ''flagged_at'')\<rparr> False)]"

definition anti_abuse_downgrade :: "step list" where
  "anti_abuse_downgrade =
     [Statement (Drop_index ''endpoints_unflagged_idx'' False),
      Statement (Drop_constraint ''endpoints'' ''endpoints_flag_reason_check''),
      Statement (Drop_column ''endpoints'' ''flag_reason'' False),
      Statement (Drop_column ''endpoints'' ''flagged_at'' False)]"

text \<open>The chain, from the oldest revision; each names the one it revises.\<close>

definition MIGRATIONS :: "migration list" where
  "MIGRATIONS =
     [\<lparr>mg_revision = ''19068e2673bf'', mg_down_revision = None,
       mg_upgrade = initial_upgrade, mg_downgrade = initial_downgrade\<rparr>,
      \<lparr>mg_revision = ''7f4cc8bfe09b'', mg_down_revision = Some ''19068e2673bf'',
       mg_upgrade = custom_response_upgrade, mg_downgrade = custom_response_downgrade\<rparr>,
      \<lparr>mg_revision = ''5058fb3e1c3e'', mg_down_revision = Some ''7f4cc8bfe09b'',
       mg_upgrade = search_vector_upgrade, mg_downgrade = search_vector_downgrade\<rparr>,
      \<lparr>mg_revision = ''2adad4a5f106'', mg_down_revision = Some ''5058fb3e1c3e'',
       mg_upgrade = hmac_validation_upgrade, mg_downgrade = hmac_validation_downgrade\<rparr>,
      \<lparr>mg_revision = ''4113bf01bbf7'', mg_down_revision = Some ''2adad4a5f106'',
       mg_upgrade = integration_detection_upgrade, mg_downgrade = integration_detection_downgrade\<rparr>,
      \<lparr>mg_revision = ''f88fffb1c697'', mg_down_revision = Some ''4113bf01bbf7'',
       mg_upgrade = schema_inference_upgrade, mg_downgrade = schema_inference_downgrade\<rparr>,
      \<lparr>mg_revision = ''c0073b4e15ab'', mg_down_revision = Some ''f88fffb1c697'',
       mg_upgrade = replay_upgrade, mg_downgrade = replay_downgrade\<rparr>,
      \<lparr>mg_revision = ''d397d6d2abcb'', mg_down_revision = Some ''c0073b4e15ab'',
       mg_upgrade = trace_summary_upgrade, mg_downgrade = trace_summary_downgrade\<rparr>,
      \<lparr>mg_revision = ''9a1f0c4b5d7e'', mg_down_revision = Some ''d397d6d2abcb'',
       mg_upgrade = drop_drift_upgrade, mg_downgrade = drop_drift_downgrade\<rparr>,
      \<lparr>mg_revision = ''72e54acb55c0'', mg_down_revision = Some ''9a1f0c4b5d7e'',
       mg_upgrade = forwards_upgrade, mg_downgrade = forwards_downgrade\<rparr>,
      \<lparr>mg_revision = ''c8de2dab6bba'', mg_down_revision = Some ''72e54acb55c0'',
       mg_upgrade = forward_dlq_ops_upgrade, mg_downgrade = forward_dlq_ops_downgrade\<rparr>,
      \<lparr>mg_revision = ''36b8ea1494d9'', mg_down_revision = Some ''c8de2dab6bba'',
       mg_upgrade = anti_abuse_upgrade, mg_downgrade = anti_abuse_downgrade\<rparr>]"

section \<open>The commands\<close>

text \<open>The revisions after a version, in the order of the chain.\<close>

fun pending_from :: "string option \<Rightarrow> migration list \<Rightarrow> migration list" where
  "pending_from v [] = []"
| "pending_from v (m # ms) = (if mg_down_revision m = v then m # ms else pending_from v ms)"

definition upgrade_steps :: "migration list \<Rightarrow> step list" where
  "upgrade_steps ms = concat (map (\<lambda>m. mg_upgrade m @ [Stamp (Some (mg_revision m))]) ms)"

definition upgrade_head :: "pg_env \<Rightarrow> pg \<Rightarrow> db_error option \<times> pg" where
  "upgrade_head env p = run_steps env (upgrade_steps (pending_from (pg_version p) MIGRATIONS)) p p"

definition downgrade_one :: "pg_env \<Rightarrow> pg \<Rightarrow> db_error option \<times> pg" where
  "downgrade_one env p =
     (case filter (\<lambda>m. Some (mg_revision m) = pg_version p) MIGRATIONS of
        [] \<Rightarrow> (None, p)
      | m # ms \<Rightarrow> run_steps env (mg_downgrade m @ [Stamp (mg_down_revision m)]) p p)"

text \<open>The migrator exits with the code of the command, 1 when it raised.\<close>

definition migrator_main :: "pg_env \<Rightarrow> pg \<Rightarrow> nat \<times> pg" where
  "migrator_main env p = (case upgrade_head env p of (None, p') \<Rightarrow> (0, p') | (Some e, p') \<Rightarrow> (1, p'))"

section \<open>Runs and statements\<close>

fun ddl_of :: "step list \<Rightarrow> ddl list" where
  "ddl_of [] = []"
| "ddl_of (Statement op # steps) = op # ddl_of steps"
| "ddl_of (Autocommit op # steps) = op # ddl_of steps"
| "ddl_of (Stamp v # steps) = ddl_of steps"

fun version_after :: "step list \<Rightarrow> string option \<Rightarrow> string option" where
  "version_after [] v = v"
| "version_after (Stamp v # steps) u = version_after steps v"
| "version_after (Statement op # steps) u = version_after steps u"
| "version_after (Autocommit op # steps) u = version_after steps u"

lemma ddl_of_append [simp]: "ddl_of (xs @ ys) = ddl_of xs @ ddl_of ys"
  by (induction xs rule: ddl_of.induct) auto

lemma version_after_append [simp]: "version_after (xs @ ys) v = version_after ys (version_after xs v)"
  by (induction xs v rule: version_after.induct) auto

lemma exec_eq:
  "exec env op \<lparr>pg_version = v, pg_schema = s, pg_rows = d\<rparr> =
     (case run_ddl env [op] s d of Inl e \<Rightarrow> Inl e | Inr (s', d') \<Rightarrow> Inr \<lparr>pg_version = v, pg_schema = s', pg_rows = d'\<rparr>)"
  by (auto simp: exec_def split: sum.splits)

lemma run_ddl_Cons:
  "run_ddl env (op # ops) s d = Inr r \<longleftrightarrow> (\<exists>s1 d1. run_ddl env [op] s d = Inr (s1, d1) \<and> run_ddl env ops s1 d1 = Inr r)"
  by (auto split: sum.splits)

lemma run_ddl_append:
  "run_ddl env (xs @ ys) s d = Inr r \<longleftrightarrow> (\<exists>s1 d1. run_ddl env xs s d = Inr (s1, d1) \<and> run_ddl env ys s1 d1 = Inr r)"
  by (induction xs arbitrary: s d) (auto split: sum.splits)

lemma run_steps_complete:
  assumes "run_ddl env (ddl_of steps) s d = Inr (s', d')"
  shows "run_steps env steps \<lparr>pg_version = v, pg_schema = s, pg_rows = d\<rparr> c =
    (None, \<lparr>pg_version = version_after steps v, pg_schema = s', pg_rows = d'\<rparr>)"
  using assms
proof (induction steps arbitrary: s d v c rule: ddl_of.induct)
  case (2 op steps)
  then obtain s1 d1 where "run_ddl env [op] s d = Inr (s1, d1)" "run_ddl env (ddl_of steps) s1 d1 = Inr (s', d')"
    by (auto simp only: ddl_of.simps run_ddl_Cons [of env op "ddl_of steps"])
  then show ?case using "2.IH" by (simp add: exec_eq del: run_ddl.simps)
next
  case (3 op steps)
  then obtain s1 d1 where "run_ddl env [op] s d = Inr (s1, d1)" "run_ddl env (ddl_of steps) s1 d1 = Inr (s', d')"
    by (auto simp only: ddl_of.simps run_ddl_Cons [of env op "ddl_of steps"])
  then show ?case using "3.IH" by (simp add: exec_eq del: run_ddl.simps)
qed simp_all

section \<open>The chain of schemas\<close>

definition empty_schema :: schema where
  "empty_schema = \<lparr>sc_tables = [], sc_indexes = []\<rparr>"

fun schema_run :: "ddl list \<Rightarrow> schema \<Rightarrow> db_error + schema" where
  "schema_run [] s = Inr s"
| "schema_run (op # ops) s = (case schema_exec op s of Inl e \<Rightarrow> Inl e | Inr s' \<Rightarrow> schema_run ops s')"

text \<open>The schema after the first \<open>k\<close> revisions, and the version stamped then.\<close>

definition schema_at :: "nat \<Rightarrow> schema" where
  "schema_at k =
     (case schema_run (ddl_of (concat (map mg_upgrade (take k MIGRATIONS)))) empty_schema of Inr s \<Rightarrow> s | Inl e \<Rightarrow> empty_schema)"

definition version_at :: "nat \<Rightarrow> string option" where
  "version_at k = (if k = 0 then None else Some (mg_revision (MIGRATIONS ! (k - 1))))"

text \<open>Only revision \<open>9a1f0c4b5d7e\<close> drops what holds data.\<close>

definition lost_by :: "migration \<Rightarrow> written" where
  "lost_by m = (if mg_revision m = ''9a1f0c4b5d7e''
     then [(''requests'', Some ''schema_drift''), (''requests'', Some ''trace_summary''), (''inferred_schemas'', None)] else [])"

text \<open>
  One pass over the chain: every upgrade is safe and writes no column that both it and the last schema have,
  and so is every downgrade, which leads back, from any rows and from those an upgrade leaves.
\<close>

definition stale :: "schema \<Rightarrow> schema \<Rightarrow> string \<times> string option \<Rightarrow> bool" where
  "stale s fin w \<longleftrightarrow> fresh s w \<or> fresh fin w"

definition downgrade_checked :: "migration \<Rightarrow> schema \<Rightarrow> schema \<Rightarrow> fact list \<Rightarrow> written \<Rightarrow> bool" where
  "downgrade_checked m s s1 fs1 ws1 \<longleftrightarrow>
     safe_run (ddl_of (mg_downgrade m)) s1 (start_facts s1) \<noteq> None \<and>
     (case safe_run (ddl_of (mg_downgrade m)) s1 fs1 of
        None \<Rightarrow> False
      | Some (s2, fs2, ws2) \<Rightarrow>
          same_schema s2 s \<and> list_all (\<lambda>w. fresh s w \<or> w \<in> set (lost_by m)) (ws1 @ ws2) \<and>
          list_all (\<lambda>w. null_fact w \<in> set fs2) (lost_by m))"

fun chain_checked :: "migration list \<Rightarrow> schema \<Rightarrow> schema \<Rightarrow> bool" where
  "chain_checked [] s fin = True"
| "chain_checked (m # ms) s fin =
     (case safe_run (ddl_of (mg_upgrade m)) s (start_facts s) of
        None \<Rightarrow> False
      | Some (s1, fs1, ws1) \<Rightarrow>
          list_all (stale s fin) ws1 \<and> downgrade_checked m s s1 fs1 ws1 \<and> chain_checked ms s1 fin)"

lemma schema_run_append: "schema_run (xs @ ys) s = (case schema_run xs s of Inl e \<Rightarrow> Inl e | Inr s' \<Rightarrow> schema_run ys s')"
  by (induction xs arbitrary: s) (auto split: sum.splits)

lemma safe_run_schema: "safe_run ops s fs = Some (s', fs', ws) \<Longrightarrow> schema_run ops s = Inr s'"
  by (induction ops arbitrary: s fs ws) (auto split: sum.splits option.splits)

lemma chain_checked_append:
  assumes "chain_checked xs s fin" and "schema_run (ddl_of (concat (map mg_upgrade xs))) s = Inr s'"
    and "chain_checked ys s' fin"
  shows "chain_checked (xs @ ys) s fin"
  using assms
  by (induction xs arbitrary: s) (auto simp: schema_run_append dest: safe_run_schema split: option.splits)

text \<open>The pass is evaluated in three parts.\<close>

definition part_checked :: "nat \<Rightarrow> nat \<Rightarrow> bool" where
  "part_checked a n \<longleftrightarrow>
     (case schema_run (ddl_of (concat (map mg_upgrade (take a MIGRATIONS)))) empty_schema of
        Inl e \<Rightarrow> False
      | Inr s \<Rightarrow> chain_checked (take n (drop a MIGRATIONS)) s (schema_at 12))"

lemma part_checked_join:
  assumes "part_checked 0 a" and "part_checked a n" and "a \<le> length MIGRATIONS"
  shows "part_checked 0 (a + n)"
proof -
  obtain s where s: "schema_run (ddl_of (concat (map mg_upgrade (take a MIGRATIONS)))) empty_schema = Inr s"
    "chain_checked (take n (drop a MIGRATIONS)) s (schema_at 12)"
    using assms(2) by (auto simp: part_checked_def split: sum.splits)
  have "chain_checked (take a MIGRATIONS) empty_schema (schema_at 12)" using assms(1) by (simp add: part_checked_def)
  from chain_checked_append [OF this s] show ?thesis by (simp add: part_checked_def take_add)
qed

lemma first_part: "part_checked 0 6"
  by code_simp

lemma second_part: "part_checked 6 4"
  by code_simp

lemma third_part: "part_checked 10 2"
  by code_simp

lemma chain_ok: "chain_checked MIGRATIONS empty_schema (schema_at 12)"
proof -
  have len: "length MIGRATIONS = 12" by (simp add: MIGRATIONS_def)
  have "part_checked 0 (6 + 4)" by (rule part_checked_join [OF first_part second_part]) (simp add: len)
  then have ten: "part_checked 0 10" by simp
  have "part_checked 0 (10 + 2)" by (rule part_checked_join [OF ten third_part]) (simp add: len)
  then show ?thesis by (simp add: part_checked_def len)
qed

end
