(* ===== verification/Schema_History.thy ===== *)
theory Schema_History
  imports Migrations
begin

text \<open>
  What the chain of revisions guarantees of any database on it: upgrades succeed and lose nothing that the
  last schema still has, each downgrade leads back, and where an upgrade that dies leaves the database.
\<close>

section \<open>From the check to the runs\<close>

lemma length_MIGRATIONS [simp]: "length MIGRATIONS = 12"
  by (simp add: MIGRATIONS_def)

lemma schema_at_0 [simp]: "schema_at 0 = empty_schema"
  by (simp add: schema_at_def)

lemma take_Suc_migrations: "k < 12 \<Longrightarrow> take (Suc k) MIGRATIONS = take k MIGRATIONS @ [MIGRATIONS ! k]"
  by (simp add: take_Suc_conv_app_nth)

lemma schema_at_chain:
  assumes "chain_checked ms s fin" and "ms = drop k MIGRATIONS" and "k \<le> 12"
    and "schema_run (ddl_of (concat (map mg_upgrade (take k MIGRATIONS)))) empty_schema = Inr s"
    and "k \<le> j" and "j < 12"
  shows "\<exists>fs ws. safe_run (ddl_of (mg_upgrade (MIGRATIONS ! j))) (schema_at j) (start_facts (schema_at j)) =
      Some (schema_at (Suc j), fs, ws) \<and>
    list_all (stale (schema_at j) fin) ws \<and> downgrade_checked (MIGRATIONS ! j) (schema_at j) (schema_at (Suc j)) fs ws"
  using assms
proof (induction ms arbitrary: k s)
  case (Cons m ms)
  have k: "k < 12" using Cons.prems(5,6) by simp
  then have m: "m = MIGRATIONS ! k" "ms = drop (Suc k) MIGRATIONS"
    using Cons.prems(2) by (metis Cons_nth_drop_Suc length_MIGRATIONS list.inject)+
  obtain s1 fs1 ws1 where run: "safe_run (ddl_of (mg_upgrade m)) s (start_facts s) = Some (s1, fs1, ws1)"
    and checked: "list_all (stale s fin) ws1" "downgrade_checked m s s1 fs1 ws1" "chain_checked ms s1 fin"
    using Cons.prems(1) by (auto split: option.splits)
  have s: "s = schema_at k" using Cons.prems(4) by (simp add: schema_at_def)
  have next_run: "schema_run (ddl_of (concat (map mg_upgrade (take (Suc k) MIGRATIONS)))) empty_schema = Inr s1"
    using Cons.prems(4) safe_run_schema [OF run] m(1) by (simp add: take_Suc_migrations [OF k] schema_run_append)
  then have s1: "s1 = schema_at (Suc k)" by (simp add: schema_at_def)
  show ?case
  proof (cases "j = k")
    case True
    then show ?thesis using run checked m(1) s s1 by auto
  next
    case False
    then show ?thesis using Cons.IH [OF checked(3) m(2) _ next_run] k Cons.prems(5,6) by simp
  qed
qed simp

lemma revision_checked:
  assumes "k < 12"
  obtains fs ws where "safe_run (ddl_of (mg_upgrade (MIGRATIONS ! k))) (schema_at k) (start_facts (schema_at k)) =
      Some (schema_at (Suc k), fs, ws)"
    "list_all (stale (schema_at k) (schema_at 12)) ws"
    "downgrade_checked (MIGRATIONS ! k) (schema_at k) (schema_at (Suc k)) fs ws"
  using schema_at_chain [OF chain_ok, of 0 k] assms by (auto simp: schema_at_def)

lemma schema_at_wf: "k \<le> 12 \<Longrightarrow> schema_wf (schema_at k)"
proof (induction k)
  case 0
  show ?case by (simp add: schema_wf_def empty_schema_def)
next
  case (Suc k)
  then have k: "k < 12" and wf: "schema_wf (schema_at k)" by simp_all
  have "schema_run ops s = Inr s' \<Longrightarrow> schema_wf s \<Longrightarrow> schema_wf s'" for ops s s'
    by (induction ops arbitrary: s) (auto split: sum.splits dest: schema_exec_wf)
  then show ?case using revision_checked [OF k] safe_run_schema wf by metis
qed

lemma empty_conforms: "conforms env (schema_at k) (\<lambda>n. [])"
  by (auto simp: conforms_def data_ok_def padded_def rows_ok_def index_ok_def list_all_iff)

section \<open>The commands on the chain\<close>

lemma pending_from_nth:
  assumes "distinct (map mg_down_revision ms)" and "k < length ms"
  shows "pending_from (mg_down_revision (ms ! k)) ms = drop k ms"
  using assms
proof (induction ms arbitrary: k)
  case (Cons m ms)
  then show ?case by (cases k) (auto simp: image_iff dest: nth_mem)
qed simp

lemma chain_linked:
  "distinct (map mg_down_revision MIGRATIONS)"
  "list_all (\<lambda>k. mg_down_revision (MIGRATIONS ! k) = version_at k) [0..<12]"
  "version_at 12 \<notin> set (map mg_down_revision MIGRATIONS)"
  "distinct (map mg_revision MIGRATIONS)"
  by code_simp+

lemma pending_at: "k \<le> 12 \<Longrightarrow> pending_from (version_at k) MIGRATIONS = drop k MIGRATIONS"
proof (cases "k = 12")
  case True
  have "v \<notin> set (map mg_down_revision ms) \<Longrightarrow> pending_from v ms = []" for v ms
    by (induction ms) auto
  with True chain_linked(3) show ?thesis by simp
next
  case False
  assume "k \<le> 12"
  with False have "mg_down_revision (MIGRATIONS ! k) = version_at k" "k < 12" using chain_linked(2) by (auto simp: list_all_iff)
  then show ?thesis using pending_from_nth [OF chain_linked(1), of k] by simp
qed

lemma upgrade_steps_Cons: "upgrade_steps (m # ms) = mg_upgrade m @ Stamp (Some (mg_revision m)) # upgrade_steps ms"
  by (simp add: upgrade_steps_def)

lemma upgrade_steps_append: "upgrade_steps (ms @ ms') = upgrade_steps ms @ upgrade_steps ms'"
  by (simp add: upgrade_steps_def)

lemma version_after_upgrade:
  "version_after (upgrade_steps ms) v = (if ms = [] then v else Some (mg_revision (last ms)))"
  by (induction ms arbitrary: v) (auto simp: upgrade_steps_Cons, simp add: upgrade_steps_def)

lemma version_after_drop: "k \<le> 12 \<Longrightarrow> version_after (upgrade_steps (drop k MIGRATIONS)) (version_at k) = version_at 12"
  by (auto simp: version_after_upgrade version_at_def last_conv_nth)

section \<open>Upgrades\<close>

lemma one_upgrade:
  assumes "k < 12" and "conforms env (schema_at k) d"
  obtains d1 fs ws where "run_ddl env (ddl_of (mg_upgrade (MIGRATIONS ! k))) (schema_at k) d = Inr (schema_at (Suc k), d1)"
    "conforms env (schema_at (Suc k)) d1" "\<forall>f \<in> set fs. fact_true d1 f" "unchanged ws d d1"
    "safe_run (ddl_of (mg_upgrade (MIGRATIONS ! k))) (schema_at k) (start_facts (schema_at k)) = Some (schema_at (Suc k), fs, ws)"
    "list_all (stale (schema_at k) (schema_at 12)) ws"
    "downgrade_checked (MIGRATIONS ! k) (schema_at k) (schema_at (Suc k)) fs ws"
proof -
  obtain fs ws where run: "safe_run (ddl_of (mg_upgrade (MIGRATIONS ! k))) (schema_at k) (start_facts (schema_at k)) =
      Some (schema_at (Suc k), fs, ws)"
    and rest: "list_all (stale (schema_at k) (schema_at 12)) ws"
      "downgrade_checked (MIGRATIONS ! k) (schema_at k) (schema_at (Suc k)) fs ws"
    using revision_checked [OF assms(1)] by blast
  have "\<forall>f \<in> set (start_facts (schema_at k)). fact_true d f"
    by (rule start_facts_true [where env = env]) (use assms(2) in \<open>simp add: conforms_def\<close>)
  with safe_run_sound [OF run _ assms(2)] schema_at_wf assms(1) show thesis 
    using that [OF _ _ _ _ run rest] by (metis less_imp_le)
qed

definition common_kept :: "nat \<Rightarrow> data \<Rightarrow> data \<Rightarrow> bool" where
  "common_kept k d d' \<longleftrightarrow>
     (\<forall>n c. has_column (schema_at k) n c \<longrightarrow> has_column (schema_at 12) n c \<longrightarrow> map (\<lambda>r. r c) (d' n) = map (\<lambda>r. r c) (d n))"

lemma stale_not_written:
  assumes "list_all (stale s fin) ws" and "has_column s n c" and "has_column fin n c"
  shows "\<not> may_write ws n c"
proof
  assume "may_write ws n c"
  then have "stale s fin (n, Some c) \<or> stale s fin (n, None)" using assms(1) by (auto simp: may_write_def list_all_iff)
  then show False using assms(2,3) by (auto simp: stale_def fresh_def has_column_def split: option.splits)
qed

lemma upgrades_between:
  assumes "k \<le> j" and "j \<le> 12" and "conforms env (schema_at k) d"
  shows "\<exists>d'. run_ddl env (ddl_of (upgrade_steps (drop k (take j MIGRATIONS)))) (schema_at k) d = Inr (schema_at j, d') \<and>
    conforms env (schema_at j) d' \<and> common_kept k d d'"
  using assms(1,3)
proof (induction k arbitrary: d rule: inc_induct)
  case base
  then show ?case by (simp add: upgrade_steps_def common_kept_def)
next
  case (step k)
  have k: "k < 12" using step.hyps assms(2) by simp
  obtain d1 fs ws where up: "run_ddl env (ddl_of (mg_upgrade (MIGRATIONS ! k))) (schema_at k) d = Inr (schema_at (Suc k), d1)"
    and ok: "conforms env (schema_at (Suc k)) d1" and u: "unchanged ws d d1"
    and run: "safe_run (ddl_of (mg_upgrade (MIGRATIONS ! k))) (schema_at k) (start_facts (schema_at k)) = Some (schema_at (Suc k), fs, ws)"
    and stale: "list_all (stale (schema_at k) (schema_at 12)) ws"
    using one_upgrade [OF k step.prems] by metis
  obtain d' where d': "run_ddl env (ddl_of (upgrade_steps (drop (Suc k) (take j MIGRATIONS)))) (schema_at (Suc k)) d1 = Inr (schema_at j, d')"
    "conforms env (schema_at j) d'" "common_kept (Suc k) d1 d'"
    using step.IH [OF ok] by blast
  have "common_kept k d d'" unfolding common_kept_def
  proof (intro allI impI)
    fix n c
    assume c: "has_column (schema_at k) n c" "has_column (schema_at 12) n c"
    then have w: "\<not> may_write ws n c" by (rule stale_not_written [OF stale])
    then have "has_column (schema_at (Suc k)) n c" by (rule safe_run_keeps_column [OF run c(1)])
    then show "map (\<lambda>r. r c) (d' n) = map (\<lambda>r. r c) (d n)"
      using d'(3) c(2) u w by (simp add: common_kept_def unchanged_def)
  qed
  moreover have "drop k (take j MIGRATIONS) = MIGRATIONS ! k # drop (Suc k) (take j MIGRATIONS)"
    using step.hyps(2) k by (subst Cons_nth_drop_Suc [symmetric]) auto
  ultimately show ?case using up d' by (auto simp: upgrade_steps_Cons run_ddl_append)
qed

lemma upgrades_from:
  assumes "k \<le> 12" and "conforms env (schema_at k) d"
  shows "\<exists>d'. run_ddl env (ddl_of (upgrade_steps (drop k MIGRATIONS))) (schema_at k) d = Inr (schema_at 12, d') \<and>
    conforms env (schema_at 12) d' \<and> common_kept k d d'"
  using upgrades_between [OF assms(1) _ assms(2)] by simp

abbreviation database_at :: "nat \<Rightarrow> data \<Rightarrow> pg" where
  "database_at k d \<equiv> \<lparr>pg_version = version_at k, pg_schema = schema_at k, pg_rows = d\<rparr>"

lemma upgrade_head_at:
  assumes "k \<le> 12" and "run_ddl env (ddl_of (upgrade_steps (drop k MIGRATIONS))) (schema_at k) d = Inr (schema_at 12, d')"
  shows "upgrade_head env (database_at k d) = (None, database_at 12 d')"
  using run_steps_complete [OF assms(2)] by (simp add: upgrade_head_def pending_at [OF assms(1)] version_after_drop [OF assms(1)])

text \<open>
  C11. The migrator never fails on a database of an earlier revision: whatever rows it holds, as long as
  they keep the constraints of that revision, the upgrade runs through, the rows keep those of the last
  revision, and every column that both have keeps all its values, with the exit code 0.
\<close>

theorem upgrade_succeeds:
  assumes "k \<le> 12" and "conforms env (schema_at k) d"
  shows "\<exists>d'. migrator_main env (database_at k d) = (0, database_at 12 d') \<and> conforms env (schema_at 12) d' \<and>
    (\<forall>n c. has_column (schema_at k) n c \<and> has_column (schema_at 12) n c \<longrightarrow> map (\<lambda>r. r c) (d' n) = map (\<lambda>r. r c) (d n))"
proof -
  obtain d' where d': "run_ddl env (ddl_of (upgrade_steps (drop k MIGRATIONS))) (schema_at k) d = Inr (schema_at 12, d')"
    "conforms env (schema_at 12) d'" "common_kept k d d'"
    using upgrades_from [OF assms] by blast
  then show ?thesis using upgrade_head_at [OF assms(1) d'(1)] by (auto simp: migrator_main_def common_kept_def)
qed
theorem upgrade_succeeds_witness:
  "\<exists>d'. migrator_main \<lparr>pe_now = 5, pe_tsvector = \<lambda>vs. ''''\<rparr> (database_at 0 (\<lambda>n. [])) = (0, database_at 12 d') \<and>
     conforms \<lparr>pe_now = 5, pe_tsvector = \<lambda>vs. ''''\<rparr> (schema_at 12) d' \<and>
     (\<forall>n c. has_column (schema_at 0) n c \<and> has_column (schema_at 12) n c \<longrightarrow> map (\<lambda>r. r c) (d' n) = map (\<lambda>r. r c) [])"
  using upgrade_succeeds [OF _ empty_conforms, of 0 "\<lparr>pe_now = 5, pe_tsvector = \<lambda>vs. []\<rparr>"] by simp

section \<open>One revision there and back\<close>

definition upgrade_one :: "pg_env \<Rightarrow> pg \<Rightarrow> db_error option \<times> pg" where
  "upgrade_one env p =
     (case pending_from (pg_version p) MIGRATIONS of [] \<Rightarrow> (None, p) | m # ms \<Rightarrow> run_steps env (upgrade_steps [m]) p p)"

lemma upgrade_one_at:
  assumes "k < 12" and "run_ddl env (ddl_of (mg_upgrade (MIGRATIONS ! k))) (schema_at k) d = Inr (schema_at (Suc k), d')"
  shows "upgrade_one env (database_at k d) = (None, database_at (Suc k) d')"
proof -
  have "pending_from (version_at k) MIGRATIONS = MIGRATIONS ! k # drop (Suc k) MIGRATIONS"
    using assms(1) pending_at [of k] by (simp add: Cons_nth_drop_Suc)
  moreover have "run_steps env (upgrade_steps [MIGRATIONS ! k]) (database_at k d) c = (None, database_at (Suc k) d')" for c
    using run_steps_complete [of env "upgrade_steps [MIGRATIONS ! k]"] assms(2) by (simp add: upgrade_steps_def version_at_def)
  ultimately show ?thesis by (simp add: upgrade_one_def)
qed

lemma filter_distinct_nth: "distinct (map f ms) \<Longrightarrow> j < length ms \<Longrightarrow> filter (\<lambda>m. f m = f (ms ! j)) ms = [ms ! j]"
proof (induction ms arbitrary: j)
  case (Cons m ms)
  show ?case
  proof (cases j)
    case 0
    then show ?thesis using Cons.prems(1) by (simp add: filter_empty_conv) (metis image_eqI)
  next
    case (Suc i)
    then have "f m \<noteq> f (ms ! i)" using Cons.prems by force
    then show ?thesis using Cons Suc by simp
  qed
qed simp

lemma version_match: "k < 12 \<Longrightarrow> filter (\<lambda>m. Some (mg_revision m) = version_at (Suc k)) MIGRATIONS = [MIGRATIONS ! k]"
  using filter_distinct_nth [OF chain_linked(4), of k] by (simp add: version_at_def)

lemma downgrade_one_at:
  assumes "k < 12" and "run_ddl env (ddl_of (mg_downgrade (MIGRATIONS ! k))) (schema_at (Suc k)) d = Inr (s, d')"
  shows "downgrade_one env (database_at (Suc k) d) = (None, \<lparr>pg_version = version_at k, pg_schema = s, pg_rows = d'\<rparr>)"
proof -
  let ?steps = "mg_downgrade (MIGRATIONS ! k) @ [Stamp (mg_down_revision (MIGRATIONS ! k))]"
  have "mg_down_revision (MIGRATIONS ! k) = version_at k" using chain_linked(2) assms(1) by (simp add: list_all_iff)
  then have "run_steps env ?steps (database_at (Suc k) d) c = (None, \<lparr>pg_version = version_at k, pg_schema = s, pg_rows = d'\<rparr>)" for c
    using run_steps_complete [of env ?steps] assms(2) by simp
  then show ?thesis by (simp add: downgrade_one_def version_match [OF assms(1)])
qed

text \<open>A database of any revision, with whatever rows, can be downgraded.\<close>

lemma downgrade_succeeds:
  assumes "k < 12" and "conforms env (schema_at (Suc k)) d"
  shows "\<exists>s d'. downgrade_one env (database_at (Suc k) d) = (None, \<lparr>pg_version = version_at k, pg_schema = s, pg_rows = d'\<rparr>) \<and>
    conforms env s d'"
proof -
  obtain fs ws where "downgrade_checked (MIGRATIONS ! k) (schema_at k) (schema_at (Suc k)) fs ws"
    using revision_checked [OF assms(1)] by blast
  then obtain s fs2 ws2 where run: "safe_run (ddl_of (mg_downgrade (MIGRATIONS ! k))) (schema_at (Suc k)) (start_facts (schema_at (Suc k))) =
      Some (s, fs2, ws2)" by (auto simp: downgrade_checked_def)
  have "\<forall>f \<in> set (start_facts (schema_at (Suc k))). fact_true d f"
    by (rule start_facts_true [where env = env]) (use assms(2) in \<open>simp add: conforms_def\<close>)
  from safe_run_sound [OF run schema_at_wf assms(2) this] assms(1) show ?thesis
    using downgrade_one_at [OF assms(1)] by (metis Suc_leI)
qed

text \<open>
  C12. Each downgrade undoes its upgrade: from any database of a revision, one revision up and then down
  again ends at the same version and the same schema, up to the order of its columns, and with the same
  rows, less only the two columns and the table that \<open>9a1f0c4b5d7e\<close> drops.
\<close>

theorem downgrade_restores:
  assumes "k < 12" and "conforms env (schema_at k) d"
  shows "\<exists>p s. upgrade_one env (database_at k d) = (None, p) \<and> same_schema s (schema_at k) \<and>
    downgrade_one env p =
      (None, \<lparr>pg_version = version_at k, pg_schema = s, pg_rows = forget (lost_by (MIGRATIONS ! k)) d\<rparr>)"
proof -
  let ?m = "MIGRATIONS ! k"
  obtain d1 fs ws where up: "run_ddl env (ddl_of (mg_upgrade ?m)) (schema_at k) d = Inr (schema_at (Suc k), d1)"
    and ok: "conforms env (schema_at (Suc k)) d1" "\<forall>f \<in> set fs. fact_true d1 f" "unchanged ws d d1"
    and checked: "downgrade_checked ?m (schema_at k) (schema_at (Suc k)) fs ws"
    using one_upgrade [OF assms] by metis
  obtain s fs2 ws2 where run: "safe_run (ddl_of (mg_downgrade ?m)) (schema_at (Suc k)) fs = Some (s, fs2, ws2)"
    and same: "same_schema s (schema_at k)" and ws: "list_all (\<lambda>w. fresh (schema_at k) w \<or> w \<in> set (lost_by ?m)) (ws @ ws2)"
    and lost: "list_all (\<lambda>w. null_fact w \<in> set fs2) (lost_by ?m)"
    using checked by (auto simp: downgrade_checked_def split: option.splits)
  obtain d2 where down: "run_ddl env (ddl_of (mg_downgrade ?m)) (schema_at (Suc k)) d1 = Inr (s, d2)"
    and d2: "conforms env s d2" "\<forall>f \<in> set fs2. fact_true d2 f" "unchanged ws2 d1 d2"
    using safe_run_sound [OF run schema_at_wf ok(1,2)] assms(1) by (auto simp: Suc_leI)
  have "d2 = forget (lost_by ?m) d"
    by (rule restored [OF _ _ same unchanged_append [OF ok(3) d2(3)] ws])
      (use assms(2) d2(1,2) lost in \<open>auto simp: conforms_def list_all_iff\<close>)
  then show ?thesis using upgrade_one_at [OF assms(1) up] downgrade_one_at [OF assms(1) down] same by metis
qed

theorem downgrade_restores_witness:
  "\<exists>p s. upgrade_one \<lparr>pe_now = 5, pe_tsvector = \<lambda>vs. ''''\<rparr> (database_at 8 (\<lambda>n. [])) = (None, p) \<and> same_schema s (schema_at 8) \<and>
     downgrade_one \<lparr>pe_now = 5, pe_tsvector = \<lambda>vs. ''''\<rparr> p =
       (None, \<lparr>pg_version = version_at 8, pg_schema = s, pg_rows = forget (lost_by (MIGRATIONS ! 8)) (\<lambda>n. [])\<rparr>)"
  using downgrade_restores [OF _ empty_conforms, of 8 "\<lparr>pe_now = 5, pe_tsvector = \<lambda>vs. []\<rparr>"] by simp
section \<open>Upgrades that are cut off\<close>

fun transactional :: "step \<Rightarrow> bool" where
  "transactional (Autocommit op) = False"
| "transactional _ = True"

lemma committed_left: "c \<in> set (left_by env steps p c)"
  by (cases "(env, steps, p, c)" rule: left_by.cases) auto

lemma left_by_transaction:
  assumes "list_all transactional xs" and "run_ddl env (ddl_of xs) s d = Inr (s1, d1)"
  shows "set (left_by env (xs @ ys) \<lparr>pg_version = v, pg_schema = s, pg_rows = d\<rparr> c) =
    set (left_by env ys \<lparr>pg_version = version_after xs v, pg_schema = s1, pg_rows = d1\<rparr> c)"
  using assms
proof (induction xs arbitrary: s d v rule: ddl_of.induct)
  case (2 op steps)
  then obtain s2 d2 where "run_ddl env [op] s d = Inr (s2, d2)" "run_ddl env (ddl_of steps) s2 d2 = Inr (s1, d1)"
    by (auto simp only: ddl_of.simps run_ddl_Cons [of env op "ddl_of steps"])
  then show ?case using 2 by (simp add: exec_eq insert_absorb committed_left del: run_ddl.simps)
qed (simp_all add: insert_absorb committed_left)

definition search_column :: ddl where
  "search_column = Add_column ''requests'' (column ''search_vector'' T_tsvector True
     (Generated [''method'', ''path'', ''body_preview'', ''headers'']))"

definition search_index :: ddl where
  "search_index = Create_index ''requests_search_idx'' (plain_index ''requests'' [''search_vector''] False) True"

lemma only_autocommit:
  "list_all transactional (upgrade_steps (take 2 MIGRATIONS))"
  "list_all transactional (upgrade_steps (drop 3 MIGRATIONS))"
  "mg_upgrade (MIGRATIONS ! 2) = [Statement search_column, Autocommit search_index]"
  by code_simp+

lemma transactional_drop: "list_all transactional (upgrade_steps (drop k ms))"
  if "list_all transactional (upgrade_steps ms)"
  using that by (fastforce simp: upgrade_steps_def list_all_iff dest: in_set_dropD)

lemma add_column_twice:
  "schema_exec (Add_column n cl) s = Inr s' \<Longrightarrow> sc_tables s'' = sc_tables s' \<Longrightarrow>
    schema_exec (Add_column n cl) s'' = Inl DuplicateColumn"
  by (auto simp: on_table_def split: option.splits if_splits)

text \<open>Before the version is stamped the column is there already.\<close>

lemma stuck_upgrade:
  assumes "run_ddl env [search_column] (schema_at 2) d = Inr (s', d')" and "sc_tables s'' = sc_tables s'"
  shows "upgrade_head env \<lparr>pg_version = version_at 2, pg_schema = s'', pg_rows = d''\<rparr> =
    (Some DuplicateColumn, \<lparr>pg_version = version_at 2, pg_schema = s'', pg_rows = d''\<rparr>)"
proof -
  have "schema_exec search_column (schema_at 2) = Inr s'" using assms(1) by (auto split: sum.splits)
  then have dup: "schema_exec search_column s'' = Inl DuplicateColumn"
    using assms(2) add_column_twice unfolding search_column_def by blast
  have "drop 2 MIGRATIONS = MIGRATIONS ! 2 # drop 3 MIGRATIONS"
    using Cons_nth_drop_Suc [of 2 MIGRATIONS] by (simp add: eval_nat_numeral)
  then show ?thesis using dup
    by (simp add: upgrade_head_def pending_at upgrade_steps_Cons only_autocommit(3) exec_def)
qed

lemma left_by_early_upgrade:
  assumes "k \<le> 2" and "conforms env (schema_at k) d"
  obtains q q' d' where "run_ddl env (ddl_of (upgrade_steps (drop k MIGRATIONS))) (schema_at k) d = Inr (schema_at 12, d')"
    "set (left_by env (upgrade_steps (drop k MIGRATIONS)) (database_at k d) (database_at k d)) =
      {database_at k d, q, q', database_at 12 d'}"
    "pg_version q = version_at 2" "upgrade_head env q = (Some DuplicateColumn, q)"
    "pg_version q' = version_at 2" "upgrade_head env q' = (Some DuplicateColumn, q')"
proof -
  let ?U = "upgrade_steps (drop k (take 2 MIGRATIONS))"
  let ?V = "Stamp (version_at 3) # upgrade_steps (drop 3 MIGRATIONS)"
  have "drop k MIGRATIONS = drop k (take 2 MIGRATIONS) @ drop 2 MIGRATIONS"
    using assms(1) by (subst append_take_drop_id [of 2 MIGRATIONS, symmetric], subst drop_append) simp
  moreover have "drop 2 MIGRATIONS = MIGRATIONS ! 2 # drop 3 MIGRATIONS"
    using Cons_nth_drop_Suc [of 2 MIGRATIONS] by (simp add: eval_nat_numeral)
  ultimately have steps: "upgrade_steps (drop k MIGRATIONS) = ?U @ Statement search_column # Autocommit search_index # ?V"
    by (simp add: upgrade_steps_append upgrade_steps_Cons only_autocommit(3) version_at_def)
  obtain d2 where U: "run_ddl env (ddl_of ?U) (schema_at k) d = Inr (schema_at 2, d2)"
    using upgrades_between [OF assms(1) _ assms(2)] by auto
  obtain d' where full: "run_ddl env (ddl_of (upgrade_steps (drop k MIGRATIONS))) (schema_at k) d = Inr (schema_at 12, d')"
    using upgrades_from [OF _ assms(2)] assms(1) by auto
  then have "run_ddl env (search_column # search_index # ddl_of ?V) (schema_at 2) d2 = Inr (schema_at 12, d')"
    using U unfolding steps by (simp add: run_ddl_append del: run_ddl.simps)
  then obtain s3 d3 where col: "run_ddl env [search_column] (schema_at 2) d2 = Inr (s3, d3)"
    and rest: "run_ddl env (search_index # ddl_of ?V) s3 d3 = Inr (schema_at 12, d')"
    by (subst (asm) run_ddl_Cons) blast
  from rest obtain s4 d4 where idx: "run_ddl env [search_index] s3 d3 = Inr (s4, d4)"
    and V: "run_ddl env (ddl_of ?V) s4 d4 = Inr (schema_at 12, d')"
    by (subst (asm) run_ddl_Cons) blast
  have tables: "sc_tables s4 = sc_tables s3"
    using idx by (auto simp: search_index_def on_table_Inr split: sum.splits if_splits)
  define q q' where "q = \<lparr>pg_version = version_at 2, pg_schema = s3, pg_rows = d3\<rparr>"
    and "q' = \<lparr>pg_version = version_at 2, pg_schema = s4, pg_rows = d4\<rparr>"
  have v2: "version_after ?U (version_at k) = version_at 2"
    using assms(1) by (auto simp: version_after_upgrade version_at_def last_conv_nth)
  have last: "version_after ?V (version_at 2) = version_at 12" by (simp add: version_after_upgrade version_at_def last_conv_nth)
  have "list_all transactional ?V" using only_autocommit(2) by simp
  from left_by_transaction [where ys = "[]" and v = "version_at 2" and c = q', OF this V]
  have left: "set (left_by env ?V q' q') = {q', database_at 12 d'}" unfolding last by (simp only: append_Nil2 left_by.simps list.set q'_def)
  have "list_all transactional ?U" by (rule transactional_drop [OF only_autocommit(1)])
  from left_by_transaction [where v = "version_at k" and c = "database_at k d", OF this U]
  have "set (left_by env (upgrade_steps (drop k MIGRATIONS)) (database_at k d) (database_at k d)) =
      insert (database_at k d) (insert (database_at k d) (insert q (set (left_by env ?V q' q'))))"
    unfolding steps v2 by (simp add: exec_eq col idx q_def q'_def del: run_ddl.simps)
  then have "set (left_by env (upgrade_steps (drop k MIGRATIONS)) (database_at k d) (database_at k d)) =
      {database_at k d, q, q', database_at 12 d'}" unfolding left by simp
  with that [OF full] show thesis using stuck_upgrade [OF col] tables by (simp add: q_def q'_def)
qed
lemma left_by_late_upgrade:
  assumes "2 < k" and "k \<le> 12" and "conforms env (schema_at k) d"
  obtains d' where "run_ddl env (ddl_of (upgrade_steps (drop k MIGRATIONS))) (schema_at k) d = Inr (schema_at 12, d')"
    "set (left_by env (upgrade_steps (drop k MIGRATIONS)) (database_at k d) (database_at k d)) =
      {database_at k d, database_at 12 d'}"
proof -
  obtain d' where run: "run_ddl env (ddl_of (upgrade_steps (drop k MIGRATIONS))) (schema_at k) d = Inr (schema_at 12, d')"
    using upgrades_from [OF assms(2,3)] by auto
  have "drop k MIGRATIONS = drop (k - 3) (drop 3 MIGRATIONS)" using assms(1) by simp
  then have "list_all transactional (upgrade_steps (drop k MIGRATIONS))"
    using transactional_drop [OF only_autocommit(2)] by metis
  from left_by_transaction [where ys = "[]" and v = "version_at k" and c = "database_at k d", OF this run]
  show thesis using that [OF run] unfolding version_after_drop [OF assms(2)]
    by (simp only: append_Nil2 left_by.simps list.set)
qed

text \<open>
  C13. Where an upgrade that dies at any point leaves the database: as it was, or as the upgrade would have
  left it, with one exception. Revision \<open>5058fb3e1c3e\<close> builds its index outside the transaction, which
  commits the new column under the version before it; from there every further upgrade fails, because the
  column exists, and changes nothing. The exception is real: every upgrade that has that revision to run
  can leave such a state, which is neither the old one nor the finished one.
\<close>

theorem interrupted_upgrade:
  assumes "k \<le> 12" and "conforms env (schema_at k) d"
  shows "(\<forall>q \<in> set (left_by env (upgrade_steps (pending_from (version_at k) MIGRATIONS)) (database_at k d) (database_at k d)).
      q = database_at k d \<or> upgrade_head env (database_at k d) = (None, q) \<or>
      k \<le> 2 \<and> pg_version q = version_at 2 \<and> upgrade_head env q = (Some DuplicateColumn, q)) \<and>
    (k \<le> 2 \<longrightarrow>
      (\<exists>q \<in> set (left_by env (upgrade_steps (pending_from (version_at k) MIGRATIONS)) (database_at k d) (database_at k d)).
        q \<noteq> database_at k d \<and> upgrade_head env (database_at k d) \<noteq> (None, q) \<and> pg_version q = version_at 2 \<and>
        upgrade_head env q = (Some DuplicateColumn, q)))"
proof (cases "k \<le> 2")
  case True
  obtain q1 q2 d' where run: "run_ddl env (ddl_of (upgrade_steps (drop k MIGRATIONS))) (schema_at k) d = Inr (schema_at 12, d')"
    and left: "set (left_by env (upgrade_steps (drop k MIGRATIONS)) (database_at k d) (database_at k d)) =
      {database_at k d, q1, q2, database_at 12 d'}"
    and stuck: "pg_version q1 = version_at 2" "upgrade_head env q1 = (Some DuplicateColumn, q1)"
      "pg_version q2 = version_at 2" "upgrade_head env q2 = (Some DuplicateColumn, q2)"
    using left_by_early_upgrade [OF True assms(2)] by metis
  have head: "upgrade_head env (database_at k d) = (None, database_at 12 d')" by (rule upgrade_head_at [OF assms(1) run])
  then have "q1 \<noteq> database_at k d" using stuck(2) by auto
  moreover have "version_at 12 \<noteq> version_at 2" by code_simp
  then have "database_at 12 d' \<noteq> q1" using stuck(1) by auto
  ultimately show ?thesis unfolding pending_at [OF assms(1)] left using True stuck head by auto
next
  case False
  then obtain d' where run: "run_ddl env (ddl_of (upgrade_steps (drop k MIGRATIONS))) (schema_at k) d = Inr (schema_at 12, d')"
    and left: "set (left_by env (upgrade_steps (drop k MIGRATIONS)) (database_at k d) (database_at k d)) =
      {database_at k d, database_at 12 d'}"
    using left_by_late_upgrade [OF _ assms(1,2)] by (metis not_le)
  then show ?thesis unfolding pending_at [OF assms(1)] left using False upgrade_head_at [OF assms(1) run] by auto
qed

text \<open>The first upgrade of an empty database can be left stuck.\<close>

theorem interrupted_upgrade_witness:
  "\<exists>q \<in> set (left_by \<lparr>pe_now = 5, pe_tsvector = \<lambda>vs. []\<rparr> (upgrade_steps (pending_from (version_at 0) MIGRATIONS))
      (database_at 0 (\<lambda>n. [])) (database_at 0 (\<lambda>n. []))).
    q \<noteq> database_at 0 (\<lambda>n. []) \<and> upgrade_head \<lparr>pe_now = 5, pe_tsvector = \<lambda>vs. []\<rparr> (database_at 0 (\<lambda>n. [])) \<noteq> (None, q) \<and>
    pg_version q = version_at 2 \<and> upgrade_head \<lparr>pe_now = 5, pe_tsvector = \<lambda>vs. []\<rparr> q = (Some DuplicateColumn, q)"
  using interrupted_upgrade [OF _ empty_conforms, of 0 "\<lparr>pe_now = 5, pe_tsvector = \<lambda>vs. []\<rparr>"] by simp

text \<open>The migrator ends with an error on such a state, and leaves it.\<close>

lemma interrupted_upgrade_sticks:
  assumes "k \<le> 2" and "conforms env (schema_at k) d"
  shows "\<exists>q \<in> set (left_by env (upgrade_steps (pending_from (version_at k) MIGRATIONS)) (database_at k d) (database_at k d)).
    migrator_main env q = (1, q)"
proof -
  have k: "k \<le> 12" using assms(1) by simp
  obtain q where "q \<in> set (left_by env (upgrade_steps (drop k MIGRATIONS)) (database_at k d) (database_at k d))"
    "upgrade_head env q = (Some DuplicateColumn, q)"
    using left_by_early_upgrade [OF assms] by (metis insertCI)
  moreover from this have "migrator_main env q = (1, q)" by (simp add: migrator_main_def)
  ultimately show ?thesis unfolding pending_at [OF k] by blast
qed

end
