(* ===== verification/Schema_Types.thy ===== *)
theory Schema_Types
  imports Schema_History Forward_Repository
begin

text \<open>
  The table classes of \<open>infrastructure/database/models.py\<close> against the schema of the last revision, and
  the rows the repositories store as rows of that schema: the constraints that the model of the database
  assumes are those the migrations declare.
\<close>

section \<open>The table classes\<close>

text \<open>
  A \<open>str\<close> is a VARCHAR and a \<open>datetime\<close> a TIMESTAMP without time zone; \<open>sa_column\<close> names its type.
  Defaults are those of the server.
\<close>

definition EndpointTable :: "column list" where
  "EndpointTable =
     [not_null ''id'' T_uuid, not_null ''token'' T_varchar, not_null ''created_at'' T_timestamp,
      not_null ''expires_at'' T_timestamp, not_null ''request_count'' T_integer,
      not_null ''response_status_code'' T_integer, not_null ''response_body'' T_varchar,
      column ''response_headers'' T_jsonb False (Const_default (V_jsonb (JObj []))),
      not_null ''response_delay_ms'' T_integer, nullable ''signature_provider'' T_varchar,
      nullable ''signature_secret_encrypted'' T_bytea, nullable ''forward_url'' T_varchar,
      nullable ''forward_headers'' T_jsonb, nullable ''forward_secret_encrypted'' T_bytea,
      nullable ''flagged_at'' T_timestamp, nullable ''flag_reason'' T_varchar]"

definition RequestTable :: "column list" where
  "RequestTable =
     [not_null ''id'' T_uuid, not_null ''endpoint_id'' T_uuid, not_null ''method'' T_varchar,
      not_null ''path'' T_varchar, nullable ''query_string'' T_varchar, not_null ''headers'' T_jsonb,
      nullable ''body_preview'' T_varchar, not_null ''body_size'' T_integer, nullable ''blob_key'' T_varchar,
      not_null ''source_ip'' T_inet, not_null ''received_at'' T_timestamp, nullable ''signature_status'' T_varchar,
      nullable ''detected_integration'' T_varchar, nullable ''detected_event_type'' T_varchar,
      column ''search_vector'' T_tsvector True (Generated [''method'', ''path'', ''body_preview'', ''headers''])]"

definition ReplayTable :: "column list" where
  "ReplayTable =
     [not_null ''id'' T_uuid, not_null ''request_id'' T_uuid, not_null ''target_url'' T_varchar,
      nullable ''status_code'' T_smallint, nullable ''response_body_preview'' T_varchar,
      nullable ''response_headers'' T_jsonb, nullable ''error'' T_varchar, not_null ''duration_ms'' T_integer,
      not_null ''attempted_at'' T_timestamp]"

definition ForwardTable :: "column list" where
  "ForwardTable =
     [not_null ''id'' T_uuid, not_null ''request_id'' T_uuid, not_null ''endpoint_id'' T_uuid,
      not_null ''target_url'' T_varchar, not_null ''status'' T_varchar, not_null ''attempt_count'' T_integer,
      nullable ''last_attempt_at'' T_timestamp, nullable ''next_attempt_at'' T_timestamp,
      nullable ''final_status_code'' T_integer, nullable ''final_error'' T_varchar,
      nullable ''forward_started_at'' T_timestamp, nullable ''forward_completed_at'' T_timestamp,
      not_null ''created_at'' T_timestamp, nullable ''manual_retry_at'' T_timestamp]"

definition models :: "(string \<times> column list) list" where
  "models = [(''endpoints'', EndpointTable), (''requests'', RequestTable), (''replays'', ReplayTable), (''forwards'', ForwardTable)]"

text \<open>Types of one family hold the same values.\<close>

fun same_family :: "sql_type \<Rightarrow> sql_type \<Rightarrow> bool" where
  "same_family T_varchar b = (b = T_varchar \<or> b = T_text)"
| "same_family T_timestamp b = (b = T_timestamp \<or> b = T_timestamptz)"
| "same_family a b = (a = b)"

lemma same_family_has_type: "same_family a b \<Longrightarrow> has_type a v = has_type b v"
  by (cases v; cases a) auto

text \<open>The class and the table have the same columns, and each accepts the same values and is computed alike.\<close>

definition model_fits :: "schema \<Rightarrow> string \<Rightarrow> column list \<Rightarrow> bool" where
  "model_fits s n cols \<longleftrightarrow>
     (case map_of (sc_tables s) n of
        None \<Rightarrow> False
      | Some t \<Rightarrow>
          distinct (map cl_name cols) \<and> set (map cl_name cols) = set (column_names t) \<and>
          list_all (\<lambda>c. list_ex (\<lambda>cl. cl_name cl = cl_name c \<and> same_family (cl_type c) (cl_type cl) \<and>
            cl_nullable cl = cl_nullable c \<and> is_generated cl = is_generated c \<and> generated_from cl = generated_from c)
            (tb_columns t)) cols)"

section \<open>Stored rows\<close>

definition row_of :: "(string \<times> sql_value) list \<Rightarrow> row" where
  "row_of cells = (\<lambda>c. case map_of cells c of None \<Rightarrow> V_null | Some v \<Rightarrow> v)"

definition or_null :: "('a \<Rightarrow> sql_value) \<Rightarrow> 'a option \<Rightarrow> sql_value" where
  "or_null f x = (case x of None \<Rightarrow> V_null | Some a \<Rightarrow> f a)"

definition V_dict :: "dict \<Rightarrow> sql_value" where
  "V_dict d = V_jsonb (JObj (map (\<lambda>(k, v). (k, JStr v)) d))"

definition sql_endpoint :: "endpoint \<Rightarrow> row" where
  "sql_endpoint e = row_of
     [(''id'', V_uuid (ep_id e)), (''token'', V_text (ep_token e)), (''created_at'', V_time (ep_created_at e)),
      (''expires_at'', V_time (ep_expires_at e)), (''request_count'', V_int (ep_request_count e)),
      (''response_status_code'', V_int (ep_response_status_code e)), (''response_body'', V_text (ep_response_body e)),
      (''response_headers'', V_dict (ep_response_headers e)), (''response_delay_ms'', V_int (ep_response_delay_ms e)),
      (''signature_provider'', or_null V_text (ep_signature_provider e)),
      (''signature_secret_encrypted'', or_null V_bytes (ep_signature_secret e)),
      (''forward_url'', or_null V_text (ep_forward_url e)), (''forward_headers'', or_null V_dict (ep_forward_headers e)),
      (''forward_secret_encrypted'', or_null V_bytes (ep_forward_secret e)),
      (''flagged_at'', or_null V_time (ep_flagged_at e)), (''flag_reason'', or_null V_text (ep_flag_reason e))]"

definition sql_request :: "pg_env \<Rightarrow> captured_request \<Rightarrow> row" where
  "sql_request env r = row_of
     [(''id'', V_uuid (rq_id r)), (''endpoint_id'', V_uuid (rq_endpoint_id r)), (''method'', V_text (rq_method r)),
      (''path'', V_text (rq_path r)), (''query_string'', or_null V_text (rq_query_string r)),
      (''headers'', V_dict (rq_headers r)), (''body_preview'', or_null V_text (rq_body_preview r)),
      (''body_size'', V_int (int (rq_body_size r))), (''blob_key'', or_null V_text (rq_blob_key r)),
      (''source_ip'', V_inet (rq_source_ip r)), (''received_at'', V_time (rq_received_at r)),
      (''signature_status'', or_null V_text (rq_signature_status r)),
      (''detected_integration'', or_null V_text (rq_detected_integration r)),
      (''detected_event_type'', or_null V_text (rq_detected_event_type r)),
      (''search_vector'', V_tsvector (pe_tsvector env
         [V_text (rq_method r), V_text (rq_path r), or_null V_text (rq_body_preview r), V_dict (rq_headers r)]))]"

definition sql_replay :: "replay \<Rightarrow> row" where
  "sql_replay r = row_of
     [(''id'', V_uuid (rp_id r)), (''request_id'', V_uuid (rp_request_id r)), (''target_url'', V_text (rp_target_url r)),
      (''status_code'', or_null V_int (rp_status_code r)),
      (''response_body_preview'', or_null V_text (rp_response_body_preview r)),
      (''response_headers'', or_null V_dict (rp_response_headers r)), (''error'', or_null V_text (rp_error r)),
      (''duration_ms'', V_int (rp_duration_ms r)), (''attempted_at'', V_time (rp_attempted_at r))]"

definition sql_forward :: "forward \<Rightarrow> row" where
  "sql_forward f = row_of
     [(''id'', V_uuid (fw_id f)), (''request_id'', V_uuid (fw_request_id f)), (''endpoint_id'', V_uuid (fw_endpoint_id f)),
      (''target_url'', V_text (fw_target_url f)), (''status'', V_text (status_str (fw_status f))),
      (''attempt_count'', V_int (fw_attempt_count f)), (''last_attempt_at'', or_null V_time (fw_last_attempt_at f)),
      (''next_attempt_at'', or_null V_time (fw_next_attempt_at f)),
      (''final_status_code'', or_null V_int (fw_final_status_code f)), (''final_error'', or_null V_text (fw_final_error f)),
      (''forward_started_at'', or_null V_time (fw_started_at f)), (''forward_completed_at'', or_null V_time (fw_completed_at f)),
      (''created_at'', V_time (fw_created_at f)), (''manual_retry_at'', or_null V_time (fw_manual_retry_at f))]"

definition rows_of :: "pg_env \<Rightarrow> db \<Rightarrow> data" where
  "rows_of env d n =
     (if n = ''endpoints'' then map sql_endpoint (db_endpoints d)
      else if n = ''requests'' then map (sql_request env) (db_requests d)
      else if n = ''replays'' then map sql_replay (db_replays d)
      else if n = ''forwards'' then map sql_forward (db_forwards d) else [])"

section \<open>The schema of the last revision, table by table\<close>

text \<open>Spelled out once, so that what follows need not run the chain again.\<close>

definition endpoints_table :: sql_table where
  "endpoints_table =
     \<lparr>tb_columns = [not_null ''id'' T_uuid, not_null ''token'' T_varchar, not_null ''created_at'' T_timestamp,
        not_null ''expires_at'' T_timestamp, not_null ''request_count'' T_integer,
        column ''response_status_code'' T_integer False (Const_default (V_int 200)),
        column ''response_body'' T_text False (Const_default (V_text DEFAULT_RESPONSE_BODY)),
        column ''response_headers'' T_jsonb False (Const_default (V_jsonb (JObj []))),
        column ''response_delay_ms'' T_integer False (Const_default (V_int 0)),
        nullable ''signature_provider'' T_text, nullable ''signature_secret_encrypted'' T_bytea,
        nullable ''forward_url'' T_text, nullable ''forward_headers'' T_jsonb, nullable ''forward_secret_encrypted'' T_bytea,
        nullable ''flagged_at'' T_timestamptz, nullable ''flag_reason'' T_text],
      tb_pk = [''id''], tb_fks = [],
      tb_checks = [(''endpoints_flag_reason_check'', Cond_or (Is_null ''flag_reason'') (In_values ''flag_reason'' FLAG_REASONS))]\<rparr>"

definition requests_table :: sql_table where
  "requests_table =
     \<lparr>tb_columns = [not_null ''id'' T_uuid, not_null ''endpoint_id'' T_uuid, not_null ''method'' T_varchar,
        not_null ''path'' T_varchar, nullable ''query_string'' T_varchar, not_null ''headers'' T_jsonb,
        nullable ''body_preview'' T_varchar, not_null ''body_size'' T_integer, nullable ''blob_key'' T_varchar,
        not_null ''source_ip'' T_inet, not_null ''received_at'' T_timestamp,
        column ''search_vector'' T_tsvector True (Generated [''method'', ''path'', ''body_preview'', ''headers'']),
        nullable ''signature_status'' T_text, nullable ''detected_integration'' T_text, nullable ''detected_event_type'' T_text],
      tb_pk = [''id''], tb_fks = [references ''endpoint_id'' ''endpoints'' ''id'' False],
      tb_checks = [(''requests_detected_integration_check'',
        Cond_or (Is_null ''detected_integration'') (In_values ''detected_integration'' INTEGRATION_NAMES))]\<rparr>"

definition replays_table :: sql_table where
  "replays_table =
     \<lparr>tb_columns = [not_null ''id'' T_uuid, not_null ''request_id'' T_uuid, not_null ''target_url'' T_text,
        nullable ''status_code'' T_smallint, nullable ''response_body_preview'' T_text,
        nullable ''response_headers'' T_jsonb, nullable ''error'' T_text, not_null ''duration_ms'' T_integer,
        not_null ''attempted_at'' T_timestamptz],
      tb_pk = [''id''], tb_fks = [references ''request_id'' ''requests'' ''id'' True],
      tb_checks = [(''replays_outcome_xor'', Null_differs ''status_code'' ''error'')]\<rparr>"

definition forwards_table :: sql_table where
  "forwards_table =
     \<lparr>tb_columns = [not_null ''id'' T_uuid, not_null ''request_id'' T_uuid, not_null ''endpoint_id'' T_uuid,
        not_null ''target_url'' T_text, not_null ''status'' T_text,
        column ''attempt_count'' T_integer False (Const_default (V_int 0)), nullable ''last_attempt_at'' T_timestamptz,
        nullable ''next_attempt_at'' T_timestamptz, nullable ''final_status_code'' T_integer,
        nullable ''final_error'' T_text, nullable ''forward_started_at'' T_timestamptz,
        nullable ''forward_completed_at'' T_timestamptz, column ''created_at'' T_timestamptz False Now_default,
        nullable ''manual_retry_at'' T_timestamptz],
      tb_pk = [''id''],
      tb_fks = [references ''request_id'' ''requests'' ''id'' True, references ''endpoint_id'' ''endpoints'' ''id'' True],
      tb_checks = [(''forwards_status_check'', In_values ''status'' (map status_str enum_class.enum))]\<rparr>"

definition unique_indexes :: "schema \<Rightarrow> (string \<times> sql_index) list" where
  "unique_indexes s = filter (\<lambda>(k, ix). ix_unique ix) (sc_indexes s)"

lemma last_schema:
  "(sc_tables (schema_at 12), unique_indexes (schema_at 12)) =
     ([(''endpoints'', endpoints_table), (''requests'', requests_table), (''replays'', replays_table), (''forwards'', forwards_table)],
      [(''ix_endpoints_token'', plain_index ''endpoints'' [''token''] True)])"
  by code_simp

lemmas last_tables = last_schema [THEN arg_cong, of fst, simplified fst_conv]
lemmas last_unique_indexes = last_schema [THEN arg_cong, of snd, simplified snd_conv]
lemma models_fit_tables:
  assumes "sc_tables s = [(''endpoints'', endpoints_table), (''requests'', requests_table),
    (''replays'', replays_table), (''forwards'', forwards_table)]"
  shows "list_all (\<lambda>(n, cols). model_fits s n cols) models \<and> set (map fst models) = set (map fst (sc_tables s))"
  unfolding model_fits_def assms by code_simp

text \<open>
  The table classes and the migrations agree: after all revisions every table class has exactly the
  columns of its table, of the same kind of type, as nullable and as generated, and no table is without a
  class.
\<close>

lemma models_fit_migrations:
  "list_all (\<lambda>(n, cols). model_fits (schema_at 12) n cols) models \<and> set (map fst models) = set (map fst (sc_tables (schema_at 12)))"
  by (rule models_fit_tables [OF last_tables])

section \<open>The constraints, once more\<close>

lemma has_null_type [simp]:
  "has_type ty (or_null V_text x) \<longleftrightarrow> x = None \<or> ty = T_varchar \<or> ty = T_text"
  "has_type ty (or_null V_int i) \<longleftrightarrow> i = None \<or> ty = T_integer \<or> ty = T_smallint"
  "has_type ty (or_null V_time t) \<longleftrightarrow> t = None \<or> ty = T_timestamp \<or> ty = T_timestamptz"
  "has_type ty (or_null V_bytes b) \<longleftrightarrow> b = None \<or> ty = T_bytea"
  "has_type ty (or_null V_dict h) \<longleftrightarrow> h = None \<or> ty = T_jsonb"
  by (auto simp: or_null_def V_dict_def split: option.splits)

lemma V_dict_type [simp]: "has_type ty (V_dict h) \<longleftrightarrow> ty = T_jsonb" "V_dict h \<noteq> V_null"
  by (simp_all add: V_dict_def)

lemma or_null_text: "(or_null V_text x = V_null) = (x = None)" "(or_null V_text x = V_text s) = (x = Some s)"
  by (auto simp: or_null_def split: option.splits)

lemma or_null_int: "(or_null V_int x = V_null) = (x = None)"
  by (auto simp: or_null_def split: option.splits)

lemma in_values_or_null:
  "eval_cond (Cond_or (Is_null c) (In_values c vs)) r \<noteq> Some False \<longleftrightarrow> (case x of None \<Rightarrow> True | Some s \<Rightarrow> s \<in> set vs)"
  if "r c = or_null V_text x"
  using that by (cases x) (simp_all add: or_null_def list_ex_iff, cases "the x \<in> set vs", simp_all)

lemma in_all_values: "list_ex (\<lambda>s. status_str st = s) (map status_str enum_class.enum)"
  using enum_UNIV by (auto simp: list_ex_iff)

lemma cells_ok:
  "list_all (\<lambda>c. cell_ok env c (sql_endpoint e)) (tb_columns endpoints_table)"
  "list_all (\<lambda>c. cell_ok env c (sql_request env r)) (tb_columns requests_table)"
  "list_all (\<lambda>c. cell_ok env c (sql_replay p)) (tb_columns replays_table)"
  "list_all (\<lambda>c. cell_ok env c (sql_forward f)) (tb_columns forwards_table)"
  by (simp_all add: cell_ok_def column_def is_generated_def generated_from_def row_of_def
      endpoints_table_def requests_table_def replays_table_def forwards_table_def
      sql_endpoint_def sql_request_def sql_replay_def sql_forward_def)

lemma row_checks:
  "row_ok env endpoints_table (sql_endpoint e) \<longleftrightarrow> flag_reason_check (ep_flag_reason e)"
  "row_ok env requests_table (sql_request env r) \<longleftrightarrow> integration_check (rq_detected_integration r)"
  "row_ok env replays_table (sql_replay p) \<longleftrightarrow> replay_outcome_xor p"
  "row_ok env forwards_table (sql_forward f)"
proof -
  have "sql_endpoint e ''flag_reason'' = or_null V_text (ep_flag_reason e)" by (simp add: sql_endpoint_def row_of_def)
  then show "row_ok env endpoints_table (sql_endpoint e) \<longleftrightarrow> flag_reason_check (ep_flag_reason e)"
    by (simp add: row_ok_def cells_ok flag_reason_check_def) (simp add: endpoints_table_def in_values_or_null del: eval_cond.simps)
  have "sql_request env r ''detected_integration'' = or_null V_text (rq_detected_integration r)"
    by (simp add: sql_request_def row_of_def)
  then show "row_ok env requests_table (sql_request env r) \<longleftrightarrow> integration_check (rq_detected_integration r)"
    by (simp add: row_ok_def cells_ok integration_check_def) (simp add: requests_table_def in_values_or_null del: eval_cond.simps)
  have "sql_replay p ''status_code'' = or_null V_int (rp_status_code p)" "sql_replay p ''error'' = or_null V_text (rp_error p)"
    by (simp_all add: sql_replay_def row_of_def)
  then show "row_ok env replays_table (sql_replay p) \<longleftrightarrow> replay_outcome_xor p"
    by (simp add: row_ok_def cells_ok replay_outcome_xor_def) (simp add: replays_table_def or_null_text or_null_int)
  have "sql_forward f ''status'' = V_text (status_str (fw_status f))" by (simp add: sql_forward_def row_of_def)
  then show "row_ok env forwards_table (sql_forward f)"
    using in_all_values [of "fw_status f"] by (simp add: row_ok_def cells_ok) (simp add: forwards_table_def)
qed
lemma rows_of_simps [simp]:
  "rows_of env d ''endpoints'' = map sql_endpoint (db_endpoints d)"
  "rows_of env d ''requests'' = map (sql_request env) (db_requests d)"
  "rows_of env d ''replays'' = map sql_replay (db_replays d)"
  "rows_of env d ''forwards'' = map sql_forward (db_forwards d)"
  by (simp_all add: rows_of_def)

lemma key_cells [simp]:
  "sql_endpoint e ''id'' = V_uuid (ep_id e)" "sql_endpoint e ''token'' = V_text (ep_token e)"
  "sql_request env r ''id'' = V_uuid (rq_id r)" "sql_request env r ''endpoint_id'' = V_uuid (rq_endpoint_id r)"
  "sql_replay p ''id'' = V_uuid (rp_id p)" "sql_replay p ''request_id'' = V_uuid (rp_request_id p)"
  "sql_forward f ''id'' = V_uuid (fw_id f)" "sql_forward f ''request_id'' = V_uuid (fw_request_id f)"
  "sql_forward f ''endpoint_id'' = V_uuid (fw_endpoint_id f)"
  by (simp_all add: sql_endpoint_def sql_request_def sql_replay_def sql_forward_def row_of_def)

lemma distinct_key_cells:
  "inj g \<Longrightarrow> distinct (map (\<lambda>x. [g (key x)]) xs) \<longleftrightarrow> key_ok key xs"
  by (induction xs) (auto simp: key_ok_def inj_eq image_iff)

lemma referenced:
  "list_ex (\<lambda>p. p ''id'' = V_uuid v) (map sql_endpoint es) \<longleftrightarrow> v \<in> ep_id ` set es"
  "list_ex (\<lambda>p. p ''id'' = V_uuid v) (map (sql_request env) rs) \<longleftrightarrow> v \<in> rq_id ` set rs"
  by (auto simp: list_ex_iff)

lemma last_columns:
  "tb_pk endpoints_table = [''id'']" "tb_pk requests_table = [''id'']" "tb_pk replays_table = [''id'']" "tb_pk forwards_table = [''id'']"
  "tb_fks endpoints_table = []" "tb_fks requests_table = [references ''endpoint_id'' ''endpoints'' ''id'' False]"
  "tb_fks replays_table = [references ''request_id'' ''requests'' ''id'' True]"
  "tb_fks forwards_table = [references ''request_id'' ''requests'' ''id'' True, references ''endpoint_id'' ''endpoints'' ''id'' True]"
  by (simp_all add: endpoints_table_def requests_table_def replays_table_def forwards_table_def)

lemma rows_ok_tables:
  "rows_ok env (rows_of env d) ''endpoints'' endpoints_table \<longleftrightarrow>
     (\<forall>e \<in> set (db_endpoints d). flag_reason_check (ep_flag_reason e)) \<and> key_ok ep_id (db_endpoints d)"
  "rows_ok env (rows_of env d) ''requests'' requests_table \<longleftrightarrow>
     (\<forall>r \<in> set (db_requests d). integration_check (rq_detected_integration r) \<and> rq_endpoint_id r \<in> endpoint_ids d) \<and>
     key_ok rq_id (db_requests d)"
  "rows_ok env (rows_of env d) ''replays'' replays_table \<longleftrightarrow>
     (\<forall>r \<in> set (db_replays d). replay_outcome_xor r \<and> rp_request_id r \<in> request_ids d) \<and> key_ok rp_id (db_replays d)"
  "rows_ok env (rows_of env d) ''forwards'' forwards_table \<longleftrightarrow>
     (\<forall>f \<in> set (db_forwards d). fw_request_id f \<in> request_ids d \<and> fw_endpoint_id f \<in> endpoint_ids d) \<and> key_ok fw_id (db_forwards d)"
  by (auto simp: rows_ok_def last_columns row_checks list_all_iff fk_ok_def comp_def distinct_key_cells inj_def referenced)

lemma index_ok_last:
  "list_all (\<lambda>(k, ix). index_ok ix (rows_of env d (ix_table ix))) (sc_indexes (schema_at 12)) \<longleftrightarrow> key_ok ep_token (db_endpoints d)"
proof -
  have unique: "list_all (\<lambda>(k, ix). index_ok ix (D (ix_table ix))) ixs \<longleftrightarrow>
      list_all (\<lambda>(k, ix). index_ok ix (D (ix_table ix))) (filter (\<lambda>(k, ix). ix_unique ix) ixs)" for D ixs
    by (auto simp: list_all_iff index_ok_def)
  have "index_ok (plain_index ''endpoints'' [''token''] True) (map sql_endpoint es) \<longleftrightarrow> key_ok ep_token es" for es
    by (simp add: index_ok_def index_matches_def comp_def filter_map distinct_key_cells inj_def)
  then show ?thesis using last_unique_indexes by (subst unique) (simp add: unique_indexes_def)
qed

lemma padded_rows_of: "padded (schema_at 12) (rows_of env d)"
proof -
  have outside: "map_of cells c = None \<Longrightarrow> row_of cells c = V_null" for cells c
    by (simp add: row_of_def)
  show ?thesis
    unfolding padded_def last_tables
    by (auto simp: rows_of_def endpoints_table_def requests_table_def replays_table_def forwards_table_def column_def
        sql_endpoint_def sql_request_def sql_replay_def sql_forward_def outside)
qed

lemma conforms_iff_db_ok: "conforms env (schema_at 12) (rows_of env d) \<longleftrightarrow> db_ok d"
  by (auto simp: conforms_def data_ok_def last_tables rows_ok_tables index_ok_last padded_rows_of db_ok_defs)

text \<open>
  C14. The constraints are typed right: the rows that the repositories store for a database keep every type,
  NOT NULL, key, foreign key, CHECK and unique index that the migrations declare exactly if the database
  keeps its invariant, so the invariant is neither weaker nor stronger than what PostgreSQL enforces.
\<close>

theorem stored_rows_are_typed:
  "conforms env (schema_at 12) (rows_of env d) \<longleftrightarrow> db_ok d"
  by (rule conforms_iff_db_ok)

end
