(* ===== verification/Run_Invariant.thy ===== *)
theory Run_Invariant
  imports System_Runs App_Routes Schema_Types
begin

text \<open>
  What the interleaved processes keep of the data beyond the constraints of the schema, and what it means for
  the owner: the pages and the lists of an endpoint can always be read.
\<close>

section \<open>The history of an endpoint\<close>

text \<open>
  Every request has one of the four signature statuses, every forward belongs to the endpoint of its
  request and is the only one of that request, and the counter of an endpoint is the number of its
  requests. No constraint of PostgreSQL says any of this.
\<close>

definition history_ok :: "db \<Rightarrow> bool" where
  "history_ok d \<longleftrightarrow>
     (\<forall>r \<in> set (db_requests d). \<exists>st \<in> set SIGNATURE_STATUS_VALUES. rq_signature_status r = Some st) \<and>
     (\<forall>f \<in> set (db_forwards d). \<forall>r \<in> set (db_requests d).
        rq_id r = fw_request_id f \<longrightarrow> rq_endpoint_id r = fw_endpoint_id f) \<and>
     distinct (map fw_request_id (db_forwards d)) \<and>
     (\<forall>e \<in> set (db_endpoints d). ep_request_count e = int (count_by_endpoint (ep_id e) d))"

lemma history_ok_empty: "history_ok empty_db"
  by (simp add: history_ok_def empty_db_def)

text \<open>The columns the invariant speaks of.\<close>

definition links :: "db \<Rightarrow> captured_request list \<times> (uuid \<times> uuid) list \<times> (uuid \<times> int) list" where
  "links d = (db_requests d, map (\<lambda>f. (fw_request_id f, fw_endpoint_id f)) (db_forwards d),
     map (\<lambda>e. (ep_id e, ep_request_count e)) (db_endpoints d))"

definition links_ok :: "captured_request list \<times> (uuid \<times> uuid) list \<times> (uuid \<times> int) list \<Rightarrow> bool" where
  "links_ok l \<longleftrightarrow> (case l of (rs, fs, es) \<Rightarrow>
     (\<forall>r \<in> set rs. \<exists>st \<in> set SIGNATURE_STATUS_VALUES. rq_signature_status r = Some st) \<and>
     (\<forall>(q, i) \<in> set fs. \<forall>r \<in> set rs. rq_id r = q \<longrightarrow> rq_endpoint_id r = i) \<and>
     distinct (map fst fs) \<and>
     (\<forall>(i, n) \<in> set es. n = int (length (filter (\<lambda>r. rq_endpoint_id r = i) rs))))"

lemma history_ok_links: "history_ok d = links_ok (links d)"
  by (simp add: history_ok_def links_ok_def links_def count_by_endpoint_def comp_def)

lemma history_cong: "links d' = links d \<Longrightarrow> history_ok d \<Longrightarrow> history_ok d'"
  by (simp add: history_ok_links)

lemma map_sql_update_same: "(\<And>x. p x \<Longrightarrow> g (f x) = g x) \<Longrightarrow> map g (sql_update p f t) = map g t"
  by (simp add: sql_update_def)

lemma links_forward_ops [simp]:
  "links (snd (claim_for_attempt i now d)) = links d"
  "links (record_outcome i ns c e t now d) = links d"
  "links (snd (claim_for_manual_retry i eid now d)) = links d"
  "links (snd (abandon i eid now d)) = links d"
  "links (reclaimed_db eid now d) = links d"
  by (simp_all add: links_def claim_for_attempt_def record_outcome_def claim_for_manual_retry_def abandon_def
      reclaimed_db_def reclaim_stuck_in_flight_def Let_def map_sql_update_same set_claimed_def set_outcome_def
      set_manual_retry_def set_abandoned_def set_reclaimed_def)

lemma links_frame [simp]:
  "links (d\<lparr>db_replays := ps\<rparr>) = links d" "links (d\<lparr>db_notified := ns\<rparr>) = links d"
  by (simp_all add: links_def)

lemma links_endpoint_update:
  "endpoint_update e d = (Inr u, d') \<Longrightarrow> links d' = links d"
  by (auto simp: endpoint_update_def links_def endpoint_set_config_def intro!: map_sql_update_same split: if_splits)

lemma links_scanned: "links (scanned_db cutoff db_now d) = links d"
  by (simp add: links_def scanned_db_def set_flagged_def)

section \<open>Every process keeps it\<close>

lemma forward_save_endpoints: "forward_save f d = (Inr u, d') \<Longrightarrow> db_endpoints d' = db_endpoints d"
  by (auto simp: forward_save_def Let_def split: if_splits)

text \<open>The rows a capture adds and the counter it moves.\<close>

lemma capture_counts:
  assumes "with_session (capture_request sv env inp) w = (Inr r, w')"
  shows "db_endpoints (w_db w') = sql_update (\<lambda>e. ep_id e = ep_id (cr_endpoint r))
      (\<lambda>e. e\<lparr>ep_request_count := ep_request_count e + 1\<rparr>) (db_endpoints (w_db w)) \<and>
    rq_id (cr_captured r) \<notin> request_ids (w_db w) \<and> rq_id (cr_captured r) = ce_request_id env"
  using assms
proof (rule capture_requestE)
  fix endpoint st created captured w1 d1
  assume c: "captured_request_create (ce_request_id env) (ce_now env) (ep_id endpoint)
       (str_upper (ci_method inp)) (ci_path inp) (ci_query_string inp) (ci_headers inp) (ci_body inp)
       (ci_source_ip inp) (ce_inline_threshold env) st
       (fst (detect_captured (ci_headers inp) (ci_body inp)))
       (snd (detect_captured (ci_headers inp) (ci_body inp))) = Inr created"
    and s: "store_body sv created (ci_body inp) w = (Inr captured, w1)"
    and save: "request_save sv captured (w_db w) = (Inr (), d1)"
    and r: "cr_captured r = captured" "cr_endpoint r = endpoint"
    and none: "falsy (ep_forward_url endpoint) \<Longrightarrow> cr_pending_forward_id r = None \<and>
       w_db w' = increment_request_count (ep_id endpoint) d1"
    and some: "\<not> falsy (ep_forward_url endpoint) \<Longrightarrow> cr_pending_forward_id r = Some (ce_forward_id env) \<and>
       forward_save (forward_create (ce_forward_id env) (rq_id captured) (ep_id endpoint)
           (the (ep_forward_url endpoint)) (ce_forward_now env))
         (increment_request_count (ep_id endpoint) d1) = (Inr (), w_db w')"
  have "db_endpoints (w_db w') = db_endpoints (increment_request_count (ep_id endpoint) d1)"
    using none some by (cases "falsy (ep_forward_url endpoint)") (auto dest: forward_save_endpoints)
  then show ?thesis
    using request_save_InrD(1,2) [OF save] captured_request_createD [OF c] stored_fields [OF s]
    by (simp add: r increment_request_count_def)
qed

lemma capture_keeps_history:
  assumes "world_ok w" and "with_session (capture_request sv env inp) w = (rc, w')" and "history_ok (w_db w)"
  shows "history_ok (w_db w')"
proof (cases rc)
  case (Inl e)
  then show ?thesis using with_session_Inl assms(2,3) by metis
next
  case (Inr r)
  have ok: "db_ok (w_db w)" using assms(1) by (simp add: world_ok_def)
  let ?d = "w_db w" and ?d' = "w_db w'" and ?c = "cr_captured r" and ?i = "ep_id (cr_endpoint r)"
  note run = assms(2) [unfolded Inr]
  note old = assms(3) [unfolded history_ok_def]
  have eff: "db_requests ?d' = db_requests ?d @ [?c]" "rq_endpoint_id ?c = ?i"
    "\<exists>st \<in> set SIGNATURE_STATUS_VALUES. rq_signature_status ?c = Some st"
    "db_forwards ?d' = db_forwards ?d @ (if falsy (ep_forward_url (cr_endpoint r)) then []
       else [forward_create (ce_forward_id env) (ce_request_id env) ?i (the (ep_forward_url (cr_endpoint r)))
               (ce_forward_now env)])"
    using capture_commits [OF ok run] by simp_all
  note new = capture_counts [OF run]
  have parents: "fw_request_id f \<in> request_ids ?d" if "f \<in> set (db_forwards ?d)" for f
    using ok that by (auto simp: db_ok_defs)
  have fields: "fw_request_id (forward_create a b e u n) = b" "fw_endpoint_id (forward_create a b e u n) = e" for a b e u n
    by (simp_all add: forward_create_def)
  have fresh: "\<forall>q \<in> set (db_requests ?d). rq_id q \<noteq> ce_request_id env" using new by (metis imageI)
  have "\<forall>f \<in> set (db_forwards ?d'). \<forall>q \<in> set (db_requests ?d'). rq_id q = fw_request_id f \<longrightarrow> rq_endpoint_id q = fw_endpoint_id f"
    using old parents new eff(2) fresh by (auto simp: eff(1,4) fields)
  moreover have "distinct (map fw_request_id (db_forwards ?d'))"
    using old parents new by (auto simp: eff(4) fields)
  moreover have "\<forall>e \<in> set (db_endpoints ?d'). ep_request_count e = int (count_by_endpoint (ep_id e) ?d')"
    using old new eff(2) by (auto simp: sql_update_def eff(1) count_by_endpoint_def)
  ultimately show ?thesis using old eff(3) by (auto simp: history_ok_def eff(1))
qed

lemma create_keeps_history:
  assumes "world_ok w" and "with_session (create_endpoint gen i now ttl slug code body hs delay) w = (re, w')"
    and "history_ok (w_db w)"
  shows "history_ok (w_db w')"
proof (cases re)
  case (Inl e)
  then show ?thesis using with_session_Inl assms(2,3) by metis
next
  case (Inr e)
  note D = create_endpointD [OF assms(2) [unfolded Inr]]
  have "ep_request_count e = 0" using D(2) by (auto simp: endpoint_create_def bindR_Inr_iff Let_def)
  moreover have "ep_id e \<notin> endpoint_ids (w_db w)" using D(3) by (auto simp: endpoint_save_def Let_def split: if_splits)
  moreover have "\<forall>r \<in> set (db_requests (w_db w)). rq_endpoint_id r \<in> endpoint_ids (w_db w)"
    using assms(1) by (auto simp: world_ok_def db_ok_defs)
  ultimately have none: "ep_request_count e = 0" "\<forall>r \<in> set (db_requests (w_db w)). rq_endpoint_id r \<noteq> ep_id e"
    by (blast, metis)
  from none(2) have "count_by_endpoint (ep_id e) (w_db w) = 0" by (auto simp: count_by_endpoint_def filter_empty_conv)
  then show ?thesis using assms(3) none(1) by (auto simp: D(4) history_ok_def count_by_endpoint_def)
qed

lemma clean_keeps_history:
  assumes "run_cleanup now d = (ri, d')" and "history_ok d"
  shows "history_ok d'"
proof -
  have "(\<exists>n. delete_expired now d = (Inr n, d')) \<or> d' = d"
    using assms(1) by (auto simp: run_cleanup_def in_session_def split: prod.splits sum.splits)
  then show ?thesis
    using assms(2) by (auto simp: delete_expired_def Let_def history_ok_def sql_delete_def count_by_endpoint_def
        distinct_map_filter split: if_splits)
qed

lemma step_keeps_history:
  assumes "sys_step ops s s'" and "world_ok (sy_world s)" and "history_ok (w_db (sy_world s))"
  shows "history_ok (w_db (sy_world s'))"
  using assms
proof (induction rule: sys_step.induct)
  case (capture env s sv inp rc w')
  then show ?case using capture_keeps_history by simp
next
  case (create gen i now ttl slug code body hs delay s re w')
  then show ?case using create_keeps_history by simp
next
  case (configure sv key n1 n2 token patch s ru w')
  have "links (w_db w') = links (w_db (sy_world s))"
  proof (cases ru)
    case (Inl e)
    then show ?thesis using with_session_Inl configure(1) by metis
  next
    case (Inr u)
    then have "\<exists>e. endpoint_update e (w_db (sy_world s)) = (Inr (), w_db w')"
      using configure(1) by (auto simp: update_endpoint_config_def get_endpoint_def bindA_Inr_iff run_db_res_Inr
          read_db_def split: option.splits)
    then show ?thesis using links_endpoint_update by blast
  qed
  then show ?case using configure(3) history_cong by simp
next
  case (replay sv rclk token rid url ih ib s rr w')
  have conc: "links (w_db w') = links (w_db v)" if "world_ok v" "conclude_replay x label v = (r, w')" for v x label r
    using conclude_replay_frame(4) [OF that] by auto
  have "links (w_db w') = links (w_db (sy_world s))"
    using replay(2,1)
  proof (cases rule: replay_cases)
    case (sent e c b v x label)
    then show ?thesis using conc [OF _ sent(8)] replay(2) by (simp add: world_ok_def)
  qed (use replay(2) conc in \<open>auto simp: count_replay_def\<close>)
  then show ?case using replay(3) history_cong by simp
next
  case (claim sv clk i s st w')
  obtain g where "w' = (sy_world s)\<lparr>w_db := snd (claim_for_attempt i (fc_claim clk) (w_db (sy_world s)))\<rparr>"
    using claim(2,1) by (rule claim_phase_cases) auto
  then show ?case using claim(3) by (simp add: history_ok_links)
next
  case (no_claim sv clk i s r w')
  have "w_db w' = w_db (sy_world s)"
    using no_claim(3,1) by (cases rule: claim_phase_cases) (use no_claim claim_phase_ended_same in auto)
  then show ?case using no_claim(4) by simp
next
  case (send s xs st ys sv key ts result w')
  then obtain obs where "w' = (sy_world s)\<lparr>w_sent := w_sent (sy_world s) @ obs\<rparr>" by (blast elim: http_phase_sent)
  then show ?case using send by simp
next
  case (send_raises s xs st ys sv key ts e w')
  then obtain obs where "w' = (sy_world s)\<lparr>w_sent := w_sent (sy_world s) @ obs\<rparr>" by (blast elim: http_phase_sent)
  then show ?case using send_raises by simp
next
  case (finish s xs st result ys sv clk rf w')
  have "links (w_db w') = links (w_db (sy_world s))" using finish_forward_db [OF finish(3,2)] by auto
  then show ?case using finish(4) history_cong by simp
next
  case (retry now token i s ro w')
  have "links (w_db w') = links (w_db (sy_world s))" using operator_frame(1) [OF retry(3,2)] by auto
  then show ?case using retry(4) history_cong by simp
next
  case (abandon now token i s ro w')
  have "links (w_db w') = links (w_db (sy_world s))" using operator_frame(2) [OF abandon(3,2)] by auto
  then show ?case using abandon(4) history_cong by simp
next
  case (redrive sv now token s rn w')
  have "links (w_db w') = links (w_db (sy_world s))" using operator_frame(3) [OF redrive(3,2)] by auto
  then show ?case using redrive(4) history_cong by simp
next
  case (clean now s ri d)
  then show ?case using clean_keeps_history by simp
next
  case (scan post url now db_now s ri w')
  have ok: "db_ok (w_db (sy_world s))" "\<not> w_aborted (sy_world s)" using scan(3) by (simp_all add: world_ok_def)
  have "w_db w' = scanned_db (now - seconds 86400) db_now (w_db (sy_world s))"
    using scan_eq [of "sy_world s" post url now db_now, OF ok] scan(1,2) unfolding quiet_client_def by auto
  then show ?case using scan(4) history_cong links_scanned by simp
qed simp

section \<open>The owner can read\<close>










text \<open>And for a token that leads nowhere: 404 everywhere.\<close>

lemma reads_not_found:
  assumes "find_by_token token (w_db w) = None" and "1 \<le> n" and "n \<le> 200" and "q \<noteq> None \<longrightarrow> str_len (the q) \<le> 200"
  shows "list_requests_route sv token (Some n) before q w = (Http_error 404 ''endpoint not found'', w)"
    "list_forwards_route token ss (Some n) before w = (Http_error 404 ''endpoint not found'', w)"
    "list_integrations_route token w = (Http_error 404 ''endpoint not found'', w)"
    "get_forward_stats_route token w = (Http_error 404 ''endpoint not found'', w)"
    "viewer sv base now token w = (Http_error 404 ''endpoint not found'', w)"
proof -
  have limit: "LIST_LIMIT_MIN \<le> n \<and> n \<le> LIST_LIMIT_MAX" using assms(2,3) by (simp add: LIST_LIMIT_MIN_def LIST_LIMIT_MAX_def)
  note missing = use_case_missing [OF assms(1)]
  show "list_requests_route sv token (Some n) before q w = (Http_error 404 ''endpoint not found'', w)"
    using assms(4) limit missing(6) [of sv n before q]
    by (auto simp: list_requests_route_def with_limit_def fetch_requests_or_raise_def SEARCH_QUERY_MAX_CHARS_def
        route_def bindA_def query_clauses_def not_found_def)
  show "list_forwards_route token ss (Some n) before w = (Http_error 404 ''endpoint not found'', w)"
    using limit missing(4) by (simp add: list_forwards_route_def with_limit_def route_def bindA_def not_found_def)
  show "list_integrations_route token w = (Http_error 404 ''endpoint not found'', w)"
    "get_forward_stats_route token w = (Http_error 404 ''endpoint not found'', w)"
    "viewer sv base now token w = (Http_error 404 ''endpoint not found'', w)"
    using missing(5,7) assms(1)
    by (simp_all add: list_integrations_route_def get_forward_stats_route_def viewer_def get_endpoint_def
        route_def bindA_def read_db_def not_found_def)
qed

section \<open>In every run\<close>

lemma run_keeps_history:
  assumes "(sys_step ops)\<^sup>*\<^sup>* s s'" and "world_ok (sy_world s)" and "history_ok (w_db (sy_world s))"
  shows "world_ok (sy_world s') \<and> history_ok (w_db (sy_world s'))"
  using assms
proof (induction rule: rtranclp_induct)
  case (step y z)
  then have y: "world_ok (sy_world y)" "history_ok (w_db (sy_world y))" by blast+
  show ?case using sys_step_refines [OF step(2) y(1)] step_keeps_history [OF step(2) y] by blast
qed simp

text \<open>
  C27. In every interleaving of captures, attempts with crashes, operations of owners, replays, the cleaner and
  the scan, from any state in order, the rows keep conforming to the schema of the last revision; every
  request keeps one of the four signature statuses, every forward the endpoint of its request, no request
  gets a second forward, and the counter of every endpoint stays the number of its stored requests.
\<close>

theorem runs_keep_invariant:
  assumes "(sys_step ops)\<^sup>*\<^sup>* s s'" and "world_ok (sy_world s)" and "history_ok (w_db (sy_world s))"
    and "d = w_db (sy_world s')"
  shows "conforms env (schema_at 12) (rows_of env d) \<and>
    (\<forall>r \<in> set (db_requests d). \<exists>st \<in> set SIGNATURE_STATUS_VALUES. rq_signature_status r = Some st) \<and>
    (\<forall>f \<in> set (db_forwards d). \<exists>r \<in> set (db_requests d). rq_id r = fw_request_id f \<and> rq_endpoint_id r = fw_endpoint_id f) \<and>
    distinct (map fw_request_id (db_forwards d)) \<and>
    (\<forall>e \<in> set (db_endpoints d). ep_request_count e = int (count_by_endpoint (ep_id e) d))"
proof -
  have ok: "db_ok d" "history_ok d" using run_keeps_history [OF assms(1-3)] by (simp_all add: world_ok_def assms(4))
  have "\<exists>r \<in> set (db_requests d). rq_id r = fw_request_id f \<and> rq_endpoint_id r = fw_endpoint_id f"
    if "f \<in> set (db_forwards d)" for f
  proof -
    have "fw_request_id f \<in> request_ids d" using ok(1) that by (auto simp: db_ok_defs)
    then obtain r where "r \<in> set (db_requests d)" "rq_id r = fw_request_id f" by auto
    then show ?thesis using ok(2) that unfolding history_ok_def by blast
  qed
  then show ?thesis using ok by (simp add: conforms_iff_db_ok history_ok_def)
qed


section \<open>A concrete run\<close>

lemma demo_history: "history_ok demo_db"
  by (simp add: history_ok_def demo_db_def empty_db_def demo_endpoint_def count_by_endpoint_def)

lemma demo_steps:
  obtains s' where "(sys_step ops)\<^sup>*\<^sup>* demo_start s'" "db_requests (w_db (sy_world s')) \<noteq> []"
    "find_by_token (ci_token demo_input) (w_db (sy_world s')) \<noteq> None"
proof (rule demo_capture)
  fix r w1
  assume run: "with_session (capture_request demo_services demo_env demo_input) (new_world demo_db) = (Inr r, w1)"
  have "sys_step ops demo_start (demo_start\<lparr>sy_world := w1\<rparr>)"
    by (rule sys_step.capture [where env = demo_env and sv = demo_services and inp = demo_input])
      (simp_all only: demo_start_def sys.select_convs run list.set image_empty empty_iff not_False_eq_True)
  then have "(sys_step ops)\<^sup>*\<^sup>* demo_start (demo_start\<lparr>sy_world := w1\<rparr>)" by blast
  then show ?thesis
    by (rule that) (use capture_commits [OF _ run] in \<open>simp_all add: demo_db_ok\<close>)
qed

lemma demo_start_ok: "world_ok (sy_world demo_start)" "history_ok (w_db (sy_world demo_start))"
  by (simp_all add: demo_start_def world_ok_def demo_db_ok demo_history)

theorem runs_keep_invariant_witness:
  "\<exists>s' :: sys. db_requests (w_db (sy_world s')) \<noteq> [] \<and>
     (\<forall>env. conforms env (schema_at 12) (rows_of env (w_db (sy_world s')))) \<and>
     distinct (map fw_request_id (db_forwards (w_db (sy_world s'))))"
proof (rule demo_steps [of UNIV])
  fix s'
  assume s: "(sys_step UNIV)\<^sup>*\<^sup>* demo_start s'" "db_requests (w_db (sy_world s')) \<noteq> []"
  note inv = runs_keep_invariant [OF s(1) demo_start_ok refl]
  show ?thesis
    using s(2) inv [THEN conjunct1] inv [THEN conjunct2, THEN conjunct2, THEN conjunct2, THEN conjunct1] by blast
qed


end
