(* ===== verification/Unwinding.thy ===== *)
theory Unwinding
  imports App_Routes
begin

text \<open>
  Noninterference between the owners of endpoints: the conditions under which what others do can be left
  out of a run without any change to what one owner is told, and the judgement by which the handlers are
  shown to meet them one statement at a time.
\<close>

section \<open>Runs\<close>

text \<open>The calls of a run in order, each with its answer, and the state they lead to.\<close>

fun run_calls :: "('a \<Rightarrow> 's \<Rightarrow> 'o \<times> 's) \<Rightarrow> 'a list \<Rightarrow> 's \<Rightarrow> ('a \<times> 'o) list \<times> 's" where
  "run_calls handle [] s = ([], s)"
| "run_calls handle (a # as) s =
     (case handle a s of (answer, s') \<Rightarrow>
        (case run_calls handle as s' of (log, s'') \<Rightarrow> ((a, answer) # log, s'')))"

definition answers_to :: "('a \<Rightarrow> 'u) \<Rightarrow> 'u \<Rightarrow> ('a \<times> 'o) list \<Rightarrow> 'o list" where
  "answers_to who u log = map snd (filter (\<lambda>(a, answer). who a = u) log)"

definition calls_of :: "('a \<Rightarrow> 'u) \<Rightarrow> 'u \<Rightarrow> 'a list \<Rightarrow> 'a list" where
  "calls_of who u as = filter (\<lambda>a. who a = u) as"

lemma answers_to_simps [simp]:
  "answers_to who u [] = []"
  "answers_to who u ((a, answer) # log) = (if who a = u then answer # answers_to who u log else answers_to who u log)"
  by (simp_all add: answers_to_def)

lemma calls_of_simps [simp]:
  "calls_of who u [] = []" "calls_of who u (a # as) = (if who a = u then a # calls_of who u as else calls_of who u as)"
  by (simp_all add: calls_of_def)

text \<open>
  \<open>alike u\<close> relates states in which \<open>u\<close> has the same rows. A call is answered from the rows of its caller
  and changes them in the same way wherever they are the same, and leaves the rows of everybody else.
\<close>

locale unwinding =
  fixes handle :: "'a \<Rightarrow> 's \<Rightarrow> 'o \<times> 's"
    and who :: "'a \<Rightarrow> 'u"
    and alike :: "'u \<Rightarrow> 's \<Rightarrow> 's \<Rightarrow> bool"
    and good :: "'a \<Rightarrow> bool"
    and ok :: "'s \<Rightarrow> bool"
  assumes alike_sym: "alike u s t \<Longrightarrow> alike u t s"
    and alike_trans: "alike u s t \<Longrightarrow> alike u t v \<Longrightarrow> alike u s v"
    and keeps_ok: "good a \<Longrightarrow> ok s \<Longrightarrow> ok (snd (handle a s))"
    and consistent: "good a \<Longrightarrow> ok s \<Longrightarrow> ok t \<Longrightarrow> alike (who a) s t \<Longrightarrow>
      fst (handle a s) = fst (handle a t) \<and> alike (who a) (snd (handle a s)) (snd (handle a t))"
    and respects: "good a \<Longrightarrow> ok s \<Longrightarrow> who a \<noteq> u \<Longrightarrow> alike u s (snd (handle a s))"
begin

lemma run_ok: "list_all good as \<Longrightarrow> ok s \<Longrightarrow> ok (snd (run_calls handle as s))"
  by (induction as arbitrary: s) (simp_all add: keeps_ok case_prod_beta)

lemma purge:
  assumes "list_all good as" and "ok s" and "ok t" and "alike u s t"
  shows "answers_to who u (fst (run_calls handle as s)) = map snd (fst (run_calls handle (calls_of who u as) t)) \<and>
    alike u (snd (run_calls handle as s)) (snd (run_calls handle (calls_of who u as) t))"
  using assms
proof (induction as arbitrary: s t)
  case (Cons a as)
  from Cons.prems have good: "good a" "list_all good as" by simp_all
  obtain x s' where s': "handle a s = (x, s')" by fastforce
  have oks: "ok s'" using keeps_ok [OF good(1) Cons.prems(2)] s' by simp
  show ?case
  proof (cases "who a = u")
    case True
    obtain y t' where t': "handle a t = (y, t')" by fastforce
    have "x = y" "alike u s' t'" using consistent [OF good(1) Cons.prems(2,3)] Cons.prems(4) True s' t' by auto
    moreover have "ok t'" using keeps_ok [OF good(1) Cons.prems(3)] t' by simp
    ultimately show ?thesis
      using Cons.IH [OF good(2) oks, of t'] True s' t' by (auto split: prod.splits)
  next
    case False
    have "alike u s s'" using respects [OF good(1) Cons.prems(2) False] s' by simp
    then have "alike u s' t" using Cons.prems(4) alike_sym alike_trans by blast
    with Cons.IH [OF good(2) oks Cons.prems(3) this] show ?thesis using False s' by (auto split: prod.splits)
  qed
qed simp

text \<open>In particular nobody's calls change what is there for somebody who calls nothing.\<close>

lemma bystander:
  assumes "list_all good as" and "ok s" and "alike u s s" and "calls_of who u as = []"
  shows "alike u (snd (run_calls handle as s)) s"
  using purge [OF assms(1,2,2,3)] assms(4) by simp

end

section \<open>Whose rows\<close>

text \<open>
  The tokens with the endpoints they lead to, in the order of the table, and the endpoint each identifier
  of a row belongs to. Neither changes in a run of the calls considered, which create and delete no
  endpoint. That an identifier belongs to one endpoint is what \<open>uuid4()\<close> gives.
\<close>

record directory =
  di_endpoints :: "(string \<times> uuid) list"
  di_owner :: "uuid \<Rightarrow> uuid"

definition home :: "directory \<Rightarrow> string \<Rightarrow> uuid option" where
  "home k token = map_of (di_endpoints k) token"

definition blob_name :: "uuid \<Rightarrow> uuid \<Rightarrow> string" where
  "blob_name endpoint_id request_id = uuid_str endpoint_id @ ''/'' @ uuid_str request_id"

definition blob_named :: "captured_request \<Rightarrow> bool" where
  "blob_named r \<longleftrightarrow>
     (case rq_blob_key r of None \<Rightarrow> True | Some key \<Rightarrow> key = blob_name (rq_endpoint_id r) (rq_id r))"

definition in_order :: "directory \<Rightarrow> db \<Rightarrow> bool" where
  "in_order k d \<longleftrightarrow> db_ok d \<and>
     map (\<lambda>e. (ep_token e, ep_id e)) (db_endpoints d) = di_endpoints k \<and>
     list_all (\<lambda>r. di_owner k (rq_id r) = rq_endpoint_id r \<and> blob_named r) (db_requests d) \<and>
     list_all (\<lambda>f. di_owner k (fw_id f) = fw_endpoint_id f \<and> di_owner k (fw_request_id f) = fw_endpoint_id f) (db_forwards d) \<and>
     list_all (\<lambda>p. di_owner k (rp_id p) = di_owner k (rp_request_id p)) (db_replays d)"

text \<open>The rows of one endpoint, as a database of their own, and its blobs.\<close>

definition own_rows :: "directory \<Rightarrow> uuid option \<Rightarrow> db \<Rightarrow> db" where
  "own_rows k E d =
     \<lparr>db_endpoints = filter (\<lambda>e. Some (ep_id e) = E) (db_endpoints d),
      db_requests = filter (\<lambda>r. Some (rq_endpoint_id r) = E) (db_requests d),
      db_forwards = filter (\<lambda>f. Some (fw_endpoint_id f) = E) (db_forwards d),
      db_replays = filter (\<lambda>p. Some (di_owner k (rp_request_id p)) = E) (db_replays d),
      db_notified = []\<rparr>"

definition own_blob :: "uuid option \<Rightarrow> world \<Rightarrow> uuid \<Rightarrow> string option" where
  "own_blob E w request_id =
     (case E of None \<Rightarrow> None | Some i \<Rightarrow> map_of (w_blobs w) (blob_name i request_id))"

definition same_rows :: "directory \<Rightarrow> uuid option \<Rightarrow> world \<Rightarrow> world \<Rightarrow> bool" where
  "same_rows k E w1 w2 \<longleftrightarrow> in_order k (w_db w1) \<and> in_order k (w_db w2) \<and>
     own_rows k E (w_db w1) = own_rows k E (w_db w2) \<and> own_blob E w1 = own_blob E w2"

definition same_world :: "directory \<Rightarrow> uuid option \<Rightarrow> world \<Rightarrow> world \<Rightarrow> bool" where
  "same_world k E w1 w2 \<longleftrightarrow> same_rows k E w1 w2 \<and> w_aborted w1 = w_aborted w2"

lemma same_rows_sym: "same_rows k E w1 w2 \<Longrightarrow> same_rows k E w2 w1"
  by (simp add: same_rows_def)

lemma same_rows_trans: "same_rows k E w1 w2 \<Longrightarrow> same_rows k E w2 w3 \<Longrightarrow> same_rows k E w1 w3"
  by (simp add: same_rows_def)

lemma same_rows_refl: "in_order k (w_db w) \<Longrightarrow> same_rows k E w w"
  by (simp add: same_rows_def)

lemma same_rowsD: "same_rows k E w1 w2 \<Longrightarrow> in_order k (w_db w1)" "same_rows k E w1 w2 \<Longrightarrow> in_order k (w_db w2)"
  by (simp_all add: same_rows_def)

text \<open>What depends on the rows only.\<close>

lemma same_rows_frame:
  assumes "same_rows k E w1 w2" and "w_db v1 = w_db w1" and "w_db v2 = w_db w2"
    and "w_blobs v1 = w_blobs w1" and "w_blobs v2 = w_blobs w2"
  shows "same_rows k E v1 v2"
  using assms by (simp add: same_rows_def own_blob_def fun_eq_iff split: option.splits)

lemma no_home_same: "in_order k (w_db w1) \<Longrightarrow> in_order k (w_db w2) \<Longrightarrow> same_rows k None w1 w2"
  by (simp add: same_rows_def own_rows_def own_blob_def fun_eq_iff)

lemma blob_name_inject: "blob_name i q = blob_name j r \<Longrightarrow> i = j \<and> q = r"
proof -
  assume eq: "blob_name i q = blob_name j r"
  have no: "CHR ''/'' \<notin> set (uuid_str u)" for u
    using uuid_str_char_bounds [of "CHR ''/''" u] by (auto simp: byte_def)
  have "str_before (CHR ''/'') (uuid_str i @ CHR ''/'' # uuid_str q) = str_before (CHR ''/'') (uuid_str j @ CHR ''/'' # uuid_str r)"
    "str_after (CHR ''/'') (uuid_str i @ CHR ''/'' # uuid_str q) = str_after (CHR ''/'') (uuid_str j @ CHR ''/'' # uuid_str r)"
    using eq by (simp_all add: blob_name_def)
  then show ?thesis by (simp add: no)
qed

section \<open>One statement at a time\<close>

text \<open>
  A piece of a handler that acts for the endpoint \<open>E\<close>: on worlds with the same rows of \<open>E\<close> it gives the same
  result and leaves the same rows of \<open>E\<close>, and it leaves the rows of every other endpoint. The rules of
  \<open>isolation\<close> follow the syntax of the handlers.
\<close>

definition isolated :: "directory \<Rightarrow> uuid option \<Rightarrow> (world \<Rightarrow> 'a \<times> world) \<Rightarrow> bool" where
  "isolated k E m \<longleftrightarrow>
     (\<forall>w1 w2. same_world k E w1 w2 \<longrightarrow> fst (m w1) = fst (m w2) \<and> same_world k E (snd (m w1)) (snd (m w2))) \<and>
     (\<forall>D w. D \<noteq> E \<longrightarrow> in_order k (w_db w) \<longrightarrow> same_rows k D w (snd (m w)))"

named_theorems isolation \<open>rules for the judgement isolated\<close>

lemma isolatedI:
  assumes "\<And>w1 w2. same_world k E w1 w2 \<Longrightarrow> fst (m w1) = fst (m w2) \<and> same_world k E (snd (m w1)) (snd (m w2))"
    and "\<And>D w. D \<noteq> E \<Longrightarrow> in_order k (w_db w) \<Longrightarrow> same_rows k D w (snd (m w))"
  shows "isolated k E m"
  using assms by (simp add: isolated_def)

lemma isolated_same: "isolated k E m \<Longrightarrow> same_world k E w1 w2 \<Longrightarrow> fst (m w1) = fst (m w2) \<and> same_world k E (snd (m w1)) (snd (m w2))"
  by (simp add: isolated_def)

lemma isolated_other: "isolated k E m \<Longrightarrow> D \<noteq> E \<Longrightarrow> in_order k (w_db w) \<Longrightarrow> same_rows k D w (snd (m w))"
  by (simp add: isolated_def)

lemma isolated_in_order: "isolated k E m \<Longrightarrow> in_order k (w_db w) \<Longrightarrow> in_order k (w_db (snd (m w)))"
  using isolated_same [of k E m w w] by (auto simp: same_world_def same_rows_def)

text \<open>What touches neither rows nor blobs and answers the same everywhere.\<close>

lemma isolated_frame:
  assumes "\<And>w. w_db (snd (m w)) = w_db w \<and> w_blobs (snd (m w)) = w_blobs w \<and> w_aborted (snd (m w)) = w_aborted w"
    and "\<And>w1 w2. fst (m w1) = fst (m w2)"
  shows "isolated k E m"
proof (rule isolatedI)
  fix w1 w2
  assume "same_world k E w1 w2"
  then show "fst (m w1) = fst (m w2) \<and> same_world k E (snd (m w1)) (snd (m w2))"
    using assms same_rows_frame [of k E w1 w2 "snd (m w1)" "snd (m w2)"] by (auto simp: same_world_def)
next
  fix D and w :: world
  assume "in_order k (w_db w)"
  then show "same_rows k D w (snd (m w))"
    using assms same_rows_frame [OF same_rows_refl, of k w w "snd (m w)" D] by auto
qed

lemma isolated_pure [isolation]:
  "isolated k E (ret a)" "isolated k E (fail e)" "isolated k E (lift_res r)" "isolated k E (emit x)"
  "isolated k E (arq_enqueue sv i s)" "isolated k E (null_enqueue i s)" "isolated k E (make_send sv m v hs b)"
  by (rule isolated_frame; auto simp: arq_enqueue_eq null_enqueue_def make_send_def send_target_def Let_def
      split: option.splits sum.splits prod.splits)+

lemma isolated_bind_post:
  assumes "isolated k E m" and "\<And>a w w'. in_order k (w_db (w :: world)) \<Longrightarrow> m w = (Inr a, w') \<Longrightarrow> P a"
    and "\<And>a. P a \<Longrightarrow> isolated k E (f a)"
  shows "isolated k E (bindA m f)"
proof (rule isolatedI)
  fix w1 w2
  assume w: "same_world k E w1 w2"
  obtain r1 v1 r2 v2 where v: "m w1 = (r1, v1)" "m w2 = (r2, v2)" by fastforce
  have r: "r1 = r2" "same_world k E v1 v2" using isolated_same [OF assms(1) w] v by auto
  have "in_order k (w_db w1)" using w by (simp add: same_world_def same_rows_def)
  then have "P a" if "r1 = Inr a" for a using assms(2) v(1) that by blast
  then show "fst (bindA m f w1) = fst (bindA m f w2) \<and> same_world k E (snd (bindA m f w1)) (snd (bindA m f w2))"
    using r isolated_same [OF assms(3) r(2)] v by (cases r1) (auto simp: bindA_def)
next
  fix D and w :: world
  assume D: "D \<noteq> E" "in_order k (w_db w)"
  obtain r v where v: "m w = (r, v)" by fastforce
  have wv: "same_rows k D w v" using isolated_other [OF assms(1) D] v by simp
  show "same_rows k D w (snd (bindA m f w))"
  proof (cases r)
    case (Inr a)
    then have "P a" using assms(2) [OF D(2)] v by blast
    then have "same_rows k D v (snd (f a v))"
      using isolated_other [OF assms(3) D(1)] same_rowsD(2) [OF wv] by blast
    then show ?thesis using same_rows_trans [OF wv] v Inr by (simp add: bindA_def)
  qed (use wv v in \<open>simp add: bindA_def\<close>)
qed

lemma isolated_bind [isolation]: "isolated k E m \<Longrightarrow> (\<And>a. isolated k E (f a)) \<Longrightarrow> isolated k E (bindA m f)"
  by (rule isolated_bind_post [where P = "\<lambda>a. True"]) simp_all

lemma isolated_catch [isolation]:
  assumes "isolated k E m" and "\<And>e. isolated k E (h e)"
  shows "isolated k E (catchA m h)"
proof (rule isolatedI)
  fix w1 w2
  assume w: "same_world k E w1 w2"
  obtain r1 v1 r2 v2 where v: "m w1 = (r1, v1)" "m w2 = (r2, v2)" by fastforce
  have r: "r1 = r2" "same_world k E v1 v2" using isolated_same [OF assms(1) w] v by auto
  then show "fst (catchA m h w1) = fst (catchA m h w2) \<and> same_world k E (snd (catchA m h w1)) (snd (catchA m h w2))"
    using isolated_same [OF assms(2) r(2)] v by (cases r1) (auto simp: catchA_def)
next
  fix D and w :: world
  assume D: "D \<noteq> E" "in_order k (w_db w)"
  obtain r v where v: "m w = (r, v)" by fastforce
  have wv: "same_rows k D w v" using isolated_other [OF assms(1) D] v by simp
  show "same_rows k D w (snd (catchA m h w))"
    using same_rows_trans [OF wv isolated_other [OF assms(2) D(1) same_rowsD(2) [OF wv]]] wv v
    by (cases r) (auto simp: catchA_def)
qed

text \<open>Rolling back restores the rows of before and keeps the blobs.\<close>

lemma same_rows_rollback:
  "same_rows k D w1 w2 \<Longrightarrow> same_rows k D v1 v2 \<Longrightarrow>
    same_rows k D (v1\<lparr>w_db := w_db w1, w_aborted := b\<rparr>) (v2\<lparr>w_db := w_db w2, w_aborted := c\<rparr>)"
  by (simp add: same_rows_def own_blob_def fun_eq_iff split: option.splits)

lemma same_rows_rolled_back:
  "same_rows k D w v \<Longrightarrow> same_rows k D w (v\<lparr>w_db := w_db w, w_aborted := b\<rparr>)"
  by (simp add: same_rows_def own_blob_def fun_eq_iff split: option.splits)

lemma isolated_session [isolation]:
  assumes "isolated k E m"
  shows "isolated k E (with_session m)"
proof (rule isolatedI)
  fix w1 w2
  assume w: "same_world k E w1 w2"
  obtain r1 v1 r2 v2 where v: "m w1 = (r1, v1)" "m w2 = (r2, v2)" by fastforce
  have r: "r1 = r2" "same_world k E v1 v2" using isolated_same [OF assms w] v by auto
  then show "fst (with_session m w1) = fst (with_session m w2) \<and> same_world k E (snd (with_session m w1)) (snd (with_session m w2))"
    using w same_rows_rollback [of k E w1 w2 v1 v2] v
    by (cases r1) (auto simp: with_session_def same_world_def)
next
  fix D and w :: world
  assume "D \<noteq> E" "in_order k (w_db w)"
  then have "same_rows k D w (snd (m w))" by (rule isolated_other [OF assms])
  then show "same_rows k D w (snd (with_session m w))"
    using same_rows_rolled_back by (auto simp: with_session_def split: prod.splits sum.splits)
qed

lemma isolated_answer: "isolated k E m \<Longrightarrow> isolated k E (\<lambda>w. (g (fst (m w)), snd (m w)))"
  by (simp add: isolated_def)

lemma route_eq: "route clauses m = (\<lambda>w. (case fst (m w) of Inr a \<Rightarrow> Reply a
    | Inl e \<Rightarrow> (case clauses e of Some (status, detail) \<Rightarrow> Http_error status detail | None \<Rightarrow> Server_error e), snd (m w)))"
  by (rule ext) (auto simp: route_def split: prod.splits sum.splits option.splits)

lemma isolated_route [isolation]: "isolated k E m \<Longrightarrow> isolated k E (route clauses m)"
  unfolding route_eq by (rule isolated_answer)

lemma isolated_with_limit [isolation]:
  assumes "\<And>n. isolated k E (h n)"
  shows "isolated k E (with_limit limit h)"
proof -
  define n where "n = (case limit of None \<Rightarrow> 50 | Some n \<Rightarrow> n)"
  have "with_limit limit h = (if LIST_LIMIT_MIN \<le> n \<and> n \<le> LIST_LIMIT_MAX then h n else (\<lambda>w. (Http_error 422 ''limit'', w)))"
    by (rule ext) (simp add: with_limit_def Let_def flip: n_def)
  then show ?thesis using assms by (simp add: isolated_frame)
qed

lemma isolated_without_task [isolation]: "isolated k E h \<Longrightarrow> isolated k E (without_task h)"
proof -
  assume h: "isolated k E h"
  have "without_task h = (\<lambda>w. (case fst (h w) of Reply a \<Rightarrow> Reply (a, ret ()) | Http_error status detail \<Rightarrow> Http_error status detail
      | Server_error e \<Rightarrow> Server_error e, snd (h w)))"
    by (rule ext) (auto simp: without_task_def split: prod.splits http.splits)
  then show ?thesis using isolated_answer [OF h] by simp
qed

text \<open>The transaction around a request; its background task acts for the same endpoint.\<close>

lemma isolated_rolled_back:
  "same_world k E w1 w2 \<Longrightarrow> same_world k E v1 v2 \<Longrightarrow> same_world k E (rolled_back w1 v1) (rolled_back w2 v2)"
  by (simp add: rolled_back_def same_world_def same_rows_rollback)

lemma isolated_serve:
  assumes "isolated k E h" and "\<And>w a task v. h w = (Reply (a, task), v) \<Longrightarrow> isolated k E task"
  shows "isolated k E (serve ord h)"
proof (rule isolatedI)
  fix w1 w2
  assume w: "same_world k E w1 w2"
  obtain r1 v1 r2 v2 where v: "h w1 = (r1, v1)" "h w2 = (r2, v2)" by fastforce
  have r: "r1 = r2" "same_world k E v1 v2" using isolated_same [OF assms(1) w] v by auto
  have ab: "w_aborted v1 = w_aborted v2" using r(2) by (simp add: same_world_def)
  show "fst (serve ord h w1) = fst (serve ord h w2) \<and> same_world k E (snd (serve ord h w1)) (snd (serve ord h w2))"
  proof (cases r1)
    case (Reply p)
    obtain a task where p: "p = (a, task)" by (cases p)
    have "isolated k E task" using assms(2) v(1) Reply p by blast
    from isolated_same [OF this r(2)] show ?thesis
      using v r ab Reply p isolated_rolled_back [OF w] by (auto simp: serve_def close_request_def Let_def split: exit_order.split)
  qed (use v r isolated_rolled_back [OF w] in \<open>auto simp: serve_def\<close>)
next
  fix D and w :: world
  assume D: "D \<noteq> E" "in_order k (w_db w)"
  obtain r v where v: "h w = (r, v)" by fastforce
  have wv: "same_rows k D w v" using isolated_other [OF assms(1) D] v by simp
  have undo: "same_rows k D w x \<Longrightarrow> same_rows k D w (rolled_back w x)" for x
    by (simp add: rolled_back_def same_rows_rolled_back)
  show "same_rows k D w (snd (serve ord h w))"
  proof (cases r)
    case (Reply p)
    obtain a task where p: "p = (a, task)" by (cases p)
    have "isolated k E task" using assms(2) v(1) Reply p by blast
    then have "same_rows k D w (snd (task v))"
      using same_rows_trans [OF wv isolated_other [OF _ D(1) same_rowsD(2) [OF wv]]] by blast
    then show ?thesis
      using v wv undo Reply p by (auto simp: serve_def close_request_def Let_def split: exit_order.split)
  qed (use v wv undo in \<open>auto simp: serve_def\<close>)
qed

end
