(* ===== verification/Isolation.thy ===== *)
theory Isolation
  imports Unwinding
begin

text \<open>
  The calls of the owners, of the senders of webhooks and of the worker, each for one endpoint, isolate the
  endpoints from each other.
\<close>

section \<open>Statements\<close>

lemma lookup_row_filter:
  "(\<And>r. r \<in> set t \<Longrightarrow> key r = x \<Longrightarrow> P r) \<Longrightarrow> lookup_row key x (filter P t) = lookup_row key x t"
  by (induction t) auto

lemma sql_returning_filter:
  "(\<And>r. r \<in> set t \<Longrightarrow> p r \<Longrightarrow> P r) \<Longrightarrow> sql_returning p g (filter P t) = sql_returning p g t"
  unfolding sql_returning_def by (induction t) auto

lemma filter_sql_update:
  "(\<And>r. P (g r) = P r) \<Longrightarrow> filter P (sql_update p g t) = sql_update p g (filter P t)"
  by (induction t) auto

lemma filter_sql_update_other:
  "(\<And>r. P (g r) = P r) \<Longrightarrow> (\<And>r. r \<in> set t \<Longrightarrow> p r \<Longrightarrow> \<not> P r) \<Longrightarrow> filter P (sql_update p g t) = filter P t"
  by (induction t) auto

lemma image_filter_iff:
  "(\<And>r. r \<in> set t \<Longrightarrow> key r = x \<Longrightarrow> P r) \<Longrightarrow> x \<in> key ` set (filter P t) \<longleftrightarrow> x \<in> key ` set t"
  by auto

text \<open>What a database in order says of its rows.\<close>

lemma in_orderD:
  assumes "in_order k d"
  shows "db_ok d" "r \<in> set (db_requests d) \<Longrightarrow> di_owner k (rq_id r) = rq_endpoint_id r \<and> blob_named r"
    "f \<in> set (db_forwards d) \<Longrightarrow> di_owner k (fw_id f) = fw_endpoint_id f \<and> di_owner k (fw_request_id f) = fw_endpoint_id f"
    "p \<in> set (db_replays d) \<Longrightarrow> di_owner k (rp_id p) = di_owner k (rp_request_id p)"
  using assms by (auto simp: in_order_def list_all_iff)

lemma own_rows_idem [simp]: "own_rows k E (own_rows k E d) = own_rows k E d"
  by (simp add: own_rows_def)

lemma own_rows_sel [simp]:
  "db_endpoints (own_rows k E d) = filter (\<lambda>e. Some (ep_id e) = E) (db_endpoints d)"
  "db_requests (own_rows k E d) = filter (\<lambda>r. Some (rq_endpoint_id r) = E) (db_requests d)"
  "db_forwards (own_rows k E d) = filter (\<lambda>f. Some (fw_endpoint_id f) = E) (db_forwards d)"
  "db_replays (own_rows k E d) = filter (\<lambda>p. Some (di_owner k (rp_request_id p)) = E) (db_replays d)"
  "db_notified (own_rows k E d) = []"
  by (simp_all add: own_rows_def)

lemma own_rows_eqI:
  "filter (\<lambda>e. Some (ep_id e) = E) (db_endpoints d) = filter (\<lambda>e. Some (ep_id e) = E) (db_endpoints d') \<Longrightarrow>
   filter (\<lambda>r. Some (rq_endpoint_id r) = E) (db_requests d) = filter (\<lambda>r. Some (rq_endpoint_id r) = E) (db_requests d') \<Longrightarrow>
   filter (\<lambda>f. Some (fw_endpoint_id f) = E) (db_forwards d) = filter (\<lambda>f. Some (fw_endpoint_id f) = E) (db_forwards d') \<Longrightarrow>
   filter (\<lambda>p. Some (di_owner k (rp_request_id p)) = E) (db_replays d) =
     filter (\<lambda>p. Some (di_owner k (rp_request_id p)) = E) (db_replays d') \<Longrightarrow>
   own_rows k E d = own_rows k E d'"
  by (simp add: own_rows_def)

text \<open>A read that gives on the own rows what it gives on all rows.\<close>

lemma isolated_read:
  assumes "\<And>d. in_order k d \<Longrightarrow> f (own_rows k E d) = f d"
  shows "isolated k E (read_db f)"
proof (rule isolatedI)
  fix w1 w2
  assume w: "same_world k E w1 w2"
  then have "f (w_db w1) = f (w_db w2)"
    using assms [of "w_db w1"] assms [of "w_db w2"] by (simp add: same_world_def same_rows_def)
  then show "fst (read_db f w1) = fst (read_db f w2) \<and> same_world k E (snd (read_db f w1)) (snd (read_db f w2))"
    using w by (simp add: read_db_def)
qed (simp add: read_db_def same_rows_refl)

text \<open>A statement that on the own rows returns and leaves what it returns and leaves of them on all rows.\<close>

definition statement_isolated :: "directory \<Rightarrow> uuid option \<Rightarrow> (db \<Rightarrow> 'a \<times> db) \<Rightarrow> bool" where
  "statement_isolated k E f \<longleftrightarrow> (\<forall>d. in_order k d \<longrightarrow>
     in_order k (snd (f d)) \<and> fst (f (own_rows k E d)) = fst (f d) \<and>
     own_rows k E (snd (f (own_rows k E d))) = own_rows k E (snd (f d)) \<and>
     (\<forall>D. D \<noteq> E \<longrightarrow> own_rows k D (snd (f d)) = own_rows k D d))"

lemma statement_same:
  assumes "statement_isolated k E f" and "in_order k d1" and "in_order k d2" and "own_rows k E d1 = own_rows k E d2"
  shows "fst (f d1) = fst (f d2)" "own_rows k E (snd (f d1)) = own_rows k E (snd (f d2))"
  using assms by (auto simp: statement_isolated_def) metis+

lemma isolated_statement [isolation]:
  assumes "statement_isolated k E f"
  shows "isolated k E (run_db f)"
proof (rule isolatedI)
  fix w1 w2
  assume "same_world k E w1 w2"
  then show "fst (run_db f w1) = fst (run_db f w2) \<and> same_world k E (snd (run_db f w1)) (snd (run_db f w2))"
    using statement_same [OF assms, of "w_db w1" "w_db w2"] assms
    by (auto simp: same_world_def same_rows_def statement_isolated_def own_blob_def fun_eq_iff split: option.splits)
next
  fix D and w :: world
  assume "D \<noteq> E" "in_order k (w_db w)"
  then show "same_rows k D w (snd (run_db f w))"
    using assms by (auto simp: same_rows_def statement_isolated_def own_blob_def fun_eq_iff split: option.splits)
qed

lemma isolated_statement_res [isolation]:
  assumes "statement_isolated k E f"
  shows "isolated k E (run_db_res f)"
proof (rule isolatedI)
  have eq: "run_db_res f w = (fst (f (w_db w)),
      w\<lparr>w_db := snd (f (w_db w)), w_aborted := (\<exists>e. fst (f (w_db w)) = Inl e) \<or> w_aborted w\<rparr>)" for w
    by (cases w) (auto simp: run_db_res_def split: prod.splits sum.splits)
  {
    fix w1 w2
    assume "same_world k E w1 w2"
    then show "fst (run_db_res f w1) = fst (run_db_res f w2) \<and> same_world k E (snd (run_db_res f w1)) (snd (run_db_res f w2))"
      unfolding eq using statement_same [OF assms, of "w_db w1" "w_db w2"] assms
      by (auto simp: same_world_def same_rows_def statement_isolated_def own_blob_def fun_eq_iff split: option.splits)
  }
  fix D and w :: world
  assume "D \<noteq> E" "in_order k (w_db w)"
  then show "same_rows k D w (snd (run_db_res f w))"
    unfolding eq using assms by (auto simp: same_rows_def statement_isolated_def own_blob_def fun_eq_iff split: option.splits)
qed

text \<open>An update of forwards of the endpoint that keeps their keys.\<close>

lemma forwards_updated:
  assumes "\<And>d f. in_order k d \<Longrightarrow> f \<in> set (db_forwards d) \<Longrightarrow> p f \<Longrightarrow> Some (fw_endpoint_id f) = E"
    and "\<And>f. fw_id (g f) = fw_id f" and "\<And>f. fw_request_id (g f) = fw_request_id f"
    and "\<And>f. fw_endpoint_id (g f) = fw_endpoint_id f"
  shows "statement_isolated k E
    (\<lambda>d. (h (sql_returning p g (db_forwards d)), d\<lparr>db_forwards := sql_update p g (db_forwards d)\<rparr>))"
  unfolding statement_isolated_def
proof (intro allI impI conjI)
  fix d
  assume d: "in_order k d"
  show "in_order k (snd (h (sql_returning p g (db_forwards d)), d\<lparr>db_forwards := sql_update p g (db_forwards d)\<rparr>))"
    using d db_ok_update_forwards [OF in_orderD(1) [OF d], of g p] assms(2-4)
    by (auto simp: in_order_def list_all_iff sql_update_def)
  show "fst (h (sql_returning p g (db_forwards (own_rows k E d))), (own_rows k E d)\<lparr>db_forwards := sql_update p g (db_forwards (own_rows k E d))\<rparr>) =
      fst (h (sql_returning p g (db_forwards d)), d\<lparr>db_forwards := sql_update p g (db_forwards d)\<rparr>)"
    using sql_returning_filter [of "db_forwards d" p "\<lambda>f. Some (fw_endpoint_id f) = E" g] assms(1) [OF d] by simp
  show "own_rows k E (snd (h (sql_returning p g (db_forwards (own_rows k E d))), (own_rows k E d)\<lparr>db_forwards := sql_update p g (db_forwards (own_rows k E d))\<rparr>)) =
      own_rows k E (snd (h (sql_returning p g (db_forwards d)), d\<lparr>db_forwards := sql_update p g (db_forwards d)\<rparr>))"
    by (rule own_rows_eqI) (simp_all add: filter_sql_update assms(4))
  fix D
  assume D: "D \<noteq> E"
  show "own_rows k D (snd (h (sql_returning p g (db_forwards d)), d\<lparr>db_forwards := sql_update p g (db_forwards d)\<rparr>)) = own_rows k D d"
    by (rule own_rows_eqI; simp) (rule filter_sql_update_other, use assms(1) [OF d] assms(4) D in auto)
qed

section \<open>The repositories\<close>

lemma forward_statements:
  assumes "Some eid = E"
  shows "statement_isolated k E (claim_for_manual_retry i eid now)"
    "statement_isolated k E (abandon i eid now)"
    "statement_isolated k E (reclaim_stuck_in_flight eid threshold now)"
proof -
  have "statement_isolated k E (\<lambda>d. (map_option forward_to_entity (scalar_one_or_none
      (sql_returning (retryable_row i eid) (set_manual_retry now) (db_forwards d))),
      d\<lparr>db_forwards := sql_update (retryable_row i eid) (set_manual_retry now) (db_forwards d)\<rparr>))"
    by (rule forwards_updated) (use assms in \<open>auto simp: retryable_row_def\<close>)
  then show "statement_isolated k E (claim_for_manual_retry i eid now)"
    by (simp add: claim_for_manual_retry_def [abs_def])
  have "statement_isolated k E (\<lambda>d. (map_option forward_to_entity (scalar_one_or_none
      (sql_returning (abandonable i eid) (set_abandoned now) (db_forwards d))),
      d\<lparr>db_forwards := sql_update (abandonable i eid) (set_abandoned now) (db_forwards d)\<rparr>))"
    by (rule forwards_updated) (use assms in \<open>auto simp: abandonable_def\<close>)
  then show "statement_isolated k E (abandon i eid now)" by (simp add: abandon_def [abs_def])
  have "statement_isolated k E (\<lambda>d. (map fw_id (sql_returning (stuck_in_flight eid (now - seconds threshold)) (set_reclaimed now) (db_forwards d)),
      d\<lparr>db_forwards := sql_update (stuck_in_flight eid (now - seconds threshold)) (set_reclaimed now) (db_forwards d)\<rparr>))"
    by (rule forwards_updated) (use assms in \<open>auto simp: stuck_in_flight_def\<close>)
  then show "statement_isolated k E (reclaim_stuck_in_flight eid threshold now)"
    by (simp add: reclaim_stuck_in_flight_def [abs_def] Let_def)
qed

text \<open>The statements of the worker name a row by its identifier alone.\<close>

lemma worker_statements:
  assumes "Some (di_owner k i) = E"
  shows "statement_isolated k E (claim_for_attempt i now)"
    "statement_isolated k E (\<lambda>d. ((), record_outcome i ns code err next now d))"
proof -
  have own: "Some (fw_endpoint_id f) = E" if "in_order k d" "f \<in> set (db_forwards d)" "fw_id f = i" for d f
    using in_orderD(3) [OF that(1,2)] assms that(3) by simp
  have "statement_isolated k E (\<lambda>d. (map_option forward_to_entity (scalar_one_or_none
      (sql_returning (claimable i) (set_claimed now) (db_forwards d))),
      d\<lparr>db_forwards := sql_update (claimable i) (set_claimed now) (db_forwards d)\<rparr>))"
    by (rule forwards_updated) (use own in \<open>auto simp: claimable_def\<close>)
  then show "statement_isolated k E (claim_for_attempt i now)" by (simp add: claim_for_attempt_def [abs_def])
  have "statement_isolated k E (\<lambda>d. ((\<lambda>rs. ()) (sql_returning (\<lambda>f. fw_id f = i) (set_outcome ns code err next now) (db_forwards d)),
      d\<lparr>db_forwards := sql_update (\<lambda>f. fw_id f = i) (set_outcome ns code err next now) (db_forwards d)\<rparr>))"
    by (rule forwards_updated) (use own in auto)
  then show "statement_isolated k E (\<lambda>d. ((), record_outcome i ns code err next now d))"
    by (simp add: record_outcome_def [abs_def])
qed

lemma isolated_listings [isolation]:
  assumes "Some eid = E"
  shows "isolated k E (read_db (count_by_status eid))" "isolated k E (read_db (aggregate_by_integration eid))"
    "isolated k E (read_db (list_overdue_failed eid now))" "isolated k E (read_db (redrive_stuck_pending eid threshold now))"
    "isolated k E (read_db (stream_for_export eid n))" "isolated k E (read_db (count_by_endpoint eid))"
proof -
  have E: "E = Some eid" using assms by simp
  show "isolated k E (read_db (count_by_status eid))"
    by (rule isolated_read) (simp add: count_by_status_def group_by_status_def E)
  show "isolated k E (read_db (aggregate_by_integration eid))"
    by (rule isolated_read) (simp add: aggregate_by_integration_def E)
  show "isolated k E (read_db (list_overdue_failed eid now))"
    by (rule isolated_read) (simp add: list_overdue_failed_def E)
  show "isolated k E (read_db (redrive_stuck_pending eid threshold now))"
    by (rule isolated_read) (simp add: redrive_stuck_pending_def E)
  show "isolated k E (read_db (stream_for_export eid n))"
    by (rule isolated_read) (simp add: stream_for_export_def E)
  show "isolated k E (read_db (count_by_endpoint eid))"
    by (rule isolated_read) (simp add: count_by_endpoint_def E)
qed

text \<open>The cursor of a listing is looked up by its identifier alone, so it has to be one of the endpoint.\<close>

lemma isolated_pages:
  assumes "Some eid = E" and "case before of None \<Rightarrow> True | Some b \<Rightarrow> di_owner k b = eid"
  shows "isolated k E (read_db (request_list_by_endpoint sv eid n before q))"
    "isolated k E (read_db (forward_list_by_endpoint eid ss n before))"
proof -
  have E: "E = Some eid" using assms(1) by simp
  have r: "lookup_row rq_id b (filter (\<lambda>r. rq_endpoint_id r = eid) (db_requests d)) = lookup_row rq_id b (db_requests d)"
    if "in_order k d" "before = Some b" for d b
    by (rule lookup_row_filter) (use in_orderD(2) [OF that(1)] assms that(2) in auto)
  show "isolated k E (read_db (request_list_by_endpoint sv eid n before q))"
    by (rule isolated_read) (cases before; simp add: request_list_by_endpoint_def r E)
  have f: "lookup_row fw_id b (filter (\<lambda>f. fw_endpoint_id f = eid) (db_forwards d)) = lookup_row fw_id b (db_forwards d)"
    if "in_order k d" "before = Some b" for d b
    by (rule lookup_row_filter) (use in_orderD(3) [OF that(1)] assms that(2) in auto)
  show "isolated k E (read_db (forward_list_by_endpoint eid ss n before))"
    by (rule isolated_read) (cases before; simp add: forward_list_by_endpoint_def f E)
qed

text \<open>Finding the endpoint of a token, and rows by identifiers that belong to the endpoint.\<close>

lemma find_home:
  assumes "in_order k d"
  shows "map_option ep_id (find_by_token t d) = home k t"
proof -
  have "map_option ep_id (lookup_row ep_token t es) = map_of (map (\<lambda>e. (ep_token e, ep_id e)) es) t"
    for es :: "endpoint list"
    by (induction es) auto
  then show ?thesis using assms by (simp add: in_order_def home_def find_by_token_eq)
qed

lemma isolated_find [isolation]:
  assumes "home k t = E"
  shows "isolated k E (read_db (find_by_token t))"
proof (rule isolatedI)
  have same: "find_by_token t d1 = find_by_token t d2"
    if d: "in_order k d1" "in_order k d2" "own_rows k E d1 = own_rows k E d2" for d1 d2
  proof (cases "find_by_token t d1")
    case None
    then show ?thesis using find_home [OF d(1), of t] find_home [OF d(2), of t] by simp
  next
    case (Some e)
    have e: "e \<in> set (db_endpoints d1)" "ep_token e = t" "Some (ep_id e) = E"
      using find_by_token_SomeD [OF Some] find_home [OF d(1), of t] Some assms by auto
    then have "e \<in> set (db_endpoints (own_rows k E d1))" by simp
    then have "e \<in> set (db_endpoints d2)" by (simp add: d(3))
    moreover have "key_ok ep_token (db_endpoints d2)" using in_orderD(1) [OF d(2)] by (simp add: db_ok_defs)
    ultimately have "find_by_token t d2 = Some e"
      using lookup_row_unique [of ep_token "db_endpoints d2" e] e(2) by (simp add: find_by_token_eq)
    with Some show ?thesis by simp
  qed
  fix w1 w2
  assume "same_world k E w1 w2"
  then show "fst (read_db (find_by_token t) w1) = fst (read_db (find_by_token t) w2) \<and>
      same_world k E (snd (read_db (find_by_token t) w1)) (snd (read_db (find_by_token t) w2))"
    using same by (simp add: read_db_def same_world_def same_rows_def)
qed (simp add: read_db_def same_rows_refl)

text \<open>The handlers begin with the token; in what follows the endpoint is the caller's.\<close>

lemma isolated_token:
  assumes "home k t = E" and "isolated k E n" and "\<And>e. ep_token e = t \<Longrightarrow> Some (ep_id e) = E \<Longrightarrow> isolated k E (f e)"
  shows "isolated k E (bindA (read_db (find_by_token t)) (\<lambda>found. case found of None \<Rightarrow> n | Some e \<Rightarrow> f e))"
proof (rule isolated_bind_post [where P = "\<lambda>found. \<forall>e. found = Some e \<longrightarrow> ep_token e = t \<and> Some (ep_id e) = E"])
  show "isolated k E (read_db (find_by_token t))" by (rule isolated_find [OF assms(1)])
next
  fix a and w w' :: world
  assume "in_order k (w_db w)" "read_db (find_by_token t) w = (Inr a, w')"
  then show "\<forall>e. a = Some e \<longrightarrow> ep_token e = t \<and> Some (ep_id e) = E"
    using find_home [of k "w_db w" t] assms(1) find_by_token_SomeD [of t "w_db w"] by (auto simp: read_db_def)
next
  fix a :: "endpoint option"
  assume "\<forall>e. a = Some e \<longrightarrow> ep_token e = t \<and> Some (ep_id e) = E"
  then show "isolated k E (case a of None \<Rightarrow> n | Some e \<Rightarrow> f e)" using assms(2,3) by (cases a) auto
qed

lemma isolated_lookups [isolation]:
  "Some eid = E \<Longrightarrow> isolated k E (read_db (endpoint_find_by_id eid))"
  "Some (di_owner k i) = E \<Longrightarrow> isolated k E (read_db (request_find_by_id i))"
proof -
  show "isolated k E (read_db (endpoint_find_by_id eid))" if "Some eid = E"
    by (rule isolated_read) (use that in \<open>simp add: endpoint_find_by_id_eq lookup_row_filter\<close>)
  show "isolated k E (read_db (request_find_by_id i))" if "Some (di_owner k i) = E"
  proof (rule isolated_read)
    fix d assume "in_order k d"
    then show "request_find_by_id i (own_rows k E d) = request_find_by_id i d"
      using in_orderD(2) [of k d] that by (auto simp: request_find_eq intro: lookup_row_filter)
  qed
qed

lemma endpoint_update_statement:
  assumes "Some (ep_id e) = E"
  shows "statement_isolated k E (endpoint_update e)"
  unfolding statement_isolated_def
proof (intro allI impI)
  fix d assume d: "in_order k d"
  let ?u = "sql_update (\<lambda>row. ep_id row = ep_id e) (endpoint_set_config e)"
  have id: "ep_id (endpoint_set_config e row) = ep_id row" "ep_token (endpoint_set_config e row) = ep_token row" for row
    by (simp_all add: endpoint_set_config_def)
  have ids: "ep_id e \<in> ep_id ` set (filter (\<lambda>x. Some (ep_id x) = E) (db_endpoints d)) \<longleftrightarrow> ep_id e \<in> endpoint_ids d"
    using assms by auto
  have dbok: "db_ok (snd (endpoint_update e d))"
  proof (cases "endpoint_update e d")
    case (Pair r d')
    then show ?thesis
      using endpoint_update_ok [OF in_orderD(1) [OF d], of e "()" d'] in_orderD(1) [OF d]
      by (cases r) (auto simp: endpoint_update_def split: if_splits)
  qed
  have keys: "map (\<lambda>r. (ep_token r, ep_id r)) (?u t) = map (\<lambda>r. (ep_token r, ep_id r)) t" for t
    by (simp add: sql_update_def id)
  have "in_order k (snd (endpoint_update e d))"
    using d dbok keys by (auto simp: in_order_def endpoint_update_def)
  moreover have "fst (endpoint_update e (own_rows k E d)) = fst (endpoint_update e d)"
    using ids by (simp add: endpoint_update_def)
  moreover have "own_rows k E (snd (endpoint_update e (own_rows k E d))) = own_rows k E (snd (endpoint_update e d))"
    using ids by (auto simp: endpoint_update_def own_rows_def filter_sql_update id)
  moreover have "own_rows k D (snd (endpoint_update e d)) = own_rows k D d" if "D \<noteq> E" for D
    using assms that by (auto simp: endpoint_update_def own_rows_def id intro!: filter_sql_update_other)
  ultimately show "in_order k (snd (endpoint_update e d)) \<and>
      fst (endpoint_update e (own_rows k E d)) = fst (endpoint_update e d) \<and>
      own_rows k E (snd (endpoint_update e (own_rows k E d))) = own_rows k E (snd (endpoint_update e d)) \<and>
      (\<forall>D. D \<noteq> E \<longrightarrow> own_rows k D (snd (endpoint_update e d)) = own_rows k D d)" by blast
qed

lemma statementI:
  assumes "\<And>d. in_order k d \<Longrightarrow> in_order k (snd (f d))"
    and "\<And>d. in_order k d \<Longrightarrow> fst (f (own_rows k E d)) = fst (f d)"
    and "\<And>d. in_order k d \<Longrightarrow> own_rows k E (snd (f (own_rows k E d))) = own_rows k E (snd (f d))"
    and "\<And>d D. in_order k d \<Longrightarrow> D \<noteq> E \<Longrightarrow> own_rows k D (snd (f d)) = own_rows k D d"
  shows "statement_isolated k E f"
  using assms by (simp add: statement_isolated_def)

lemma increment_statement:
  assumes "Some eid = E"
  shows "statement_isolated k E (\<lambda>d. ((), increment_request_count eid d))"
proof (rule statementI)
  fix d assume d: "in_order k d"
  have "map (\<lambda>e. (ep_token e, ep_id e)) (db_endpoints (increment_request_count eid d)) =
      map (\<lambda>e. (ep_token e, ep_id e)) (db_endpoints d)"
    by (simp add: increment_request_count_def sql_update_def)
  then show "in_order k (snd ((), increment_request_count eid d))"
    using d increment_request_count_ok [OF in_orderD(1) [OF d], of eid] by (simp add: in_order_def)
  show "own_rows k E (snd ((), increment_request_count eid (own_rows k E d))) = own_rows k E (snd ((), increment_request_count eid d))"
    by (simp add: own_rows_def increment_request_count_def filter_sql_update)
  fix D assume "D \<noteq> E"
  then show "own_rows k D (snd ((), increment_request_count eid d)) = own_rows k D d"
    using assms by (auto simp: own_rows_def increment_request_count_def intro!: filter_sql_update_other)
qed simp

lemma own_ids:
  assumes "in_order k d"
  shows "Some (di_owner k i) = E \<Longrightarrow> i \<in> request_ids (own_rows k E d) \<longleftrightarrow> i \<in> request_ids d"
    "Some (di_owner k i) = E \<Longrightarrow> i \<in> fw_id ` set (db_forwards (own_rows k E d)) \<longleftrightarrow> i \<in> fw_id ` set (db_forwards d)"
    "Some (di_owner k i) = E \<Longrightarrow> i \<in> rp_id ` set (db_replays (own_rows k E d)) \<longleftrightarrow> i \<in> rp_id ` set (db_replays d)"
    "Some i = E \<Longrightarrow> i \<in> endpoint_ids (own_rows k E d) \<longleftrightarrow> i \<in> endpoint_ids d"
  using in_orderD(2-4) [OF assms] by (auto intro!: image_filter_iff simp: own_rows_def)

lemma request_save_statement:
  assumes "Some (rq_endpoint_id r) = E" and "di_owner k (rq_id r) = rq_endpoint_id r" and "blob_named r"
  shows "statement_isolated k E (request_save sv r)"
proof (rule statementI)
  fix d assume d: "in_order k d"
  have ids: "rq_id r \<in> request_ids (own_rows k E d) \<longleftrightarrow> rq_id r \<in> request_ids d"
    "rq_endpoint_id r \<in> endpoint_ids (own_rows k E d) \<longleftrightarrow> rq_endpoint_id r \<in> endpoint_ids d"
    by (rule own_ids(1) [OF d], simp add: assms, rule own_ids(4) [OF d], simp add: assms)
  show "fst (request_save sv r (own_rows k E d)) = fst (request_save sv r d)"
    unfolding request_save_def Let_def request_row_entity ids by simp
  show "own_rows k E (snd (request_save sv r (own_rows k E d))) = own_rows k E (snd (request_save sv r d))"
    unfolding request_save_def Let_def request_row_entity ids by (auto simp: own_rows_def)
  show "in_order k (snd (request_save sv r d))"
  proof (cases "request_save sv r d")
    case (Pair x d')
    then show ?thesis
      using request_save_ok [OF in_orderD(1) [OF d], of sv r "()" d'] d assms
      by (cases x) (auto simp: request_save_def Let_def in_order_def split: if_splits)
  qed
  fix D assume "D \<noteq> E"
  then show "own_rows k D (snd (request_save sv r d)) = own_rows k D d"
    using assms(1) by (auto simp: request_save_def Let_def own_rows_def)
qed

lemma forward_save_statement:
  assumes "Some (fw_endpoint_id f) = E" and "di_owner k (fw_id f) = fw_endpoint_id f"
    and "di_owner k (fw_request_id f) = fw_endpoint_id f"
  shows "statement_isolated k E (forward_save f)"
proof (rule statementI)
  fix d assume d: "in_order k d"
  have ids: "fw_id f \<in> fw_id ` set (db_forwards (own_rows k E d)) \<longleftrightarrow> fw_id f \<in> fw_id ` set (db_forwards d)"
    "fw_request_id f \<in> request_ids (own_rows k E d) \<longleftrightarrow> fw_request_id f \<in> request_ids d"
    "fw_endpoint_id f \<in> endpoint_ids (own_rows k E d) \<longleftrightarrow> fw_endpoint_id f \<in> endpoint_ids d"
    by (rule own_ids(2) [OF d], simp add: assms, rule own_ids(1) [OF d], simp add: assms, rule own_ids(4) [OF d], simp add: assms)
  show "fst (forward_save f (own_rows k E d)) = fst (forward_save f d)"
    unfolding forward_save_def Let_def forward_row_entity ids by simp
  show "own_rows k E (snd (forward_save f (own_rows k E d))) = own_rows k E (snd (forward_save f d))"
    unfolding forward_save_def Let_def forward_row_entity ids by (auto simp: own_rows_def)
  show "in_order k (snd (forward_save f d))"
  proof (cases "forward_save f d")
    case (Pair x d')
    then show ?thesis
      using forward_save_ok [OF in_orderD(1) [OF d], of f "()" d'] d assms
      by (cases x) (auto simp: forward_save_def Let_def in_order_def split: if_splits)
  qed
  fix D assume "D \<noteq> E"
  then show "own_rows k D (snd (forward_save f d)) = own_rows k D d"
    using assms(1) by (auto simp: forward_save_def Let_def own_rows_def)
qed

lemma replay_save_statement:
  assumes "Some (di_owner k (rp_request_id r)) = E" and "di_owner k (rp_id r) = di_owner k (rp_request_id r)"
  shows "statement_isolated k E (replay_save r)"
proof (rule statementI)
  fix d assume d: "in_order k d"
  have ids: "rp_id r \<in> rp_id ` set (db_replays (own_rows k E d)) \<longleftrightarrow> rp_id r \<in> rp_id ` set (db_replays d)"
    "rp_request_id r \<in> request_ids (own_rows k E d) \<longleftrightarrow> rp_request_id r \<in> request_ids d"
    by (rule own_ids(3) [OF d], simp add: assms, rule own_ids(1) [OF d], simp add: assms)
  show "fst (replay_save r (own_rows k E d)) = fst (replay_save r d)"
    unfolding replay_save_def ids by simp
  show "own_rows k E (snd (replay_save r (own_rows k E d))) = own_rows k E (snd (replay_save r d))"
    unfolding replay_save_def ids by (auto simp: own_rows_def)
  show "in_order k (snd (replay_save r d))"
  proof (cases "replay_save r d")
    case (Pair x d')
    then show ?thesis
      using replay_save_ok [OF in_orderD(1) [OF d], of r "()" d'] d assms
      by (cases x) (auto simp: replay_save_def in_order_def split: if_splits)
  qed
  fix D assume "D \<noteq> E"
  then show "own_rows k D (snd (replay_save r d)) = own_rows k D d"
    using assms(1) by (auto simp: replay_save_def own_rows_def)
qed

section \<open>Blobs\<close>

lemma isolated_blob_get [isolation]: "Some i = E \<Longrightarrow> isolated k E (blob_get sv (blob_name i q))"
proof (rule isolatedI)
  fix w1 w2
  assume "Some i = E" "same_world k E w1 w2"
  moreover from this have "map_of (w_blobs w1) (blob_name i q) = map_of (w_blobs w2) (blob_name i q)"
    by (auto simp: same_world_def same_rows_def own_blob_def fun_eq_iff)
  ultimately show "fst (blob_get sv (blob_name i q) w1) = fst (blob_get sv (blob_name i q) w2) \<and>
      same_world k E (snd (blob_get sv (blob_name i q) w1)) (snd (blob_get sv (blob_name i q) w2))"
    by (simp add: blob_get_def split: option.split)
qed (simp add: blob_get_def same_rows_refl split: option.split)

lemma isolated_blob_put [isolation]: "Some i = E \<Longrightarrow> isolated k E (blob_put sv (blob_name i q) b)"
proof (rule isolatedI)
  fix w1 w2
  assume "Some i = E" "same_world k E w1 w2"
  then show "fst (blob_put sv (blob_name i q) b w1) = fst (blob_put sv (blob_name i q) b w2) \<and>
      same_world k E (snd (blob_put sv (blob_name i q) b w1)) (snd (blob_put sv (blob_name i q) b w2))"
    by (auto simp: blob_put_def same_world_def same_rows_def own_blob_def fun_eq_iff update_conv' split: option.split)
next
  fix D and w :: world
  assume a: "Some i = E" "D \<noteq> E" "in_order k (w_db w)"
  then have "blob_name j r \<noteq> blob_name i q" if "D = Some j" for j r using blob_name_inject that by blast
  then show "same_rows k D w (snd (blob_put sv (blob_name i q) b w))"
    using a(3) by (auto simp: blob_put_def same_rows_def own_blob_def fun_eq_iff update_conv' split: option.split)
qed

section \<open>The handlers\<close>

lemma isolated_if [isolation]: "isolated k E a \<Longrightarrow> isolated k E b \<Longrightarrow> isolated k E (if c then a else b)"
  by simp

lemma isolated_case_option: "isolated k E n \<Longrightarrow> (\<And>x. isolated k E (f x)) \<Longrightarrow> isolated k E (case v of None \<Rightarrow> n | Some x \<Rightarrow> f x)"
  by (cases v) simp_all

lemma isolated_case_prod [isolation]: "(\<And>x y. isolated k E (f x y)) \<Longrightarrow> isolated k E (case v of (x, y) \<Rightarrow> f x y)"
  by (cases v) simp

text \<open>What the owner may name: an identifier that belongs to the endpoint.\<close>

definition names :: "directory \<Rightarrow> uuid option \<Rightarrow> uuid \<Rightarrow> bool" where
  "names k E i \<longleftrightarrow> (case E of None \<Rightarrow> True | Some eid \<Rightarrow> di_owner k i = eid)"

lemma namesD: "names k E i \<Longrightarrow> Some eid = E \<Longrightarrow> di_owner k i = eid"
  by (auto simp: names_def)

definition names_cursor :: "directory \<Rightarrow> uuid option \<Rightarrow> uuid option \<Rightarrow> bool" where
  "names_cursor k E before \<longleftrightarrow> (case before of None \<Rightarrow> True | Some b \<Rightarrow> names k E b)"

lemma names_cursorD: "names_cursor k E before \<Longrightarrow> Some eid = E \<Longrightarrow> case before of None \<Rightarrow> True | Some b \<Rightarrow> di_owner k b = eid"
  by (auto simp: names_cursor_def names_def split: option.splits)

lemma isolated_list_requests:
  assumes "home k t = E" and "names_cursor k E before"
  shows "isolated k E (list_requests sv t n before q)"
  unfolding list_requests_def
  by (rule isolated_token [OF assms(1)]; intro isolation isolated_pages names_cursorD [OF assms(2)])

lemma isolated_list_forwards:
  assumes "home k t = E" and "names_cursor k E before"
  shows "isolated k E (list_forwards t ss n before)"
  unfolding list_forwards_def
  by (rule isolated_token [OF assms(1)]; intro isolation isolated_pages names_cursorD [OF assms(2)])

lemma isolated_reads:
  assumes "home k t = E"
  shows "isolated k E (get_forward_stats t)" "isolated k E (list_integrations t)" "isolated k E (get_endpoint t)"
  unfolding get_forward_stats_def list_integrations_def get_endpoint_def
  by (rule isolated_token [OF assms]; intro isolation; assumption?)+

lemma isolated_operations:
  assumes "home k t = E"
  shows "isolated k E (retry_forward now t i)" "isolated k E (abandon_forward now t i)"
proof -
  show "isolated k E (retry_forward now t i)"
    unfolding retry_forward_def
    by (rule isolated_token [OF assms]; intro isolation isolated_case_option forward_statements)
  show "isolated k E (abandon_forward now t i)"
    unfolding abandon_forward_def
    by (rule isolated_token [OF assms]; intro isolation isolated_case_option forward_statements)
qed

lemma isolated_enqueue_each: "isolated k E (enqueue_each sv ids)"
  by (induction ids) (simp only: enqueue_each.simps; intro isolation; assumption?)+

lemma isolated_redrive:
  assumes "home k t = E"
  shows "isolated k E (redrive_pending_forwards sv now t)"
  unfolding redrive_pending_forwards_def
  by (rule isolated_token [OF assms]; intro isolation forward_statements isolated_enqueue_each)

lemma configured_id:
  assumes "bindR (set_signature sv key n1 p e) (set_forwarding sv key n2 p) = Inr e'"
  shows "ep_id e' = ep_id e"
proof -
  obtain x where x: "set_signature sv key n1 p e = Inr x" "set_forwarding sv key n2 p x = Inr e'"
    using assms by (auto simp: bindR_Inr_iff)
  have "ep_id x = ep_id e" using x(1) by (auto simp: set_signature_def Let_def bindR_Inr_iff split: option.splits)
  moreover have "ep_id e' = ep_id x" using x(2) by (auto simp: set_forwarding_def Let_def bindR_Inr_iff split: option.splits)
  ultimately show ?thesis by simp
qed

lemma isolated_configure:
  assumes "home k t = E"
  shows "isolated k E (update_endpoint_config sv key n1 n2 t p)"
proof -
  have eq: "update_endpoint_config sv key n1 n2 t p = bindA (read_db (find_by_token t)) (\<lambda>found.
      case found of None \<Rightarrow> fail EndpointNotFoundError | Some e \<Rightarrow>
        bindA (lift_res (bindR (set_signature sv key n1 p e) (set_forwarding sv key n2 p))) (\<lambda>e'. run_db_res (endpoint_update e')))"
    by (rule ext) (simp add: update_endpoint_config_def get_endpoint_def bindA_def read_db_def split: option.split)
  show ?thesis
    unfolding eq
  proof (rule isolated_token [OF assms])
    fix e :: endpoint
    assume e: "Some (ep_id e) = E"
    show "isolated k E (bindA (lift_res (bindR (set_signature sv key n1 p e) (set_forwarding sv key n2 p)))
        (\<lambda>e'. run_db_res (endpoint_update e')))"
      by (rule isolated_bind_post [where P = "\<lambda>e'. ep_id e' = ep_id e"])
        (use e in \<open>auto intro!: isolation endpoint_update_statement dest: configured_id\<close>)
  qed (rule isolation)
qed

text \<open>Reading the body of a request of the endpoint.\<close>

lemma isolated_load_body:
  assumes "Some (rq_endpoint_id c) = E" and "blob_named c"
  shows "isolated k E (load_body sv c)"
proof (cases "rq_blob_key c")
  case None
  then show ?thesis by (simp only: load_body_def option.case) (rule isolation)
next
  case (Some key)
  then have key: "key = blob_name (rq_endpoint_id c) (rq_id c)" using assms(2) by (simp add: blob_named_def)
  show ?thesis
    using assms(1) by (simp only: load_body_def Some option.case key) (intro isolation)
qed

text \<open>
  The row of a replay may be anybody's: one of another endpoint is answered like none, so what is decided
  on is the row of the endpoint if there is one.
\<close>

definition own_request :: "uuid \<Rightarrow> uuid \<Rightarrow> db \<Rightarrow> captured_request option" where
  "own_request eid i d =
     (case request_find_by_id i d of None \<Rightarrow> None | Some c \<Rightarrow> if rq_endpoint_id c = eid then Some c else None)"

lemma isolated_own_request:
  assumes "Some eid = E"
  shows "isolated k E (read_db (own_request eid i))"
proof (rule isolated_read)
  fix d assume d: "in_order k d"
  have "own_request eid i d = lookup_row rq_id i (filter (\<lambda>r. rq_endpoint_id r = eid) (db_requests d))"
  proof (cases "lookup_row rq_id i (db_requests d)")
    case None
    then have "lookup_row rq_id i (filter (\<lambda>r. rq_endpoint_id r = eid) (db_requests d)) = None"
      by (simp add: lookup_row_None_iff)
    with None show ?thesis by (simp add: own_request_def request_find_eq)
  next
    case (Some c)
    have c: "c \<in> set (db_requests d)" "rq_id c = i" using lookup_row_SomeD [OF Some] by simp_all
    have ids: "rq_endpoint_id r = di_owner k i" if "r \<in> set (db_requests d)" "rq_id r = i" for r
      using in_orderD(2) [OF d] that by auto
    show ?thesis
    proof (cases "di_owner k i = eid")
      case True
      then have "lookup_row rq_id i (filter (\<lambda>r. rq_endpoint_id r = eid) (db_requests d)) = Some c"
        unfolding Some [symmetric] by (intro lookup_row_filter) (use ids in auto)
      then show ?thesis using Some ids [OF c] True by (simp add: own_request_def request_find_eq)
    next
      case False
      then have "lookup_row rq_id i (filter (\<lambda>r. rq_endpoint_id r = eid) (db_requests d)) = None"
        using ids by (auto simp: lookup_row_None_iff)
      then show ?thesis using Some ids [OF c] False by (simp add: own_request_def request_find_eq)
    qed
  qed
  moreover have "filter (\<lambda>r. Some (rq_endpoint_id r) = E) (db_requests d) = filter (\<lambda>r. rq_endpoint_id r = eid) (db_requests d)"
    using assms by (intro filter_cong) auto
  moreover have "own_request eid i (own_rows k E d) = lookup_row rq_id i (filter (\<lambda>r. Some (rq_endpoint_id r) = E) (db_requests d))"
    using assms by (auto simp: own_request_def request_find_eq split: option.split dest!: lookup_row_SomeD)
  ultimately show "own_request eid i (own_rows k E d) = own_request eid i d" by simp
qed

lemma own_request_post:
  assumes "in_order k (w_db w)" and "read_db (own_request eid i) w = (Inr a, w')"
  shows "\<forall>c. a = Some c \<longrightarrow> rq_endpoint_id c = eid \<and> rq_id c = i \<and> di_owner k i = eid \<and> blob_named c"
proof (intro allI impI)
  fix c assume "a = Some c"
  then have c: "request_find_by_id i (w_db w) = Some c" "rq_endpoint_id c = eid"
    using assms(2) by (auto simp: read_db_def own_request_def split: option.splits if_splits)
  then have "c \<in> set (db_requests (w_db w))" "rq_id c = i" by (auto simp: request_find_eq dest: lookup_row_SomeD)
  then show "rq_endpoint_id c = eid \<and> rq_id c = i \<and> di_owner k i = eid \<and> blob_named c"
    using in_orderD(2) [OF assms(1)] c(2) by blast
qed

lemma isolated_authorize:
  assumes "home k t = E"
  shows "isolated k E (authorize_phase sv t i)"
proof -
  let ?gone = "bindA (emit (Replay_attempt ''request_not_found'')) (\<lambda>_. fail RequestNotFoundError) :: authorized_state act"
  have eq: "bindA (read_db (request_find_by_id i)) (\<lambda>captured. case captured of None \<Rightarrow> ?gone
        | Some c \<Rightarrow> if rq_endpoint_id c \<noteq> ep_id e then ?gone else f c) =
      bindA (read_db (own_request (ep_id e) i)) (\<lambda>captured. case captured of None \<Rightarrow> ?gone | Some c \<Rightarrow> f c)" for e f
    by (rule ext) (simp add: own_request_def split: option.split)
  have "isolated k E (bindA (read_db (own_request (ep_id e) i)) (\<lambda>captured. case captured of None \<Rightarrow> ?gone
      | Some c \<Rightarrow> bindA (load_body sv c) (\<lambda>body. ret \<lparr>as_endpoint = e, as_captured = c, as_body = body\<rparr>)))"
    if e: "Some (ep_id e) = E" for e
  proof (rule isolated_bind_post)
    show "isolated k E (read_db (own_request (ep_id e) i))" by (rule isolated_own_request [OF e])
  next
    fix a :: "captured_request option"
    assume "\<forall>c. a = Some c \<longrightarrow> rq_endpoint_id c = ep_id e \<and> rq_id c = i \<and> di_owner k i = ep_id e \<and> blob_named c"
    then show "isolated k E (case a of None \<Rightarrow> ?gone | Some c \<Rightarrow>
        bindA (load_body sv c) (\<lambda>body. ret \<lparr>as_endpoint = e, as_captured = c, as_body = body\<rparr>))"
      using e by (cases a) (auto intro!: isolation isolated_load_body)
  qed (rule own_request_post)
  then show ?thesis
    unfolding authorize_phase_def eq
    by (intro isolated_session isolated_token [OF assms]) (auto intro!: isolation)
qed

lemma authorized_request:
  assumes "in_order k (w_db w)" and "authorize_phase sv t i w = (Inr st, w')" and "home k t = E"
  shows "Some (di_owner k i) = E"
proof -
  obtain e c where ec: "find_by_token t (w_db w) = Some e" "request_find_by_id i (w_db w) = Some c" "rq_endpoint_id c = ep_id e"
    using assms(2) by (auto simp: authorize_phase_def bindA_Inr_iff read_db_def split: option.splits if_splits)
  have "rq_id c = i" "c \<in> set (db_requests (w_db w))" using ec(2) by (auto simp: request_find_eq dest: lookup_row_SomeD)
  then have "di_owner k i = ep_id e" using in_orderD(2) [OF assms(1)] ec(3) by metis
  moreover have "home k t = Some (ep_id e)" using find_home [OF assms(1), of t] ec(1) by simp
  ultimately show ?thesis using assms(3) by simp
qed

lemma isolated_conclude:
  assumes "Some (di_owner k (rp_request_id r)) = E" and "di_owner k (rp_id r) = di_owner k (rp_request_id r)"
  shows "isolated k E (conclude_replay r label)"
  unfolding conclude_replay_def replay_record_phase_def
  by (intro isolation replay_save_statement [OF assms])

lemma replay_attempt_ids:
  assumes "replay_attempt sv clk i url v m hs b w = (Inr (r, label), w')"
  shows "rp_id r = rc_id clk" "rp_request_id r = i"
  using assms by (auto simp: replay_attempt_def catchA_def bindA_def replay_success_def replay_failure_def
      split: prod.splits sum.splits exn.splits)

lemma isolated_replay:
  assumes "home k t = E" and "names k E (rc_id clk)"
  shows "isolated k E (replay_request sv clk t i url ih ib)"
  unfolding replay_request_def
proof (rule isolated_bind_post)
  show "isolated k E (authorize_phase sv t i)" by (rule isolated_authorize [OF assms(1)])
  show "Some (di_owner k i) = E" if "in_order k (w_db w)" "authorize_phase sv t i w = (Inr a, w')" for a w w'
    using authorized_request [OF that assms(1)] .
  fix st
  assume i: "Some (di_owner k i) = E"
  have id: "di_owner k (rc_id clk) = di_owner k i" by (rule namesD [OF assms(2) i])
  have attempt: "isolated k E (replay_attempt sv clk i url v m hs b)" for v m hs b
  proof -
    have "isolated k E (case e of HttpRequestFailedError m \<Rightarrow>
            ret (replay_failure (rc_id clk) i url m (rc_duration_ms clk) (rc_now clk), ''network_error'')
        | _ \<Rightarrow> fail e)" for e
      by (cases e) (simp_all only: exn.case isolation)
    then show ?thesis unfolding replay_attempt_def by (intro isolation)
  qed
  have sent: "isolated k E (bindA (replay_attempt sv clk i url v m hs b) (\<lambda>(r, label). conclude_replay r label))" for v m hs b
  proof (rule isolated_bind_post [where P = "\<lambda>(r, label). rp_id r = rc_id clk \<and> rp_request_id r = i"])
    show "isolated k E (replay_attempt sv clk i url v m hs b)" by (rule attempt)
    show "case a of (r, label) \<Rightarrow> rp_id r = rc_id clk \<and> rp_request_id r = i"
      if "replay_attempt sv clk i url v m hs b w = (Inr a, w')" for a w w'
      using that replay_attempt_ids by (cases a) auto
    show "isolated k E (case a of (r, label) \<Rightarrow> conclude_replay r label)"
      if "case a of (r, label) \<Rightarrow> rp_id r = rc_id clk \<and> rp_request_id r = i" for a
      using that i id by (cases a) (auto intro!: isolated_conclude)
  qed
  have blocked: "isolated k E (conclude_replay (replay_failure (rc_id clk) i url m (rc_duration_ms clk) (rc_now clk)) label)" for m label
    by (rule isolated_conclude) (simp_all add: replay_failure_def i id)
  show "isolated k E (let body = (if ib then as_body st else []) in
     if MAX_REPLAY_BODY_BYTES < length body
     then bindA (emit (Replay_attempt ''payload_too_large'')) (\<lambda>_. fail ReplayPayloadTooLargeError)
     else
       let headers = (if ih then strip_captured (rq_headers (as_captured st)) else []) in
       case make_validate sv url of
         Inl (SsrfBlockedError m) \<Rightarrow>
           conclude_replay (replay_failure (rc_id clk) i url (''SsrfBlockedError: '' @ m)
             (rc_duration_ms clk) (rc_now clk)) ''ssrf_blocked''
       | Inl e \<Rightarrow> fail e
       | Inr validated \<Rightarrow>
           bindA (replay_attempt sv clk i url validated (rq_method (as_captured st))
             headers body) (\<lambda>(replay, label). conclude_replay replay label))"
    unfolding Let_def
    by (intro isolated_if isolated_bind isolated_pure)
      (cases "make_validate sv url"; (cases "projl (make_validate sv url)")?; simp add: sent blocked isolated_pure)
qed

section \<open>A capture\<close>

definition captured_for :: "directory \<Rightarrow> uuid \<Rightarrow> captured_request \<Rightarrow> bool" where
  "captured_for k eid c \<longleftrightarrow> rq_endpoint_id c = eid \<and> di_owner k (rq_id c) = eid \<and> blob_named c"

lemma isolated_store_body:
  assumes "captured_for k eid c" and "Some eid = E"
  shows "isolated k E (store_body sv c b)"
proof (cases "rq_blob_key c")
  case None
  then show ?thesis by (simp only: store_body_def option.case) (rule isolation)
next
  case (Some key)
  then have key: "key = blob_name eid (rq_id c)" using assms(1) by (simp add: captured_for_def blob_named_def)
  show ?thesis using assms(2) by (simp only: store_body_def Some option.case key) (intro isolation)
qed

lemma stored_for: "captured_for k eid c \<Longrightarrow> store_body sv c b w = (Inr c', w') \<Longrightarrow> captured_for k eid c'"
  by (auto simp: store_body_def captured_for_def blob_named_def catchA_def bindA_def blob_put_def split: option.splits)

lemma isolated_persist:
  assumes "captured_for k (ep_id e) c" and "Some (ep_id e) = E" and "names k E (ce_forward_id env)"
  shows "isolated k E (persist_capture sv env e c)"
proof -
  have "statement_isolated k E (request_save sv c)"
    by (rule request_save_statement) (use assms(1,2) in \<open>auto simp: captured_for_def\<close>)
  moreover have "statement_isolated k E (forward_save (forward_create (ce_forward_id env) (rq_id c) (ep_id e) u n))" for u n
    by (rule forward_save_statement) (use assms namesD [OF assms(3,2)] in \<open>auto simp: captured_for_def forward_create_def\<close>)
  ultimately show ?thesis
    unfolding persist_capture_def save_pending_forward_def
    by (intro isolation increment_statement [OF assms(2)])
qed

lemma isolated_capture_request:
  assumes "home k (ci_token inp) = E" and "names k E (ce_request_id env)" and "names k E (ce_forward_id env)"
  shows "isolated k E (capture_request sv env inp)"
  unfolding capture_request_def
proof (rule isolated_token [OF assms(1)])
  fix e :: endpoint
  assume e: "Some (ep_id e) = E"
  have own: "di_owner k (ce_request_id env) = ep_id e" by (rule namesD [OF assms(2) e])
  have create: "isolated k E (bindA (lift_res (captured_request_create (ce_request_id env) (ce_now env) (ep_id e) m p q hs b ip th st integration ev))
      (\<lambda>created. bindA (store_body sv created b') (persist_capture sv env e)))" for m p q hs b b' ip th st integration ev
  proof (rule isolated_bind_post [where P = "captured_for k (ep_id e)"])
    show "captured_for k (ep_id e) a" if "lift_res (captured_request_create (ce_request_id env) (ce_now env) (ep_id e) m p q hs b ip th st integration ev) w = (Inr a, w')" for a w w'
      using captured_request_createD [of "ce_request_id env" "ce_now env" "ep_id e" m p q hs b ip th st integration ev a] that own
      by (simp add: captured_for_def blob_named_def blob_name_def)
    show "isolated k E (bindA (store_body sv a b') (persist_capture sv env e))" if a: "captured_for k (ep_id e) a" for a
    proof (rule isolated_bind_post [where P = "captured_for k (ep_id e)"])
      show "isolated k E (store_body sv a b')" by (rule isolated_store_body [OF a e])
      show "captured_for k (ep_id e) c" if "store_body sv a b' w = (Inr c, w')" for c w w'
        by (rule stored_for [OF a that])
      show "isolated k E (persist_capture sv env e c)" if "captured_for k (ep_id e) c" for c
        by (rule isolated_persist [OF that e assms(3)])
    qed
  qed (rule isolation)
  show "isolated k E (bindA (lift_res (capture_signature_status sv (ce_secrets_key env) e (ci_headers inp) (ci_body inp)))
      (\<lambda>signature_status. case detect_captured (ci_headers inp) (ci_body inp) of (integration, event_type) \<Rightarrow>
         bindA (lift_res (captured_request_create (ce_request_id env) (ce_now env) (ep_id e)
             (str_upper (ci_method inp)) (ci_path inp) (ci_query_string inp) (ci_headers inp)
             (ci_body inp) (ci_source_ip inp) (ce_inline_threshold env) signature_status
             integration event_type)) (\<lambda>created.
         bindA (store_body sv created (ci_body inp)) (\<lambda>captured. persist_capture sv env e captured))))"
    by (rule isolated_bind, rule isolated_pure, rule isolated_case_prod, rule create)
qed (rule isolation)

lemma isolated_task: "isolated k E (enqueue_task has_queue sv i)"
  unfolding enqueue_task_def safe_enqueue_def by (intro isolation)

lemma isolated_capture:
  assumes "home k (hr_token q) = E" and "names k E (ce_request_id env)" and "names k E (ce_forward_id env)"
  shows "isolated k E (serve ord (route capture_clauses (capture_handler sv env n has_queue q)))"
proof (rule isolated_serve)
  have "ci_token (capture_input_of q b) = hr_token q" for b by (simp add: capture_input_of_def)
  then show "isolated k E (route capture_clauses (capture_handler sv env n has_queue q))"
    unfolding capture_handler_def by (intro isolation isolated_capture_request) (simp_all add: assms)
  show "isolated k E task" if "route capture_clauses (capture_handler sv env n has_queue q) w = (Reply (a, task), v)" for w a task v
    using that by (auto simp: route_def capture_handler_def bindA_Inr_iff isolated_task isolation
        split: prod.splits sum.splits option.splits)
qed

section \<open>An attempt\<close>

lemma isolated_execute:
  assumes "Some (di_owner k i) = E"
  shows "isolated k E (execute_forward_job sv key clk (uuid_str i))"
proof -
  have claim: "isolated k E (claim_phase sv clk i)"
    unfolding claim_phase_def
  proof (rule isolated_session, rule isolated_bind_post)
    show "isolated k E (run_db (claim_for_attempt i (fc_claim clk)))" by (intro isolation worker_statements [OF assms])
    show "\<forall>f. a = Some f \<longrightarrow> Some (fw_endpoint_id f) = E \<and> Some (di_owner k (fw_request_id f)) = E"
      if w: "in_order k (w_db w)" "run_db (claim_for_attempt i (fc_claim clk)) w = (Inr a, w')" for a w w'
    proof (intro allI impI)
      fix f assume "a = Some f"
      then obtain g where g: "forward_find_by_id i (w_db w) = Some g" "f = set_claimed (fc_claim clk) g"
        using w(2) returning_statement(1) [OF in_orderD(1) [OF w(1)], of i "fc_claim clk"] by (auto simp: row_hit_Some_iff)
      then have "g \<in> set (db_forwards (w_db w))" "fw_id g = i"
        by (auto simp: forward_find_by_id_eq dest: lookup_row_SomeD)
      then show "Some (fw_endpoint_id f) = E \<and> Some (di_owner k (fw_request_id f)) = E"
        using in_orderD(3) [OF w(1)] assms g(2) by auto
    qed
    fix a :: "forward option"
    assume a: "\<forall>f. a = Some f \<longrightarrow> Some (fw_endpoint_id f) = E \<and> Some (di_owner k (fw_request_id f)) = E"
    show "isolated k E (case a of
       None \<Rightarrow> bindA (emit (Forward_attempt ''skipped'')) (\<lambda>_. ret None)
     | Some f \<Rightarrow>
         bindA (read_db (endpoint_find_by_id (fw_endpoint_id f))) (\<lambda>endpoint.
         bindA (read_db (request_find_by_id (fw_request_id f))) (\<lambda>captured.
         case (endpoint, captured) of
           (Some e, Some c) \<Rightarrow>
             bindA (load_body sv c) (\<lambda>body.
             ret (Some \<lparr>cs_forward = f, cs_endpoint = e, cs_captured = c, cs_body = body\<rparr>))
         | _ \<Rightarrow>
             bindA (run_db (\<lambda>d. ((), record_outcome i NDead None
               (Some ''endpoint or request not found (TTL expired?)'') None (fc_missing clk) d))) (\<lambda>_.
             bindA (emit (Forward_attempt ''dead'')) (\<lambda>_. ret None)))))"
    proof (cases a)
      case None
      then show ?thesis by (simp only: option.case) (intro isolation)
    next
      case (Some f)
      with a have f: "Some (fw_endpoint_id f) = E" "Some (di_owner k (fw_request_id f)) = E" by blast+
      have gone: "isolated k E (bindA (run_db (\<lambda>d. ((), record_outcome i NDead None
               (Some ''endpoint or request not found (TTL expired?)'') None (fc_missing clk) d))) (\<lambda>_.
             bindA (emit (Forward_attempt ''dead'')) (\<lambda>_. ret None)))"
        by (intro isolation worker_statements [OF assms])
      have loaded: "isolated k E (bindA (read_db (request_find_by_id (fw_request_id f))) (\<lambda>captured.
         case (x, captured) of
           (Some e, Some c) \<Rightarrow>
             bindA (load_body sv c) (\<lambda>body.
             ret (Some \<lparr>cs_forward = f, cs_endpoint = e, cs_captured = c, cs_body = body\<rparr>))
         | _ \<Rightarrow>
             bindA (run_db (\<lambda>d. ((), record_outcome i NDead None
               (Some ''endpoint or request not found (TTL expired?)'') None (fc_missing clk) d))) (\<lambda>_.
             bindA (emit (Forward_attempt ''dead'')) (\<lambda>_. ret None))))" for x
      proof (rule isolated_bind_post)
        show "isolated k E (read_db (request_find_by_id (fw_request_id f)))" by (rule isolation) (rule f(2))
        show "\<forall>c. y = Some c \<longrightarrow> Some (rq_endpoint_id c) = E \<and> blob_named c"
          if w: "in_order k (w_db w)" "read_db (request_find_by_id (fw_request_id f)) w = (Inr y, w')" for y w w'
        proof (intro allI impI)
          fix c assume "y = Some c"
          then have "c \<in> set (db_requests (w_db w))" "rq_id c = fw_request_id f"
            using w(2) by (auto simp: read_db_def request_find_eq dest!: lookup_row_SomeD sym [of "Some _"])
          then show "Some (rq_endpoint_id c) = E \<and> blob_named c" using in_orderD(2) [OF w(1)] f(2) by metis
        qed
      next
        fix y :: "captured_request option"
        assume "\<forall>c. y = Some c \<longrightarrow> Some (rq_endpoint_id c) = E \<and> blob_named c"
        then show "isolated k E (case (x, y) of
           (Some e, Some c) \<Rightarrow>
             bindA (load_body sv c) (\<lambda>body.
             ret (Some \<lparr>cs_forward = f, cs_endpoint = e, cs_captured = c, cs_body = body\<rparr>))
         | _ \<Rightarrow>
             bindA (run_db (\<lambda>d. ((), record_outcome i NDead None
               (Some ''endpoint or request not found (TTL expired?)'') None (fc_missing clk) d))) (\<lambda>_.
             bindA (emit (Forward_attempt ''dead'')) (\<lambda>_. ret None)))"
          using gone by (cases x; cases y) (auto intro!: isolated_bind isolated_load_body isolated_pure)
      qed
      show ?thesis unfolding Some option.case by (intro isolated_bind isolated_lookups loaded) (rule f(1))
    qed
  qed
  have handled: "isolated k E (http_handler e)" for e by (cases e) (simp_all only: http_handler.simps isolation)
  have send: "isolated k E (http_phase sv key ts st)" for ts st
    unfolding http_phase_def by (intro isolation handled)
  have finish: "isolated k E (finish_forward sv clk i n r)" for n r
    unfolding finish_forward_def record_phase_def Let_def
    by (intro isolated_case_prod isolated_case_option isolation worker_statements [OF assms])
  have "isolated k E (execute_forward sv key clk i)"
    unfolding execute_forward_def by (intro isolated_bind isolated_case_option isolated_pure claim send finish)
  moreover have "bindA (lift_res (Inr i)) (execute_forward sv key clk) = execute_forward sv key clk i" by (rule ext) simp
  ultimately show ?thesis
    unfolding execute_forward_job_def uuid_parse_str by (simp only:) (intro isolated_catch isolated_pure)
qed

end
