(* ===== verification/Owners.thy ===== *)
theory Owners
  imports Isolation
begin

text \<open>
  All that the owner of a token, the senders of webhooks to it and the worker can make the program do for
  one endpoint, as calls of one function, and the proof that the calls of different endpoints do not interfere.
\<close>

section \<open>Calls and answers\<close>

text \<open>What every call runs with: the services, the settings of the processes, the templates of one row.\<close>

record deployment =
  dp_services :: services
  dp_secrets_key :: string
  dp_order :: exit_order
  dp_has_queue :: bool
  dp_base_url :: string
  dp_max_body :: nat
  dp_max_export :: nat
  dp_render :: "request_item \<Rightarrow> string \<Rightarrow> string"

text \<open>
  One constructor per route of an endpoint, with what the client sends and what clock and \<open>uuid4()\<close> give,
  the webhook (its token is the one of the call) and one job of the worker.
\<close>

datatype call =
    List_requests "nat option" "uuid option" "string option"
  | List_fragment "nat option" "uuid option" "string option"
  | List_integrations
  | List_forwards "string list option" "nat option" "uuid option"
  | Forward_stats
  | Viewer_page time
  | Forwards_page "string list option"
  | Integrations_page
  | Configure string string "signature_patch option" "forward_patch option"
  | Retry time uuid
  | Abandon time uuid
  | Redrive time
  | Replay replay_clock uuid string bool bool
  | Export time
  | Webhook capture_env http_request
  | Attempt forward_clock uuid

datatype answer =
    Request_page "request_item item_list http"
  | Fragment "string http"
  | Aggregates "integration_aggregate list http"
  | Forward_page "forward_item item_list http"
  | Stats "forward_stats http"
  | Viewer "viewer_page http"
  | Forwards "forwards_page http"
  | Integrations "(string \<times> integration_aggregate list) http"
  | Done "unit http"
  | Item "forward_item http"
  | Redriven "nat http"
  | Replayed "replay_response http"
  | Exported "streaming_response res"
  | Captured "response http"
  | Attempted "unit res"

definition answered :: "('r \<Rightarrow> answer) \<Rightarrow> (world \<Rightarrow> 'r \<times> world) \<Rightarrow> world \<Rightarrow> answer \<times> world" where
  "answered tag m w = (tag (fst (m w)), snd (m w))"

text \<open>The export reads its rows and their bodies in the state it finds.\<close>

definition export_call :: "deployment \<Rightarrow> time \<Rightarrow> string \<Rightarrow> world \<Rightarrow> streaming_response res \<times> world" where
  "export_call p now token w =
     (export_endpoint (\<lambda>key. fst (blob_get (dp_services p) key w)) (dp_max_export p) now token (w_db w) (w_db w), w)"

fun handle :: "deployment \<Rightarrow> string \<times> call \<Rightarrow> world \<Rightarrow> answer \<times> world" where
  "handle p (token, List_requests limit before q) =
     answered Request_page (list_requests_route (dp_services p) token limit before q)"
| "handle p (token, List_fragment limit before q) =
     answered Fragment (list_requests_fragment (dp_services p) (dp_render p) (dp_base_url p) token limit before q)"
| "handle p (token, List_integrations) = answered Aggregates (list_integrations_route token)"
| "handle p (token, List_forwards status limit before) = answered Forward_page (list_forwards_route token status limit before)"
| "handle p (token, Forward_stats) = answered Stats (get_forward_stats_route token)"
| "handle p (token, Viewer_page now) = answered Viewer (viewer (dp_services p) (dp_base_url p) now token)"
| "handle p (token, Forwards_page status) = answered Forwards (forwards_view token status)"
| "handle p (token, Integrations_page) = answered Integrations (integrations_view token)"
| "handle p (token, Configure nonce1 nonce2 sg fp) = answered Done (serve (dp_order p)
     (without_task (update_config (dp_services p) (dp_secrets_key p) nonce1 nonce2 token sg fp)))"
| "handle p (token, Retry now i) = answered Item (serve (dp_order p)
     (retry_forward_route (dp_services p) (dp_has_queue p) now token i))"
| "handle p (token, Abandon now i) = answered Item (serve (dp_order p) (without_task (abandon_forward_route now token i)))"
| "handle p (token, Redrive now) = answered Redriven (serve (dp_order p)
     (without_task (redrive_forwards_route (dp_services p) now token)))"
| "handle p (token, Replay clk i url ih ib) = answered Replayed (route replay_clauses
     (bindA (replay_request (dp_services p) clk token i url ih ib) (\<lambda>r. ret (replay_response_of r))))"
| "handle p (token, Export now) = answered Exported (export_call p now token)"
| "handle p (token, Webhook env q) = answered Captured (serve (dp_order p) (route capture_clauses
     (capture_handler (dp_services p) env (dp_max_body p) (dp_has_queue p) (q\<lparr>hr_token := token\<rparr>))))"
| "handle p (token, Attempt clk i) = answered Attempted
     (execute_forward_job (dp_services p) (dp_secrets_key p) clk (uuid_str i))"

text \<open>
  What a call may name: cursors of its own listing, fresh identifiers no other endpoint has, and for an
  attempt a forward of the endpoint. Forwards to retry or abandon and requests to replay are free: with
  those of others the program deals itself.
\<close>

fun addressed :: "directory \<Rightarrow> string \<times> call \<Rightarrow> bool" where
  "addressed k (token, List_requests limit before q) = names_cursor k (home k token) before"
| "addressed k (token, List_fragment limit before q) = names_cursor k (home k token) before"
| "addressed k (token, List_forwards status limit before) = names_cursor k (home k token) before"
| "addressed k (token, Replay clk i url ih ib) = names k (home k token) (rc_id clk)"
| "addressed k (token, Webhook env q) \<longleftrightarrow>
     names k (home k token) (ce_request_id env) \<and> names k (home k token) (ce_forward_id env)"
| "addressed k (token, Attempt clk i) \<longleftrightarrow> home k token = Some (di_owner k i)"
| "addressed k c = True"

definition running :: "directory \<Rightarrow> world \<Rightarrow> bool" where
  "running k w \<longleftrightarrow> in_order k (w_db w) \<and> \<not> w_aborted w"

section \<open>Every call isolates\<close>

lemma isolated_answered: "isolated k E m \<Longrightarrow> isolated k E (answered tag m)"
  unfolding answered_def by (rule isolated_answer)

lemma isolated_task_route:
  assumes "isolated k E h"
  shows "isolated k E (serve ord (without_task h))"
proof (rule isolated_serve [OF isolated_without_task [OF assms]])
  show "isolated k E task" if "without_task h w = (Reply (a, task), v)" for w a task v
    using that by (auto simp: without_task_def isolated_pure split: prod.splits http.splits)
qed

lemma isolated_retry_route:
  assumes "home k token = E"
  shows "isolated k E (serve ord (retry_forward_route sv has_queue now token i))"
proof (rule isolated_serve)
  show "isolated k E (retry_forward_route sv has_queue now token i)"
    unfolding retry_forward_route_def by (intro isolation isolated_operations [OF assms])
  show "isolated k E task" if "retry_forward_route sv has_queue now token i w = (Reply (a, task), v)" for w a task v
    using that by (auto simp: retry_forward_route_def route_def bindA_Inr_iff isolated_task
        split: prod.splits sum.splits option.splits)
qed

lemma isolated_lists:
  assumes "home k token = E" and "names_cursor k E before"
  shows "isolated k E (list_requests_route sv token limit before q)"
    "isolated k E (list_requests_fragment sv render base token limit before q)"
    "isolated k E (list_forwards_route token status limit before)"
  unfolding list_requests_route_def list_requests_fragment_def list_forwards_route_def fetch_requests_or_raise_def Let_def
  by (intro isolation isolated_list_requests isolated_list_forwards assms)+

lemma isolated_pages_of:
  assumes "home k token = E"
  shows "isolated k E (list_integrations_route token)" "isolated k E (get_forward_stats_route token)"
    "isolated k E (viewer sv base now token)" "isolated k E (forwards_view token status)" "isolated k E (integrations_view token)"
proof -
  have first: "names_cursor k E None" by (simp add: names_cursor_def)
  show "isolated k E (list_integrations_route token)" "isolated k E (get_forward_stats_route token)"
    "isolated k E (viewer sv base now token)" "isolated k E (forwards_view token status)" "isolated k E (integrations_view token)"
    unfolding list_integrations_route_def get_forward_stats_route_def viewer_def forwards_view_def integrations_view_def Let_def
    by (intro isolation isolated_reads isolated_list_requests isolated_list_forwards assms first)+
qed

lemma export_rows_cong:
  "(\<And>r. r \<in> set rs \<Longrightarrow> resolve_body get r = resolve_body get' r) \<Longrightarrow> export_rows get first rs = export_rows get' first rs"
proof (induction rs arbitrary: first)
  case (Cons r rs)
  then have "resolve_body get r = resolve_body get' r" "\<And>first. export_rows get first rs = export_rows get' first rs" by simp_all
  then show ?case by (simp only: export_rows.simps)
qed simp

lemma isolated_export:
  assumes "home k token = E"
  shows "isolated k E (export_call p now token)"
proof (rule isolatedI)
  fix w1 w2
  assume w: "same_world k E w1 w2"
  then have o: "in_order k (w_db w1)" "in_order k (w_db w2)" by (simp_all add: same_world_def same_rows_def)
  let ?get = "\<lambda>w key. fst (blob_get (dp_services p) key w)"
  have found: "find_by_token token (w_db w1) = find_by_token token (w_db w2)"
    using isolated_same [OF isolated_find [OF assms] w] by (simp add: read_db_def)
  have "export_requests (?get w1) n now token (w_db w1) (w_db w1) = export_requests (?get w2) n now token (w_db w2) (w_db w2)" for n
  proof (cases "find_by_token token (w_db w2)")
    case None
    then show ?thesis by (simp add: export_requests_def found)
  next
    case (Some e)
    have e: "Some (ep_id e) = E" using find_home [OF o(2), of token] Some assms by simp
    have count: "count_by_endpoint (ep_id e) (w_db w1) = count_by_endpoint (ep_id e) (w_db w2)"
      using isolated_same [OF isolated_listings(6) [OF e] w] by (simp add: read_db_def)
    have rows: "stream_for_export (ep_id e) n (w_db w1) = stream_for_export (ep_id e) n (w_db w2)"
      using isolated_same [OF isolated_listings(5) [OF e] w] by (simp add: read_db_def)
    have "resolve_body (?get w1) r = resolve_body (?get w2) r" if r: "r \<in> set (stream_for_export (ep_id e) n (w_db w2))" for r
    proof -
      have "r \<in> set (db_requests (w_db w2))" "rq_endpoint_id r = ep_id e"
        using r by (auto simp: stream_for_export_def dest!: in_set_takeD)
      then have "blob_named r" "Some (rq_endpoint_id r) = E" using in_orderD(2) [OF o(2)] e by auto
      then have "?get w1 key = ?get w2 key" if "rq_blob_key r = Some key" for key
        using isolated_same [OF isolated_blob_get w] that by (simp add: blob_named_def)
      then show ?thesis by (auto simp: resolve_body_def split: option.split)
    qed
    then have "export_rows (?get w1) True (stream_for_export (ep_id e) n (w_db w2)) =
        export_rows (?get w2) True (stream_for_export (ep_id e) n (w_db w2))" by (rule export_rows_cong)
    then show ?thesis by (simp add: export_requests_def found Some count export_stream_def rows Let_def)
  qed
  then show "fst (export_call p now token w1) = fst (export_call p now token w2) \<and>
      same_world k E (snd (export_call p now token w1)) (snd (export_call p now token w2))"
    using w by (simp add: export_call_def export_endpoint_def)
qed (simp add: export_call_def same_rows_refl)

lemma isolated_handle:
  assumes "addressed k c"
  shows "isolated k (home k (fst c)) (handle p c)"
proof -
  obtain token x where c: "c = (token, x)" by (cases c)
  have good: "addressed k (token, x)" using assms c by simp
  have "isolated k (home k token) (handle p (token, x))"
  proof (cases x)
    case (Attempt clk i)
    then have "Some (di_owner k i) = home k token" using good by simp
    then show ?thesis unfolding Attempt by (simp only: handle.simps) (intro isolated_answered isolated_execute)
  next
    case (Webhook env q)
    show ?thesis
      unfolding Webhook by (simp only: handle.simps) (intro isolated_answered isolated_capture; use good Webhook in simp)
  next
    case (Replay clk i url ih ib)
    show ?thesis
      unfolding Replay by (simp only: handle.simps) (intro isolated_answered isolation isolated_replay; use good Replay in simp)
  next
    case (Retry now i)
    show ?thesis unfolding Retry by (simp only: handle.simps) (intro isolated_answered isolated_retry_route refl)
  next
    case (Abandon now i)
    show ?thesis
      unfolding Abandon handle.simps abandon_forward_route_def
      by (intro isolated_answered isolated_task_route isolation isolated_operations refl)
  next
    case (Redrive now)
    show ?thesis
      unfolding Redrive handle.simps redrive_forwards_route_def
      by (intro isolated_answered isolated_task_route isolation isolated_redrive refl)
  next
    case (Configure n1 n2 sg fp)
    show ?thesis
      unfolding Configure handle.simps update_config_def
      by (intro isolated_answered isolated_task_route isolation isolated_configure refl)
  qed (use good in \<open>simp_all only: handle.simps addressed.simps, (intro isolated_answered isolated_lists isolated_pages_of isolated_export; simp)+\<close>)
  then show ?thesis by (simp add: c)
qed

section \<open>No call leaves its transaction open\<close>

definition closes :: "(world \<Rightarrow> 'a \<times> world) \<Rightarrow> bool" where
  "closes m \<longleftrightarrow> (\<forall>w. \<not> w_aborted w \<longrightarrow> \<not> w_aborted (snd (m w)))"

lemma closes_same: "(\<And>w. w_aborted (snd (m w)) = w_aborted w) \<Longrightarrow> closes m"
  by (simp add: closes_def)

lemma closes_pure:
  "closes (ret a)" "closes (fail e)" "closes (lift_res r)" "closes (emit x)" "closes (read_db f)" "closes (arq_enqueue sv i s)"
  "closes (make_send sv m v hs b)" "closes (enqueue_task has_queue sv i)"
  by (rule closes_same; auto simp: read_db_def arq_enqueue_eq make_send_def send_target_def Let_def enqueue_task_frame
      split: option.splits sum.splits prod.splits)+

lemma closes_session: "closes (with_session m)"
  by (simp add: closes_def with_session_not_aborted)

lemma closes_bind: "closes m \<Longrightarrow> (\<And>a. closes (f a)) \<Longrightarrow> closes (bindA m f)"
  unfolding closes_def bindA_def by (auto split: prod.split sum.split)

lemma closes_catch: "closes m \<Longrightarrow> (\<And>e. closes (h e)) \<Longrightarrow> closes (catchA m h)"
  unfolding closes_def catchA_def by (auto split: prod.split sum.split)

lemma closes_route: "closes m \<Longrightarrow> closes (route c m)"
  by (simp add: closes_def route_eq)

lemma closes_with_limit: "(\<And>n. closes (h n)) \<Longrightarrow> closes (with_limit limit h)"
  by (simp add: closes_def with_limit_def Let_def)

lemma closes_case_option: "closes n \<Longrightarrow> (\<And>x. closes (f x)) \<Longrightarrow> closes (case v of None \<Rightarrow> n | Some x \<Rightarrow> f x)"
  by (cases v) simp_all

lemma closes_case_prod: "(\<And>x y. closes (f x y)) \<Longrightarrow> closes (case v of (x, y) \<Rightarrow> f x y)"
  by (cases v) simp

lemma closes_if: "closes a \<Longrightarrow> closes b \<Longrightarrow> closes (if c then a else b)"
  by simp

lemmas closes_rules = closes_bind closes_catch closes_route closes_with_limit closes_case_option closes_case_prod closes_if
  closes_session closes_pure

lemma closes_serve:
  assumes "\<And>w a task v. h w = (Reply (a, task), v) \<Longrightarrow> closes task"
  shows "closes (serve ord h)"
proof -
  have "\<not> w_aborted (snd (task v))" if "h w = (Reply (a, task), v)" "\<not> w_aborted v" for w a task v
    using assms [OF that(1)] that(2) by (simp add: closes_def)
  then show ?thesis
    by (auto simp: closes_def serve_def close_request_def Let_def rolled_back_def split: prod.splits http.splits exit_order.splits)
qed

lemma closes_without_task: "closes (serve ord (without_task h))"
  by (rule closes_serve) (auto simp: without_task_def closes_pure split: prod.splits http.splits)

lemma closes_load: "closes (load_body sv c)"
  by (rule closes_same) (simp add: load_body_world [of sv c, OF prod.collapse [symmetric]])

lemma closes_handle: "closes (handle p c)"
proof -
  obtain token x where c: "c = (token, x)" by (cases c)
  have answered: "closes (answered tag m)" if "closes m" for tag and m :: "world \<Rightarrow> 'r \<times> world"
    using that by (simp add: closes_def answered_def)
  have handled: "closes (http_handler e)" for e by (cases e) (simp_all only: http_handler.simps closes_pure)
  have rep: "closes (conclude_replay r label)" for r label
    unfolding conclude_replay_def replay_record_phase_def by (intro closes_rules)
  have attempt: "closes (replay_attempt sv clk i url v m hs b)" for sv clk i url v m hs b
  proof -
    have "closes (case e of HttpRequestFailedError m \<Rightarrow>
            ret (replay_failure (rc_id clk) i url m (rc_duration_ms clk) (rc_now clk), ''network_error'')
        | _ \<Rightarrow> fail e)" for e
      by (cases e) (simp_all only: exn.case closes_pure)
    then show ?thesis unfolding replay_attempt_def by (intro closes_rules)
  qed
  have replay: "closes (replay_request sv clk t i url ih ib)" for sv clk t i url ih ib
  proof -
    have verdict: "closes (case v of Inl (SsrfBlockedError m) \<Rightarrow> conclude_replay (g m) l | Inl e \<Rightarrow> fail e | Inr x \<Rightarrow> f x)"
      if "\<And>x. closes (f x)" for v g l f
      using that rep by (cases v; (cases "projl v")?; simp add: closes_pure)
    show ?thesis
      unfolding replay_request_def authorize_phase_def Let_def
      by (intro closes_bind closes_session closes_if closes_pure verdict attempt rep closes_case_prod)
  qed
  have job: "closes (execute_forward_job sv key clk i)" for sv key clk i
    unfolding execute_forward_job_def execute_forward_def claim_phase_def http_phase_def finish_forward_def record_phase_def Let_def
    by (intro closes_rules handled)
  have retry: "closes (serve ord (retry_forward_route sv has_queue now t i))" for ord sv has_queue now t i
    by (rule closes_serve) (auto simp: retry_forward_route_def route_def bindA_Inr_iff closes_pure
        split: prod.splits sum.splits option.splits)
  have webhook: "closes (serve ord (route capture_clauses (capture_handler sv env n has_queue q)))" for ord sv env n has_queue q
    by (rule closes_serve) (auto simp: route_def capture_handler_def bindA_Inr_iff closes_pure
        split: prod.splits sum.splits option.splits)
  have export: "closes (export_call p now t)" for now t
    by (rule closes_same) (simp add: export_call_def)
  have "closes (handle p (token, x))"
    by (cases x; simp only: handle.simps; rule answered;
        (unfold list_requests_route_def list_requests_fragment_def list_integrations_route_def list_forwards_route_def
           get_forward_stats_route_def viewer_def forwards_view_def integrations_view_def fetch_requests_or_raise_def
           list_requests_def list_forwards_def list_integrations_def get_forward_stats_def get_endpoint_def Let_def)?;
        intro retry webhook closes_without_task export job replay closes_rules)
  then show ?thesis by (simp add: c)
qed

section \<open>Noninterference\<close>

lemma home_inject:
  assumes "in_order k d" and "home k t = Some i" and "home k u = Some i"
  shows "t = u"
proof -
  have "map snd (di_endpoints k) = map ep_id (db_endpoints d)"
    using assms(1) by (auto simp: in_order_def comp_def dest!: arg_cong [of _ "di_endpoints k" "map snd"])
  moreover have "distinct (map ep_id (db_endpoints d))" using assms(1) by (simp add: in_order_def db_ok_defs key_ok_def)
  ultimately have "distinct (map snd (di_endpoints k))" by simp
  then show ?thesis
    using eq_key_imp_eq_value [of "map (\<lambda>(x, y). (y, x)) (di_endpoints k)" i t u] assms(2,3)
    by (force simp: home_def comp_def case_prod_beta dest!: map_of_SomeD)
qed

interpretation owners: unwinding "handle p" fst "\<lambda>u. same_world k (home k u)" "addressed k" "running k" for p k
proof
  fix u s t v
  show "same_world k (home k u) s t \<Longrightarrow> same_world k (home k u) t s"
    by (simp add: same_world_def same_rows_sym)
  show "same_world k (home k u) s t \<Longrightarrow> same_world k (home k u) t v \<Longrightarrow> same_world k (home k u) s v"
    unfolding same_world_def using same_rows_trans by metis
next
  fix a s
  assume "addressed k a" "running k s"
  then show "running k (snd (handle p a s))"
    using isolated_in_order [OF isolated_handle] closes_handle [of p a] by (auto simp: running_def closes_def)
next
  fix a s t
  assume "addressed k a" "same_world k (home k (fst a)) s t"
  then show "fst (handle p a s) = fst (handle p a t) \<and> same_world k (home k (fst a)) (snd (handle p a s)) (snd (handle p a t))"
    by (intro isolated_same [OF isolated_handle])
next
  fix a s u
  assume a: "addressed k a" "running k s" "fst a \<noteq> u"
  have o: "in_order k (w_db s)" "\<not> w_aborted s" "\<not> w_aborted (snd (handle p a s))"
    using a(2) closes_handle [of p a] by (simp_all add: running_def closes_def)
  have "same_rows k (home k u) s (snd (handle p a s))"
  proof (cases "home k u = home k (fst a)")
    case False
    then show ?thesis by (rule isolated_other [OF isolated_handle [OF a(1)] _ o(1)])
  next
    case True
    have "home k u = None"
    proof (cases "home k u")
      case (Some i)
      then show ?thesis using home_inject [OF o(1), of "fst a" i u] True a(3) by simp
    qed
    then show ?thesis using no_home_same o(1) isolated_in_order [OF isolated_handle [OF a(1)] o(1)] by simp
  qed
  then show "same_world k (home k u) s (snd (handle p a s))" using o by (simp add: same_world_def)
qed

text \<open>
  C7. Owners do not interfere. Take any run of calls for the endpoints: lists, pages, counts, exports,
  configurations, retries, abandonments, redrives, replays, incoming webhooks and delivery attempts, in any
  order, where cursors and fresh identifiers are the caller's own. Then what one owner is answered,
  and the rows of that endpoint at the end, are what they would be had nobody else called: no call reads or
  changes anything of another endpoint.
\<close>

theorem owners_do_not_interfere:
  assumes "running k w" and "list_all (addressed k) calls"
  shows "answers_to fst token (fst (run_calls (handle p) calls w)) =
      map snd (fst (run_calls (handle p) (calls_of fst token calls) w)) \<and>
    own_rows k (home k token) (w_db (snd (run_calls (handle p) calls w))) =
      own_rows k (home k token) (w_db (snd (run_calls (handle p) (calls_of fst token calls) w)))"
proof -
  have "same_world k (home k token) w w" using assms(1) by (simp add: running_def same_world_def same_rows_refl)
  from owners.purge [OF assms(2,1,1) this] show ?thesis by (simp add: same_world_def same_rows_def)
qed

section \<open>The cursor\<close>

text \<open>A page behind a cursor differs from the first page when it leaves out one of its rows.\<close>

lemma page_behind:
  "keyset_page ts rid n (Some c) rows = take n (filter (\<lambda>r. (ts r, rid r) < (ts c, rid c)) (newest_first ts rid rows))"
  by (simp add: keyset_page_def after_cursor_Some newest_first_filter)

lemma page_shifted:
  assumes "sorted_wrt (\<lambda>a b. key b < (key a :: 'k :: linorder)) rows"
  shows "take n rows \<noteq> take n (filter (\<lambda>r. key r < c) rows) \<longleftrightarrow> (\<exists>r \<in> set (take n rows). \<not> key r < c)"
proof (intro iffI)
  let ?old = "filter (\<lambda>r. key r < c)"
  assume differ: "take n rows \<noteq> take n (?old rows)"
  show "\<exists>r \<in> set (take n rows). \<not> key r < c"
  proof (rule ccontr)
    assume "\<not> ?thesis"
    then have "?old (take n rows) = take n rows" by (simp add: filter_id_conv)
    then have "?old rows = take n rows @ ?old (drop n rows)" by (metis append_take_drop_id filter_append)
    then have "take n (?old rows) = take n rows" by (cases "n \<le> length rows") (simp_all add: min_absorb2)
    with differ show False by simp
  qed
next
  assume "\<exists>r \<in> set (take n rows). \<not> key r < c"
  then obtain r where r: "r \<in> set (take n rows)" "\<not> key r < c" by blast
  then obtain x xs where rows: "rows = x # xs" by (cases rows) auto
  have n: "0 < n" using r(1) by (cases n) auto
  have "key r \<le> key x" using assms in_set_takeD [OF r(1)] unfolding rows by (auto intro: less_imp_le)
  then have "x \<notin> set (filter (\<lambda>r. key r < c) rows)" using r(2) by auto
  then have "x \<notin> set (take n (filter (\<lambda>r. key r < c) rows))" by (meson in_set_takeD)
  moreover have "x \<in> set (take n rows)" using n rows by (cases n) simp_all
  ultimately show "take n rows \<noteq> take n (filter (\<lambda>r. key r < c) rows)" by metis
qed

lemma lookup_absent: "k \<notin> key ` set rows \<Longrightarrow> lookup_row key k rows = None"
  by (auto simp: lookup_row_def filter_empty_conv)

text \<open>A row that only one of two worlds has, which agree on what belongs to an endpoint, is not one of its rows.\<close>

lemma not_owned:
  assumes "same_world k E v w" and "E = Some i"
  shows "c \<in> set (db_requests (w_db w)) \<Longrightarrow> rq_id c \<notin> rq_id ` set (db_requests (w_db v)) \<Longrightarrow> rq_endpoint_id c \<noteq> i"
    "g \<in> set (db_forwards (w_db w)) \<Longrightarrow> fw_id g \<notin> fw_id ` set (db_forwards (w_db v)) \<Longrightarrow> fw_endpoint_id g \<noteq> i"
proof -
  have own: "own_rows k E (w_db v) = own_rows k E (w_db w)" using assms(1) by (simp add: same_world_def same_rows_def)
  have "c \<in> set (db_requests (own_rows k E (w_db w)))" if "c \<in> set (db_requests (w_db w))" "rq_endpoint_id c = i"
    using that assms(2) by simp
  then show "c \<in> set (db_requests (w_db w)) \<Longrightarrow> rq_id c \<notin> rq_id ` set (db_requests (w_db v)) \<Longrightarrow> rq_endpoint_id c \<noteq> i"
    unfolding own [symmetric] by auto
  have "g \<in> set (db_forwards (own_rows k E (w_db w)))" if "g \<in> set (db_forwards (w_db w))" "fw_endpoint_id g = i"
    using that assms(2) by simp
  then show "g \<in> set (db_forwards (w_db w)) \<Longrightarrow> fw_id g \<notin> fw_id ` set (db_forwards (w_db v)) \<Longrightarrow> fw_endpoint_id g \<noteq> i"
    unfolding own [symmetric] by auto
qed

text \<open>
  C17. The condition on cursors is needed: the listings look the row of \<open>before_id\<close> up by its identifier in
  the whole table. Take two worlds in which all that belongs to the owner of a token is the same, and a
  request and a forward that only the second one has (they are of others, then). Asked with the identifier
  of that row, the second world answers the owner's own rows strictly older than the row, the first one
  the first page; so the answers differ exactly when the first page shows a row that is not older. The
  owner of one endpoint can read off that a row of another exists, and when it came in. Both the requests
  and the forwards are listed that way.
\<close>

theorem foreign_cursor_is_followed:
  assumes "same_world k (home k token) v w" and "find_by_token token (w_db w) = Some e"
    and "c \<in> set (db_requests (w_db w))" and "rq_id c \<notin> rq_id ` set (db_requests (w_db v))"
    and "g \<in> set (db_forwards (w_db w))" and "fw_id g \<notin> fw_id ` set (db_forwards (w_db v))"
  shows "rq_endpoint_id c \<noteq> ep_id e \<and> fw_endpoint_id g \<noteq> ep_id e \<and>
    fst (list_requests sv token n (Some (rq_id c)) q w) = Inr (take n
      (filter (\<lambda>r. (rq_received_at r, rq_id r) < (rq_received_at c, rq_id c)) (request_rows sv (ep_id e) q (w_db w)))) \<and>
    fst (list_requests sv token n (Some (rq_id c)) q v) = Inr (take n (request_rows sv (ep_id e) q (w_db w))) \<and>
    (fst (list_requests sv token n (Some (rq_id c)) q v) \<noteq> fst (list_requests sv token n (Some (rq_id c)) q w) \<longleftrightarrow>
      (\<exists>r \<in> set (take n (request_rows sv (ep_id e) q (w_db w))). \<not> (rq_received_at r, rq_id r) < (rq_received_at c, rq_id c))) \<and>
    fst (list_forwards token ss n (Some (fw_id g)) w) = Inr (take n
      (filter (\<lambda>f. (fw_created_at f, fw_id f) < (fw_created_at g, fw_id g)) (forward_rows (ep_id e) ss (w_db w)))) \<and>
    fst (list_forwards token ss n (Some (fw_id g)) v) = Inr (take n (forward_rows (ep_id e) ss (w_db w))) \<and>
    (fst (list_forwards token ss n (Some (fw_id g)) v) \<noteq> fst (list_forwards token ss n (Some (fw_id g)) w) \<longleftrightarrow>
      (\<exists>f \<in> set (take n (forward_rows (ep_id e) ss (w_db w))). \<not> (fw_created_at f, fw_id f) < (fw_created_at g, fw_id g)))"
proof -
  have order: "in_order k (w_db w)" using assms(1) by (simp add: same_world_def same_rows_def)
  have keys: "key_ok rq_id (db_requests (w_db w))" "key_ok fw_id (db_forwards (w_db w))"
    using in_orderD(1) [OF order] by (simp_all add: db_ok_defs)
  have found: "find_by_token token (w_db v) = Some e"
    using isolated_same [OF isolated_find assms(1)] assms(2) by (simp add: read_db_def)
  have home: "home k token = Some (ep_id e)" using find_home [OF order, of token] assms(2) by simp
  have first: "names_cursor k (home k token) None" by (simp add: names_cursor_def)
  have same: "fst (list_requests sv token n None q v) = fst (list_requests sv token n None q w)"
    "fst (list_forwards token ss n None v) = fst (list_forwards token ss n None w)"
    using isolated_same [OF isolated_list_requests [OF refl first] assms(1)] isolated_same [OF isolated_list_forwards [OF refl first] assms(1)]
    by simp_all
  have in_v: "fst (list_requests sv token n (Some (rq_id c)) q v) = Inr (take n (request_rows sv (ep_id e) q (w_db w)))"
    "fst (list_forwards token ss n (Some (fw_id g)) v) = Inr (take n (forward_rows (ep_id e) ss (w_db w)))"
    using same lookup_absent [OF assms(4)] lookup_absent [OF assms(6)]
    by (simp_all add: list_requests_def list_forwards_def bindA_def read_db_def found assms(2) request_page_first forward_page_first
        request_list_by_endpoint_def forward_list_by_endpoint_def Let_def flip: request_page_first forward_page_first)
  have in_w: "fst (list_requests sv token n (Some (rq_id c)) q w) = Inr (take n
      (filter (\<lambda>r. (rq_received_at r, rq_id r) < (rq_received_at c, rq_id c)) (request_rows sv (ep_id e) q (w_db w))))"
    "fst (list_forwards token ss n (Some (fw_id g)) w) = Inr (take n
      (filter (\<lambda>f. (fw_created_at f, fw_id f) < (fw_created_at g, fw_id g)) (forward_rows (ep_id e) ss (w_db w))))"
    using lookup_row_unique [OF keys(1) assms(3)] lookup_row_unique [OF keys(2) assms(5)]
    by (simp_all add: list_requests_def list_forwards_def bindA_def read_db_def assms(2) request_list_by_endpoint_def
        forward_list_by_endpoint_def Let_def page_behind request_rows_def forward_rows_def)
  have sorted: "sorted_wrt (\<lambda>a b. (rq_received_at b, rq_id b) < (rq_received_at a, rq_id a)) (request_rows sv (ep_id e) q (w_db w))"
    "sorted_wrt (\<lambda>a b. (fw_created_at b, fw_id b) < (fw_created_at a, fw_id a)) (forward_rows (ep_id e) ss (w_db w))"
    unfolding request_rows_def forward_rows_def by (intro sorted_wrt_newest_first key_ok_filter keys)+
  have "rq_endpoint_id c \<noteq> ep_id e" "fw_endpoint_id g \<noteq> ep_id e"
    using not_owned [OF assms(1) home] assms(3-6) by blast+
  then show ?thesis
    unfolding in_v in_w sum.inject by (intro conjI refl page_shifted sorted)
qed

text \<open>
  Two endpoints: the first has a request at 10 and a forward at 11; in one of the worlds the second has
  them too, both at 5.
\<close>

definition other_endpoint :: endpoint where
  "other_endpoint = demo_endpoint\<lparr>ep_id := 5, ep_token := ''foe'', ep_forward_url := None\<rparr>"

definition other_request :: captured_request where
  "other_request = replay_demo_request\<lparr>rq_id := 6, rq_endpoint_id := 5, rq_received_at := 5\<rparr>"

definition other_forward :: forward where
  "other_forward = forward_create 7 6 5 ''https://example.com/hook'' 5"

definition two_db :: "captured_request list \<Rightarrow> forward list \<Rightarrow> db" where
  "two_db rs fs = empty_db\<lparr>db_endpoints := [demo_endpoint, other_endpoint], db_requests := replay_demo_request # rs,
     db_forwards := delivery_forward # fs\<rparr>"

definition two_owners :: directory where
  "two_owners = \<lparr>di_endpoints = [(''tok'', 1), (''foe'', 5)], di_owner = (\<lambda>i. if i = 6 \<or> i = 7 then 5 else 1)\<rparr>"

definition demo_deployment :: deployment where
  "demo_deployment = \<lparr>dp_services = demo_services, dp_secrets_key = [], dp_order = Commit_before_response,
     dp_has_queue = True, dp_base_url = ''http://localhost:8000/'', dp_max_body = 1000, dp_max_export = 100,
     dp_render = (\<lambda>r u. ri_path r)\<rparr>"

lemma two_db_in_order:
  "running two_owners (new_world (two_db [] []))" "running two_owners (new_world (two_db [other_request] [other_forward]))"
  by (auto simp: running_def in_order_def two_db_def two_owners_def other_endpoint_def other_request_def other_forward_def
      delivery_forward_def forward_create_def demo_endpoint_def replay_demo_request_def empty_db_def db_ok_defs key_ok_def
      flag_reason_check_def integration_check_def blob_named_def)

theorem foreign_cursor_is_followed_witness:
  "fst (list_requests demo_services ''tok'' 50 (Some 6) None (new_world (two_db [] []))) = Inr [replay_demo_request] \<and>
   fst (list_requests demo_services ''tok'' 50 (Some 6) None (new_world (two_db [other_request] [other_forward]))) = Inr [] \<and>
   fst (list_forwards ''tok'' None 50 (Some 7) (new_world (two_db [] []))) = Inr [delivery_forward] \<and>
   fst (list_forwards ''tok'' None 50 (Some 7) (new_world (two_db [other_request] [other_forward]))) = Inr []"
proof -
  let ?v = "new_world (two_db [] [])" and ?w = "new_world (two_db [other_request] [other_forward])"
  have home: "home two_owners ''tok'' = Some 1" by (simp add: home_def two_owners_def)
  have "own_rows two_owners (Some 1) (two_db [] []) = own_rows two_owners (Some 1) (two_db [other_request] [other_forward])"
    by (simp add: own_rows_def two_db_def other_request_def other_forward_def forward_create_def)
  then have same: "same_world two_owners (home two_owners ''tok'') ?v ?w"
    using two_db_in_order by (simp add: home same_world_def same_rows_def running_def own_blob_def new_world_def fun_eq_iff)
  have facts: "find_by_token ''tok'' (w_db ?w) = Some demo_endpoint" "other_request \<in> set (db_requests (w_db ?w))"
    "rq_id other_request \<notin> rq_id ` set (db_requests (w_db ?v))" "other_forward \<in> set (db_forwards (w_db ?w))"
    "fw_id other_forward \<notin> fw_id ` set (db_forwards (w_db ?v))"
    by (simp_all add: find_by_token_eq two_db_def demo_endpoint_def new_world_def other_request_def replay_demo_request_def
        other_forward_def delivery_forward_def forward_create_def)
  have rows: "request_rows demo_services (ep_id demo_endpoint) None (w_db ?w) = [replay_demo_request]"
    "forward_rows (ep_id demo_endpoint) None (w_db ?w) = [delivery_forward]"
    by (simp_all add: request_rows_def forward_rows_def two_db_def new_world_def newest_first_def status_filter_def demo_endpoint_def
        other_request_def replay_demo_request_def other_forward_def delivery_forward_def forward_create_def)
  from foreign_cursor_is_followed [OF same facts, where sv = demo_services and n = 50 and q = None and ss = None, unfolded rows]
  show ?thesis
    by (simp add: other_request_def replay_demo_request_def other_forward_def delivery_forward_def forward_create_def)
qed

theorem owners_do_not_interfere_witness:
  "answers_to fst ''tok'' (fst (run_calls (handle demo_deployment)
      [(''foe'', Redrive 100), (''tok'', Forward_stats), (''foe'', Abandon 50 9), (''tok'', Retry 60 9)] (new_world (two_db [other_request] [other_forward])))) =
    map snd (fst (run_calls (handle demo_deployment) [(''tok'', Forward_stats), (''tok'', Retry 60 9)] (new_world (two_db [other_request] [other_forward]))))"
  using owners_do_not_interfere [of two_owners "new_world (two_db [other_request] [other_forward])"
      "[(''foe'', Redrive 100), (''tok'', Forward_stats), (''foe'', Abandon 50 9), (''tok'', Retry 60 9)]" "''tok''" demo_deployment]
    two_db_in_order(2)
  by (simp del: handle.simps run_calls.simps)

end
