(* ===== verification/End_To_End.thy ===== *)
theory End_To_End
  imports Ingestor
begin

text \<open>
  A webhook from its arrival to its receiver: the capture route, its background task, the queue and the
  job of the worker, composed as the processes compose them.
\<close>

section \<open>The parts, put together\<close>

text \<open>The headers of a forward can be built when its secret, if there is one, decrypts.\<close>

lemma headers_built:
  assumes "\<not> falsy (ep_forward_secret (cs_endpoint st)) \<Longrightarrow>
      \<exists>s. decrypt_secret sv key (the (ep_forward_secret (cs_endpoint st))) = Inr s"
  shows "\<exists>hs. forward_headers_of sv key ts st = Inr hs"
  using assms by (auto simp: forward_headers_of_def Let_def)

section \<open>From the sender to the receiver\<close>

text \<open>What the worker finds once the session of a capture with a target has committed.\<close>

lemma captured_rows:
  assumes "db_ok (w_db w)" and "with_session (capture_request sv env inp) w = (Inr r, w0)"
    and "cr_endpoint r = e" and "ep_forward_url e = Some url" and "url \<noteq> []"
    and "ce_forward_id env \<notin> fw_id ` set (db_forwards (w_db w))"
  shows "db_ok (w_db w0)" "request_find_by_id (ce_request_id env) (w_db w0) = Some (cr_captured r)"
    "forward_find_by_id (ce_forward_id env) (w_db w0) =
       Some (forward_create (ce_forward_id env) (ce_request_id env) (ep_id e) url (ce_forward_now env))"
    "endpoint_find_by_id (ep_id e) (w_db w0) = Some (e\<lparr>ep_request_count := ep_request_count e + 1\<rparr>)"
    "rq_method (cr_captured r) = str_upper (ci_method inp)"
proof -
  note eff = capture_commits [OF assms(1,2)]
  show ok: "db_ok (w_db w0)" and "request_find_by_id (ce_request_id env) (w_db w0) = Some (cr_captured r)"
    using eff by simp_all
  show "forward_find_by_id (ce_forward_id env) (w_db w0) =
       Some (forward_create (ce_forward_id env) (ce_request_id env) (ep_id e) url (ce_forward_now env))"
    using eff assms(3-6) by (simp add: forward_find_by_id_eq lookup_row_append flip: lookup_row_None_image)
      (simp add: forward_create_def)
  show "endpoint_find_by_id (ep_id e) (w_db w0) = Some (e\<lparr>ep_request_count := ep_request_count e + 1\<rparr>)"
    using ok eff assms(3) lookup_row_unique [of ep_id "db_endpoints (w_db w0)" "e\<lparr>ep_request_count := ep_request_count e + 1\<rparr>"]
    by (auto simp: endpoint_find_by_id_eq db_ok_defs dest: find_by_token_SomeD)
  show "rq_method (cr_captured r) = str_upper (ci_method inp)"
    using assms(2) by (rule capture_requestE) (use captured_request_createD(3) stored_fields(4) in metis)
qed

text \<open>The first attempt on such rows, when the receiver answers 2xx.\<close>

lemma first_attempt_delivers:
  assumes "world_ok w" and "forward_find_by_id i (w_db w) = Some (forward_create i rid (ep_id e) url now)"
    and "endpoint_find_by_id (ep_id e) (w_db w) = Some e" and "request_find_by_id rid (w_db w) = Some c"
    and "load_body sv c w = (Inr b, w)" and "make_validate sv url = Inr v" and "sv_queue_fault sv = None"
    and "\<not> falsy (ep_forward_secret e) \<Longrightarrow> \<exists>s. decrypt_secret sv key (the (ep_forward_secret e)) = Inr s"
    and "\<And>ob. ob_url ob = url \<Longrightarrow> \<exists>hs chunks. sv_http sv ob = Inr (code, hs, chunks)"
    and "200 \<le> code" and "code < 300"
  shows "\<exists>w2 ob f. execute_forward_job sv key clk (uuid_str i) w = (Inr (), w2) \<and>
    w_sent w2 = w_sent w @ [ob] \<and> ob_url ob = url \<and> ob_method ob = rq_method c \<and> ob_body ob = b \<and>
    map_of (ob_headers ob) ''Idempotency-Key'' = Some (uuid_str i @ '':1'') \<and>
    forward_find_by_id i (w_db w2) = Some f \<and> fw_status f = Succeeded \<and>
    fw_final_status_code f = Some code \<and> fw_attempt_count f = 1 \<and> w_jobs w2 = w_jobs w"
proof -
  let ?g = "forward_create i rid (ep_id e) url now"
  let ?st = "\<lparr>cs_forward = set_claimed (fc_claim clk) ?g, cs_endpoint = e, cs_captured = c, cs_body = b\<rparr>"
  let ?f = "attempted_row clk (Answered code) ?g"
  have ids: "fw_endpoint_id ?g = ep_id e" "fw_request_id ?g = rid" "fw_status ?g = Pending"
    "fw_attempt_count ?g = 0" "fw_target_url ?g = url" "fw_id ?g = i"
    by (simp_all add: forward_create_def)
  obtain hs where hs: "forward_headers_of sv key (fc_unix clk) ?st = Inr hs"
    using headers_built [of ?st sv key "fc_unix clk"] assms(8) by auto
  have answer: "attempt_answer sv ?st hs = Inr (Answered code)"
    using assms(6) assms(9) [of "the_request ?st hs"] by (auto simp: ids the_request_def)
  have verdict: "attempt_verdict (fw_attempt_count ?g + 1) (Answered code) = (NSucceeded, 0)"
    using assms(10,11) by simp
  have sent: "attempt_sent sv ?st hs = [the_request ?st hs]" by (simp add: attempt_sent_def ids assms(6))
  obtain w2 where job: "execute_forward_job sv key clk (uuid_str i) w = (Inr (), w2)"
    "forward_find_by_id i (w_db w2) = Some ?f" "w_jobs w2 = w_jobs w" "w_sent w2 = w_sent w @ [the_request ?st hs]"
    using delivery_outcome [OF assms(1,2) _ _ _ _ assms(5) refl hs answer assms(7) verdict] assms(3,4) ids sent by auto
  have one: "str_int 1 = ''1''" by code_simp
  have key: "map_of hs ''Idempotency-Key'' = Some (uuid_str i @ '':1'')"
    using forward_headers_ofD(1) [OF hs] by (simp add: idempotency_key_def set_claimed_def ids one)
  have final: "fw_status ?f = Succeeded" "fw_final_status_code ?f = Some code" "fw_attempt_count ?f = 1"
    using verdict by (simp_all add: attempted_row_def ids)
  show ?thesis
    by (intro exI [of _ w2] exI [of _ "the_request ?st hs"] exI [of _ ?f])
      (use job key final in \<open>simp add: the_request_def ids\<close>)
qed

text \<open>
  C6. A webhook reaches its receiver, when nothing on the way fails. For a request within the limits to an
  endpoint with a forward URL, which the capture can take (\<open>acceptable\<close>) and whose body, if it is kept
  inline, is UTF-8: the sender gets the configured answer and one job is scheduled, if the queue works and arq
  holds none of that identifier. If then that job runs after the session has committed, blob storage works, the
  guard admits the URL, the forward secret, if there is one, decrypts and the receiver answers 2xx, it sends
  exactly one request: the method and body that came in, byte for byte, to the configured URL, under the
  idempotency key of a first attempt; and the forward ends up succeeded with that code after one attempt,
  with nothing more scheduled.
\<close>

theorem webhook_is_delivered:
  assumes "world_ok w" and "declared_size q = Inr n" and "\<not> oversized m q"
    and "find_by_token (hr_token q) (w_db w) = Some e" and "ep_forward_url e = Some url" and "url \<noteq> []"
    and "inp = capture_input_of q (concat (hr_chunks q))" and "acceptable sv env e inp (w_db w)"
    and "ce_inline_threshold env < length (ci_body inp) \<or> utf8_valid (ci_body inp)"
    and "sv_queue_fault sv = None" and "\<not> held sv (ce_forward_id env) 0" and "sv_blob_fault sv = None"
    and "make_validate sv url = Inr v"
    and "falsy (ep_forward_secret e) \<or> (\<exists>s. decrypt_secret sv key (the (ep_forward_secret e)) = Inr s)"
    and "\<And>ob. ob_url ob = url \<Longrightarrow> \<exists>hs chunks. sv_http sv ob = Inr (code, hs, chunks)"
    and "200 \<le> code" and "code < 300"
  shows "\<exists>w1 w2 ob f.
    serve ord (route capture_clauses (capture_handler sv env m True q)) w = (Reply (configured_response e), w1) \<and>
    w_jobs w1 = w_jobs w @ [the_job (ce_forward_id env) 0] \<and>
    execute_forward_job sv key clk (job_arg (the_job (ce_forward_id env) 0)) w1 = (Inr (), w2) \<and>
    w_sent w2 = w_sent w1 @ [ob] \<and> ob_url ob = url \<and> ob_method ob = str_upper (hr_method q) \<and>
    ob_body ob = concat (hr_chunks q) \<and>
    map_of (ob_headers ob) ''Idempotency-Key'' = Some (uuid_str (ce_forward_id env) @ '':1'') \<and>
    forward_find_by_id (ce_forward_id env) (w_db w2) = Some f \<and> fw_status f = Succeeded \<and>
    fw_final_status_code f = Some code \<and> fw_attempt_count f = 1 \<and> w_jobs w2 = w_jobs w1"
proof -
  let ?i = "ce_forward_id env"
  have ok: "db_ok (w_db w)" using assms(1) by (simp add: world_ok_def)
  have fresh: "?i \<notin> fw_id ` set (db_forwards (w_db w))" using assms(8) by (simp add: acceptable_def)
  obtain r w0 where cap: "with_session (capture_request sv env inp) w = (Inr r, w0)" "cr_endpoint r = e"
    "serve ord (route capture_clauses (capture_handler sv env m True q)) w = (Reply (configured_response e),
       snd ((case cr_pending_forward_id r of None \<Rightarrow> ret () | Some i \<Rightarrow> enqueue_task True sv i) w0))"
    by (rule accepted_capture [OF assms(1-4,7,8), of ord])
  let ?w1 = "w0\<lparr>w_jobs := w_jobs w @ [the_job ?i 0]\<rparr>"
  have "w_jobs w0 = w_jobs w" "cr_pending_forward_id r = Some ?i"
    using capture_pending_job [OF cap(1)] assms(5,6) by (simp_all add: cap(2))
  then have reply: "serve ord (route capture_clauses (capture_handler sv env m True q)) w = (Reply (configured_response e), ?w1)"
    using cap(3) enqueue_task_job [of True, OF TrueI assms(10)] assms(11) by simp
  let ?e = "e\<lparr>ep_request_count := ep_request_count e + 1\<rparr>"
  note rows = captured_rows [OF ok cap(1,2) assms(5,6) fresh]
  have inp: "ci_body inp = concat (hr_chunks q)" "ci_method inp = hr_method q"
    by (simp_all add: assms(7) capture_input_of_def)
  have w1: "world_ok ?w1" using rows(1) cap(1) by (auto simp: world_ok_def)
  obtain b where b: "load_body sv (cr_captured r) w0 = (Inr b, w0)" "b = ci_body inp"
    using stored_body_loads [OF cap(1) assms(12,12)] assms(9) by blast
  have body: "load_body sv (cr_captured r) ?w1 = (Inr b, ?w1)"
    using b(1) by (simp add: load_bodyD [OF assms(12)] cong: option.case_cong)
  have found: "forward_find_by_id ?i (w_db ?w1) = Some (forward_create ?i (ce_request_id env) (ep_id ?e) url (ce_forward_now env))"
    "endpoint_find_by_id (ep_id ?e) (w_db ?w1) = Some ?e" "request_find_by_id (ce_request_id env) (w_db ?w1) = Some (cr_captured r)"
    using rows by simp_all
  have secret: "\<exists>s. decrypt_secret sv key (the (ep_forward_secret ?e)) = Inr s" if "\<not> falsy (ep_forward_secret ?e)"
    using that assms(14) by simp
  from first_attempt_delivers [OF w1 found body assms(13,10) secret assms(15,16,17), of clk]
  show ?thesis using reply rows(5) b(2) inp by (auto simp: the_job_def)
qed

theorem webhook_is_delivered_witness:
  "\<exists>w1 w2 ob. serve Commit_before_response
       (route capture_clauses (capture_handler demo_services demo_env 10 True demo_http)) (new_world demo_db) =
         (Reply (configured_response demo_endpoint), w1) \<and>
     execute_forward_job demo_services [] delivery_clock (uuid_str 3) w1 = (Inr (), w2) \<and>
     w_sent w2 = w_sent w1 @ [ob] \<and> ob_url ob = ''https://example.com/hook'' \<and> ob_body ob = ''hello'' \<and>
     (\<exists>f. forward_find_by_id 3 (w_db w2) = Some f \<and> fw_status f = Succeeded)"
proof -
  let ?inp = "capture_input_of demo_http (concat (hr_chunks demo_http))"
  have url: "ep_forward_url demo_endpoint = Some ''https://example.com/hook''" by (simp add: demo_endpoint_def)
  have a: "acceptable demo_services demo_env demo_endpoint ?inp (w_db (new_world demo_db))" by (simp add: demo_acceptable)
  have body: "ce_inline_threshold demo_env < length (ci_body ?inp) \<or> utf8_valid (ci_body ?inp)"
    by (simp add: demo_env_def capture_input_of_def demo_http_def)
  have guard: "make_validate demo_services ''https://example.com/hook'' =
      Inr \<lparr>vt_url = ''https://example.com/hook'', vt_host = ''example.com'', vt_port = 443, vt_ip = ''93.184.216.34''\<rparr>"
    by code_simp
  have secret: "falsy (ep_forward_secret demo_endpoint) \<or>
      (\<exists>s. decrypt_secret demo_services [] (the (ep_forward_secret demo_endpoint)) = Inr s)"
    by (simp add: demo_endpoint_def)
  have answer: "\<exists>hs chunks. sv_http demo_services ob = Inr (200, hs, chunks)" for ob
    by (simp add: demo_services_def)
  have id: "ce_forward_id demo_env = 3" "concat (hr_chunks demo_http) = ''hello''"
    by (simp_all add: demo_env_def demo_http_def)
  show ?thesis
    using webhook_is_delivered [OF demo_world_ok demo_http_size demo_fits demo_http_input url _ refl a body _ _ _ guard
        secret answer, of Commit_before_response delivery_clock]
    by (auto simp: id the_job_def)
qed

end
