(* ===== verification/Spec2Isabelle.thy ===== *)
theory Spec2Isabelle
  imports System_Runs Processes Run_Invariant Owners End_To_End
begin

text \<open>
  hooktrace captures the webhooks sent to an endpoint, shows them to the owner of its token, and
  delivers them to the endpoint's own URL. This development models the Python code under
  \<open>src/src/webhook_inspector\<close> and proves what makes it correct. File names below are relative to that
  directory.

  \<^bold>\<open>The program.\<close> Three processes share a PostgreSQL database, a blob storage and a Redis. The ingestor
  (\<open>web/ingestor\<close>) takes a webhook, checks its signature, detects its sender, stores it and plans a
  forward, whose job it enqueues. The worker (\<open>jobs/worker.py\<close>) claims a planned forward, sends it through
  the SSRF guard, records the outcome and, for a retryable one, enqueues the next job. The application
  (\<open>web/app\<close>) creates and configures endpoints, lists, exports and streams the captured requests, replays
  one to a URL, and lets the owner retry, abandon or redrive forwards. Beside them run the cleaner and
  the abuse scan.

  \<^bold>\<open>Foundations.\<close>
  \<^item> \<open>Prelude\<close>: the exceptions, results that are an exception or a value, Python dictionaries, SQL tables as
    lists of rows with the statements used on them; \<open>table_simps\<close> and \<open>dict_simps\<close> collect their rules.
  \<^item> \<open>Py_Strings\<close>, \<open>Codecs\<close>, \<open>Datetime\<close>: strings as UTF-8 bytes, splitting, hexadecimal, base64, decimal
    numbers, UUIDs as 128-bit words, \<open>isoformat\<close>; with their round trips.
  \<^item> \<open>Json\<close>, \<open>Json_Roundtrip\<close>: \<open>json.loads\<close> and \<open>json.dumps\<close>; what is written is read back.
  \<^item> \<open>Ip_Address\<close>: the part of \<open>ipaddress\<close> the guard uses, and the addresses it rejects as ranges of octets and
    of numbers.
  \<^item> \<open>World\<close>: database, blobs, queue, metrics and requests sent; actions with exceptions; \<open>with_session\<close>, the
    transaction around a use case. \<open>sv_\<close> fields of \<open>services\<close> stand for code outside the repository.

  \<^bold>\<open>Data and repositories.\<close>
  \<^item> \<open>Entities\<close> (\<open>domain/entities\<close>), \<open>Forward_Decision\<close> (\<open>forward_decision.py\<close>): the records and the retry
    policy, with the table of its decisions and the end of every chain of attempts.
  \<^item> \<open>Database\<close> (session, endpoint repository, cleaner): tables, keys, foreign keys, checks; \<open>db_ok\<close> is the
    invariant every statement keeps.
  \<^item> \<open>Forward_Repository\<close>, \<open>Request_Repository\<close>: one definition per statement. The locale \<open>forward_store\<close> states
    the contract of the port and is interpreted as \<open>pg\<close>; the use cases rest on it.
  \<^item> \<open>Pagination\<close>: the locale \<open>keyset_listing\<close>, interpreted for the forwards and for the requests.
  \<^item> \<open>Storage\<close> (\<open>infrastructure/storage\<close>): the locale \<open>blob_store\<close>, interpreted for the port of \<open>World\<close>, for the
    object stores and for the local directory.

  \<^bold>\<open>The schema.\<close> The program's tables come from twelve Alembic revisions.
  \<^item> \<open>Ddl\<close>: the statements they use, on a schema and on rows; \<open>conforms\<close> is what a schema promises of rows, and
    every statement that succeeds keeps it. \<open>Ddl_Safety\<close>: an executable check that a list of statements cannot
    fail on any conforming rows, what it leaves unchanged, and its soundness.
  \<^item> \<open>Migrations\<close> (\<open>migrations/versions\<close>, \<open>migrations/env.py\<close>, \<open>jobs/migrator.py\<close>): one list of steps per
    \<open>upgrade\<close> and \<open>downgrade\<close>, their run with its transaction, and the evaluation of the check over the chain.
  \<^item> \<open>Schema_History\<close>: upgrades succeed and lose nothing, downgrades lead back, and what a run leaves that dies
    midway. \<open>Schema_Types\<close> (\<open>infrastructure/database/models.py\<close>): the table classes fit the migrated schema, and
    the rows of a database conform to it exactly if \<open>db_ok\<close> holds.

  \<^bold>\<open>Capture.\<close>
  \<^item> \<open>Hmac_Validators\<close> (\<open>domain/services/hmac\<close>, \<open>infrastructure/crypto\<close>): the nine validators; the locale
    \<open>signature_scheme\<close> says that the verdict is VALID exactly for an offered signature that matches.
  \<^item> \<open>Body_Parsers\<close>, \<open>Integration_Detector\<close>: the bounded parsers and the sender.
  \<^item> \<open>Capture\<close> (\<open>capture_request.py\<close>): the use case step by step, what a commit leaves, when a capture
    succeeds, and when the body read back is the captured one.
  \<^item> \<open>Ingestor\<close> (\<open>web/ingestor/routes.py\<close>): token limit, body caps, answer and background task.

  \<^bold>\<open>Delivery.\<close>
  \<^item> \<open>Ssrf\<close> (\<open>safe_replay_target.py\<close>): \<open>urlsplit\<close>, the guard and the sending; the locale \<open>http_target\<close> is the
    contract of the port, interpreted on the guarded target.
  \<^item> \<open>Forwarding\<close> (\<open>execute_forward.py\<close>, job wrapper): the phases claim, send, record. \<open>Delivery\<close>: the
    specification of an attempt and the refinement of one execution to it.
  \<^item> \<open>Dlq\<close>: retry, abandon, redrive, counts and listings. \<open>Replaying\<close> (\<open>replay_request.py\<close>): the same for
    replays.
  \<^item> \<open>End_To_End\<close>: the capture route, its background task, the queue and the job composed: what comes in for an
    endpoint is what its receiver gets.
  \<^item> \<open>Lifecycle\<close>, \<open>System_Runs\<close>: the abstract lifecycle of forwards, and all processes interleaved at the
    transaction boundaries of the code, with crashes of attempts at any point. Every step of the system
    refines a step of the lifecycle or leaves the forwards alone; the invariants of runs - keys that
    differ, counts within the budget, the status diagram, no lost forward - are proved on the lifecycle.
  \<^item> \<open>Run_Invariant\<close>: what the rows of all tables keep over the runs of \<open>System_Runs\<close> beyond \<open>db_ok\<close>, and that
    therefore no read of an owner fails.

  \<^bold>\<open>The applications.\<close>
  \<^item> \<open>Endpoints\<close>: slugs, creation, configuration. \<open>Export\<close>: the streamed JSON document. \<open>Live_Stream\<close>: the
    notifier as a state machine refining a broadcast, and the framing of its events.
  \<^item> \<open>Rate_Limit\<close>: the Lua script on sorted sets against a reference that looks at the admitted calls, the
    middleware, and the limiter of a process over its requests.
  \<^item> \<open>Web\<close>, \<open>App_Routes\<close>: the transaction around a request, the exceptions each route turns into answers,
    the response models with the values they refuse, and which route a path reaches. \<open>Abuse_Scan\<close>: the daily
    scan.
  \<^item> \<open>Unwinding\<close>, \<open>Isolation\<close>, \<open>Owners\<close>: owners do not interfere. The locale \<open>unwinding\<close> proves for any
    machine whose calls have an owner, whose steps respect what an owner sees and leave the others' alone, that
    an owner is answered as if alone; \<open>isolated\<close> is that judgement for actions of the program, its rules are
    in \<open>isolation\<close>, and \<open>Owners\<close> interprets the locale on \<open>handle\<close>, the dispatcher of the routes and the job.
    Cursors and fresh identifiers have to be the caller's own; \<open>Owners\<close> shows what a foreign cursor gives away.
  \<^item> \<open>Startup\<close>, \<open>Processes\<close>: settings, the check of the secrets key, the lifespans and the worker's hooks, what
    they acquire and release, and what the dependencies hand to the use cases.
  \<^item> \<open>Telemetry\<close>: the adapter of the metrics port, the cleaner with its counters, the gauge of active endpoints
    and the counter of open streams, the OTLP headers and the fields of a log line; the number of time series
    of these instruments is bounded over runs of all operations.

  \<^bold>\<open>Bounds and fuel.\<close> The JSON reader has fuel \<open>2 * length + 1\<close>, enough since every second call consumes a
  character; the round trip is proved for all values, so no fuel runs out there. A client that follows
  cursors needs more steps than there are rows. Every other recursion is total. Identifiers are 128-bit
  words, addresses 32- and 128-bit words, times and counts unbounded integers: the columns for counts are
  32 bit and a count moves by one per attempt.

  \<^bold>\<open>Parameters.\<close> HMAC digests, AES-GCM and Ed25519, the name resolver, the HTTP client, the failures of the
  blob storage, of Redis and of the queue, the templates and PostgreSQL's parsing of addresses and of
  search queries are arguments. \<open>sv_queue_holds\<close> says which job identifiers arq still holds, queued or with a kept
  result: it drops a job of such an identifier, so a property that promises a job says so. Where a property needs something of them it is a hypothesis, such as
  that decryption inverts encryption. \<open>exit_order\<close> says whether the session commits before or after the
  response, which depends on the release of FastAPI; the properties say which order they need.

  \<^bold>\<open>Not modelled.\<close> Spans, the telemetry SDK and the processors of structlog, the rendering of templates (a page
  is its context, \<open>landing\<close> and \<open>tos_view\<close> have none), the Markdown package, providers that only call a
  constructor with the session, the parsing of settings by pydantic, the ranking of the search, the order of
  keys in JSONB columns, and the ranges of SQL's numeric types: they are calls of libraries or decide nothing
  that the model could check. Texts of endpoints, requests and replays that PostgreSQL cannot store are errors
  of their statements; text parameters of queries are assumed free of NUL characters, which the
  database driver refuses with an error. Sessions are transactions that take effect at once: two transactions
  overlap only where the code gives up its session. The calls of \<open>Owners\<close> leave out what concerns all
  endpoints at once (creation, the cleaner, the abuse scan), the event stream and the limits on the rate of calls.
\<close>

end
